(* ===== verification/Badvpn_Prelude.thy ===== *)
theory Badvpn_Prelude
  imports Main "HOL-Library.Word"
begin

unbundle bit_operations_syntax

text \<open>
  The vocabulary every theory of the development shares: names for the C types, the
  object representation of unsigned integers on the little-endian host the Android
  build targets (\<^verbatim>\<open>-DBADVPN_LITTLE_ENDIAN\<close> in \<^verbatim>\<open>Android.mk\<close>), \<^verbatim>\<open>memcpy\<close> into
  and out of a byte array, and the lemma collections the component proofs use.
\<close>

section \<open>C types\<close>

type_synonym byte = "8 word"
type_synonym u16 = "16 word"
type_synonym u32 = "32 word"
type_synonym u64 = "64 word"
type_synonym bytes = "byte list"

text \<open>
  A C \<^verbatim>\<open>int\<close> is a mathematical integer here; the limits below are the bounds the code
  tests against, and a property about overflow states them explicitly.
\<close>

definition INT_MAX :: int where
  "INT_MAX = 2147483647"

definition UINT16_MAX :: int where
  "UINT16_MAX = 65535"

definition SIZE_MAX :: int where
  "SIZE_MAX = 18446744073709551615"

text \<open>
  Conversion to \<^verbatim>\<open>size_t\<close> (64 bits) and to \<^verbatim>\<open>int\<close> (32 bits, two's complement) where the
  code converts implicitly between them.
\<close>

definition c_size :: "int \<Rightarrow> int" where
  "c_size x = x mod (SIZE_MAX + 1)"

definition c_int :: "int \<Rightarrow> int" where
  "c_int x = (x + (INT_MAX + 1)) mod (2 * (INT_MAX + 1)) - (INT_MAX + 1)"

lemma c_size_id: "0 \<le> x \<Longrightarrow> x \<le> SIZE_MAX \<Longrightarrow> c_size x = x"
  by (simp add: c_size_def SIZE_MAX_def)

lemma c_size_range: "0 \<le> c_size x" "c_size x \<le> SIZE_MAX"
  by (simp_all add: c_size_def SIZE_MAX_def pos_mod_bound [of _, THEN zless_imp_add1_zle, simplified])

lemma c_int_id: "- (INT_MAX + 1) \<le> x \<Longrightarrow> x \<le> INT_MAX \<Longrightarrow> c_int x = x"
  by (simp add: c_int_def INT_MAX_def)

text \<open>\<^verbatim>\<open>ASSERT(c)\<close> before a result: \<open>None\<close> is a failed assertion.\<close>

definition require :: "bool \<Rightarrow> 'a \<Rightarrow> 'a option" where
  "require c x = (if c then Some x else None)"

lemma require_eq_Some [simp]: "require c x = Some y \<longleftrightarrow> c \<and> x = y"
  by (simp add: require_def)

lemma require_eq_None [simp]: "require c x = None \<longleftrightarrow> \<not> c"
  by (simp add: require_def)

section \<open>Lemma collections\<close>

named_theorems mem_simps
  \<open>reading and writing byte arrays\<close>

named_theorems wire_simps
  \<open>widths and round trips of the integer encodings\<close>

named_theorems layout_defs
  \<open>the definitions of the packed struct layouts\<close>

section \<open>Byte arrays\<close>

text \<open>
  \<open>bslice xs i n\<close> is the \<open>n\<close> elements from offset \<open>i\<close>; \<open>memcpy xs i ys\<close> is the array
  after \<^verbatim>\<open>memcpy(xs + i, ys, length ys)\<close>. Both are used within the array's bounds.
\<close>

definition bslice :: "'a list \<Rightarrow> nat \<Rightarrow> nat \<Rightarrow> 'a list" where
  "bslice xs i n = take n (drop i xs)"

definition memcpy :: "'a list \<Rightarrow> nat \<Rightarrow> 'a list \<Rightarrow> 'a list" where
  "memcpy xs i ys = take i xs @ ys @ drop (i + length ys) xs"

lemma length_bslice [simp, mem_simps]: "i + n \<le> length xs \<Longrightarrow> length (bslice xs i n) = n"
  by (simp add: bslice_def)

lemma bslice_0 [simp, mem_simps]: "bslice xs i 0 = []"
  by (simp add: bslice_def)

lemma bslice_all [simp, mem_simps]: "bslice xs 0 (length xs) = xs"
  by (simp add: bslice_def)

lemma length_memcpy [simp, mem_simps]:
  "i + length ys \<le> length xs \<Longrightarrow> length (memcpy xs i ys) = length xs"
  by (simp add: memcpy_def)

lemma bslice_memcpy_same [simp, mem_simps]:
  "i + length ys \<le> length xs \<Longrightarrow> bslice (memcpy xs i ys) i (length ys) = ys"
  by (simp add: bslice_def memcpy_def)

lemma bslice_memcpy_before [mem_simps]:
  "j + n \<le> i \<Longrightarrow> i + length ys \<le> length xs \<Longrightarrow> bslice (memcpy xs i ys) j n = bslice xs j n"
  by (simp add: bslice_def memcpy_def drop_take)

lemma bslice_memcpy_after [mem_simps]:
  "i + length ys \<le> j \<Longrightarrow> i + length ys \<le> length xs \<Longrightarrow>
    bslice (memcpy xs i ys) j n = bslice xs j n"
  by (simp add: bslice_def memcpy_def)

lemma bslice_append_bslice:
  "bslice xs i (m + n) = bslice xs i m @ bslice xs (i + m) n"
  by (simp add: bslice_def take_add add.commute)

lemma bslice_bslice:
  "k + m \<le> n \<Longrightarrow> bslice (bslice xs i n) k m = bslice xs (i + k) m"
  by (simp add: bslice_def drop_take add.commute)

lemma nth_bslice: "k < n \<Longrightarrow> i + n \<le> length xs \<Longrightarrow> bslice xs i n ! k = xs ! (i + k)"
  by (simp add: bslice_def)

section \<open>Object representation of integers\<close>

text \<open>
  \<open>le_split n x\<close> lists the bytes \<^verbatim>\<open>*((uint8_t *)&x+0), ..., *((uint8_t *)&x+(n-1))\<close> of
  an integer object on the little-endian host, and \<open>le_join\<close> is the integer an object
  with the given bytes holds.
\<close>

fun le_split :: "nat \<Rightarrow> 'a::len word \<Rightarrow> bytes" where
  "le_split 0 x = []"
| "le_split (Suc n) x = ucast x # le_split n (drop_bit 8 x)"

fun le_join :: "bytes \<Rightarrow> 'a::len word" where
  "le_join [] = 0"
| "le_join (b # bs) = ucast b OR push_bit 8 (le_join bs)"

lemma length_le_split [simp, wire_simps]: "length (le_split n x) = n"
  by (induction n arbitrary: x) auto

lemma byte_bit_out: "8 \<le> n \<Longrightarrow> \<not> bit (a :: byte) n"
  by (auto dest: bit_imp_le_length)

lemma le_join_split: "le_join (le_split n x) = take_bit (8 * n) x"
proof (induction n arbitrary: x)
  case (Suc n)
  show ?case
    by (rule bit_word_eqI) (auto simp: Suc.IH bit_simps)
qed simp

lemma le_split_join:
  "8 * length bs \<le> LENGTH('a) \<Longrightarrow> le_split (length bs) (le_join bs :: 'a::len word) = bs"
proof (induction bs)
  case (Cons b bs)
  have 1: "ucast (le_join (b # bs) :: 'a word) = b"
    using Cons.prems by (auto intro!: bit_word_eqI simp: bit_simps dest: bit_imp_le_length)
  have bound: "\<not> bit (le_join bs :: 'a word) n" if "8 * length bs \<le> n" for n
    using that
  proof (induction bs arbitrary: n)
    case (Cons c cs)
    then show ?case by (auto simp: bit_simps byte_bit_out)
  qed simp
  have 2: "drop_bit 8 (le_join (b # bs) :: 'a word) = le_join bs"
  proof (rule bit_word_eqI)
    fix n
    have "bit (le_join bs :: 'a word) n \<Longrightarrow> 8 + n < LENGTH('a)"
      using bound [of n] Cons.prems by (cases "8 * length bs \<le> n") auto
    then show "bit (drop_bit 8 (le_join (b # bs) :: 'a word)) n = bit (le_join bs :: 'a word) n"
      by (auto simp: bit_simps byte_bit_out)
  qed
  from 1 2 Cons show ?case by simp
qed simp

abbreviation mem16 :: "u16 \<Rightarrow> bytes" where "mem16 \<equiv> le_split 2"
abbreviation mem32 :: "u32 \<Rightarrow> bytes" where "mem32 \<equiv> le_split 4"
abbreviation mem64 :: "u64 \<Rightarrow> bytes" where "mem64 \<equiv> le_split 8"
abbreviation unmem16 :: "bytes \<Rightarrow> u16" where "unmem16 b \<equiv> le_join (take 2 b)"
abbreviation unmem32 :: "bytes \<Rightarrow> u32" where "unmem32 b \<equiv> le_join (take 4 b)"
abbreviation unmem64 :: "bytes \<Rightarrow> u64" where "unmem64 b \<equiv> le_join (take 8 b)"

lemma unmem_mem [simp, wire_simps]:
  "le_join (le_split 2 x) = (x :: u16)"
  "le_join (le_split 4 y) = (y :: u32)"
  "le_join (le_split 8 z) = (z :: u64)"
  by (simp_all add: le_join_split take_bit_word_eq_self)

lemma mem_unmem [wire_simps]:
  "length b = 2 \<Longrightarrow> le_split 2 (le_join b :: u16) = b"
  "length b = 4 \<Longrightarrow> le_split 4 (le_join b :: u32) = b"
  "length b = 8 \<Longrightarrow> le_split 8 (le_join b :: u64) = b"
  using le_split_join [of b, where 'a = 16] le_split_join [of b, where 'a = 32]
    le_split_join [of b, where 'a = 64]
  by simp_all

end
