(* ===== verification/Byte_Order.thy ===== *)
theory Byte_Order
  imports Badvpn_Prelude
begin

text \<open>
  Byte order conversion (\<^verbatim>\<open>misc/byteorder.h\<close>) and the reading and writing of
  fixed-width integers (\<^verbatim>\<open>misc/read_write_int.h\<close>). A reader takes the bytes from its
  pointer on; a writer returns the bytes it stores there. The locale \<open>word_codec\<close> is
  the contract of a reader/writer pair; it is interpreted on all eight pairs.
\<close>

section \<open>misc/byteorder.h\<close>

definition badvpn_reverse16 :: "u16 \<Rightarrow> u16" where
  "badvpn_reverse16 x = (let m = mem16 x in le_join [m ! 1, m ! 0])"

definition badvpn_reverse32 :: "u32 \<Rightarrow> u32" where
  "badvpn_reverse32 x = (let m = mem32 x in le_join [m ! 3, m ! 2, m ! 1, m ! 0])"

definition badvpn_reverse64 :: "u64 \<Rightarrow> u64" where
  "badvpn_reverse64 x = (let m = mem64 x in
     le_join [m ! 7, m ! 6, m ! 5, m ! 4, m ! 3, m ! 2, m ! 1, m ! 0])"

text \<open>The little-endian branch (lines 90--120) is the one the build selects.\<close>

definition hton8 :: "byte \<Rightarrow> byte" where
  "hton8 x = x"

definition htol8 :: "byte \<Rightarrow> byte" where
  "htol8 x = x"

definition hton16 :: "u16 \<Rightarrow> u16" where
  "hton16 x = badvpn_reverse16 x"

definition hton32 :: "u32 \<Rightarrow> u32" where
  "hton32 x = badvpn_reverse32 x"

definition hton64 :: "u64 \<Rightarrow> u64" where
  "hton64 x = badvpn_reverse64 x"

definition htol16 :: "u16 \<Rightarrow> u16" where
  "htol16 x = x"

definition htol32 :: "u32 \<Rightarrow> u32" where
  "htol32 x = x"

definition htol64 :: "u64 \<Rightarrow> u64" where
  "htol64 x = x"

definition ntoh8 :: "byte \<Rightarrow> byte" where
  "ntoh8 x = hton8 x"

definition ntoh16 :: "u16 \<Rightarrow> u16" where
  "ntoh16 x = hton16 x"

definition ntoh32 :: "u32 \<Rightarrow> u32" where
  "ntoh32 x = hton32 x"

definition ntoh64 :: "u64 \<Rightarrow> u64" where
  "ntoh64 x = hton64 x"

definition ltoh8 :: "byte \<Rightarrow> byte" where
  "ltoh8 x = htol8 x"

definition ltoh16 :: "u16 \<Rightarrow> u16" where
  "ltoh16 x = htol16 x"

definition ltoh32 :: "u32 \<Rightarrow> u32" where
  "ltoh32 x = htol32 x"

definition ltoh64 :: "u64 \<Rightarrow> u64" where
  "ltoh64 x = htol64 x"

section \<open>misc/read\_write\_int.h\<close>

definition badvpn_read_le8 :: "bytes \<Rightarrow> byte" where
  "badvpn_read_le8 p = push_bit 0 (p ! 0)"

definition badvpn_read_le16 :: "bytes \<Rightarrow> u16" where
  "badvpn_read_le16 p = push_bit 8 (ucast (p ! 1)) OR push_bit 0 (ucast (p ! 0))"

definition badvpn_read_le32 :: "bytes \<Rightarrow> u32" where
  "badvpn_read_le32 p =
     push_bit 24 (ucast (p ! 3)) OR push_bit 16 (ucast (p ! 2)) OR
     push_bit 8 (ucast (p ! 1)) OR push_bit 0 (ucast (p ! 0))"

definition badvpn_read_le64 :: "bytes \<Rightarrow> u64" where
  "badvpn_read_le64 p =
     push_bit 56 (ucast (p ! 7)) OR push_bit 48 (ucast (p ! 6)) OR
     push_bit 40 (ucast (p ! 5)) OR push_bit 32 (ucast (p ! 4)) OR
     push_bit 24 (ucast (p ! 3)) OR push_bit 16 (ucast (p ! 2)) OR
     push_bit 8 (ucast (p ! 1)) OR push_bit 0 (ucast (p ! 0))"

definition badvpn_read_be8 :: "bytes \<Rightarrow> byte" where
  "badvpn_read_be8 p = push_bit 0 (p ! 0)"

definition badvpn_read_be16 :: "bytes \<Rightarrow> u16" where
  "badvpn_read_be16 p = push_bit 8 (ucast (p ! 0)) OR push_bit 0 (ucast (p ! 1))"

definition badvpn_read_be32 :: "bytes \<Rightarrow> u32" where
  "badvpn_read_be32 p =
     push_bit 24 (ucast (p ! 0)) OR push_bit 16 (ucast (p ! 1)) OR
     push_bit 8 (ucast (p ! 2)) OR push_bit 0 (ucast (p ! 3))"

definition badvpn_read_be64 :: "bytes \<Rightarrow> u64" where
  "badvpn_read_be64 p =
     push_bit 56 (ucast (p ! 0)) OR push_bit 48 (ucast (p ! 1)) OR
     push_bit 40 (ucast (p ! 2)) OR push_bit 32 (ucast (p ! 3)) OR
     push_bit 24 (ucast (p ! 4)) OR push_bit 16 (ucast (p ! 5)) OR
     push_bit 8 (ucast (p ! 6)) OR push_bit 0 (ucast (p ! 7))"

definition badvpn_write_le8 :: "byte \<Rightarrow> bytes" where
  "badvpn_write_le8 x = [drop_bit 0 x]"

definition badvpn_write_le16 :: "u16 \<Rightarrow> bytes" where
  "badvpn_write_le16 x = [ucast (drop_bit 0 x), ucast (drop_bit 8 x)]"

definition badvpn_write_le32 :: "u32 \<Rightarrow> bytes" where
  "badvpn_write_le32 x =
     [ucast (drop_bit 0 x), ucast (drop_bit 8 x), ucast (drop_bit 16 x), ucast (drop_bit 24 x)]"

definition badvpn_write_le64 :: "u64 \<Rightarrow> bytes" where
  "badvpn_write_le64 x =
     [ucast (drop_bit 0 x), ucast (drop_bit 8 x), ucast (drop_bit 16 x), ucast (drop_bit 24 x),
      ucast (drop_bit 32 x), ucast (drop_bit 40 x), ucast (drop_bit 48 x), ucast (drop_bit 56 x)]"

definition badvpn_write_be8 :: "byte \<Rightarrow> bytes" where
  "badvpn_write_be8 x = [drop_bit 0 x]"

definition badvpn_write_be16 :: "u16 \<Rightarrow> bytes" where
  "badvpn_write_be16 x = [ucast (drop_bit 8 x), ucast (drop_bit 0 x)]"

definition badvpn_write_be32 :: "u32 \<Rightarrow> bytes" where
  "badvpn_write_be32 x =
     [ucast (drop_bit 24 x), ucast (drop_bit 16 x), ucast (drop_bit 8 x), ucast (drop_bit 0 x)]"

definition badvpn_write_be64 :: "u64 \<Rightarrow> bytes" where
  "badvpn_write_be64 x =
     [ucast (drop_bit 56 x), ucast (drop_bit 48 x), ucast (drop_bit 40 x), ucast (drop_bit 32 x),
      ucast (drop_bit 24 x), ucast (drop_bit 16 x), ucast (drop_bit 8 x), ucast (drop_bit 0 x)]"

section \<open>The contract of a reader/writer pair\<close>

locale word_codec =
  fixes width :: nat
    and enc :: "'a::len word \<Rightarrow> bytes"
    and dec :: "bytes \<Rightarrow> 'a word"
  assumes length_enc: "length (enc x) = width"
    and dec_enc: "dec (enc x) = x"
    and enc_dec: "length b = width \<Longrightarrow> enc (dec b) = b"
    and dec_append: "width \<le> length b \<Longrightarrow> dec (b @ r) = dec b"
begin

lemma dec_enc_append: "dec (enc x @ r) = x"
  by (simp add: dec_append length_enc dec_enc)

lemma enc_inject: "enc x = enc y \<longleftrightarrow> x = y"
  by (metis dec_enc)

lemma dec_take: "width \<le> length b \<Longrightarrow> dec (take width b) = dec b"
  by (metis append_take_drop_id dec_append length_take min.absorb2 order_refl)

lemma dec_memcpy:
  "i + width \<le> length buf \<Longrightarrow> dec (drop i (memcpy buf i (enc x))) = x"
  by (simp add: memcpy_def dec_enc_append)

lemma dec_eq_iff:
  "length b = width \<Longrightarrow> dec b = x \<longleftrightarrow> b = enc x"
  by (metis dec_enc enc_dec)

end

text \<open>Every reader is a join of the bytes in one of the two orders, every writer a split.\<close>

lemma le_split_numeral:
  "le_split (numeral k) x = ucast x # le_split (pred_numeral k) (drop_bit 8 x)"
  by (simp add: numeral_eq_Suc)

lemmas word_flatten = or.assoc or.commute or.left_commute

lemma write_le_split:
  "badvpn_write_le16 x = le_split 2 x"
  "badvpn_write_le32 y = le_split 4 y"
  "badvpn_write_le64 z = le_split 8 z"
  by (simp_all add: badvpn_write_le16_def badvpn_write_le32_def badvpn_write_le64_def
      le_split_numeral)

lemma write_be_split:
  "badvpn_write_be16 x = rev (le_split 2 x)"
  "badvpn_write_be32 y = rev (le_split 4 y)"
  "badvpn_write_be64 z = rev (le_split 8 z)"
  by (simp_all add: badvpn_write_be16_def badvpn_write_be32_def badvpn_write_be64_def
      le_split_numeral)

lemma take_numeral_nth:
  "numeral k \<le> length b \<Longrightarrow> take (numeral k) b = map ((!) b) [0..<numeral k]"
  by (rule nth_equalityI) simp_all

lemma read_le_join:
  "2 \<le> length b \<Longrightarrow> badvpn_read_le16 b = le_join (take 2 b)"
  "4 \<le> length b \<Longrightarrow> badvpn_read_le32 b = le_join (take 4 b)"
  "8 \<le> length b \<Longrightarrow> badvpn_read_le64 b = le_join (take 8 b)"
  by (simp_all add: badvpn_read_le16_def badvpn_read_le32_def badvpn_read_le64_def
      take_numeral_nth upt_rec word_flatten) (simp_all add: eval_nat_numeral word_flatten)

lemma read_be_join:
  "2 \<le> length b \<Longrightarrow> badvpn_read_be16 b = le_join (rev (take 2 b))"
  "4 \<le> length b \<Longrightarrow> badvpn_read_be32 b = le_join (rev (take 4 b))"
  "8 \<le> length b \<Longrightarrow> badvpn_read_be64 b = le_join (rev (take 8 b))"
  by (simp_all add: badvpn_read_be16_def badvpn_read_be32_def badvpn_read_be64_def
      take_numeral_nth upt_rec word_flatten) (simp_all add: eval_nat_numeral word_flatten)

lemma mem_unmem_rev:
  "length b = 2 \<Longrightarrow> le_split 2 (le_join (rev b) :: u16) = rev b"
  "length b = 4 \<Longrightarrow> le_split 4 (le_join (rev b) :: u32) = rev b"
  "length b = 8 \<Longrightarrow> le_split 8 (le_join (rev b) :: u64) = rev b"
  by (simp_all add: mem_unmem)

interpretation le8: word_codec 1 badvpn_write_le8 badvpn_read_le8
  by unfold_locales
    (auto simp: badvpn_write_le8_def badvpn_read_le8_def nth_append length_Suc_conv)

interpretation be8: word_codec 1 badvpn_write_be8 badvpn_read_be8
  by unfold_locales
    (auto simp: badvpn_write_be8_def badvpn_read_be8_def nth_append length_Suc_conv)

interpretation le16: word_codec 2 badvpn_write_le16 badvpn_read_le16
  by unfold_locales (simp_all add: write_le_split read_le_join mem_unmem)

interpretation le32: word_codec 4 badvpn_write_le32 badvpn_read_le32
  by unfold_locales (simp_all add: write_le_split read_le_join mem_unmem)

interpretation le64: word_codec 8 badvpn_write_le64 badvpn_read_le64
  by unfold_locales (simp_all add: write_le_split read_le_join mem_unmem)

interpretation be16: word_codec 2 badvpn_write_be16 badvpn_read_be16
  by unfold_locales (simp_all add: write_be_split read_be_join mem_unmem_rev)

interpretation be32: word_codec 4 badvpn_write_be32 badvpn_read_be32
  by unfold_locales (simp_all add: write_be_split read_be_join mem_unmem_rev)

interpretation be64: word_codec 8 badvpn_write_be64 badvpn_read_be64
  by unfold_locales (simp_all add: write_be_split read_be_join mem_unmem_rev)

section \<open>Properties\<close>

lemma reverse_mem:
  "mem16 (badvpn_reverse16 x) = rev (mem16 x)"
  "mem32 (badvpn_reverse32 y) = rev (mem32 y)"
  "mem64 (badvpn_reverse64 z) = rev (mem64 z)"
proof -
  have "badvpn_reverse16 x = le_join (rev (mem16 x))" "badvpn_reverse32 y = le_join (rev (mem32 y))"
    "badvpn_reverse64 z = le_join (rev (mem64 z))"
    by (simp_all add: badvpn_reverse16_def badvpn_reverse32_def badvpn_reverse64_def Let_def
        le_split_numeral)
  then show "mem16 (badvpn_reverse16 x) = rev (mem16 x)" "mem32 (badvpn_reverse32 y) = rev (mem32 y)"
    "mem64 (badvpn_reverse64 z) = rev (mem64 z)"
    by (simp_all add: mem_unmem_rev)
qed

lemma mem_inject:
  "mem16 a = mem16 b \<longleftrightarrow> a = b" "mem32 c = mem32 d \<longleftrightarrow> c = d" "mem64 e = mem64 f \<longleftrightarrow> e = f"
  by (metis unmem_mem)+

lemma reverse_involution [simp, wire_simps]:
  "badvpn_reverse16 (badvpn_reverse16 x) = x"
  "badvpn_reverse32 (badvpn_reverse32 y) = y"
  "badvpn_reverse64 (badvpn_reverse64 z) = z"
  by (simp_all add: mem_inject [symmetric] reverse_mem)

lemmas byte_order_defs = hton8_def hton16_def hton32_def hton64_def ntoh8_def ntoh16_def ntoh32_def
  ntoh64_def htol8_def htol16_def htol32_def htol64_def ltoh8_def ltoh16_def ltoh32_def ltoh64_def

lemma ntoh_hton [simp, wire_simps]:
  "ntoh16 (hton16 x) = x" "ntoh32 (hton32 y) = y" "ntoh64 (hton64 z) = z"
  "hton16 (ntoh16 x) = x" "hton32 (ntoh32 y) = y" "hton64 (ntoh64 z) = z"
  "ltoh16 (htol16 x) = x" "ltoh32 (htol32 y) = y" "ltoh64 (htol64 z) = z"
  by (simp_all add: byte_order_defs)

lemma mem_hton:
  "mem16 (hton16 x) = badvpn_write_be16 x" "mem32 (hton32 y) = badvpn_write_be32 y"
  "mem64 (hton64 z) = badvpn_write_be64 z"
  by (simp_all add: byte_order_defs reverse_mem write_be_split)

text \<open>C24. Every integer written with one of the eight writers is read back unchanged by the
  reader of the same width and order, whatever bytes follow it in the buffer.
\<close>

theorem read_write_round_trip:
  "badvpn_read_le8 (badvpn_write_le8 a @ r) = a \<and> badvpn_read_be8 (badvpn_write_be8 a @ r) = a \<and>
   badvpn_read_le16 (badvpn_write_le16 b @ r) = b \<and> badvpn_read_be16 (badvpn_write_be16 b @ r) = b \<and>
   badvpn_read_le32 (badvpn_write_le32 c @ r) = c \<and> badvpn_read_be32 (badvpn_write_be32 c @ r) = c \<and>
   badvpn_read_le64 (badvpn_write_le64 d @ r) = d \<and> badvpn_read_be64 (badvpn_write_be64 d @ r) = d"
  by (simp add: le8.dec_enc_append be8.dec_enc_append le16.dec_enc_append be16.dec_enc_append
      le32.dec_enc_append be32.dec_enc_append le64.dec_enc_append be64.dec_enc_append)

text \<open>Converting an integer to network order and storing it in memory on the little-endian
  host lays out the same bytes as the portable big-endian writer, and converting to little
  endian the same bytes as the portable little-endian writer.
\<close>

theorem network_order_layout:
  "mem16 (hton16 x) = badvpn_write_be16 x \<and> mem32 (hton32 y) = badvpn_write_be32 y \<and>
   mem64 (hton64 z) = badvpn_write_be64 z \<and> mem16 (htol16 x) = badvpn_write_le16 x \<and>
   mem32 (htol32 y) = badvpn_write_le32 y \<and> mem64 (htol64 z) = badvpn_write_le64 z"
  by (simp add: mem_hton htol16_def htol32_def htol64_def write_le_split)

end
