(* ===== verification/Sizes.thy ===== *)
theory Sizes
  imports Badvpn_Prelude
begin

text \<open>
  Integer arithmetic of \<^verbatim>\<open>misc/\<close>: minima and maxima (\<^verbatim>\<open>minmax.h\<close>), alignment and rounding
  division (\<^verbatim>\<open>balign.h\<close>), modular addition (\<^verbatim>\<open>modadd.h\<close>), three-way comparison
  (\<^verbatim>\<open>compare.h\<close>) and overflow-checked sizes (\<^verbatim>\<open>bsize.h\<close>). A \<^verbatim>\<open>size_t\<close> is an \<open>int\<close> in
  \<open>0..SIZE_MAX\<close>; a result that may leave the range is wrapped with \<open>c_size\<close>.
\<close>

section \<open>misc/minmax.h, misc/compare.h, misc/modadd.h\<close>

definition bmin_int :: "int \<Rightarrow> int \<Rightarrow> int" where
  "bmin_int a b = (if a < b then a else b)"

definition bmax_int :: "int \<Rightarrow> int \<Rightarrow> int" where
  "bmax_int a b = (if a > b then a else b)"

definition B_COMPARE :: "int \<Rightarrow> int \<Rightarrow> int" where
  "B_COMPARE a b = (if a < b then - 1 else if a > b then 1 else 0)"

definition bmodadd_int :: "int \<Rightarrow> int \<Rightarrow> int \<Rightarrow> int" where
  "bmodadd_int x y m = (if y >= m - x then (y - m) + x else x + y)"

section \<open>misc/balign.h\<close>

definition balign_up_overflows :: "int \<Rightarrow> int \<Rightarrow> bool" where
  "balign_up_overflows x n = (let r = x mod n in r \<noteq> 0 \<and> x > SIZE_MAX - (n - r))"

definition balign_up :: "int \<Rightarrow> int \<Rightarrow> int" where
  "balign_up x n = (let r = x mod n in if r \<noteq> 0 then c_size (x + (n - r)) else x)"

definition balign_down :: "int \<Rightarrow> int \<Rightarrow> int" where
  "balign_down x n = x - (x mod n)"

definition bdivide_up :: "int \<Rightarrow> int \<Rightarrow> int" where
  "bdivide_up a b = (let r = a mod b in if r > 0 then a div b + 1 else a div b)"

section \<open>misc/bsize.h\<close>

record bsize_t =
  is_overflow :: bool
  bvalue :: int

definition bsize_fromsize :: "int \<Rightarrow> bsize_t" where
  "bsize_fromsize v = \<lparr>is_overflow = False, bvalue = v\<rparr>"

definition bsize_fromint :: "int \<Rightarrow> bsize_t" where
  "bsize_fromint v = \<lparr>is_overflow = (v < 0 \<or> c_size v > SIZE_MAX), bvalue = c_size v\<rparr>"

definition bsize_overflow :: bsize_t where
  "bsize_overflow = \<lparr>is_overflow = True, bvalue = 0\<rparr>"

definition bsize_tosize :: "bsize_t \<Rightarrow> int option" where
  "bsize_tosize s = (if is_overflow s then None else Some (bvalue s))"

definition bsize_toint :: "bsize_t \<Rightarrow> int option" where
  "bsize_toint s = (if is_overflow s \<or> bvalue s > INT_MAX then None else Some (c_int (bvalue s)))"

definition bsize_add :: "bsize_t \<Rightarrow> bsize_t \<Rightarrow> bsize_t" where
  "bsize_add s1 s2 =
     \<lparr>is_overflow = (is_overflow s1 \<or> is_overflow s2 \<or> bvalue s2 > SIZE_MAX - bvalue s1),
      bvalue = c_size (bvalue s1 + bvalue s2)\<rparr>"

definition bsize_max :: "bsize_t \<Rightarrow> bsize_t \<Rightarrow> bsize_t" where
  "bsize_max s1 s2 =
     \<lparr>is_overflow = (is_overflow s1 \<or> is_overflow s2),
      bvalue = c_size (of_bool (bvalue s1 > bvalue s2) * bvalue s1 +
                       of_bool (bvalue s1 \<le> bvalue s2) * bvalue s2)\<rparr>"

definition bsize_mul :: "bsize_t \<Rightarrow> bsize_t \<Rightarrow> bsize_t" where
  "bsize_mul s1 s2 =
     \<lparr>is_overflow = (is_overflow s1 \<or> is_overflow s2 \<or>
                     (bvalue s1 \<noteq> 0 \<and> bvalue s2 > SIZE_MAX div bvalue s1)),
      bvalue = c_size (bvalue s1 * bvalue s2)\<rparr>"

section \<open>misc/balloc.h\<close>

text \<open>
  The allocator \<^verbatim>\<open>malloc\<close> is a parameter: it returns the bytes of a new block, or \<open>None\<close>.
\<close>

type_synonym allocator = "int \<Rightarrow> bytes option"

definition malloc_ok :: "allocator \<Rightarrow> bool" where
  "malloc_ok malloc \<longleftrightarrow> (\<forall>n m. malloc n = Some m \<longrightarrow> int (length m) = n)"

definition BAlloc :: "allocator \<Rightarrow> int \<Rightarrow> bytes option" where
  "BAlloc malloc n = (if n = 0 then malloc 1 else malloc n)"

definition BAllocSize :: "allocator \<Rightarrow> bsize_t \<Rightarrow> bytes option" where
  "BAllocSize malloc n = (if is_overflow n then None else BAlloc malloc (bvalue n))"

definition BAllocArray :: "allocator \<Rightarrow> int \<Rightarrow> int \<Rightarrow> bytes option" where
  "BAllocArray malloc count n =
     (if count = 0 \<or> n = 0 then malloc 1
      else if count > SIZE_MAX div n then None
      else BAlloc malloc (c_size (count * n)))"

definition BAllocArray2 :: "allocator \<Rightarrow> int \<Rightarrow> int \<Rightarrow> int \<Rightarrow> bytes option" where
  "BAllocArray2 malloc count2 count1 n =
     (if count2 = 0 \<or> count1 = 0 \<or> n = 0 then malloc 1
      else if count1 > SIZE_MAX div n then None
      else if count2 > SIZE_MAX div (c_size (count1 * n)) then None
      else BAlloc malloc (c_size (count2 * c_size (count1 * n))))"

definition BSizeAdd :: "int \<Rightarrow> int \<Rightarrow> int option" where
  "BSizeAdd s add = (if add > SIZE_MAX - s then None else Some (c_size (s + add)))"

definition BSizeAlign :: "int \<Rightarrow> int \<Rightarrow> int option" where
  "BSizeAlign s align =
     (let r = s mod align in
      if r > 0
      then (if align - r > SIZE_MAX - s then None else Some (c_size (s + (align - r))))
      else Some s)"

section \<open>Correctness\<close>

lemma bdivide_up_ceiling:
  "0 < b \<Longrightarrow> (bdivide_up a b - 1) * b < a \<and> a \<le> bdivide_up a b * b"
proof -
  assume b: "0 < b"
  obtain q r where qr: "q = a div b" "r = a mod b" by simp
  then have "0 \<le> r" "r < b" "a = b * q + r"
    using b by simp_all
  then show ?thesis
    by (auto simp: bdivide_up_def Let_def qr [symmetric] algebra_simps)
qed

lemma bdivide_up_nonneg: "0 \<le> a \<Longrightarrow> 0 < b \<Longrightarrow> 0 \<le> bdivide_up a b"
  by (simp add: bdivide_up_def Let_def pos_imp_zdiv_nonneg_iff)

lemma bdivide_up_le: "0 < b \<Longrightarrow> a \<le> k * b \<Longrightarrow> bdivide_up a b \<le> k"
  using bdivide_up_ceiling [of b a]
  by (smt (verit) mult_right_less_imp_less)

lemma bdivide_up_mono: "0 < b \<Longrightarrow> a \<le> a' \<Longrightarrow> bdivide_up a b \<le> bdivide_up a' b"
  using bdivide_up_ceiling [of b a'] by (auto intro: bdivide_up_le)

lemma balign_up_least:
  assumes "0 < n" "0 \<le> x" "\<not> balign_up_overflows x n"
  shows "n dvd balign_up x n" "x \<le> balign_up x n" "balign_up x n < x + n"
proof -
  have *: "x + (n - x mod n) = (x div n + 1) * n"
    by (simp add: algebra_simps minus_mod_eq_mult_div [symmetric])
  have "x mod n < n" "0 \<le> x mod n" using assms by simp_all
  then have id: "x mod n \<noteq> 0 \<Longrightarrow> c_size (x + (n - x mod n)) = x + (n - x mod n)"
    using assms(2,3) by (intro c_size_id) (auto simp: balign_up_overflows_def Let_def)
  show "n dvd balign_up x n"
    using id by (auto simp: balign_up_def Let_def * dvd_eq_mod_eq_0)
  show "x \<le> balign_up x n" "balign_up x n < x + n"
    using id assms \<open>x mod n < n\<close> \<open>0 \<le> x mod n\<close>
    by (auto simp: balign_up_def Let_def)
qed

text \<open>The checked sizes implement partial arithmetic on naturals below \<open>SIZE_MAX\<close>.\<close>

definition bsize_wf :: "bsize_t \<Rightarrow> bool" where
  "bsize_wf s = (0 \<le> bvalue s \<and> bvalue s \<le> SIZE_MAX)"

definition checked2 :: "(int \<Rightarrow> int \<Rightarrow> int) \<Rightarrow> int option \<Rightarrow> int option \<Rightarrow> int option" where
  "checked2 f a b = (case (a, b) of
     (Some m, Some n) \<Rightarrow> if f m n \<le> SIZE_MAX then Some (f m n) else None
   | _ \<Rightarrow> None)"

lemma mul_fits_iff:
  assumes "0 < a"
  shows "b \<le> M div a \<longleftrightarrow> a * b \<le> (M::int)"
proof
  assume "b \<le> M div a"
  then have "a * b \<le> a * (M div a)" using assms by simp
  also have "\<dots> \<le> M" using assms by (simp add: minus_mod_eq_mult_div [symmetric])
  finally show "a * b \<le> M" .
next
  assume "a * b \<le> M"
  then have "(a * b) div a \<le> M div a" using assms by (rule zdiv_mono1)
  then show "b \<le> M div a" using assms by simp
qed

lemma bsize_wf_ops:
  "0 \<le> v \<Longrightarrow> v \<le> SIZE_MAX \<Longrightarrow> bsize_wf (bsize_fromsize v)"
  "bsize_wf (bsize_fromint w)" "bsize_wf bsize_overflow"
  "bsize_wf (bsize_add s t)" "bsize_wf (bsize_max s t)" "bsize_wf (bsize_mul s t)"
  using c_size_range
  by (simp_all add: bsize_wf_def bsize_fromsize_def bsize_fromint_def bsize_overflow_def
      bsize_add_def bsize_max_def bsize_mul_def SIZE_MAX_def)

lemma bsize_add_checked:
  "bsize_wf s \<Longrightarrow> bsize_wf t \<Longrightarrow>
   bsize_tosize (bsize_add s t) = checked2 (+) (bsize_tosize s) (bsize_tosize t)"
  by (auto simp: bsize_tosize_def bsize_add_def checked2_def bsize_wf_def c_size_id)

lemma bsize_max_checked:
  "bsize_wf s \<Longrightarrow> bsize_wf t \<Longrightarrow>
   bsize_tosize (bsize_max s t) = checked2 max (bsize_tosize s) (bsize_tosize t)"
  by (auto simp: bsize_tosize_def bsize_max_def checked2_def bsize_wf_def c_size_id max_def)

lemma bsize_mul_checked:
  "bsize_wf s \<Longrightarrow> bsize_wf t \<Longrightarrow>
   bsize_tosize (bsize_mul s t) = checked2 (*) (bsize_tosize s) (bsize_tosize t)"
  using mul_fits_iff [of "bvalue s" "bvalue t" SIZE_MAX]
  by (cases "bvalue s = 0")
    (auto simp: bsize_tosize_def bsize_mul_def checked2_def bsize_wf_def c_size_id SIZE_MAX_def)

text \<open>An array allocation returns a block that holds the whole array, or fails.\<close>

lemma malloc_okD: "malloc_ok malloc \<Longrightarrow> malloc n = Some m \<Longrightarrow> int (length m) = n"
  by (simp add: malloc_ok_def)

lemma BAllocArray_size:
  assumes "malloc_ok malloc" "BAllocArray malloc count n = Some m" "0 < count" "0 < n"
  shows "int (length m) = count * n"
proof -
  have le: "count \<le> SIZE_MAX div n" using assms by (simp add: BAllocArray_def split: if_splits)
  then have "n * count \<le> SIZE_MAX" using assms(4) mul_fits_iff by simp
  then have id: "c_size (count * n) = count * n"
    using assms(3,4) by (intro c_size_id) (simp_all add: mult.commute)
  have "malloc (count * n) = Some m"
    using assms(2-4) le by (simp add: BAllocArray_def BAlloc_def id split: if_splits)
  then show ?thesis using assms(1) by (simp add: malloc_ok_def)
qed

lemma BAllocArray2_size:
  assumes "malloc_ok malloc" "BAllocArray2 malloc k count n = Some m" "0 < k" "0 < count" "0 < n"
  shows "int (length m) = k * (count * n)"
proof -
  have le: "count \<le> SIZE_MAX div n" using assms by (simp add: BAllocArray2_def split: if_splits)
  then have "n * count \<le> SIZE_MAX" using assms(5) mul_fits_iff by simp
  then have id: "c_size (count * n) = count * n"
    using assms(4,5) by (intro c_size_id) (simp_all add: mult.commute)
  have le2: "k \<le> SIZE_MAX div (count * n)"
    using assms id by (simp add: BAllocArray2_def split: if_splits)
  then have "count * n * k \<le> SIZE_MAX" using assms(4,5) mul_fits_iff by simp
  then have id2: "c_size (k * (count * n)) = k * (count * n)"
    using assms(3-5) by (intro c_size_id) (simp_all add: mult.commute mult.left_commute)
  have "malloc (k * (count * n)) = Some m"
    using assms(2-5) le le2 by (simp add: BAllocArray2_def BAlloc_def id id2 split: if_splits)
  then show ?thesis using assms(1) by (simp add: malloc_ok_def)
qed

end
