(* ===== verification/Flow_Contracts.thy ===== *)
theory Flow_Contracts
  imports Badvpn_Prelude
begin

text \<open>
  The contracts between the packet-handling components. \<open>packet_fifo\<close> is what a packet
  store promises its user; \<open>packet_pipe\<close> is what an object between one receive and one
  send interface promises the flow framework, and what follows for every run of it.
\<close>

section \<open>A store of packets\<close>

datatype fifo_op = Put bytes | Get

text \<open>
  Runs a sequence of operations and collects what the \<open>Get\<close>s read. \<open>None\<close> when an
  operation is used where its user must not use it.
\<close>

fun fifo_run ::
  "('s \<Rightarrow> int) \<Rightarrow> ('s \<Rightarrow> bytes \<Rightarrow> 's) \<Rightarrow> ('s \<Rightarrow> int) \<Rightarrow> ('s \<Rightarrow> bytes) \<Rightarrow> ('s \<Rightarrow> 's) \<Rightarrow>
   fifo_op list \<Rightarrow> 's \<Rightarrow> (bytes list \<times> 's) option" where
  "fifo_run avail put pending first consume [] s = Some ([], s)"
| "fifo_run avail put pending first consume (Put p # ops) s =
     (if int (length p) \<le> avail s
      then fifo_run avail put pending first consume ops (put s p) else None)"
| "fifo_run avail put pending first consume (Get # ops) s =
     (if pending s \<ge> 0
      then map_option (\<lambda>(out, t). (first s # out, t))
             (fifo_run avail put pending first consume ops (consume s))
      else None)"

fun fifo_inputs :: "fifo_op list \<Rightarrow> bytes list" where
  "fifo_inputs [] = []"
| "fifo_inputs (Put p # ops) = p # fifo_inputs ops"
| "fifo_inputs (Get # ops) = fifo_inputs ops"

locale packet_fifo =
  fixes holds :: "'s \<Rightarrow> bytes list \<Rightarrow> bool"
    and avail :: "'s \<Rightarrow> int"
    and put :: "'s \<Rightarrow> bytes \<Rightarrow> 's"
    and pending :: "'s \<Rightarrow> int"
    and first :: "'s \<Rightarrow> bytes"
    and consume :: "'s \<Rightarrow> 's"
  assumes put_holds: "holds s ps \<Longrightarrow> int (length p) \<le> avail s \<Longrightarrow> holds (put s p) (ps @ [p])"
    and pending_holds: "holds s ps \<Longrightarrow> pending s = (case ps of [] \<Rightarrow> - 1 | p # _ \<Rightarrow> int (length p))"
    and first_holds: "holds s (p # ps) \<Longrightarrow> first s = p"
    and consume_law: "holds s (p # ps) \<Longrightarrow> holds (consume s) ps"
begin

lemma pending_nonneg: "holds s ps \<Longrightarrow> 0 \<le> pending s \<longleftrightarrow> ps \<noteq> []"
  by (auto simp: pending_holds split: list.splits)

text \<open>Nothing is lost, duplicated or reordered by any sequence of operations.\<close>

lemma run_fifo:
  "holds s ps \<Longrightarrow> fifo_run avail put pending first consume ops s = Some (out, t) \<Longrightarrow>
    \<exists>qs. holds t qs \<and> ps @ fifo_inputs ops = out @ qs"
proof (induction ops arbitrary: s ps out)
  case (Cons oper ops)
  show ?case
  proof (cases oper)
    case (Put p)
    with Cons.prems have room: "int (length p) \<le> avail s"
      and run: "fifo_run avail put pending first consume ops (put s p) = Some (out, t)"
      by (auto split: if_splits)
    from Cons.IH [OF put_holds [OF Cons.prems(1) room] run] Put show ?thesis by simp
  next
    case Get
    with Cons.prems have "ps \<noteq> []" by (simp add: pending_nonneg split: if_splits)
    then obtain q qs where ps: "ps = q # qs" by (cases ps) auto
    from Get Cons.prems obtain out' where
      run: "fifo_run avail put pending first consume ops (consume s) = Some (out', t)"
        "out = first s # out'"
      by (auto split: if_splits)
    from Cons.IH [OF consume_law [OF Cons.prems(1) [unfolded ps]] run(1)]
    show ?thesis
      using run(2) first_holds [OF Cons.prems(1) [unfolded ps]] Get ps by auto
  qed
qed simp

end

section \<open>An object between a receive and a send interface\<close>

text \<open>
  The calls a handler makes on its two interfaces, in order: a receive into an address
  of the object's memory, and a send of \<open>len\<close> bytes from an address. The interfaces
  accept a call only when no operation is outstanding on them (\<^verbatim>\<open>ASSERT\<close> of
  \<^verbatim>\<open>PacketRecvInterface_Receiver_Recv\<close> and \<^verbatim>\<open>PacketPassInterface_Sender_Send\<close>).
\<close>

datatype 'p pipe_call = Receiver_Recv 'p | Sender_Send 'p int

type_synonym 'p port_state = "'p option \<times> ('p \<times> int) option"

fun do_call :: "'p pipe_call \<Rightarrow> 'p port_state \<Rightarrow> 'p port_state option" where
  "do_call (Receiver_Recv d) (r, s) = (if r = None then Some (Some d, s) else None)"
| "do_call (Sender_Send d n) (r, s) = (if s = None then Some (r, Some (d, n)) else None)"

fun do_calls :: "'p pipe_call list \<Rightarrow> 'p port_state \<Rightarrow> 'p port_state option" where
  "do_calls [] io = Some io"
| "do_calls (c # cs) io = (case do_call c io of None \<Rightarrow> None | Some io' \<Rightarrow> do_calls cs io')"

text \<open>An object with its two ports, the packets it was given and those it delivered.\<close>

record ('s, 'p) pipe =
  p_obj :: 's
  p_recv :: "'p option"
  p_send :: "('p \<times> int) option"
  p_in :: "bytes list"
  p_out :: "bytes list"

definition pipe_ports :: "'s \<Rightarrow> 'p pipe_call list \<Rightarrow> ('s, 'p) pipe \<Rightarrow> ('s, 'p) pipe option" where
  "pipe_ports o' cs s = (case do_calls cs (p_recv s, p_send s) of
     None \<Rightarrow> None
   | Some (r, w) \<Rightarrow> Some (s\<lparr>p_obj := o', p_recv := r, p_send := w\<rparr>))"

text \<open>The input finishes a receive with packet \<open>p\<close>; the output finishes a send.\<close>

definition pipe_input ::
  "('s \<Rightarrow> 'p \<Rightarrow> bytes \<Rightarrow> 's) \<Rightarrow> ('s \<Rightarrow> int \<Rightarrow> 's \<times> 'p pipe_call list) \<Rightarrow> bytes \<Rightarrow>
   ('s, 'p) pipe \<Rightarrow> ('s, 'p) pipe option" where
  "pipe_input store in_done p s = (case p_recv s of
     None \<Rightarrow> None
   | Some d \<Rightarrow> (case in_done (store (p_obj s) d p) (int (length p)) of
       (o', cs) \<Rightarrow> pipe_ports o' cs (s\<lparr>p_recv := None, p_in := p_in s @ [p]\<rparr>)))"

definition pipe_output ::
  "('s \<Rightarrow> 'p \<Rightarrow> int \<Rightarrow> bytes) \<Rightarrow> ('s \<Rightarrow> 's \<times> 'p pipe_call list) \<Rightarrow> ('s, 'p) pipe \<Rightarrow> ('s, 'p) pipe option" where
  "pipe_output load out_done s = (case p_send s of
     None \<Rightarrow> None
   | Some (d, n) \<Rightarrow> (case out_done (p_obj s) of
       (o', cs) \<Rightarrow> pipe_ports o' cs (s\<lparr>p_send := None, p_out := p_out s @ [load (p_obj s) d n]\<rparr>)))"

definition pipe_start :: "'s \<Rightarrow> 'p pipe_call list \<Rightarrow> ('s, 'p) pipe option" where
  "pipe_start s cs = pipe_ports s cs \<lparr>p_obj = s, p_recv = None, p_send = None, p_in = [], p_out = []\<rparr>"

datatype pipe_event = Input bytes | Output

definition pipe_step ::
  "('s \<Rightarrow> 'p \<Rightarrow> bytes \<Rightarrow> 's) \<Rightarrow> ('s \<Rightarrow> 'p \<Rightarrow> int \<Rightarrow> bytes) \<Rightarrow>
   ('s \<Rightarrow> int \<Rightarrow> 's \<times> 'p pipe_call list) \<Rightarrow> ('s \<Rightarrow> 's \<times> 'p pipe_call list) \<Rightarrow>
   pipe_event \<Rightarrow> ('s, 'p) pipe \<Rightarrow> ('s, 'p) pipe option" where
  "pipe_step store load in_done out_done e s = (case e of
     Input p \<Rightarrow> pipe_input store in_done p s
   | Output \<Rightarrow> pipe_output load out_done s)"

text \<open>
  An environment that follows the protocol: it finishes only outstanding operations and
  hands over packets within the MTU.
\<close>

definition pipe_enabled :: "nat \<Rightarrow> pipe_event \<Rightarrow> ('s, 'p) pipe \<Rightarrow> bool" where
  "pipe_enabled mtu e s = (case e of
     Input p \<Rightarrow> p_recv s \<noteq> None \<and> length p \<le> mtu
   | Output \<Rightarrow> p_send s \<noteq> None)"

inductive pipe_reach ::
  "('s \<Rightarrow> 'p \<Rightarrow> bytes \<Rightarrow> 's) \<Rightarrow> ('s \<Rightarrow> 'p \<Rightarrow> int \<Rightarrow> bytes) \<Rightarrow>
   ('s \<Rightarrow> int \<Rightarrow> 's \<times> 'p pipe_call list) \<Rightarrow> ('s \<Rightarrow> 's \<times> 'p pipe_call list) \<Rightarrow> nat \<Rightarrow>
   ('s, 'p) pipe \<Rightarrow> ('s, 'p) pipe \<Rightarrow> bool"
  for store load in_done out_done mtu s0 where
  reach_start: "pipe_reach store load in_done out_done mtu s0 s0"
| reach_step: "pipe_reach store load in_done out_done mtu s0 s \<Longrightarrow> pipe_enabled mtu e s \<Longrightarrow>
    pipe_step store load in_done out_done e s = Some t \<Longrightarrow>
    pipe_reach store load in_done out_done mtu s0 t"

locale packet_pipe =
  fixes mtu :: nat
    and holds :: "'s \<Rightarrow> bytes list \<Rightarrow> bool"
    and wants :: "'s \<Rightarrow> 'p option"
    and offers :: "'s \<Rightarrow> ('p \<times> int) option"
    and store :: "'s \<Rightarrow> 'p \<Rightarrow> bytes \<Rightarrow> 's"
    and load :: "'s \<Rightarrow> 'p \<Rightarrow> int \<Rightarrow> bytes"
    and in_done :: "'s \<Rightarrow> int \<Rightarrow> 's \<times> 'p pipe_call list"
    and out_done :: "'s \<Rightarrow> 's \<times> 'p pipe_call list"
  assumes in_law: "holds s ps \<Longrightarrow> wants s = Some d \<Longrightarrow> length p \<le> mtu \<Longrightarrow>
      in_done (store s d p) (int (length p)) = (s', cs) \<Longrightarrow>
      holds s' (ps @ [p]) \<and> do_calls cs (None, offers s) = Some (wants s', offers s')"
    and out_law: "holds s (p # ps) \<Longrightarrow> out_done s = (s', cs) \<Longrightarrow>
      holds s' ps \<and> do_calls cs (wants s, None) = Some (wants s', offers s')"
    and offers_law: "holds s ps \<Longrightarrow>
      (case ps of [] \<Rightarrow> offers s = None | p # _ \<Rightarrow> \<exists>d n. offers s = Some (d, n) \<and> load s d n = p)"
    and wants_empty: "holds s [] \<Longrightarrow> wants s \<noteq> None"
begin

definition sys_ok :: "('s, 'p) pipe \<Rightarrow> bool" where
  "sys_ok s \<longleftrightarrow> (\<exists>ps. holds (p_obj s) ps \<and> p_recv s = wants (p_obj s) \<and>
     p_send s = offers (p_obj s) \<and> p_in s = p_out s @ ps)"

lemma sys_ok_start:
  "holds s [] \<Longrightarrow> do_calls cs (None, None) = Some (wants s, None) \<Longrightarrow>
    \<exists>t. pipe_start s cs = Some t \<and> sys_ok t"
  using offers_law [of s "[]"] by (auto simp: pipe_start_def pipe_ports_def sys_ok_def)

text \<open>An enabled event is always handled: no interface call of a handler is refused.\<close>

lemma sys_ok_event:
  assumes "sys_ok s" "pipe_enabled mtu e s"
  shows "\<exists>t. pipe_step store load in_done out_done e s = Some t \<and> sys_ok t"
proof -
  obtain ps where ok: "holds (p_obj s) ps" "p_recv s = wants (p_obj s)"
    "p_send s = offers (p_obj s)" "p_in s = p_out s @ ps"
    using assms(1) by (auto simp: sys_ok_def)
  show ?thesis
  proof (cases e)
    case (Input p)
    with assms(2) ok obtain d where d: "wants (p_obj s) = Some d" "length p \<le> mtu"
      by (auto simp: pipe_enabled_def)
    obtain s' cs where step: "in_done (store (p_obj s) d p) (int (length p)) = (s', cs)"
      by fastforce
    from in_law [OF ok(1) d step] ok d step show ?thesis
      by (auto simp: pipe_step_def Input pipe_input_def pipe_ports_def sys_ok_def)
  next
    case Output
    with assms(2) ok have "offers (p_obj s) \<noteq> None" by (simp add: pipe_enabled_def)
    with offers_law [OF ok(1)] obtain p qs d n where
      p: "ps = p # qs" "offers (p_obj s) = Some (d, n)" "load (p_obj s) d n = p"
      by (auto split: list.splits)
    obtain s' cs where step: "out_done (p_obj s) = (s', cs)" by fastforce
    from out_law [OF ok(1) [unfolded p] step] ok p step show ?thesis
      by (auto simp: pipe_step_def Output pipe_output_def pipe_ports_def sys_ok_def)
  qed
qed

lemma sys_ok_reach:
  "pipe_reach store load in_done out_done mtu s0 s \<Longrightarrow> sys_ok s0 \<Longrightarrow> sys_ok s"
proof (induction rule: pipe_reach.induct)
  case (reach_step s e t)
  then show ?case using sys_ok_event by fastforce
qed

text \<open>Some interface always has an operation outstanding: the flow never stops for good.\<close>

lemma sys_ok_live: "sys_ok s \<Longrightarrow> p_recv s \<noteq> None \<or> p_send s \<noteq> None"
proof -
  assume "sys_ok s"
  then obtain ps where "holds (p_obj s) ps" "p_recv s = wants (p_obj s)" "p_send s = offers (p_obj s)"
    by (auto simp: sys_ok_def)
  then show ?thesis
    using offers_law [of "p_obj s" ps] wants_empty [of "p_obj s"] by (cases ps) auto
qed

lemma sys_ok_prefix: "sys_ok s \<Longrightarrow> \<exists>ps. holds (p_obj s) ps \<and> p_in s = p_out s @ ps"
  by (auto simp: sys_ok_def)

end

end
