(* ===== verification/Chunk_Buffer.thy ===== *)
theory Chunk_Buffer
  imports Sizes Flow_Contracts
begin

text \<open>
  The circular packet buffer \<^verbatim>\<open>structure/ChunkBuffer2.h\<close>. The block array is its bytes
  (four per block, the size of the \<^verbatim>\<open>int len\<close> header); the two pointers into it are
  byte offsets, \<open>None\<close> for \<^verbatim>\<open>NULL\<close>. The relation \<open>cb_holds\<close> says which packets a buffer
  holds; it carries the assertions of the debug build and the order of the packets.
\<close>

section \<open>State and operations\<close>

record ChunkBuffer2 =
  cb_buffer :: bytes
  cb_size :: int
  cb_wrap :: int
  cb_start :: int
  cb_used :: int
  cb_mtu :: int
  cb_input_dest :: "int option"
  cb_input_avail :: int
  cb_output_dest :: "int option"
  cb_output_avail :: int

definition block_len :: "bytes \<Rightarrow> int \<Rightarrow> int" where
  "block_len m i = sint (unmem32 (drop (nat (4 * i)) m))"

definition set_block_len :: "bytes \<Rightarrow> int \<Rightarrow> int \<Rightarrow> bytes" where
  "set_block_len m i len = memcpy m (nat (4 * i)) (mem32 (word_of_int len))"

definition ChunkBuffer2_end :: "ChunkBuffer2 \<Rightarrow> int" where
  "ChunkBuffer2_end buf =
     (if cb_used buf \<ge> cb_wrap buf - cb_start buf
      then cb_used buf - (cb_wrap buf - cb_start buf)
      else cb_start buf + cb_used buf)"

definition ChunkBuffer2_assert_buffer :: "ChunkBuffer2 \<Rightarrow> bool" where
  "ChunkBuffer2_assert_buffer buf \<longleftrightarrow>
     cb_size buf > 0 \<and> cb_wrap buf > 0 \<and> cb_wrap buf \<le> cb_size buf \<and>
     cb_start buf \<ge> 0 \<and> cb_start buf < cb_wrap buf \<and>
     cb_used buf \<ge> 0 \<and> cb_used buf \<le> cb_wrap buf \<and>
     (cb_wrap buf = cb_size buf \<or> cb_used buf \<ge> cb_wrap buf - cb_start buf) \<and>
     cb_mtu buf \<ge> 0"

definition ChunkBuffer2_assert_io :: "ChunkBuffer2 \<Rightarrow> bool" where
  "ChunkBuffer2_assert_io buf \<longleftrightarrow>
     (let end = ChunkBuffer2_end buf in
      if cb_size buf - end - 1 < cb_mtu buf
      then cb_input_dest buf = None \<and> cb_input_avail buf = - 1
      else (let free = (if cb_used buf \<ge> cb_wrap buf - cb_start buf
                        then cb_start buf - end else cb_size buf - end) in
            if free > 0
            then cb_input_dest buf = Some (4 * (end + 1)) \<and>
                 cb_input_avail buf = c_int ((free - 1) * 4)
            else cb_input_dest buf = None \<and> cb_input_avail buf = - 1)) \<and>
     (if cb_used buf > 0
      then (let datalen = block_len (cb_buffer buf) (cb_start buf);
                blocklen = bdivide_up datalen 4 in
            datalen \<ge> 0 \<and> blocklen \<le> cb_used buf - 1 \<and>
            blocklen \<le> cb_wrap buf - cb_start buf - 1 \<and>
            cb_output_dest buf = Some (4 * (cb_start buf + 1)) \<and>
            cb_output_avail buf = datalen)
      else cb_output_dest buf = None \<and> cb_output_avail buf = - 1)"

definition ChunkBuffer2_update_input :: "ChunkBuffer2 \<Rightarrow> ChunkBuffer2" where
  "ChunkBuffer2_update_input buf =
     (let end = ChunkBuffer2_end buf in
      if cb_size buf - end - 1 < cb_mtu buf
      then buf\<lparr>cb_input_dest := None, cb_input_avail := - 1\<rparr>
      else (let free = (if cb_used buf \<ge> cb_wrap buf - cb_start buf
                        then cb_start buf - end
                        else cb_size buf - end) in
            if free > 0
            then buf\<lparr>cb_input_dest := Some (4 * (end + 1)),
                     cb_input_avail := c_int ((free - 1) * 4)\<rparr>
            else buf\<lparr>cb_input_dest := None, cb_input_avail := - 1\<rparr>))"

definition ChunkBuffer2_update_output :: "ChunkBuffer2 \<Rightarrow> ChunkBuffer2" where
  "ChunkBuffer2_update_output buf =
     (if cb_used buf > 0
      then (let datalen = block_len (cb_buffer buf) (cb_start buf) in
            buf\<lparr>cb_output_dest := Some (4 * (cb_start buf + 1)), cb_output_avail := datalen\<rparr>)
      else buf\<lparr>cb_output_dest := None, cb_output_avail := - 1\<rparr>)"

definition ChunkBuffer2_calc_blocks :: "int \<Rightarrow> int \<Rightarrow> int" where
  "ChunkBuffer2_calc_blocks chunk_len num =
     (let chunk_data_blocks = bdivide_up chunk_len 4 in
      if chunk_data_blocks > INT_MAX - 1 then - 1
      else (let chunk_blocks = 1 + chunk_data_blocks in
            if num > INT_MAX - 1 then - 1
            else (let num_chunks = num + 1 in
                  if chunk_blocks > INT_MAX div num_chunks then - 1
                  else chunk_blocks * num_chunks)))"

definition ChunkBuffer2_Init :: "bytes \<Rightarrow> int \<Rightarrow> int \<Rightarrow> ChunkBuffer2" where
  "ChunkBuffer2_Init buffer blocks mtu =
     ChunkBuffer2_update_output (ChunkBuffer2_update_input
       \<lparr>cb_buffer = buffer, cb_size = blocks, cb_wrap = blocks, cb_start = 0, cb_used = 0,
        cb_mtu = bdivide_up mtu 4,
        cb_input_dest = None, cb_input_avail = 0, cb_output_dest = None, cb_output_avail = 0\<rparr>)"

definition ChunkBuffer2_SubmitPacket :: "ChunkBuffer2 \<Rightarrow> int \<Rightarrow> ChunkBuffer2" where
  "ChunkBuffer2_SubmitPacket buf len =
     (let end = ChunkBuffer2_end buf;
          blocklen = bdivide_up len 4;
          buf = buf\<lparr>cb_buffer := set_block_len (cb_buffer buf) end len\<rparr>;
          buf = buf\<lparr>cb_used := cb_used buf + (1 + blocklen)\<rparr>;
          buf = (if cb_used buf \<le> cb_wrap buf - cb_start buf \<and>
                    cb_mtu buf > cb_size buf - (end + 1 + blocklen) - 1
                 then buf\<lparr>cb_wrap := end + 1 + blocklen\<rparr> else buf);
          buf = ChunkBuffer2_update_input buf
      in if cb_used buf = 1 + blocklen then ChunkBuffer2_update_output buf else buf)"

definition ChunkBuffer2_ConsumePacket :: "ChunkBuffer2 \<Rightarrow> ChunkBuffer2" where
  "ChunkBuffer2_ConsumePacket buf =
     (let blocklen = bdivide_up (block_len (cb_buffer buf) (cb_start buf)) 4;
          data_wrapped = (cb_used buf \<ge> cb_wrap buf - cb_start buf);
          buf = buf\<lparr>cb_start := cb_start buf + (1 + blocklen)\<rparr>;
          buf = buf\<lparr>cb_used := cb_used buf - (1 + blocklen)\<rparr>;
          buf = (if cb_start buf = cb_wrap buf
                 then buf\<lparr>cb_start := 0, cb_wrap := cb_size buf\<rparr> else buf);
          buf = (if data_wrapped then ChunkBuffer2_update_input buf else buf)
      in ChunkBuffer2_update_output buf)"

text \<open>
  What the users of a buffer do with its two pointers: a producer stores the bytes of a
  packet at \<^verbatim>\<open>input_dest\<close> before it submits them, a consumer reads \<^verbatim>\<open>output_avail\<close> bytes
  at \<^verbatim>\<open>output_dest\<close>.
\<close>

definition cb_fill :: "ChunkBuffer2 \<Rightarrow> bytes \<Rightarrow> ChunkBuffer2" where
  "cb_fill buf p = (case cb_input_dest buf of
     None \<Rightarrow> buf | Some d \<Rightarrow> buf\<lparr>cb_buffer := memcpy (cb_buffer buf) (nat d) p\<rparr>)"

definition cb_first :: "ChunkBuffer2 \<Rightarrow> bytes" where
  "cb_first buf = (case cb_output_dest buf of
     None \<Rightarrow> [] | Some d \<Rightarrow> bslice (cb_buffer buf) (nat d) (nat (cb_output_avail buf)))"

section \<open>The packets a buffer holds\<close>

definition chunk_blocks :: "bytes \<Rightarrow> int" where
  "chunk_blocks p = 1 + bdivide_up (int (length p)) 4"

text \<open>
  \<open>cb_seg m lim i ps j\<close>: the packets \<open>ps\<close> lie one after the other in the blocks
  \<open>i ..< j\<close>, and each begins at a block not after \<open>lim\<close>.
\<close>

fun cb_seg :: "bytes \<Rightarrow> int \<Rightarrow> int \<Rightarrow> bytes list \<Rightarrow> int \<Rightarrow> bool" where
  "cb_seg m lim i [] j \<longleftrightarrow> i = j"
| "cb_seg m lim i (p # ps) j \<longleftrightarrow>
     i \<le> lim \<and> block_len m i = int (length p) \<and>
     bslice m (nat (4 * (i + 1))) (length p) = p \<and>
     cb_seg m lim (i + chunk_blocks p) ps j"

definition cb_wf :: "ChunkBuffer2 \<Rightarrow> bool" where
  "cb_wf buf \<longleftrightarrow>
     ChunkBuffer2_assert_buffer buf \<and> ChunkBuffer2_assert_io buf \<and>
     cb_size buf - cb_wrap buf \<le> cb_mtu buf \<and>
     4 * cb_size buf \<le> INT_MAX \<and> int (length (cb_buffer buf)) = 4 * cb_size buf \<and>
     cb_start buf \<le> cb_size buf - 1 - cb_mtu buf \<and>
     ChunkBuffer2_end buf \<le> cb_size buf - 1 - cb_mtu buf"

definition cb_content :: "ChunkBuffer2 \<Rightarrow> bytes list \<Rightarrow> bytes list \<Rightarrow> bool" where
  "cb_content buf ps1 ps2 \<longleftrightarrow>
     (let lim = cb_size buf - 1 - cb_mtu buf in
      if cb_used buf < cb_wrap buf - cb_start buf
      then ps2 = [] \<and>
        cb_seg (cb_buffer buf) lim (cb_start buf) ps1 (cb_start buf + cb_used buf)
      else cb_seg (cb_buffer buf) lim (cb_start buf) ps1 (cb_wrap buf) \<and>
        cb_seg (cb_buffer buf) lim 0 ps2 (cb_used buf - (cb_wrap buf - cb_start buf)))"

definition cb_holds :: "ChunkBuffer2 \<Rightarrow> bytes list \<Rightarrow> bool" where
  "cb_holds buf ps \<longleftrightarrow> cb_wf buf \<and> (\<exists>ps1 ps2. ps = ps1 @ ps2 \<and> cb_content buf ps1 ps2)"

section \<open>Blocks and segments\<close>

lemma block_len_bslice: "block_len m i = sint (le_join (bslice m (nat (4 * i)) 4) :: u32)"
  by (simp add: block_len_def bslice_def)

lemma block_len_set:
  assumes "0 \<le> i" "4 * i + 4 \<le> int (length m)" "0 \<le> len" "len \<le> INT_MAX"
  shows "block_len (set_block_len m i len) i = len"
proof -
  have "bslice (memcpy m (nat (4 * i)) (mem32 (word_of_int len))) (nat (4 * i)) 4 = mem32 (word_of_int len)"
    using bslice_memcpy_same [of "nat (4 * i)" "mem32 (word_of_int len)" m] assms by simp
  then show ?thesis
    using assms by (simp add: block_len_bslice set_block_len_def int_word_sint INT_MAX_def)
qed

lemma chunk_blocks_pos: "1 \<le> chunk_blocks p"
  by (simp add: chunk_blocks_def bdivide_up_nonneg)

lemma chunk_blocks_bytes: "int (length p) + 4 \<le> 4 * chunk_blocks p"
  using bdivide_up_ceiling [of 4 "int (length p)"] by (simp add: chunk_blocks_def)

lemma cb_seg_le: "cb_seg m lim i ps j \<Longrightarrow> i \<le> j"
proof (induction ps arbitrary: i)
  case (Cons p ps)
  then show ?case using chunk_blocks_pos [of p] by fastforce
qed simp

lemma cb_seg_empty: "cb_seg m lim i ps i \<longleftrightarrow> ps = []"
proof (cases ps)
  case (Cons q qs)
  then show ?thesis
    using cb_seg_le [of m lim "i + chunk_blocks q" qs i] chunk_blocks_pos [of q] by auto
qed simp

lemma cb_seg_append:
  "cb_seg m lim i (ps @ qs) j \<longleftrightarrow> (\<exists>k. cb_seg m lim i ps k \<and> cb_seg m lim k qs j)"
  by (induction ps arbitrary: i) auto

lemma cb_seg_frame:
  assumes "cb_seg m lim i ps j" "0 \<le> i" "4 * j \<le> int (length m)"
    "o' + length ys \<le> length m" "4 * j \<le> int o' \<or> int (o' + length ys) \<le> 4 * i"
  shows "cb_seg (memcpy m o' ys) lim i ps j"
  using assms
proof (induction ps arbitrary: i)
  case (Cons p ps)
  note blocks = chunk_blocks_pos [of p] chunk_blocks_bytes [of p]
  have le: "i + chunk_blocks p \<le> j"
    using Cons.prems(1) cb_seg_le by auto
  have "bslice (memcpy m o' ys) (nat (4 * i)) 4 = bslice m (nat (4 * i)) 4"
    using Cons.prems le blocks
    by (cases "4 * j \<le> int o'") (simp_all add: bslice_memcpy_before bslice_memcpy_after)
  moreover have "bslice (memcpy m o' ys) (nat (4 * (i + 1))) (length p) =
      bslice m (nat (4 * (i + 1))) (length p)"
    using Cons.prems le blocks
    by (cases "4 * j \<le> int o'") (simp_all add: bslice_memcpy_before bslice_memcpy_after)
  moreover have "cb_seg (memcpy m o' ys) lim (i + chunk_blocks p) ps j"
    using Cons.prems le blocks by (intro Cons.IH) auto
  ultimately show ?case
    using Cons.prems(1) by (simp add: block_len_bslice)
qed simp

section \<open>The two pointers\<close>

lemma update_input_fields [simp]:
  "cb_buffer (ChunkBuffer2_update_input buf) = cb_buffer buf"
  "cb_size (ChunkBuffer2_update_input buf) = cb_size buf"
  "cb_wrap (ChunkBuffer2_update_input buf) = cb_wrap buf"
  "cb_start (ChunkBuffer2_update_input buf) = cb_start buf"
  "cb_used (ChunkBuffer2_update_input buf) = cb_used buf"
  "cb_mtu (ChunkBuffer2_update_input buf) = cb_mtu buf"
  "cb_output_dest (ChunkBuffer2_update_input buf) = cb_output_dest buf"
  "cb_output_avail (ChunkBuffer2_update_input buf) = cb_output_avail buf"
  by (simp_all add: ChunkBuffer2_update_input_def Let_def)

lemma update_output_fields [simp]:
  "cb_buffer (ChunkBuffer2_update_output buf) = cb_buffer buf"
  "cb_size (ChunkBuffer2_update_output buf) = cb_size buf"
  "cb_wrap (ChunkBuffer2_update_output buf) = cb_wrap buf"
  "cb_start (ChunkBuffer2_update_output buf) = cb_start buf"
  "cb_used (ChunkBuffer2_update_output buf) = cb_used buf"
  "cb_mtu (ChunkBuffer2_update_output buf) = cb_mtu buf"
  "cb_input_dest (ChunkBuffer2_update_output buf) = cb_input_dest buf"
  "cb_input_avail (ChunkBuffer2_update_output buf) = cb_input_avail buf"
  by (simp_all add: ChunkBuffer2_update_output_def Let_def)

text \<open>The pointers are up to date: recomputing them changes nothing.\<close>

definition cb_in_ok :: "ChunkBuffer2 \<Rightarrow> bool" where
  "cb_in_ok buf \<longleftrightarrow> ChunkBuffer2_update_input buf = buf"

definition cb_out_ok :: "ChunkBuffer2 \<Rightarrow> bool" where
  "cb_out_ok buf \<longleftrightarrow> ChunkBuffer2_update_output buf = buf"

lemma ChunkBuffer2_eq_iff:
  "(a = (b :: ChunkBuffer2)) \<longleftrightarrow>
     cb_buffer a = cb_buffer b \<and> cb_size a = cb_size b \<and> cb_wrap a = cb_wrap b \<and>
     cb_start a = cb_start b \<and> cb_used a = cb_used b \<and> cb_mtu a = cb_mtu b \<and>
     cb_input_dest a = cb_input_dest b \<and> cb_input_avail a = cb_input_avail b \<and>
     cb_output_dest a = cb_output_dest b \<and> cb_output_avail a = cb_output_avail b"
  by (cases a, cases b) auto

lemma cb_in_ok_update [simp]:
  "cb_in_ok (ChunkBuffer2_update_input buf)"
  "cb_in_ok (ChunkBuffer2_update_output buf) = cb_in_ok buf"
  by (auto simp: cb_in_ok_def ChunkBuffer2_eq_iff ChunkBuffer2_update_input_def
      ChunkBuffer2_end_def Let_def)

lemma cb_out_ok_update [simp]:
  "cb_out_ok (ChunkBuffer2_update_output buf)"
  "cb_out_ok (ChunkBuffer2_update_input buf) = cb_out_ok buf"
  by (auto simp: cb_out_ok_def ChunkBuffer2_eq_iff ChunkBuffer2_update_output_def Let_def)

lemma assert_io_iff:
  "ChunkBuffer2_assert_io buf \<longleftrightarrow> cb_in_ok buf \<and> cb_out_ok buf \<and>
     (cb_used buf > 0 \<longrightarrow>
       (let datalen = block_len (cb_buffer buf) (cb_start buf);
            blocklen = bdivide_up datalen 4 in
        datalen \<ge> 0 \<and> blocklen \<le> cb_used buf - 1 \<and> blocklen \<le> cb_wrap buf - cb_start buf - 1))"
  by (auto simp: ChunkBuffer2_assert_io_def cb_in_ok_def cb_out_ok_def ChunkBuffer2_eq_iff
      ChunkBuffer2_update_input_def ChunkBuffer2_update_output_def Let_def)

text \<open>The header at the read position follows from the segments.\<close>

lemma cb_content_head:
  assumes "cb_content buf ps1 ps2" "ChunkBuffer2_assert_buffer buf" "cb_used buf > 0"
  obtains p qs where "ps1 = p # qs" "block_len (cb_buffer buf) (cb_start buf) = int (length p)"
    "chunk_blocks p \<le> cb_used buf" "chunk_blocks p \<le> cb_wrap buf - cb_start buf"
    "bslice (cb_buffer buf) (nat (4 * (cb_start buf + 1))) (length p) = p"
proof (cases ps1)
  case Nil
  then show ?thesis using assms
    by (auto simp: cb_content_def ChunkBuffer2_assert_buffer_def Let_def split: if_splits)
next
  case (Cons p qs)
  then show ?thesis using assms that [OF Cons]
    by (auto simp: cb_content_def ChunkBuffer2_assert_buffer_def Let_def dest!: cb_seg_le
        split: if_splits)
qed

lemma cb_content_head_len:
  assumes "cb_content buf ps1 ps2" "ChunkBuffer2_assert_buffer buf" "cb_used buf > 0"
  shows "block_len (cb_buffer buf) (cb_start buf) = int (length (hd ps1))"
  using assms by (rule cb_content_head) simp

lemma cb_wfI:
  assumes "ChunkBuffer2_assert_buffer buf" "cb_in_ok buf" "cb_out_ok buf" "cb_content buf ps1 ps2"
    "cb_size buf - cb_wrap buf \<le> cb_mtu buf" "4 * cb_size buf \<le> INT_MAX"
    "int (length (cb_buffer buf)) = 4 * cb_size buf"
    "cb_start buf \<le> cb_size buf - 1 - cb_mtu buf"
    "ChunkBuffer2_end buf \<le> cb_size buf - 1 - cb_mtu buf"
  shows "cb_holds buf (ps1 @ ps2)"
proof -
  have "ChunkBuffer2_assert_io buf"
  proof (cases "cb_used buf > 0")
    case True
    with assms(4,1) obtain p qs where "ps1 = p # qs"
      "block_len (cb_buffer buf) (cb_start buf) = int (length p)"
      "chunk_blocks p \<le> cb_used buf" "chunk_blocks p \<le> cb_wrap buf - cb_start buf"
      by (rule cb_content_head)
    then show ?thesis
      using assms by (simp add: assert_io_iff Let_def chunk_blocks_def)
  qed (use assms in \<open>simp add: assert_io_iff\<close>)
  then show ?thesis
    using assms by (auto simp: cb_holds_def cb_wf_def)
qed

section \<open>Every operation keeps the buffer well formed and acts on the packets as on a queue\<close>

lemmas cb_arith_defs = ChunkBuffer2_assert_buffer_def ChunkBuffer2_end_def cb_content_def Let_def

lemma init_holds:
  assumes "0 \<le> mtu" "bdivide_up mtu 4 < blocks" "4 * blocks \<le> INT_MAX"
    "int (length m) = 4 * blocks"
  shows "cb_holds (ChunkBuffer2_Init m blocks mtu) []"
proof -
  have "0 \<le> bdivide_up mtu 4" using assms(1) by (simp add: bdivide_up_nonneg)
  then have "cb_holds (ChunkBuffer2_Init m blocks mtu) ([] @ [])"
    using assms by (intro cb_wfI) (auto simp: ChunkBuffer2_Init_def cb_arith_defs)
  then show ?thesis by simp
qed

lemma cb_in_ok_avail:
  assumes "cb_holds buf ps"
  shows "cb_input_avail buf =
      (let free = (if cb_used buf \<ge> cb_wrap buf - cb_start buf then cb_start buf - ChunkBuffer2_end buf
                   else cb_size buf - ChunkBuffer2_end buf)
       in if free > 0 then (free - 1) * 4 else - 1)"
    "cb_input_avail buf \<ge> 0 \<Longrightarrow> cb_input_dest buf = Some (4 * (ChunkBuffer2_end buf + 1))"
    "(cb_input_dest buf = None) = (cb_input_avail buf = - 1)"
proof -
  have "cb_in_ok buf" "ChunkBuffer2_assert_buffer buf" "4 * cb_size buf \<le> INT_MAX"
    "ChunkBuffer2_end buf \<le> cb_size buf - 1 - cb_mtu buf"
    using assms by (auto simp: cb_holds_def cb_wf_def assert_io_iff)
  then show "cb_input_avail buf =
      (let free = (if cb_used buf \<ge> cb_wrap buf - cb_start buf then cb_start buf - ChunkBuffer2_end buf
                   else cb_size buf - ChunkBuffer2_end buf)
       in if free > 0 then (free - 1) * 4 else - 1)"
    "cb_input_avail buf \<ge> 0 \<Longrightarrow> cb_input_dest buf = Some (4 * (ChunkBuffer2_end buf + 1))"
    "(cb_input_dest buf = None) = (cb_input_avail buf = - 1)"
    by (auto simp: cb_in_ok_def ChunkBuffer2_update_input_def ChunkBuffer2_eq_iff Let_def
        ChunkBuffer2_assert_buffer_def ChunkBuffer2_end_def c_int_id INT_MAX_def dest!: sym [of "Some _"]
        split: if_splits)
qed

lemma submit_fields:
  "cb_size (ChunkBuffer2_SubmitPacket buf len) = cb_size buf"
  "cb_start (ChunkBuffer2_SubmitPacket buf len) = cb_start buf"
  "cb_mtu (ChunkBuffer2_SubmitPacket buf len) = cb_mtu buf"
  "cb_buffer (ChunkBuffer2_SubmitPacket buf len) =
     set_block_len (cb_buffer buf) (ChunkBuffer2_end buf) len"
  "cb_used (ChunkBuffer2_SubmitPacket buf len) = cb_used buf + (1 + bdivide_up len 4)"
  "cb_wrap (ChunkBuffer2_SubmitPacket buf len) =
     (if cb_used buf + (1 + bdivide_up len 4) \<le> cb_wrap buf - cb_start buf \<and>
         cb_mtu buf > cb_size buf - (ChunkBuffer2_end buf + 1 + bdivide_up len 4) - 1
      then ChunkBuffer2_end buf + 1 + bdivide_up len 4 else cb_wrap buf)"
  "cb_in_ok (ChunkBuffer2_SubmitPacket buf len)"
  by (simp_all add: ChunkBuffer2_SubmitPacket_def Let_def)

lemma submit_out_ok:
  assumes "cb_out_ok buf" "0 \<le> cb_used buf" "0 \<le> len"
    "0 < cb_used buf \<Longrightarrow>
      block_len (set_block_len (cb_buffer buf) (ChunkBuffer2_end buf) len) (cb_start buf) =
      block_len (cb_buffer buf) (cb_start buf)"
  shows "cb_out_ok (ChunkBuffer2_SubmitPacket buf len)"
proof (cases "cb_used buf = 0")
  case True
  then show ?thesis by (simp add: ChunkBuffer2_SubmitPacket_def Let_def)
next
  case False
  with assms bdivide_up_nonneg [of len 4] show ?thesis
    by (auto simp: ChunkBuffer2_SubmitPacket_def Let_def cb_out_ok_def ChunkBuffer2_eq_iff
        ChunkBuffer2_update_output_def)
qed

text \<open>A segment grows by the packet whose header is stored at its end.\<close>

lemma cb_seg_snoc:
  assumes "cb_seg m lim i ps j" "0 \<le> i" "j \<le> lim" "4 * j + 4 + int (length p) \<le> int (length m)"
    "bslice m (nat (4 * (j + 1))) (length p) = p" "int (length p) \<le> INT_MAX"
    "k = j + chunk_blocks p"
  shows "cb_seg (set_block_len m j (int (length p))) lim i (ps @ [p]) k"
proof -
  have "0 \<le> j" using cb_seg_le [OF assms(1)] assms(2) by simp
  then have "cb_seg (set_block_len m j (int (length p))) lim i ps j"
    using assms by (auto simp: set_block_len_def intro!: cb_seg_frame)
  moreover have "bslice (set_block_len m j (int (length p))) (nat (4 * (j + 1))) (length p) = p"
    using assms \<open>0 \<le> j\<close> by (simp add: set_block_len_def bslice_memcpy_after)
  ultimately show ?thesis
    using assms \<open>0 \<le> j\<close> by (auto simp: cb_seg_append block_len_set)
qed

lemma chunk_blocks_le: "int (length p) \<le> (k - 1) * 4 \<Longrightarrow> chunk_blocks p \<le> k"
  using bdivide_up_le [of 4 "int (length p)" "k - 1"] by (simp add: chunk_blocks_def)

lemma submit_room:
  assumes "cb_holds buf ps" "0 \<le> cb_input_avail buf" "int (length p) \<le> cb_input_avail buf"
  shows "chunk_blocks p \<le> (if cb_used buf < cb_wrap buf - cb_start buf
      then cb_size buf - ChunkBuffer2_end buf else cb_start buf - ChunkBuffer2_end buf)"
  using cb_in_ok_avail(1) [OF assms(1)] assms(2,3)
  by (auto simp: Let_def not_le intro!: chunk_blocks_le split: if_splits)

lemma submit_flat:
  assumes holds: "cb_holds buf ps" and flat: "cb_used buf < cb_wrap buf - cb_start buf"
    and room: "chunk_blocks p \<le> cb_size buf - ChunkBuffer2_end buf"
    and data: "bslice (cb_buffer buf) (nat (4 * (ChunkBuffer2_end buf + 1))) (length p) = p"
  shows "cb_holds (ChunkBuffer2_SubmitPacket buf (int (length p))) (ps @ [p])"
proof -
  let ?b = "ChunkBuffer2_SubmitPacket buf (int (length p))"
  let ?lim = "cb_size buf - 1 - cb_mtu buf"
  note blocks = chunk_blocks_pos [of p] chunk_blocks_bytes [of p]
  have wf: "cb_wf buf" and content: "cb_content buf ps []"
    using holds flat by (auto simp: cb_holds_def cb_content_def)
  have seg: "cb_seg (cb_buffer buf) ?lim (cb_start buf) ps (ChunkBuffer2_end buf)"
    using content flat by (simp add: cb_content_def ChunkBuffer2_end_def)
  have fields: "cb_wrap buf = cb_size buf" "ChunkBuffer2_end buf = cb_start buf + cb_used buf"
    "0 \<le> cb_start buf" "0 \<le> cb_used buf" "0 \<le> cb_mtu buf" "ChunkBuffer2_end buf \<le> ?lim"
    "int (length (cb_buffer buf)) = 4 * cb_size buf" "4 * cb_size buf \<le> INT_MAX"
    "cb_out_ok buf" "cb_start buf \<le> ?lim"
    using wf flat
    by (auto simp: cb_wf_def ChunkBuffer2_assert_buffer_def ChunkBuffer2_end_def assert_io_iff)
  have seg': "cb_seg (cb_buffer ?b) ?lim (cb_start buf) (ps @ [p])
      (ChunkBuffer2_end buf + chunk_blocks p)"
    unfolding submit_fields using seg fields room data blocks by (intro cb_seg_snoc) auto
  have "cb_out_ok ?b"
    using fields blocks room
    by (intro submit_out_ok)
      (auto simp: set_block_len_def block_len_bslice bslice_memcpy_before)
  moreover have "cb_content ?b (ps @ [p]) []"
    using seg' fields room flat
    by (auto simp: cb_content_def submit_fields Let_def chunk_blocks_def algebra_simps)
  ultimately have "cb_holds ?b ((ps @ [p]) @ [])"
    using fields flat room blocks
    by (intro cb_wfI) (auto simp: submit_fields ChunkBuffer2_assert_buffer_def
        ChunkBuffer2_end_def chunk_blocks_def set_block_len_def)
  then show ?thesis by simp
qed

lemma submit_wrapped:
  assumes holds: "cb_holds buf ps" and wrapped: "\<not> cb_used buf < cb_wrap buf - cb_start buf"
    and room: "chunk_blocks p \<le> cb_start buf - ChunkBuffer2_end buf"
    and data: "bslice (cb_buffer buf) (nat (4 * (ChunkBuffer2_end buf + 1))) (length p) = p"
  shows "cb_holds (ChunkBuffer2_SubmitPacket buf (int (length p))) (ps @ [p])"
proof -
  let ?b = "ChunkBuffer2_SubmitPacket buf (int (length p))"
  let ?lim = "cb_size buf - 1 - cb_mtu buf"
  note blocks = chunk_blocks_pos [of p] chunk_blocks_bytes [of p]
  obtain ps1 ps2 where ps: "ps = ps1 @ ps2" and wf: "cb_wf buf" and content: "cb_content buf ps1 ps2"
    using holds by (auto simp: cb_holds_def)
  have seg: "cb_seg (cb_buffer buf) ?lim (cb_start buf) ps1 (cb_wrap buf)"
    "cb_seg (cb_buffer buf) ?lim 0 ps2 (ChunkBuffer2_end buf)"
    using content wrapped by (simp_all add: cb_content_def ChunkBuffer2_end_def Let_def)
  have fields: "cb_wrap buf \<le> cb_size buf" "cb_size buf - cb_wrap buf \<le> cb_mtu buf"
    "ChunkBuffer2_end buf = cb_used buf - (cb_wrap buf - cb_start buf)"
    "0 \<le> cb_start buf" "cb_start buf < cb_wrap buf" "cb_used buf \<le> cb_wrap buf" "0 \<le> cb_mtu buf"
    "ChunkBuffer2_end buf \<le> ?lim"
    "int (length (cb_buffer buf)) = 4 * cb_size buf" "4 * cb_size buf \<le> INT_MAX"
    "cb_out_ok buf" "cb_start buf \<le> ?lim" "0 \<le> ChunkBuffer2_end buf"
    using wf wrapped
    by (auto simp: cb_wf_def ChunkBuffer2_assert_buffer_def ChunkBuffer2_end_def assert_io_iff)
  have seg': "cb_seg (cb_buffer ?b) ?lim 0 (ps2 @ [p]) (cb_used ?b - (cb_wrap buf - cb_start buf))"
    unfolding submit_fields using seg fields room data blocks
    by (intro cb_seg_snoc [of _ _ _ _ "ChunkBuffer2_end buf"]) (auto simp: chunk_blocks_def)
  have seg1: "cb_seg (cb_buffer ?b) ?lim (cb_start buf) ps1 (cb_wrap buf)"
    unfolding submit_fields set_block_len_def using seg fields room blocks
    by (intro cb_seg_frame) auto
  have "cb_out_ok ?b"
    using fields blocks room
    by (intro submit_out_ok)
      (auto simp: set_block_len_def block_len_bslice bslice_memcpy_after)
  moreover have "cb_wrap ?b = cb_wrap buf" "\<not> cb_used ?b < cb_wrap buf - cb_start buf"
    using wrapped blocks by (auto simp: submit_fields chunk_blocks_def)
  then have "cb_content ?b ps1 (ps2 @ [p])"
    using seg' seg1 by (simp add: cb_content_def Let_def submit_fields(1-3))
  ultimately have "cb_holds ?b (ps1 @ (ps2 @ [p]))"
    using fields wrapped room blocks
    by (intro cb_wfI) (auto simp: submit_fields ChunkBuffer2_assert_buffer_def
        ChunkBuffer2_end_def chunk_blocks_def set_block_len_def)
  then show ?thesis by (simp add: ps)
qed

lemma submit_holds:
  assumes "cb_holds buf ps" "0 \<le> cb_input_avail buf" "int (length p) \<le> cb_input_avail buf"
    "bslice (cb_buffer buf) (nat (4 * (ChunkBuffer2_end buf + 1))) (length p) = p"
  shows "cb_holds (ChunkBuffer2_SubmitPacket buf (int (length p))) (ps @ [p])"
  using submit_flat [OF assms(1) _ _ assms(4)] submit_wrapped [OF assms(1) _ _ assms(4)]
    submit_room [OF assms(1-3)]
  by (cases "cb_used buf < cb_wrap buf - cb_start buf") auto

lemma holds_nil_iff: "cb_holds buf ps \<Longrightarrow> cb_used buf = 0 \<longleftrightarrow> ps = []"
proof -
  assume *: "cb_holds buf ps"
  then have "cb_used buf = 0" if "ps = []"
    using that by (auto simp: cb_holds_def cb_wf_def cb_arith_defs split: if_splits)
  moreover have "ps = []" if "cb_used buf = 0"
    using * that
    by (auto simp: cb_holds_def cb_wf_def cb_arith_defs cb_seg_empty split: if_splits)
  ultimately show ?thesis by blast
qed

lemma holds_first:
  assumes "cb_holds buf (p # ps)"
  shows "cb_first buf = p" "cb_output_avail buf = int (length p)"
    "cb_output_dest buf = Some (4 * (cb_start buf + 1))"
proof -
  obtain ps1 ps2 where *: "p # ps = ps1 @ ps2" "cb_content buf ps1 ps2" "cb_wf buf"
    using assms by (auto simp: cb_holds_def)
  have used: "cb_used buf > 0"
    using holds_nil_iff [OF assms] *(3) by (auto simp: cb_wf_def ChunkBuffer2_assert_buffer_def)
  have ab: "ChunkBuffer2_assert_buffer buf" using *(3) by (simp add: cb_wf_def)
  obtain q qs where q: "ps1 = q # qs"
    "block_len (cb_buffer buf) (cb_start buf) = int (length q)"
    "bslice (cb_buffer buf) (nat (4 * (cb_start buf + 1))) (length q) = q"
    by (metis cb_content_head [OF *(2) ab used])
  moreover have "cb_out_ok buf" using *(3) by (simp add: cb_wf_def assert_io_iff)
  ultimately show avail: "cb_output_avail buf = int (length p)"
    and dest: "cb_output_dest buf = Some (4 * (cb_start buf + 1))"
    using *(1) used
    by (auto simp: cb_out_ok_def ChunkBuffer2_update_output_def ChunkBuffer2_eq_iff Let_def)
  show "cb_first buf = p"
    using *(1) q by (simp add: cb_first_def avail dest)
qed

lemma consume_fields:
  fixes buf defines "n \<equiv> 1 + bdivide_up (block_len (cb_buffer buf) (cb_start buf)) 4"
  shows "cb_size (ChunkBuffer2_ConsumePacket buf) = cb_size buf"
  "cb_mtu (ChunkBuffer2_ConsumePacket buf) = cb_mtu buf"
  "cb_buffer (ChunkBuffer2_ConsumePacket buf) = cb_buffer buf"
  "cb_used (ChunkBuffer2_ConsumePacket buf) = cb_used buf - n"
  "cb_start (ChunkBuffer2_ConsumePacket buf) =
     (if cb_start buf + n = cb_wrap buf then 0 else cb_start buf + n)"
  "cb_wrap (ChunkBuffer2_ConsumePacket buf) =
     (if cb_start buf + n = cb_wrap buf then cb_size buf else cb_wrap buf)"
  "cb_out_ok (ChunkBuffer2_ConsumePacket buf)"
  by (simp_all add: ChunkBuffer2_ConsumePacket_def Let_def n_def)

definition cb_free :: "ChunkBuffer2 \<Rightarrow> int" where
  "cb_free buf = (if cb_used buf \<ge> cb_wrap buf - cb_start buf
     then cb_start buf - ChunkBuffer2_end buf else cb_size buf - ChunkBuffer2_end buf)"

lemma cb_in_ok_iff:
  "cb_in_ok buf \<longleftrightarrow>
     (if cb_size buf - ChunkBuffer2_end buf - 1 < cb_mtu buf \<or> cb_free buf \<le> 0
      then cb_input_dest buf = None \<and> cb_input_avail buf = - 1
      else cb_input_dest buf = Some (4 * (ChunkBuffer2_end buf + 1)) \<and>
           cb_input_avail buf = c_int ((cb_free buf - 1) * 4))"
  by (auto simp: cb_in_ok_def ChunkBuffer2_eq_iff ChunkBuffer2_update_input_def cb_free_def Let_def)

lemma cb_out_ok_iff:
  "cb_out_ok buf \<longleftrightarrow>
     (if cb_used buf > 0
      then cb_output_dest buf = Some (4 * (cb_start buf + 1)) \<and>
           cb_output_avail buf = block_len (cb_buffer buf) (cb_start buf)
      else cb_output_dest buf = None \<and> cb_output_avail buf = - 1)"
  by (auto simp: cb_out_ok_def ChunkBuffer2_eq_iff ChunkBuffer2_update_output_def Let_def)

lemma consume_in_ok:
  assumes "cb_in_ok buf" "cb_used buf < cb_wrap buf - cb_start buf \<Longrightarrow>
    cb_start buf + (1 + bdivide_up (block_len (cb_buffer buf) (cb_start buf)) 4) \<noteq> cb_wrap buf"
  shows "cb_in_ok (ChunkBuffer2_ConsumePacket buf)"
proof (cases "cb_used buf < cb_wrap buf - cb_start buf")
  case True
  define n where "n = 1 + bdivide_up (block_len (cb_buffer buf) (cb_start buf)) 4"
  have "ChunkBuffer2_ConsumePacket buf = ChunkBuffer2_update_output
      (buf\<lparr>cb_start := cb_start buf + n, cb_used := cb_used buf - n\<rparr>)"
    using assms(2) True by (simp add: ChunkBuffer2_ConsumePacket_def Let_def n_def)
  moreover have "cb_in_ok (buf\<lparr>cb_start := cb_start buf + n, cb_used := cb_used buf - n\<rparr>)"
    using assms(1) True by (simp add: cb_in_ok_iff ChunkBuffer2_end_def cb_free_def)
  ultimately show ?thesis by simp
qed (simp add: ChunkBuffer2_ConsumePacket_def Let_def)

lemma holds_Cons:
  assumes "cb_holds buf (p # ps)"
  obtains qs ps2 where "ps = qs @ ps2" "cb_wf buf" "cb_content buf (p # qs) ps2" "cb_used buf > 0"
    "1 + bdivide_up (block_len (cb_buffer buf) (cb_start buf)) 4 = chunk_blocks p"
    "chunk_blocks p \<le> cb_used buf" "chunk_blocks p \<le> cb_wrap buf - cb_start buf"
proof -
  obtain ps1 ps2 where *: "p # ps = ps1 @ ps2" "cb_content buf ps1 ps2" "cb_wf buf"
    using assms by (auto simp: cb_holds_def)
  have used: "cb_used buf > 0" and ab: "ChunkBuffer2_assert_buffer buf"
    using holds_nil_iff [OF assms] *(3) by (auto simp: cb_wf_def ChunkBuffer2_assert_buffer_def)
  obtain q qs where "ps1 = q # qs" "block_len (cb_buffer buf) (cb_start buf) = int (length q)"
    "chunk_blocks q \<le> cb_used buf" "chunk_blocks q \<le> cb_wrap buf - cb_start buf"
    by (metis cb_content_head [OF *(2) ab used])
  with * used that [of qs ps2] show ?thesis
    by (simp add: chunk_blocks_def)
qed

lemma consume_content:
  assumes content: "cb_content buf (p # qs) ps2" and ab: "ChunkBuffer2_assert_buffer buf"
    and n: "1 + bdivide_up (block_len (cb_buffer buf) (cb_start buf)) 4 = chunk_blocks p"
    and lim: "ChunkBuffer2_end buf \<le> cb_size buf - 1 - cb_mtu buf"
  shows "cb_start buf + chunk_blocks p = cb_wrap buf \<Longrightarrow>
      qs = [] \<and> cb_content (ChunkBuffer2_ConsumePacket buf) ps2 []"
    "cb_start buf + chunk_blocks p \<noteq> cb_wrap buf \<Longrightarrow>
      cb_content (ChunkBuffer2_ConsumePacket buf) qs ps2 \<and>
      cb_start buf + chunk_blocks p \<le> cb_size buf - 1 - cb_mtu buf"
proof -
  let ?lim = "cb_size buf - 1 - cb_mtu buf"
  have flat: "cb_seg (cb_buffer buf) ?lim (cb_start buf + chunk_blocks p) qs
      (cb_start buf + cb_used buf)" "ps2 = []" if "cb_used buf < cb_wrap buf - cb_start buf"
    using content that by (simp_all add: cb_content_def Let_def)
  have wrapped: "cb_seg (cb_buffer buf) ?lim (cb_start buf + chunk_blocks p) qs (cb_wrap buf)"
    "cb_seg (cb_buffer buf) ?lim 0 ps2 (cb_used buf - (cb_wrap buf - cb_start buf))"
    if "\<not> cb_used buf < cb_wrap buf - cb_start buf"
    using content that by (simp_all add: cb_content_def Let_def)
  show "qs = [] \<and> cb_content (ChunkBuffer2_ConsumePacket buf) ps2 []"
    if eq: "cb_start buf + chunk_blocks p = cb_wrap buf"
  proof -
    have w: "\<not> cb_used buf < cb_wrap buf - cb_start buf"
      using flat(1) eq cb_seg_le by fastforce
    have e: "cb_wrap buf - cb_start buf = chunk_blocks p" using eq by simp
    show ?thesis
      using wrapped(1) [OF w] wrapped(2) [OF w, unfolded e] w eq n ab lim
      by (auto simp: cb_seg_empty cb_content_def consume_fields Let_def ChunkBuffer2_end_def
          ChunkBuffer2_assert_buffer_def)
  qed
  show "cb_content (ChunkBuffer2_ConsumePacket buf) qs ps2 \<and> cb_start buf + chunk_blocks p \<le> ?lim"
    if ne: "cb_start buf + chunk_blocks p \<noteq> cb_wrap buf"
  proof (cases "cb_used buf < cb_wrap buf - cb_start buf")
    case True
    then show ?thesis
      using flat [OF True] cb_seg_le [OF flat(1) [OF True]] ne n lim
      by (auto simp: cb_content_def consume_fields Let_def ChunkBuffer2_end_def)
  next
    case False
    then show ?thesis
      using wrapped [OF False] ne n
      by (cases qs) (auto simp: cb_content_def consume_fields Let_def algebra_simps)
  qed
qed

lemma consume_holds:
  assumes holds: "cb_holds buf (p # ps)"
  shows "cb_holds (ChunkBuffer2_ConsumePacket buf) ps"
proof -
  let ?b = "ChunkBuffer2_ConsumePacket buf"
  from holds obtain qs ps2 where ps: "ps = qs @ ps2" and wf: "cb_wf buf"
    and content: "cb_content buf (p # qs) ps2" and used: "cb_used buf > 0"
    and n: "1 + bdivide_up (block_len (cb_buffer buf) (cb_start buf)) 4 = chunk_blocks p"
    and le: "chunk_blocks p \<le> cb_used buf" "chunk_blocks p \<le> cb_wrap buf - cb_start buf"
    by (rule holds_Cons)
  have fields: "ChunkBuffer2_assert_buffer buf" "cb_in_ok buf"
    "ChunkBuffer2_end buf \<le> cb_size buf - 1 - cb_mtu buf"
    "cb_size buf - cb_wrap buf \<le> cb_mtu buf" "4 * cb_size buf \<le> INT_MAX"
    "int (length (cb_buffer buf)) = 4 * cb_size buf"
    using wf by (auto simp: cb_wf_def assert_io_iff)
  have in_ok: "cb_in_ok ?b"
    using fields(2) le n by (intro consume_in_ok) auto
  note c = consume_content [OF content fields(1) n fields(3)]
  show ?thesis
  proof (cases "cb_start buf + chunk_blocks p = cb_wrap buf")
    case True
    with c(1) have "qs = []" "cb_content ?b ps2 []" by auto
    moreover have "cb_holds ?b (ps2 @ [])"
      using fields in_ok \<open>cb_content ?b ps2 []\<close> True n le
      by (intro cb_wfI) (auto simp: consume_fields ChunkBuffer2_assert_buffer_def ChunkBuffer2_end_def)
    ultimately show ?thesis by (simp add: ps)
  next
    case False
    with c(2) show ?thesis
      unfolding ps using fields in_ok n le chunk_blocks_pos [of p]
      by (intro cb_wfI) (auto simp: consume_fields ChunkBuffer2_assert_buffer_def ChunkBuffer2_end_def
          split: if_splits)
  qed
qed

text \<open>Storing at \<^verbatim>\<open>input_dest\<close> within \<^verbatim>\<open>input_avail\<close> disturbs no packet of the buffer.\<close>

lemma fill_fields:
  "cb_size (cb_fill buf p) = cb_size buf" "cb_wrap (cb_fill buf p) = cb_wrap buf"
  "cb_start (cb_fill buf p) = cb_start buf" "cb_used (cb_fill buf p) = cb_used buf"
  "cb_mtu (cb_fill buf p) = cb_mtu buf" "cb_input_dest (cb_fill buf p) = cb_input_dest buf"
  "cb_input_avail (cb_fill buf p) = cb_input_avail buf"
  "cb_output_dest (cb_fill buf p) = cb_output_dest buf"
  "cb_output_avail (cb_fill buf p) = cb_output_avail buf"
  "ChunkBuffer2_end (cb_fill buf p) = ChunkBuffer2_end buf"
  by (simp_all add: cb_fill_def ChunkBuffer2_end_def split: option.split)

lemma fill_frame:
  assumes holds: "cb_holds buf ps" and avail: "int (length p) \<le> cb_input_avail buf"
  shows "cb_holds (cb_fill buf p) ps"
    "bslice (cb_buffer (cb_fill buf p)) (nat (4 * (ChunkBuffer2_end buf + 1))) (length p) = p"
proof -
  have nn: "0 \<le> cb_input_avail buf" using avail by simp
  note dest = cb_in_ok_avail(2) [OF holds nn]
  let ?e = "ChunkBuffer2_end buf" and ?lim = "cb_size buf - 1 - cb_mtu buf"
  obtain ps1 ps2 where ps: "ps = ps1 @ ps2" and wf: "cb_wf buf" and content: "cb_content buf ps1 ps2"
    using holds by (auto simp: cb_holds_def)
  note ab = wf [unfolded cb_wf_def ChunkBuffer2_assert_buffer_def]
  have buf: "cb_buffer (cb_fill buf p) = memcpy (cb_buffer buf) (nat (4 * (?e + 1))) p"
    using dest by (simp add: cb_fill_def)
  have e0: "0 \<le> ?e" using ab by (auto simp: ChunkBuffer2_end_def)
  have room: "4 * (?e + 1) + int (length p) \<le> 4 * cb_size buf"
    "\<not> cb_used buf < cb_wrap buf - cb_start buf \<Longrightarrow>
       4 * (?e + 1) + int (length p) \<le> 4 * cb_start buf"
    using cb_in_ok_avail(1) [OF holds] avail ab by (auto simp: Let_def split: if_splits)
  have frame: "cb_seg (cb_buffer buf) ?lim i qs j \<Longrightarrow> 0 \<le> i \<Longrightarrow> j \<le> cb_size buf \<Longrightarrow>
      j \<le> ?e + 1 \<or> 4 * (?e + 1) + int (length p) \<le> 4 * i \<Longrightarrow>
      cb_seg (cb_buffer (cb_fill buf p)) ?lim i qs j" for i qs j
    unfolding buf using e0 room(1) ab by (intro cb_seg_frame) auto
  have content': "cb_content (cb_fill buf p) ps1 ps2"
    using content room(2) ab
    by (auto simp: cb_content_def fill_fields Let_def ChunkBuffer2_end_def intro!: frame
        split: if_splits)
  moreover have "cb_in_ok (cb_fill buf p)"
    using ab by (simp add: assert_io_iff cb_in_ok_iff cb_free_def fill_fields)
  moreover have "cb_out_ok (cb_fill buf p)"
  proof -
    have "block_len (cb_buffer (cb_fill buf p)) (cb_start buf) = block_len (cb_buffer buf) (cb_start buf)"
      if "cb_used buf > 0"
      using cb_content_head_len [OF content] cb_content_head_len [OF content'] that ab
      by (simp add: ChunkBuffer2_assert_buffer_def fill_fields)
    then show ?thesis
      using ab by (auto simp: assert_io_iff cb_out_ok_iff fill_fields)
  qed
  ultimately show "cb_holds (cb_fill buf p) ps"
    unfolding ps using ab room e0
    by (intro cb_wfI) (auto simp: fill_fields ChunkBuffer2_assert_buffer_def buf)
  show "bslice (cb_buffer (cb_fill buf p)) (nat (4 * (?e + 1))) (length p) = p"
    unfolding buf using e0 room(1) ab by (intro bslice_memcpy_same) auto
qed

section \<open>Space\<close>

lemma holds_facts:
  assumes "cb_holds buf ps"
  shows "ChunkBuffer2_assert_buffer buf" "ChunkBuffer2_assert_io buf" "cb_in_ok buf"
    "ChunkBuffer2_end buf \<le> cb_size buf - 1 - cb_mtu buf" "4 * cb_size buf \<le> INT_MAX"
    "cb_size buf - cb_wrap buf \<le> cb_mtu buf"
  using assms by (auto simp: cb_holds_def cb_wf_def assert_io_iff)

lemma avail_free: "cb_holds buf ps \<Longrightarrow> cb_free buf > 0 \<Longrightarrow> cb_input_avail buf = (cb_free buf - 1) * 4"
  using cb_in_ok_avail(1) by (simp add: cb_free_def Let_def)

lemma consume_keeps_dest:
  assumes holds: "cb_holds buf (p # ps)" and dest: "cb_input_dest buf = Some d"
  shows "cb_input_dest (ChunkBuffer2_ConsumePacket buf) = Some d"
    "cb_input_avail buf \<le> cb_input_avail (ChunkBuffer2_ConsumePacket buf)"
proof -
  let ?b = "ChunkBuffer2_ConsumePacket buf"
  from holds obtain qs ps2 where
    n: "1 + bdivide_up (block_len (cb_buffer buf) (cb_start buf)) 4 = chunk_blocks p"
    and le: "chunk_blocks p \<le> cb_used buf" "chunk_blocks p \<le> cb_wrap buf - cb_start buf"
    by (rule holds_Cons)
  note h = holds_facts [OF holds] and h' = holds_facts [OF consume_holds [OF holds]]
  have free: "0 < cb_free buf" using h(3) dest by (simp add: cb_in_ok_iff split: if_splits)
  have e: "ChunkBuffer2_end ?b = ChunkBuffer2_end buf" and f: "cb_free buf \<le> cb_free ?b"
    using n le h(1,4) chunk_blocks_pos [of p]
    by (auto simp: ChunkBuffer2_end_def cb_free_def consume_fields ChunkBuffer2_assert_buffer_def)
  show "cb_input_avail buf \<le> cb_input_avail ?b"
    using avail_free [OF holds free] avail_free [OF consume_holds [OF holds]] free f by simp
  then have "0 \<le> cb_input_avail ?b" using avail_free [OF holds free] free by simp
  then show "cb_input_dest ?b = Some d"
    using cb_in_ok_avail(2) [OF consume_holds [OF holds]] cb_in_ok_avail(2) [OF holds]
      avail_free [OF holds free] free dest e by simp
qed

lemma cb_seg_blocks: "cb_seg m lim i ps j \<Longrightarrow> j - i = sum_list (map chunk_blocks ps)"
  by (induction ps arbitrary: i) force+

lemma holds_used: "cb_holds buf ps \<Longrightarrow> cb_used buf = sum_list (map chunk_blocks ps)"
  by (auto simp: cb_holds_def cb_content_def Let_def dest!: cb_seg_blocks split: if_splits)

text \<open>
  A buffer sized by \<open>ChunkBuffer2_calc_blocks\<close> for \<open>num\<close> packets of \<open>mtu\<close> bytes has room
  for one more as long as it holds fewer than \<open>num\<close>.
\<close>

lemma sum_blocks_le:
  "(\<And>p. p \<in> set ps \<Longrightarrow> int (length p) \<le> mtu) \<Longrightarrow>
    sum_list (map chunk_blocks ps) \<le> (1 + bdivide_up mtu 4) * int (length ps)"
proof (induction ps)
  case (Cons p ps)
  have "chunk_blocks p \<le> 1 + bdivide_up mtu 4"
    using Cons.prems by (simp add: chunk_blocks_def bdivide_up_mono)
  with Cons show ?case by (simp add: algebra_simps)
qed simp

lemma room_below_capacity:
  assumes holds: "cb_holds buf ps" and size: "cb_size buf = (1 + bdivide_up mtu 4) * (num + 1)"
    and mtu: "cb_mtu buf = bdivide_up mtu 4" "0 \<le> mtu"
    and lens: "\<And>p. p \<in> set ps \<Longrightarrow> int (length p) \<le> mtu"
    and few: "int (length ps) < num"
  shows "mtu \<le> cb_input_avail buf"
proof -
  let ?d = "bdivide_up mtu 4"
  note h = holds_facts [OF holds]
  have d: "0 \<le> ?d" "mtu \<le> ?d * 4"
    using mtu bdivide_up_ceiling [of 4 mtu] by (auto simp: bdivide_up_nonneg)
  have "(1 + ?d) * int (length ps) \<le> (1 + ?d) * (num - 1)"
    using few d by (intro mult_left_mono) auto
  then have used: "cb_used buf \<le> (1 + ?d) * (num - 1)"
    using holds_used [OF holds] sum_blocks_le [of ps mtu, OF lens] by simp
  have "?d + 1 \<le> cb_free buf"
    using used size h(4,6) mtu(1) d
    by (auto simp: cb_free_def ChunkBuffer2_end_def algebra_simps)
  then show ?thesis
    using avail_free [OF holds] d by simp
qed

lemma calc_blocks_value:
  assumes "0 \<le> chunk_len" "0 \<le> num"
  shows "ChunkBuffer2_calc_blocks chunk_len num =
    (if (1 + bdivide_up chunk_len 4) * (num + 1) \<le> INT_MAX
     then (1 + bdivide_up chunk_len 4) * (num + 1) else - 1)"
proof -
  let ?x = "1 + bdivide_up chunk_len 4" and ?y = "num + 1"
  have "1 \<le> ?x" "1 \<le> ?y" using assms by (simp_all add: bdivide_up_nonneg)
  then have le: "?x \<le> ?x * ?y" "?y \<le> ?x * ?y"
    using mult_left_mono [of 1 ?y ?x] mult_right_mono [of 1 ?x ?y] by auto
  have "?x \<le> INT_MAX div ?y \<longleftrightarrow> ?x * ?y \<le> INT_MAX"
    using mul_fits_iff [of ?y ?x INT_MAX] assms by (simp add: mult.commute)
  with le show ?thesis
    by (auto simp: ChunkBuffer2_calc_blocks_def Let_def not_le)
qed

section \<open>The buffer is a packet store\<close>

definition cb_put :: "ChunkBuffer2 \<Rightarrow> bytes \<Rightarrow> ChunkBuffer2" where
  "cb_put buf p = ChunkBuffer2_SubmitPacket (cb_fill buf p) (int (length p))"

lemma put_holds_cb:
  "cb_holds buf ps \<Longrightarrow> int (length p) \<le> cb_input_avail buf \<Longrightarrow> cb_holds (cb_put buf p) (ps @ [p])"
  unfolding cb_put_def using fill_frame [of buf ps p]
  by (intro submit_holds) (simp_all add: fill_fields)

lemma pending_cb:
  "cb_holds buf ps \<Longrightarrow> cb_output_avail buf = (case ps of [] \<Rightarrow> - 1 | p # _ \<Rightarrow> int (length p))"
  using holds_facts(2) holds_nil_iff holds_first(2)
  by (fastforce simp: assert_io_iff cb_out_ok_iff split: list.split)

interpretation cb: packet_fifo cb_holds cb_input_avail cb_put cb_output_avail cb_first
  ChunkBuffer2_ConsumePacket
  by unfold_locales (simp_all add: put_holds_cb pending_cb holds_first consume_holds)

abbreviation cb_run :: "fifo_op list \<Rightarrow> ChunkBuffer2 \<Rightarrow> (bytes list \<times> ChunkBuffer2) option" where
  "cb_run \<equiv> fifo_run cb_input_avail cb_put cb_output_avail cb_first ChunkBuffer2_ConsumePacket"

text \<open>C9. A chunk buffer is a FIFO queue of packets: after any sequence of submissions (each at
  most \<^verbatim>\<open>input_avail\<close> bytes, stored at \<^verbatim>\<open>input_dest\<close>) and consumptions (each when
  \<^verbatim>\<open>output_avail\<close> is not negative), the packets read out followed by those still held are
  exactly the packets submitted, byte for byte and in order; and the assertions of the
  debug build hold in the state reached.
\<close>

theorem ChunkBuffer2_is_queue:
  assumes "0 \<le> mtu" "bdivide_up mtu 4 < blocks" "4 * blocks \<le> INT_MAX"
    and "int (length m) = 4 * blocks"
    and "cb_run ops (ChunkBuffer2_Init m blocks mtu) = Some (out, t)"
  shows "(\<exists>qs. cb_holds t qs \<and> fifo_inputs ops = out @ qs) \<and>
    ChunkBuffer2_assert_buffer t \<and> ChunkBuffer2_assert_io t"
proof -
  from cb.run_fifo [OF init_holds [OF assms(1-4)] assms(5)] obtain qs
    where "cb_holds t qs" "fifo_inputs ops = out @ qs" by auto
  with holds_facts(1,2) show ?thesis by blast
qed

theorem ChunkBuffer2_is_queue_witness:
  "\<exists>t. cb_run [Put [1, 2, 3, 4, 5], Put [], Put [6], Get, Put [7, 8, 9, 10, 11, 12], Get]
        (ChunkBuffer2_Init (replicate 40 0) 10 8) = Some ([[1, 2, 3, 4, 5], []], t) \<and>
      (\<exists>qs. cb_holds t qs \<and>
        [[1, 2, 3, 4, 5], [], [6], [7, 8, 9, 10, 11, 12]] = [[1, 2, 3, 4, 5], []] @ qs) \<and>
      ChunkBuffer2_assert_buffer t \<and> ChunkBuffer2_assert_io t"
proof -
  let ?ops = "[Put [1, 2, 3, 4, 5], Put [], Put [6], Get, Put [7, 8, 9, 10, 11, 12], Get]"
  let ?b = "ChunkBuffer2_Init (replicate 40 0) 10 8"
  have "map_option fst (cb_run ?ops ?b) = Some [[1, 2, 3, 4, 5], []]"
    by code_simp
  then obtain t where run: "cb_run ?ops ?b = Some ([[1, 2, 3, 4, 5], []], t)"
    by auto
  have "bdivide_up 8 4 < 10" by code_simp
  with ChunkBuffer2_is_queue [OF _ _ _ _ run] run show ?thesis
    by (simp add: INT_MAX_def)
qed

end
