(* ===== verification/Packet_Buffer.thy ===== *)
theory Packet_Buffer
  imports Chunk_Buffer
begin

text \<open>
  The packet buffers of the flow framework, \<^verbatim>\<open>flow/PacketBuffer.c\<close> and
  \<^verbatim>\<open>flow/SinglePacketBuffer.c\<close>. A handler returns the new object and the calls it makes on
  its input and output interface, in order. Both buffers are interpreted as
  \<open>packet_pipe\<close>s, which gives order, liveness and protocol conformance for every run.
\<close>

section \<open>flow/PacketBuffer.c\<close>

record PacketBuffer =
  pb_input_mtu :: int
  pb_buf :: ChunkBuffer2

definition pb_input_handler_done ::
  "PacketBuffer \<Rightarrow> int \<Rightarrow> PacketBuffer \<times> int option pipe_call list" where
  "pb_input_handler_done buf in_len =
     (let was_empty = (cb_output_avail (pb_buf buf) < 0);
          buf = buf\<lparr>pb_buf := ChunkBuffer2_SubmitPacket (pb_buf buf) in_len\<rparr>
      in (buf,
          (if cb_input_avail (pb_buf buf) \<ge> pb_input_mtu buf
           then [Receiver_Recv (cb_input_dest (pb_buf buf))] else []) @
          (if was_empty
           then [Sender_Send (cb_output_dest (pb_buf buf)) (cb_output_avail (pb_buf buf))] else [])))"

definition pb_output_handler_done ::
  "PacketBuffer \<Rightarrow> PacketBuffer \<times> int option pipe_call list" where
  "pb_output_handler_done buf =
     (let was_full = (cb_input_avail (pb_buf buf) < pb_input_mtu buf);
          buf = buf\<lparr>pb_buf := ChunkBuffer2_ConsumePacket (pb_buf buf)\<rparr>
      in (buf,
          (if was_full \<and> cb_input_avail (pb_buf buf) \<ge> pb_input_mtu buf
           then [Receiver_Recv (cb_input_dest (pb_buf buf))] else []) @
          (if cb_output_avail (pb_buf buf) \<ge> 0
           then [Sender_Send (cb_output_dest (pb_buf buf)) (cb_output_avail (pb_buf buf))] else [])))"

definition PacketBuffer_Init ::
  "allocator \<Rightarrow> int \<Rightarrow> int \<Rightarrow> (PacketBuffer \<times> int option pipe_call list) option" where
  "PacketBuffer_Init malloc input_mtu num_packets =
     (let num_blocks = ChunkBuffer2_calc_blocks input_mtu num_packets in
      if num_blocks < 0 then None
      else (case BAllocArray malloc num_blocks 4 of
        None \<Rightarrow> None
      | Some buf_data \<Rightarrow>
          (let buf = \<lparr>pb_input_mtu = input_mtu,
                      pb_buf = ChunkBuffer2_Init buf_data num_blocks input_mtu\<rparr>
           in Some (buf, [Receiver_Recv (cb_input_dest (pb_buf buf))]))))"

text \<open>The memory the two interfaces see: the block array, addressed by byte offset.\<close>

definition pb_store :: "PacketBuffer \<Rightarrow> int option \<Rightarrow> bytes \<Rightarrow> PacketBuffer" where
  "pb_store buf d p = (case d of None \<Rightarrow> buf
   | Some i \<Rightarrow> buf\<lparr>pb_buf := (pb_buf buf)\<lparr>cb_buffer := memcpy (cb_buffer (pb_buf buf)) (nat i) p\<rparr>\<rparr>)"

definition pb_load :: "PacketBuffer \<Rightarrow> int option \<Rightarrow> int \<Rightarrow> bytes" where
  "pb_load buf d n = (case d of None \<Rightarrow> []
   | Some i \<Rightarrow> bslice (cb_buffer (pb_buf buf)) (nat i) (nat n))"

section \<open>flow/SinglePacketBuffer.c\<close>

text \<open>The buffer has one address, the start of \<^verbatim>\<open>o->buf\<close>.\<close>

record SinglePacketBuffer =
  spb_buf :: bytes

definition spb_input_handler_done ::
  "SinglePacketBuffer \<Rightarrow> int \<Rightarrow> SinglePacketBuffer \<times> unit pipe_call list" where
  "spb_input_handler_done s in_len = (s, [Sender_Send () in_len])"

definition spb_output_handler_done ::
  "SinglePacketBuffer \<Rightarrow> SinglePacketBuffer \<times> unit pipe_call list" where
  "spb_output_handler_done s = (s, [Receiver_Recv ()])"

definition SinglePacketBuffer_Init ::
  "allocator \<Rightarrow> int \<Rightarrow> (SinglePacketBuffer \<times> unit pipe_call list) option" where
  "SinglePacketBuffer_Init malloc input_mtu =
     (case BAlloc malloc input_mtu of
        None \<Rightarrow> None
      | Some b \<Rightarrow> Some (\<lparr>spb_buf = b\<rparr>, [Receiver_Recv ()]))"

section \<open>PacketBuffer keeps the contract of a pipe\<close>

definition pb_wants :: "PacketBuffer \<Rightarrow> int option option" where
  "pb_wants buf = (if cb_input_avail (pb_buf buf) \<ge> pb_input_mtu buf
     then Some (cb_input_dest (pb_buf buf)) else None)"

definition pb_offers :: "PacketBuffer \<Rightarrow> (int option \<times> int) option" where
  "pb_offers buf = (if cb_output_avail (pb_buf buf) \<ge> 0
     then Some (cb_output_dest (pb_buf buf), cb_output_avail (pb_buf buf)) else None)"

definition pb_holds :: "nat \<Rightarrow> int \<Rightarrow> PacketBuffer \<Rightarrow> bytes list \<Rightarrow> bool" where
  "pb_holds mtu num buf ps \<longleftrightarrow> cb_holds (pb_buf buf) ps \<and> pb_input_mtu buf = int mtu \<and>
     cb_mtu (pb_buf buf) = bdivide_up (int mtu) 4 \<and>
     cb_size (pb_buf buf) = (1 + bdivide_up (int mtu) 4) * (num + 1) \<and> (\<forall>p \<in> set ps. length p \<le> mtu)"

lemma store_is_fill:
  "cb_input_dest (pb_buf buf) = d \<Longrightarrow>
    pb_store buf d p = buf\<lparr>pb_buf := cb_fill (pb_buf buf) p\<rparr>"
  by (simp add: pb_store_def cb_fill_def split: option.split)

lemma pb_in_law:
  assumes holds: "pb_holds mtu num buf ps" and wants: "pb_wants buf = Some d" and len: "length p \<le> mtu"
    and step: "pb_input_handler_done (pb_store buf d p) (int (length p)) = (buf', cs)"
  shows "pb_holds mtu num buf' (ps @ [p]) \<and>
    do_calls cs (None, pb_offers buf) = Some (pb_wants buf', pb_offers buf')"
proof -
  let ?b = "pb_buf buf"
  have cb: "cb_holds ?b ps" and mtu: "pb_input_mtu buf = int mtu"
    using holds by (auto simp: pb_holds_def)
  have d: "d = cb_input_dest ?b" "int mtu \<le> cb_input_avail ?b"
    using wants mtu by (auto simp: pb_wants_def split: if_splits)
  have buf': "buf' = buf\<lparr>pb_buf := cb_put ?b p\<rparr>"
    using step d by (simp add: pb_input_handler_done_def Let_def store_is_fill cb_put_def)
  have put: "cb_holds (cb_put ?b p) (ps @ [p])"
    using put_holds_cb [OF cb] d len by simp
  have "pb_holds mtu num buf' (ps @ [p])"
    using put holds len by (auto simp: pb_holds_def buf' cb_put_def submit_fields fill_fields)
  moreover have "pb_offers buf' = (if cb_output_avail ?b < 0
      then Some (cb_output_dest (cb_put ?b p), cb_output_avail (cb_put ?b p)) else pb_offers buf)"
  proof (cases ps)
    case Nil
    with pending_cb [OF cb] pending_cb [OF put] show ?thesis
      by (simp add: pb_offers_def buf')
  next
    case (Cons q qs)
    with holds_first(2,3) [of ?b q qs] holds_first(2,3) [of "cb_put ?b p" q "qs @ [p]"] cb put
    show ?thesis
      by (simp add: pb_offers_def buf') (simp add: cb_put_def submit_fields fill_fields)
  qed
  ultimately show ?thesis
    using step d mtu
    by (auto simp: pb_input_handler_done_def Let_def store_is_fill buf' cb_put_def [symmetric]
        fill_fields pb_wants_def pb_offers_def)
qed

lemma pb_out_law:
  assumes holds: "pb_holds mtu num buf (p # ps)" and step: "pb_output_handler_done buf = (buf', cs)"
  shows "pb_holds mtu num buf' ps \<and> do_calls cs (pb_wants buf, None) = Some (pb_wants buf', pb_offers buf')"
proof -
  let ?b = "pb_buf buf" and ?b' = "ChunkBuffer2_ConsumePacket (pb_buf buf)"
  have cb: "cb_holds ?b (p # ps)" and mtu: "pb_input_mtu buf = int mtu"
    using holds by (auto simp: pb_holds_def)
  have buf': "buf' = buf\<lparr>pb_buf := ?b'\<rparr>"
    using step by (simp add: pb_output_handler_done_def Let_def)
  have "pb_holds mtu num buf' ps"
    using consume_holds [OF cb] holds by (auto simp: pb_holds_def buf' consume_fields)
  moreover have "pb_wants buf' = pb_wants buf" if "\<not> cb_input_avail ?b < int mtu"
  proof -
    have "cb_input_dest ?b \<noteq> None"
      using that cb_in_ok_avail(3) [OF cb] by auto
    with consume_keeps_dest [OF cb] that mtu show ?thesis
      by (auto simp: pb_wants_def buf')
  qed
  ultimately show ?thesis
    using step mtu
    by (auto simp: pb_output_handler_done_def Let_def buf' pb_wants_def pb_offers_def)
qed

lemma pb_offers_law:
  "pb_holds mtu num buf ps \<Longrightarrow> (case ps of [] \<Rightarrow> pb_offers buf = None
    | p # _ \<Rightarrow> \<exists>d n. pb_offers buf = Some (d, n) \<and> pb_load buf d n = p)"
proof (cases ps)
  case Nil
  assume "pb_holds mtu num buf ps"
  with Nil pending_cb [of "pb_buf buf" ps] show ?thesis
    by (simp add: pb_holds_def pb_offers_def)
next
  case (Cons q qs)
  assume "pb_holds mtu num buf ps"
  with Cons holds_first [of "pb_buf buf" q qs] show ?thesis
    by (simp add: pb_holds_def pb_offers_def pb_load_def cb_first_def)
qed

lemma pb_wants_empty: "pb_holds mtu num buf [] \<Longrightarrow> pb_wants buf \<noteq> None"
proof -
  assume holds: "pb_holds mtu num buf []"
  let ?b = "pb_buf buf"
  have cb: "cb_holds ?b []" and mtu: "pb_input_mtu buf = int mtu"
    "cb_mtu ?b = bdivide_up (int mtu) 4"
    using holds by (auto simp: pb_holds_def)
  have "cb_used ?b = 0" using holds_nil_iff [OF cb] by simp
  then have "bdivide_up (int mtu) 4 + 1 \<le> cb_free ?b"
    using holds_facts(1,4) [OF cb] mtu(2)
    by (auto simp: cb_free_def ChunkBuffer2_assert_buffer_def)
  moreover have "int mtu \<le> bdivide_up (int mtu) 4 * 4" "0 \<le> bdivide_up (int mtu) 4"
    using bdivide_up_ceiling [of 4 "int mtu"] by (simp_all add: bdivide_up_nonneg)
  ultimately show ?thesis
    using avail_free [OF cb] mtu(1) by (simp add: pb_wants_def)
qed

interpretation pb: packet_pipe mtu "pb_holds mtu num" pb_wants pb_offers pb_store pb_load
  pb_input_handler_done pb_output_handler_done for mtu num
  by unfold_locales
    (erule (3) pb_in_law | erule (1) pb_out_law | erule pb_offers_law | erule pb_wants_empty)+

lemma pb_room: "pb_holds mtu num buf ps \<Longrightarrow> int (length ps) < num \<Longrightarrow> pb_wants buf \<noteq> None"
  using room_below_capacity [of "pb_buf buf" ps "int mtu" num]
  by (simp add: pb_holds_def pb_wants_def)

lemma pb_init_holds:
  assumes malloc: "malloc_ok malloc" and num: "0 < num"
    and fits: "4 * ChunkBuffer2_calc_blocks (int mtu) num \<le> INT_MAX"
    and init: "PacketBuffer_Init malloc (int mtu) num = Some (buf, cs)"
  shows "pb_holds mtu num buf [] \<and> cs = [Receiver_Recv (cb_input_dest (pb_buf buf))]"
proof -
  let ?n = "ChunkBuffer2_calc_blocks (int mtu) num" and ?d = "bdivide_up (int mtu) 4"
  from init obtain m where n: "0 \<le> ?n" and m: "BAllocArray malloc ?n 4 = Some m"
    and buf: "buf = \<lparr>pb_input_mtu = int mtu, pb_buf = ChunkBuffer2_Init m ?n (int mtu)\<rparr>"
      "cs = [Receiver_Recv (cb_input_dest (pb_buf buf))]"
    by (auto simp: PacketBuffer_Init_def Let_def split: if_splits option.splits)
  have size: "?n = (1 + ?d) * (num + 1)"
    using n num by (simp add: calc_blocks_value split: if_splits)
  have d: "0 \<le> ?d" by (simp add: bdivide_up_nonneg)
  then have lt: "?d < ?n" using num by (simp add: size algebra_simps add_pos_nonneg)
  have "int (length m) = ?n * 4"
    using BAllocArray_size [OF malloc m] lt d by simp
  then have "cb_holds (ChunkBuffer2_Init m ?n (int mtu)) []"
    using init_holds [of "int mtu" ?n m] lt fits by simp
  then show ?thesis
    using buf size by (simp add: pb_holds_def ChunkBuffer2_Init_def)
qed

section \<open>SinglePacketBuffer keeps the contract of a pipe\<close>

text \<open>
  The object does not remember whether its packet is in flight; the second component
  tells, as the two interfaces do.
\<close>

type_synonym spb_state = "SinglePacketBuffer \<times> int option"

definition spb_in :: "spb_state \<Rightarrow> int \<Rightarrow> spb_state \<times> unit pipe_call list" where
  "spb_in s n = (case spb_input_handler_done (fst s) n of (o', cs) \<Rightarrow> ((o', Some n), cs))"

definition spb_out :: "spb_state \<Rightarrow> spb_state \<times> unit pipe_call list" where
  "spb_out s = (case spb_output_handler_done (fst s) of (o', cs) \<Rightarrow> ((o', None), cs))"

definition spb_store :: "spb_state \<Rightarrow> unit \<Rightarrow> bytes \<Rightarrow> spb_state" where
  "spb_store s d p = ((fst s)\<lparr>spb_buf := memcpy (spb_buf (fst s)) 0 p\<rparr>, snd s)"

definition spb_load :: "spb_state \<Rightarrow> unit \<Rightarrow> int \<Rightarrow> bytes" where
  "spb_load s d n = bslice (spb_buf (fst s)) 0 (nat n)"

definition spb_holds :: "nat \<Rightarrow> spb_state \<Rightarrow> bytes list \<Rightarrow> bool" where
  "spb_holds mtu s ps \<longleftrightarrow> mtu \<le> length (spb_buf (fst s)) \<and>
     (case snd s of None \<Rightarrow> ps = []
      | Some n \<Rightarrow> ps = [bslice (spb_buf (fst s)) 0 (nat n)] \<and> 0 \<le> n \<and> nat n \<le> mtu)"

definition spb_wants :: "spb_state \<Rightarrow> unit option" where
  "spb_wants s = (case snd s of None \<Rightarrow> Some () | Some n \<Rightarrow> None)"

definition spb_offers :: "spb_state \<Rightarrow> (unit \<times> int) option" where
  "spb_offers s = (case snd s of None \<Rightarrow> None | Some n \<Rightarrow> Some ((), n))"

lemmas spb_defs = spb_in_def spb_out_def spb_store_def spb_load_def spb_holds_def spb_wants_def
  spb_offers_def spb_input_handler_done_def spb_output_handler_done_def

lemma bslice_memcpy_start: "length p \<le> length xs \<Longrightarrow> bslice (memcpy xs 0 p) 0 (length p) = p"
  by (simp add: bslice_def memcpy_def)

interpretation spb: packet_pipe mtu "spb_holds mtu" spb_wants spb_offers spb_store spb_load
  spb_in spb_out for mtu
  by unfold_locales (auto simp: spb_defs bslice_memcpy_start split: option.splits list.splits)

section \<open>Properties\<close>

abbreviation pb_reach ::
  "nat \<Rightarrow> (PacketBuffer, int option) pipe \<Rightarrow> (PacketBuffer, int option) pipe \<Rightarrow> bool" where
  "pb_reach \<equiv> pipe_reach pb_store pb_load pb_input_handler_done pb_output_handler_done"

abbreviation pb_step ::
  "pipe_event \<Rightarrow> (PacketBuffer, int option) pipe \<Rightarrow> (PacketBuffer, int option) pipe option" where
  "pb_step \<equiv> pipe_step pb_store pb_load pb_input_handler_done pb_output_handler_done"

lemma pb_reach_ok:
  assumes "malloc_ok malloc" "0 < num" "4 * ChunkBuffer2_calc_blocks (int mtu) num \<le> INT_MAX"
    and "PacketBuffer_Init malloc (int mtu) num = Some (buf, cs)"
    and "pipe_start buf cs = Some s0" "pb_reach mtu s0 s"
  shows "pb.sys_ok mtu num s"
proof -
  from pb_init_holds [OF assms(1-4)] have h: "pb_holds mtu num buf []"
    and cs: "cs = [Receiver_Recv (cb_input_dest (pb_buf buf))]" by auto
  have "pb_wants buf = Some (cb_input_dest (pb_buf buf))"
    using pb_wants_empty [OF h] by (simp add: pb_wants_def split: if_splits)
  then have "pb.sys_ok mtu num s0"
    using pb.sys_ok_start [OF h, of cs] cs assms(5) by auto
  with assms(6) show ?thesis by (rule pb.sys_ok_reach)
qed

text \<open>C14. A packet buffer neither loses, duplicates, alters nor reorders packets, follows the
  protocol of its two interfaces and never stalls: in every state reachable from a
  successful \<^verbatim>\<open>PacketBuffer_Init\<close>, the packets received are the packets delivered followed
  by those buffered; an operation is outstanding on one of the interfaces; and the
  handler of every operation the environment may finish makes only calls the interfaces
  accept. The size of the buffer in bytes is assumed to be at most \<open>INT_MAX\<close>.
\<close>

theorem PacketBuffer_relays:
  assumes "malloc_ok malloc" "0 < num" "4 * ChunkBuffer2_calc_blocks (int mtu) num \<le> INT_MAX"
    and "PacketBuffer_Init malloc (int mtu) num = Some (buf, cs)"
    and "pipe_start buf cs = Some s0" "pb_reach mtu s0 s"
  shows "(\<exists>ps. cb_holds (pb_buf (p_obj s)) ps \<and> p_in s = p_out s @ ps) \<and>
    (p_recv s \<noteq> None \<or> p_send s \<noteq> None) \<and>
    (\<forall>e. pipe_enabled mtu e s \<longrightarrow> pb_step e s \<noteq> None)"
proof -
  note ok = pb_reach_ok [OF assms]
  have "\<exists>ps. cb_holds (pb_buf (p_obj s)) ps \<and> p_in s = p_out s @ ps"
    using pb.sys_ok_prefix [OF ok] by (auto simp: pb_holds_def)
  moreover have "\<forall>e. pipe_enabled mtu e s \<longrightarrow> pb_step e s \<noteq> None"
    using pb.sys_ok_event [OF ok] by fastforce
  ultimately show ?thesis using pb.sys_ok_live [OF ok] by simp
qed

definition zalloc :: allocator where
  "zalloc n = Some (replicate (nat n) 0)"

theorem PacketBuffer_relays_witness:
  "\<exists>buf cs s0 s. PacketBuffer_Init (\<lambda>n. if 0 \<le> n then zalloc n else None) 6 2 = Some (buf, cs) \<and>
     pipe_start buf cs = Some s0 \<and> pb_reach 6 s0 s \<and> p_in s = [[1, 2, 3, 4, 5]] \<and>
     (\<exists>ps. cb_holds (pb_buf (p_obj s)) ps \<and> p_in s = p_out s @ ps) \<and>
     (p_recv s \<noteq> None \<or> p_send s \<noteq> None) \<and> pb_step Output s \<noteq> None"
proof -
  let ?malloc = "\<lambda>n. if 0 \<le> n then zalloc n else None"
  define r where "r = the (PacketBuffer_Init ?malloc 6 2)"
  define s0 where "s0 = the (pipe_start (fst r) (snd r))"
  define s where "s = the (pb_step (Input [1, 2, 3, 4, 5]) s0)"
  have init: "PacketBuffer_Init ?malloc (int 6) 2 = Some (fst r, snd r)"
    unfolding r_def by code_simp
  have start: "pipe_start (fst r) (snd r) = Some s0"
    unfolding s0_def r_def by code_simp
  have step: "pb_step (Input [1, 2, 3, 4, 5]) s0 = Some s" "pipe_enabled 6 (Input [1, 2, 3, 4, 5]) s0"
    "pipe_enabled 6 Output s" "p_in s = [[1, 2, 3, 4, 5]]"
    unfolding s_def s0_def r_def by code_simp+
  have reach: "pb_reach 6 s0 s"
    using reach_step [OF reach_start step(2,1)] .
  have m: "malloc_ok ?malloc" by (simp add: malloc_ok_def zalloc_def)
  have fits: "4 * ChunkBuffer2_calc_blocks (int 6) 2 \<le> INT_MAX" by code_simp
  note all = PacketBuffer_relays [OF m _ fits init start reach, simplified]
  show ?thesis
    using all init start reach step(4) step(3)
    by (intro exI [of _ "fst r"] exI [of _ "snd r"] exI [of _ s0] exI [of _ s] conjI) auto
qed

text \<open>C25. A packet buffer initialised for \<open>num\<close> packets really holds that many: in every
  reachable state with fewer than \<open>num\<close> packets buffered, a receive for a packet of the
  full input MTU is outstanding. The size of the buffer in bytes is assumed to be at most \<open>INT_MAX\<close>.
\<close>

theorem PacketBuffer_capacity:
  assumes "malloc_ok malloc" "0 < num" "4 * ChunkBuffer2_calc_blocks (int mtu) num \<le> INT_MAX"
    and "PacketBuffer_Init malloc (int mtu) num = Some (buf, cs)"
    and "pipe_start buf cs = Some s0" "pb_reach mtu s0 s"
    and "int (length (p_in s)) - int (length (p_out s)) < num"
  shows "p_recv s = Some (cb_input_dest (pb_buf (p_obj s))) \<and>
    int mtu \<le> cb_input_avail (pb_buf (p_obj s))"
proof -
  from pb_reach_ok [OF assms(1-6)] obtain ps where
    ps: "pb_holds mtu num (p_obj s) ps" "p_recv s = pb_wants (p_obj s)" "p_in s = p_out s @ ps"
    by (auto simp: pb.sys_ok_def)
  with pb_room [OF ps(1)] assms(7) show ?thesis
    by (auto simp: pb_wants_def pb_holds_def split: if_splits)
qed

theorem PacketBuffer_capacity_witness:
  "\<exists>buf cs s0 s. PacketBuffer_Init (\<lambda>n. if 0 \<le> n then zalloc n else None) 6 2 = Some (buf, cs) \<and>
     pipe_start buf cs = Some s0 \<and> pb_reach 6 s0 s \<and> length (p_in s) = 1 \<and>
     p_recv s = Some (cb_input_dest (pb_buf (p_obj s))) \<and> 6 \<le> cb_input_avail (pb_buf (p_obj s))"
proof -
  let ?malloc = "\<lambda>n. if 0 \<le> n then zalloc n else None"
  define r where "r = the (PacketBuffer_Init ?malloc 6 2)"
  define s0 where "s0 = the (pipe_start (fst r) (snd r))"
  define s where "s = the (pb_step (Input [1, 2, 3, 4, 5, 6]) s0)"
  have init: "PacketBuffer_Init ?malloc (int 6) 2 = Some (fst r, snd r)"
    unfolding r_def by code_simp
  have start: "pipe_start (fst r) (snd r) = Some s0"
    unfolding s0_def r_def by code_simp
  have step: "pb_step (Input [1, 2, 3, 4, 5, 6]) s0 = Some s"
    "pipe_enabled 6 (Input [1, 2, 3, 4, 5, 6]) s0" "length (p_in s) = 1" "length (p_out s) = 0"
    unfolding s_def s0_def r_def by code_simp+
  have reach: "pb_reach 6 s0 s"
    using reach_step [OF reach_start step(2,1)] .
  have m: "malloc_ok ?malloc" by (simp add: malloc_ok_def zalloc_def)
  have fits: "4 * ChunkBuffer2_calc_blocks (int 6) 2 \<le> INT_MAX" by code_simp
  have few: "int (length (p_in s)) - int (length (p_out s)) < 2" using step by simp
  note all = PacketBuffer_capacity [OF m _ fits init start reach few, simplified]
  show ?thesis
    using all init start reach step(3)
    by (intro exI [of _ "fst r"] exI [of _ "snd r"] exI [of _ s0] exI [of _ s] conjI) auto
qed

text \<open>A single packet buffer alternates between receiving one packet and sending it: in
  every reachable state the packets received are those delivered followed by at most one
  in the buffer, exactly one of the two interfaces is in use, and no handler makes a call
  its interface refuses.
\<close>

theorem SinglePacketBuffer_relays:
  assumes "malloc_ok malloc" "SinglePacketBuffer_Init malloc (int mtu) = Some (b, cs)"
    and "pipe_start (b, None) cs = Some s0"
    and "pipe_reach spb_store spb_load spb_in spb_out mtu s0 s"
  shows "(\<exists>ps. length ps \<le> 1 \<and> p_in s = p_out s @ ps) \<and> (p_recv s = None) \<noteq> (p_send s = None) \<and>
    (\<forall>e. pipe_enabled mtu e s \<longrightarrow> pipe_step spb_store spb_load spb_in spb_out e s \<noteq> None)"
proof -
  have "mtu \<le> length (spb_buf b)" and cs: "cs = [Receiver_Recv ()]"
    using assms(1,2) by (auto simp: SinglePacketBuffer_Init_def BAlloc_def dest: malloc_okD
        split: option.splits if_splits)
  then have "spb_holds mtu (b, None) []" "spb_wants (b, None) = Some ()"
    by (simp_all add: spb_holds_def spb_wants_def)
  then have "spb.sys_ok mtu s0"
    using spb.sys_ok_start [of mtu "(b, None)" cs] cs assms(3) by auto
  with assms(4) have ok: "spb.sys_ok mtu s" by (rule spb.sys_ok_reach)
  then have "\<exists>ps. length ps \<le> 1 \<and> p_in s = p_out s @ ps" "(p_recv s = None) \<noteq> (p_send s = None)"
    by (auto simp: spb.sys_ok_def spb_holds_def spb_wants_def spb_offers_def split: option.splits)
  moreover have "\<forall>e. pipe_enabled mtu e s \<longrightarrow> pipe_step spb_store spb_load spb_in spb_out e s \<noteq> None"
    using spb.sys_ok_event [OF ok] by fastforce
  ultimately show ?thesis by blast
qed


end
