(* ===== verification/Linked_Lists.thy ===== *)
theory Linked_Lists
  imports Badvpn_Prelude
begin

text \<open>
  The intrusive doubly linked lists \<^verbatim>\<open>structure/LinkedList1.h\<close> and
  \<^verbatim>\<open>structure/SLinkedList_impl.h\<close> (with \<^verbatim>\<open>SLINKEDLIST_PARAM_FEATURE_LAST\<close> 0, as the job
  lists use it). Nodes are addresses of an arbitrary type; the pointers stored in them
  are functions on addresses and \<open>None\<close> is \<^verbatim>\<open>NULL\<close>. The locale \<open>linked_list\<close> is the
  contract their users rely on.
\<close>

section \<open>structure/LinkedList1.h\<close>

record 'n LinkedList1 =
  ll_p :: "'n \<Rightarrow> 'n option"
  ll_n :: "'n \<Rightarrow> 'n option"
  ll_first :: "'n option"
  ll_last :: "'n option"

definition LinkedList1_Init :: "'n LinkedList1 \<Rightarrow> 'n LinkedList1" where
  "LinkedList1_Init l = l\<lparr>ll_first := None, ll_last := None\<rparr>"

definition LinkedList1_IsEmpty :: "'n LinkedList1 \<Rightarrow> bool" where
  "LinkedList1_IsEmpty l = (ll_first l = None)"

definition LinkedList1_GetFirst :: "'n LinkedList1 \<Rightarrow> 'n option" where
  "LinkedList1_GetFirst l = ll_first l"

definition LinkedList1_GetLast :: "'n LinkedList1 \<Rightarrow> 'n option" where
  "LinkedList1_GetLast l = ll_last l"

definition set_p :: "'n \<Rightarrow> 'n option \<Rightarrow> 'n LinkedList1 \<Rightarrow> 'n LinkedList1" where
  "set_p x v l = l\<lparr>ll_p := (ll_p l)(x := v)\<rparr>"

definition set_n :: "'n \<Rightarrow> 'n option \<Rightarrow> 'n LinkedList1 \<Rightarrow> 'n LinkedList1" where
  "set_n x v l = l\<lparr>ll_n := (ll_n l)(x := v)\<rparr>"

definition LinkedList1_Prepend :: "'n LinkedList1 \<Rightarrow> 'n \<Rightarrow> 'n LinkedList1" where
  "LinkedList1_Prepend l x =
     (let l = set_p x None l;
          l = set_n x (ll_first l) l;
          l = (case ll_first l of Some f \<Rightarrow> set_p f (Some x) l | None \<Rightarrow> l\<lparr>ll_last := Some x\<rparr>)
      in l\<lparr>ll_first := Some x\<rparr>)"

definition LinkedList1_Append :: "'n LinkedList1 \<Rightarrow> 'n \<Rightarrow> 'n LinkedList1" where
  "LinkedList1_Append l x =
     (let l = set_p x (ll_last l) l;
          l = set_n x None l;
          l = (case ll_last l of Some e \<Rightarrow> set_n e (Some x) l | None \<Rightarrow> l\<lparr>ll_first := Some x\<rparr>)
      in l\<lparr>ll_last := Some x\<rparr>)"

definition LinkedList1_InsertBefore :: "'n LinkedList1 \<Rightarrow> 'n \<Rightarrow> 'n \<Rightarrow> 'n LinkedList1" where
  "LinkedList1_InsertBefore l x target =
     (let l = set_p x (ll_p l target) l;
          l = set_n x (Some target) l;
          l = (case ll_p l target of Some q \<Rightarrow> set_n q (Some x) l | None \<Rightarrow> l\<lparr>ll_first := Some x\<rparr>)
      in set_p target (Some x) l)"

definition LinkedList1_InsertAfter :: "'n LinkedList1 \<Rightarrow> 'n \<Rightarrow> 'n \<Rightarrow> 'n LinkedList1" where
  "LinkedList1_InsertAfter l x target =
     (let l = set_p x (Some target) l;
          l = set_n x (ll_n l target) l;
          l = (case ll_n l target of Some q \<Rightarrow> set_p q (Some x) l | None \<Rightarrow> l\<lparr>ll_last := Some x\<rparr>)
      in set_n target (Some x) l)"

definition LinkedList1_Remove :: "'n LinkedList1 \<Rightarrow> 'n \<Rightarrow> 'n LinkedList1" where
  "LinkedList1_Remove l x =
     (let l = (case ll_p l x of Some q \<Rightarrow> set_n q (ll_n l x) l | None \<Rightarrow> l\<lparr>ll_first := ll_n l x\<rparr>)
      in case ll_n l x of Some q \<Rightarrow> set_p q (ll_p l x) l | None \<Rightarrow> l\<lparr>ll_last := ll_p l x\<rparr>)"

text \<open>\<open>ins\<close> is the pair of ends of the list whose nodes are inserted.\<close>

definition LinkedList1_InsertListAfter ::
  "'n LinkedList1 \<Rightarrow> 'n option \<times> 'n option \<Rightarrow> 'n option \<Rightarrow> 'n LinkedList1" where
  "LinkedList1_InsertListAfter l ins target =
     (case ins of
        (Some f, Some e) \<Rightarrow>
          (let t_next = (case target of Some t \<Rightarrow> ll_n l t | None \<Rightarrow> ll_first l);
               l = set_p f target l;
               l = set_n e t_next l;
               l = (case target of Some t \<Rightarrow> set_n t (Some f) l | None \<Rightarrow> l\<lparr>ll_first := Some f\<rparr>)
           in case t_next of Some q \<Rightarrow> set_p q (Some e) l | None \<Rightarrow> l\<lparr>ll_last := Some e\<rparr>)
      | _ \<Rightarrow> l)"

definition LinkedList1Node_Next :: "'n LinkedList1 \<Rightarrow> 'n \<Rightarrow> 'n option" where
  "LinkedList1Node_Next l x = ll_n l x"

definition LinkedList1Node_Prev :: "'n LinkedList1 \<Rightarrow> 'n \<Rightarrow> 'n option" where
  "LinkedList1Node_Prev l x = ll_p l x"

section \<open>structure/SLinkedList\_impl.h\<close>

record 'n SLinkedList =
  sl_prev :: "'n \<Rightarrow> 'n option"
  sl_next :: "'n \<Rightarrow> 'n option"
  sl_first :: "'n option"

definition SLinkedListNext :: "'n SLinkedList \<Rightarrow> 'n \<Rightarrow> 'n option" where
  "SLinkedListNext l x = sl_next l x"

definition SLinkedListPrev :: "'n SLinkedList \<Rightarrow> 'n \<Rightarrow> 'n option" where
  "SLinkedListPrev l x = sl_prev l x"

definition SLinkedList_Init :: "'n SLinkedList \<Rightarrow> 'n SLinkedList" where
  "SLinkedList_Init l = l\<lparr>sl_first := None\<rparr>"

definition set_prev :: "'n \<Rightarrow> 'n option \<Rightarrow> 'n SLinkedList \<Rightarrow> 'n SLinkedList" where
  "set_prev x v l = l\<lparr>sl_prev := (sl_prev l)(x := v)\<rparr>"

definition set_next :: "'n \<Rightarrow> 'n option \<Rightarrow> 'n SLinkedList \<Rightarrow> 'n SLinkedList" where
  "set_next x v l = l\<lparr>sl_next := (sl_next l)(x := v)\<rparr>"

definition SLinkedList_Prepend :: "'n SLinkedList \<Rightarrow> 'n \<Rightarrow> 'n SLinkedList" where
  "SLinkedList_Prepend l x =
     (let l = set_prev x None l;
          l = set_next x (sl_first l) l;
          l = (case sl_first l of Some f \<Rightarrow> set_prev f (Some x) l | None \<Rightarrow> l)
      in l\<lparr>sl_first := Some x\<rparr>)"

definition SLinkedList_InsertBefore :: "'n SLinkedList \<Rightarrow> 'n \<Rightarrow> 'n \<Rightarrow> 'n SLinkedList" where
  "SLinkedList_InsertBefore l x before =
     (let l = set_prev x (sl_prev l before) l;
          l = set_next x (Some before) l;
          l = (case sl_prev l before of Some q \<Rightarrow> set_next q (Some x) l | None \<Rightarrow> l\<lparr>sl_first := Some x\<rparr>)
      in set_prev before (Some x) l)"

definition SLinkedList_InsertAfter :: "'n SLinkedList \<Rightarrow> 'n \<Rightarrow> 'n \<Rightarrow> 'n SLinkedList" where
  "SLinkedList_InsertAfter l x after =
     (let l = set_next x (sl_next l after) l;
          l = set_prev x (Some after) l;
          l = (case sl_next l after of Some q \<Rightarrow> set_prev q (Some x) l | None \<Rightarrow> l)
      in set_next after (Some x) l)"

definition SLinkedList_Remove :: "'n SLinkedList \<Rightarrow> 'n \<Rightarrow> 'n SLinkedList" where
  "SLinkedList_Remove l x =
     (let l = (case sl_prev l x of Some q \<Rightarrow> set_next q (sl_next l x) l
               | None \<Rightarrow> l\<lparr>sl_first := sl_next l x\<rparr>)
      in case sl_next l x of Some q \<Rightarrow> set_prev q (sl_prev l x) l | None \<Rightarrow> l)"

definition SLinkedList_First :: "'n SLinkedList \<Rightarrow> 'n option" where
  "SLinkedList_First l = sl_first l"

definition SLinkedList_IsEmpty :: "'n SLinkedList \<Rightarrow> bool" where
  "SLinkedList_IsEmpty l = (sl_first l = None)"

section \<open>Chains of nodes\<close>

text \<open>
  \<open>dseg p n u xs w\<close>: the nodes \<open>xs\<close> are linked both ways, the pointer before the first is
  \<open>u\<close> and the one after the last is \<open>w\<close>.
\<close>

definition hd_or :: "'n list \<Rightarrow> 'n option \<Rightarrow> 'n option" where
  "hd_or xs w = (case xs of [] \<Rightarrow> w | x # _ \<Rightarrow> Some x)"

definition last_or :: "'n option \<Rightarrow> 'n list \<Rightarrow> 'n option" where
  "last_or u xs = (if xs = [] then u else Some (last xs))"

fun dseg :: "('n \<Rightarrow> 'n option) \<Rightarrow> ('n \<Rightarrow> 'n option) \<Rightarrow> 'n option \<Rightarrow> 'n list \<Rightarrow> 'n option \<Rightarrow> bool" where
  "dseg p n u [] w \<longleftrightarrow> True"
| "dseg p n u (x # xs) w \<longleftrightarrow> p x = u \<and> n x = hd_or xs w \<and> dseg p n (Some x) xs w"

lemma hd_or_simps [simp]:
  "hd_or [] w = w" "hd_or (x # xs) w = Some x" "hd_or (xs @ ys) w = hd_or xs (hd_or ys w)"
  by (auto simp: hd_or_def split: list.split)

lemma last_or_simps [simp]:
  "last_or u [] = u" "last_or u (x # xs) = last_or (Some x) xs"
  "last_or u (xs @ ys) = last_or (last_or u xs) ys"
  by (auto simp: last_or_def)

lemma dseg_append:
  "dseg p n u (xs @ ys) w \<longleftrightarrow> dseg p n u xs (hd_or ys w) \<and> dseg p n (last_or u xs) ys w"
  by (induction xs arbitrary: u) auto

lemma dseg_frame:
  "x \<notin> set xs \<Longrightarrow> dseg (p(x := v)) n u xs w = dseg p n u xs w"
  "x \<notin> set xs \<Longrightarrow> dseg p (n(x := v)) u xs w = dseg p n u xs w"
  by (induction xs arbitrary: u) auto

lemma dseg_set_first:
  "y \<notin> set ys \<Longrightarrow> dseg p n u (y # ys) w \<Longrightarrow> dseg (p(y := v)) n v (y # ys) w"
  by (simp add: dseg_frame)

lemma dseg_set_last:
  "distinct (ys @ [y]) \<Longrightarrow> dseg p n u (ys @ [y]) w \<Longrightarrow> dseg p (n(y := v)) u (ys @ [y]) v"
  by (simp add: dseg_append dseg_frame)

lemma snoc_cases: obtains "xs = []" | ys y where "xs = ys @ [y]"
  by (cases xs rule: rev_cases) auto

definition ll_rep :: "'n LinkedList1 \<Rightarrow> 'n list \<Rightarrow> bool" where
  "ll_rep l xs \<longleftrightarrow> distinct xs \<and> dseg (ll_p l) (ll_n l) None xs None \<and>
     ll_first l = hd_or xs None \<and> ll_last l = last_or None xs"

definition sl_rep :: "'n SLinkedList \<Rightarrow> 'n list \<Rightarrow> bool" where
  "sl_rep l xs \<longleftrightarrow> distinct xs \<and> dseg (sl_prev l) (sl_next l) None xs None \<and>
     sl_first l = hd_or xs None"

section \<open>The operations act as list operations\<close>

lemmas ll_defs = ll_rep_def set_p_def set_n_def Let_def dseg_append dseg_frame
lemmas sl_defs = sl_rep_def set_prev_def set_next_def Let_def dseg_append dseg_frame

lemma ll_prepend: "ll_rep l xs \<Longrightarrow> x \<notin> set xs \<Longrightarrow> ll_rep (LinkedList1_Prepend l x) (x # xs)"
  by (cases xs) (auto simp: LinkedList1_Prepend_def ll_defs)

lemma ll_append: "ll_rep l xs \<Longrightarrow> x \<notin> set xs \<Longrightarrow> ll_rep (LinkedList1_Append l x) (xs @ [x])"
  by (cases xs rule: rev_cases) (auto simp: LinkedList1_Append_def ll_defs)

lemma ll_insert_before:
  "ll_rep l (xs @ t # ys) \<Longrightarrow> x \<notin> set (xs @ t # ys) \<Longrightarrow>
    ll_rep (LinkedList1_InsertBefore l x t) (xs @ x # t # ys)"
  by (cases xs rule: rev_cases) (auto simp: LinkedList1_InsertBefore_def ll_defs)

lemma ll_insert_after:
  "ll_rep l (xs @ t # ys) \<Longrightarrow> x \<notin> set (xs @ t # ys) \<Longrightarrow>
    ll_rep (LinkedList1_InsertAfter l x t) (xs @ t # x # ys)"
  by (cases ys) (auto simp: LinkedList1_InsertAfter_def ll_defs)

lemma ll_remove: "ll_rep l (xs @ x # ys) \<Longrightarrow> ll_rep (LinkedList1_Remove l x) (xs @ ys)"
  by (cases xs rule: rev_cases; cases ys) (auto simp: LinkedList1_Remove_def ll_defs)

lemma ll_insert_list_after:
  assumes "ll_rep l (xs @ ys)" "distinct (xs @ zs @ ys)" "dseg (ll_p l) (ll_n l) u zs w"
    "target = last_or None xs"
  shows "ll_rep (LinkedList1_InsertListAfter l (hd_or zs None, last_or None zs) target) (xs @ zs @ ys)"
proof (cases zs)
  case Nil
  with assms show ?thesis by (simp add: LinkedList1_InsertListAfter_def)
next
  case zs: (Cons z ms)
  show ?thesis
  proof (cases ms rule: rev_cases)
    case Nil
    with zs assms show ?thesis
      by (cases xs rule: rev_cases; cases ys) (auto simp: LinkedList1_InsertListAfter_def ll_defs)
  next
    case (snoc ns e)
    with zs assms show ?thesis
      by (cases xs rule: rev_cases; cases ys) (auto simp: LinkedList1_InsertListAfter_def ll_defs)
  qed
qed

lemma sl_prepend: "sl_rep l xs \<Longrightarrow> x \<notin> set xs \<Longrightarrow> sl_rep (SLinkedList_Prepend l x) (x # xs)"
  by (cases xs) (auto simp: SLinkedList_Prepend_def sl_defs)

lemma sl_insert_before:
  "sl_rep l (xs @ t # ys) \<Longrightarrow> x \<notin> set (xs @ t # ys) \<Longrightarrow>
    sl_rep (SLinkedList_InsertBefore l x t) (xs @ x # t # ys)"
  by (cases xs rule: rev_cases) (auto simp: SLinkedList_InsertBefore_def sl_defs)

lemma sl_insert_after:
  "sl_rep l (xs @ t # ys) \<Longrightarrow> x \<notin> set (xs @ t # ys) \<Longrightarrow>
    sl_rep (SLinkedList_InsertAfter l x t) (xs @ t # x # ys)"
  by (cases ys) (auto simp: SLinkedList_InsertAfter_def sl_defs)

lemma sl_remove: "sl_rep l (xs @ x # ys) \<Longrightarrow> sl_rep (SLinkedList_Remove l x) (xs @ ys)"
  by (cases xs rule: rev_cases; cases ys) (auto simp: SLinkedList_Remove_def sl_defs)

section \<open>The contract of an intrusive list\<close>

locale linked_list =
  fixes rep :: "'s \<Rightarrow> 'n list \<Rightarrow> bool"
    and first :: "'s \<Rightarrow> 'n option"
    and nxt :: "'s \<Rightarrow> 'n \<Rightarrow> 'n option"
    and prv :: "'s \<Rightarrow> 'n \<Rightarrow> 'n option"
    and prepend :: "'s \<Rightarrow> 'n \<Rightarrow> 's"
    and insert_before :: "'s \<Rightarrow> 'n \<Rightarrow> 'n \<Rightarrow> 's"
    and insert_after :: "'s \<Rightarrow> 'n \<Rightarrow> 'n \<Rightarrow> 's"
    and remove :: "'s \<Rightarrow> 'n \<Rightarrow> 's"
  assumes rep_distinct: "rep s xs \<Longrightarrow> distinct xs"
    and first_law: "rep s xs \<Longrightarrow> first s = hd_or xs None"
    and next_law: "rep s (xs @ x # ys) \<Longrightarrow> nxt s x = hd_or ys None"
    and prev_law: "rep s (xs @ x # ys) \<Longrightarrow> prv s x = last_or None xs"
    and prepend_law: "rep s xs \<Longrightarrow> x \<notin> set xs \<Longrightarrow> rep (prepend s x) (x # xs)"
    and insert_before_law: "rep s (xs @ t # ys) \<Longrightarrow> x \<notin> set (xs @ t # ys) \<Longrightarrow>
      rep (insert_before s x t) (xs @ x # t # ys)"
    and insert_after_law: "rep s (xs @ t # ys) \<Longrightarrow> x \<notin> set (xs @ t # ys) \<Longrightarrow>
      rep (insert_after s x t) (xs @ t # x # ys)"
    and remove_law: "rep s (xs @ x # ys) \<Longrightarrow> rep (remove s x) (xs @ ys)"
begin

lemma remove1_law: "rep s xs \<Longrightarrow> x \<in> set xs \<Longrightarrow> rep (remove s x) (remove1 x xs)"
proof -
  assume rep: "rep s xs" and "x \<in> set xs"
  then obtain as bs where xs: "xs = as @ x # bs" by (meson split_list)
  with rep_distinct [OF rep] have "remove1 x xs = as @ bs" by (simp add: remove1_append)
  with remove_law [of s as x bs] rep xs show ?thesis by simp
qed

text \<open>Taking a node out and putting it in front, the way a job is set again.\<close>

lemma move_front:
  "rep s xs \<Longrightarrow> x \<in> set xs \<Longrightarrow> rep (prepend (remove s x) x) (x # remove1 x xs)"
  using rep_distinct by (intro prepend_law remove1_law) auto

lemma first_empty: "rep s xs \<Longrightarrow> first s = None \<longleftrightarrow> xs = []"
  by (simp add: first_law hd_or_def split: list.split)

text \<open>Following \<open>nxt\<close> from the first node visits the nodes in list order.\<close>

lemma next_nth:
  assumes "rep s xs" "i < length xs"
  shows "nxt s (xs ! i) = (if Suc i < length xs then Some (xs ! Suc i) else None)"
proof -
  have "rep s (take i xs @ xs ! i # drop (Suc i) xs)"
    using assms by (simp add: id_take_nth_drop [symmetric])
  from next_law [OF this] show ?thesis
    using assms(2) by (cases "Suc i < length xs") (simp_all add: hd_or_def Cons_nth_drop_Suc [symmetric])
qed

end

locale linked_list_last = linked_list +
  fixes last_of :: "'s \<Rightarrow> 'n option"
    and append_to :: "'s \<Rightarrow> 'n \<Rightarrow> 's"
  assumes last_law: "rep s xs \<Longrightarrow> last_of s = last_or None xs"
    and append_law: "rep s xs \<Longrightarrow> x \<notin> set xs \<Longrightarrow> rep (append_to s x) (xs @ [x])"
begin

lemma append_last: "rep s xs \<Longrightarrow> x \<notin> set xs \<Longrightarrow> last_of (append_to s x) = Some x"
  using last_law [OF append_law] by simp

text \<open>A list used as a queue: append at the end, remove at the front.\<close>

lemma queue_step:
  "rep s (y # xs) \<Longrightarrow> x \<notin> set (y # xs) \<Longrightarrow> rep (remove (append_to s x) y) (xs @ [x])"
  using append_law [of s "y # xs" x] remove_law [of "append_to s x" "[]" y "xs @ [x]"] by simp

end

lemma sl_reads:
  "sl_rep l xs \<Longrightarrow> distinct xs" "sl_rep l xs \<Longrightarrow> SLinkedList_First l = hd_or xs None"
  "sl_rep l (ys @ x # zs) \<Longrightarrow> SLinkedListNext l x = hd_or zs None"
  "sl_rep l (ys @ x # zs) \<Longrightarrow> SLinkedListPrev l x = last_or None ys"
  by (simp_all add: sl_rep_def SLinkedList_First_def SLinkedListNext_def SLinkedListPrev_def
      dseg_append)

lemma ll_reads:
  "ll_rep l xs \<Longrightarrow> distinct xs" "ll_rep l xs \<Longrightarrow> LinkedList1_GetFirst l = hd_or xs None"
  "ll_rep l xs \<Longrightarrow> LinkedList1_GetLast l = last_or None xs"
  "ll_rep l (ys @ x # zs) \<Longrightarrow> LinkedList1Node_Next l x = hd_or zs None"
  "ll_rep l (ys @ x # zs) \<Longrightarrow> LinkedList1Node_Prev l x = last_or None ys"
  by (simp_all add: ll_rep_def LinkedList1_GetFirst_def LinkedList1_GetLast_def
      LinkedList1Node_Next_def LinkedList1Node_Prev_def dseg_append)

interpretation sl: linked_list sl_rep SLinkedList_First SLinkedListNext SLinkedListPrev
  SLinkedList_Prepend SLinkedList_InsertBefore SLinkedList_InsertAfter SLinkedList_Remove
  by unfold_locales (rule sl_reads sl_prepend sl_insert_before sl_insert_after sl_remove; assumption)+

interpretation ll: linked_list_last ll_rep LinkedList1_GetFirst LinkedList1Node_Next
  LinkedList1Node_Prev LinkedList1_Prepend LinkedList1_InsertBefore LinkedList1_InsertAfter
  LinkedList1_Remove LinkedList1_GetLast LinkedList1_Append
  by unfold_locales
    (rule ll_reads ll_prepend ll_append ll_insert_before ll_insert_after ll_remove; assumption)+

lemma ll_init: "ll_rep (LinkedList1_Init l) []"
  by (simp add: ll_rep_def LinkedList1_Init_def)

lemma ll_is_empty: "ll_rep l xs \<Longrightarrow> LinkedList1_IsEmpty l \<longleftrightarrow> xs = []"
  using ll.first_empty [of l xs] by (simp add: LinkedList1_IsEmpty_def LinkedList1_GetFirst_def)

lemma or_ends: "hd_or xs None = (if xs = [] then None else Some (hd xs))" "last_or None xs = (if xs = [] then None else Some (last xs))"
  by (simp_all add: hd_or_def last_or_def split: list.split)

text \<open>C22. The pointer manipulations of the doubly linked list implement the list operations. Initialising gives the empty
  list, from any garbage. On a well-linked list of distinct nodes, empty or not, the ends and the emptiness are those of
  the list, and prepending and appending a node give the expected list. At every node, its neighbours are read, and inserting
  before it, inserting after it and removing it give the expected list. At every place, the front included, a chain of further nodes
  is inserted as a whole.
\<close>

theorem LinkedList1_refines:
  assumes "ll_rep l xs" "x \<notin> set xs"
  shows "ll_rep (LinkedList1_Init l') [] \<and> (LinkedList1_IsEmpty l \<longleftrightarrow> xs = []) \<and>
    LinkedList1_GetFirst l = (if xs = [] then None else Some (hd xs)) \<and>
    LinkedList1_GetLast l = (if xs = [] then None else Some (last xs)) \<and>
    ll_rep (LinkedList1_Prepend l x) (x # xs) \<and> ll_rep (LinkedList1_Append l x) (xs @ [x]) \<and>
    (\<forall>as t bs. xs = as @ t # bs \<longrightarrow>
      LinkedList1Node_Next l t = (if bs = [] then None else Some (hd bs)) \<and>
      LinkedList1Node_Prev l t = (if as = [] then None else Some (last as)) \<and>
      ll_rep (LinkedList1_InsertBefore l x t) (as @ x # t # bs) \<and>
      ll_rep (LinkedList1_InsertAfter l x t) (as @ t # x # bs) \<and>
      ll_rep (LinkedList1_Remove l t) (as @ bs)) \<and>
    (\<forall>as bs zs u w. xs = as @ bs \<and> dseg (ll_p l) (ll_n l) u zs w \<and> distinct (xs @ zs) \<longrightarrow>
      ll_rep (LinkedList1_InsertListAfter l (if zs = [] then (None, None) else (Some (hd zs), Some (last zs)))
        (if as = [] then None else Some (last as))) (as @ zs @ bs))"
proof (intro conjI allI impI)
  fix as t bs
  assume xs: "xs = as @ t # bs"
  note rep = assms(1) [unfolded xs] and new = assms(2) [unfolded xs]
  show "LinkedList1Node_Next l t = (if bs = [] then None else Some (hd bs))"
    "LinkedList1Node_Prev l t = (if as = [] then None else Some (last as))"
    using ll.next_law [OF rep] ll.prev_law [OF rep] by (simp_all only: or_ends)
  show "ll_rep (LinkedList1_InsertBefore l x t) (as @ x # t # bs)" "ll_rep (LinkedList1_InsertAfter l x t) (as @ t # x # bs)"
    "ll_rep (LinkedList1_Remove l t) (as @ bs)"
    by (rule ll.insert_before_law [OF rep new] ll.insert_after_law [OF rep new] ll.remove_law [OF rep])+
next
  fix as bs zs u w
  assume *: "xs = as @ bs \<and> dseg (ll_p l) (ll_n l) u zs w \<and> distinct (xs @ zs)"
  then have "distinct (as @ zs @ bs)" by auto
  then have "ll_rep (LinkedList1_InsertListAfter l (hd_or zs None, last_or None zs) (last_or None as)) (as @ zs @ bs)"
    using ll_insert_list_after [of l as bs zs u w] assms(1) * by simp
  then show "ll_rep (LinkedList1_InsertListAfter l (if zs = [] then (None, None) else (Some (hd zs), Some (last zs)))
        (if as = [] then None else Some (last as))) (as @ zs @ bs)"
    by (simp add: or_ends split: if_splits)
qed (use assms in \<open>simp_all add: ll_init ll_is_empty ll.first_law ll.last_law ll.prepend_law ll.append_law or_ends\<close>)

definition ll_example :: "nat LinkedList1" where
  "ll_example = LinkedList1_Append (LinkedList1_Append
     \<lparr>ll_p = (\<lambda>_. None), ll_n = (\<lambda>_. None), ll_first = None, ll_last = None\<rparr> 1) 2"

theorem LinkedList1_refines_witness:
  "ll_rep (LinkedList1_Remove ll_example 2) [1] \<and> LinkedList1_GetLast ll_example = Some 2 \<and>
   ll_rep (LinkedList1_InsertListAfter ll_example (Some 5, Some 5) None) [5, 1, 2] \<and>
   ll_rep (LinkedList1_Append (LinkedList1_Init ll_example) 3) [3]"
proof -
  have init: "ll_rep (LinkedList1_Init ll_example) []" by (rule ll_init)
  have rep: "ll_rep ll_example [1, 2]"
    unfolding ll_example_def by (simp add: LinkedList1_Append_def ll_defs)
  have five: "dseg (ll_p ll_example) (ll_n ll_example) None [5] None"
    unfolding ll_example_def by (simp add: LinkedList1_Append_def set_p_def set_n_def Let_def)
  have three: "3 \<notin> set [1, 2 :: nat]" by simp
  note rest = LinkedList1_refines [OF rep three, of ll_example, THEN conjunct2, THEN conjunct2, THEN conjunct2]
  note nodes = rest [THEN conjunct2, THEN conjunct2, THEN conjunct2]
  have "LinkedList1_GetLast ll_example = Some 2" using rest [THEN conjunct1] by simp
  moreover have "ll_rep (LinkedList1_Remove ll_example 2) [1]"
    using nodes [THEN conjunct1, rule_format, of "[1]" 2 "[]"] by simp
  moreover have "ll_rep (LinkedList1_InsertListAfter ll_example (Some 5, Some 5) None) [5, 1, 2]"
    using nodes [THEN conjunct2, rule_format, of "[]" "[1, 2]" None "[5]" None] five by simp
  moreover have "ll_rep (LinkedList1_Append (LinkedList1_Init ll_example) 3) [3]"
    using LinkedList1_refines [OF init, of 3 ll_example] by simp
  ultimately show ?thesis by blast
qed

end
