(* ===== verification/Pending_Jobs.thy ===== *)
theory Pending_Jobs
  imports Linked_Lists
begin

text \<open>
  The job queue \<^verbatim>\<open>base/BPending.c\<close> that every asynchronous object schedules its work on. A
  group is its job list together with the list nodes inside the job objects; a job that
  is not pending has its \<^verbatim>\<open>next\<close> pointer on itself. The locale \<open>job_stack\<close> is the contract:
  a group is a stack of distinct jobs.
\<close>

section \<open>Operations\<close>

record 'j BPendingGroup =
  bg_jobs :: "'j SLinkedList"

definition BPendingGroup_Init :: "'j BPendingGroup \<Rightarrow> 'j BPendingGroup" where
  "BPendingGroup_Init g = g\<lparr>bg_jobs := SLinkedList_Init (bg_jobs g)\<rparr>"

definition BPendingGroup_HasJobs :: "'j BPendingGroup \<Rightarrow> bool" where
  "BPendingGroup_HasJobs g \<longleftrightarrow> \<not> SLinkedList_IsEmpty (bg_jobs g)"

text \<open>
  \<open>BPendingGroup_ExecuteJob\<close> returns the job whose handler is called last thing; \<open>None\<close>
  when the assertion that there is a job fails.
\<close>

definition BPendingGroup_ExecuteJob :: "'j BPendingGroup \<Rightarrow> ('j \<times> 'j BPendingGroup) option" where
  "BPendingGroup_ExecuteJob g = (case SLinkedList_First (bg_jobs g) of
     None \<Rightarrow> None
   | Some p \<Rightarrow>
       (let g = g\<lparr>bg_jobs := SLinkedList_Remove (bg_jobs g) p\<rparr>;
            g = g\<lparr>bg_jobs := set_next p (Some p) (bg_jobs g)\<rparr>
        in Some (p, g)))"

definition BPendingGroup_PeekJob :: "'j BPendingGroup \<Rightarrow> 'j option" where
  "BPendingGroup_PeekJob g = SLinkedList_First (bg_jobs g)"

definition BSmallPending_Init :: "'j \<Rightarrow> 'j BPendingGroup \<Rightarrow> 'j BPendingGroup" where
  "BSmallPending_Init j g = g\<lparr>bg_jobs := set_next j (Some j) (bg_jobs g)\<rparr>"

definition BSmallPending_Free :: "'j \<Rightarrow> 'j BPendingGroup \<Rightarrow> 'j BPendingGroup" where
  "BSmallPending_Free j g =
     (if sl_next (bg_jobs g) j \<noteq> Some j then g\<lparr>bg_jobs := SLinkedList_Remove (bg_jobs g) j\<rparr> else g)"

definition BSmallPending_Set :: "'j \<Rightarrow> 'j BPendingGroup \<Rightarrow> 'j BPendingGroup" where
  "BSmallPending_Set j g =
     (let g = (if sl_next (bg_jobs g) j \<noteq> Some j
               then g\<lparr>bg_jobs := SLinkedList_Remove (bg_jobs g) j\<rparr> else g)
      in g\<lparr>bg_jobs := SLinkedList_Prepend (bg_jobs g) j\<rparr>)"

definition BSmallPending_Unset :: "'j \<Rightarrow> 'j BPendingGroup \<Rightarrow> 'j BPendingGroup" where
  "BSmallPending_Unset j g =
     (if sl_next (bg_jobs g) j \<noteq> Some j
      then (let g = g\<lparr>bg_jobs := SLinkedList_Remove (bg_jobs g) j\<rparr>
            in g\<lparr>bg_jobs := set_next j (Some j) (bg_jobs g)\<rparr>)
      else g)"

definition BSmallPending_IsSet :: "'j \<Rightarrow> 'j BPendingGroup \<Rightarrow> bool" where
  "BSmallPending_IsSet j g \<longleftrightarrow> sl_next (bg_jobs g) j \<noteq> Some j"

definition BPending_Init :: "'j \<Rightarrow> 'j BPendingGroup \<Rightarrow> 'j BPendingGroup" where
  "BPending_Init j g = BSmallPending_Init j g"

definition BPending_Free :: "'j \<Rightarrow> 'j BPendingGroup \<Rightarrow> 'j BPendingGroup" where
  "BPending_Free j g = BSmallPending_Free j g"

definition BPending_Set :: "'j \<Rightarrow> 'j BPendingGroup \<Rightarrow> 'j BPendingGroup" where
  "BPending_Set j g = BSmallPending_Set j g"

definition BPending_Unset :: "'j \<Rightarrow> 'j BPendingGroup \<Rightarrow> 'j BPendingGroup" where
  "BPending_Unset j g = BSmallPending_Unset j g"

definition BPending_IsSet :: "'j \<Rightarrow> 'j BPendingGroup \<Rightarrow> bool" where
  "BPending_IsSet j g \<longleftrightarrow> BSmallPending_IsSet j g"

section \<open>The pending jobs of a group\<close>

text \<open>\<open>bp_ok I g xs\<close>: the jobs initialised are \<open>I\<close>, those pending are \<open>xs\<close>, first to run first.\<close>

definition bp_ok :: "'j set \<Rightarrow> 'j BPendingGroup \<Rightarrow> 'j list \<Rightarrow> bool" where
  "bp_ok I g xs \<longleftrightarrow> sl_rep (bg_jobs g) xs \<and> set xs \<subseteq> I \<and>
     (\<forall>j \<in> I. sl_next (bg_jobs g) j \<noteq> Some j \<longleftrightarrow> j \<in> set xs)"

lemma sl_next_self: "sl_rep l xs \<Longrightarrow> j \<in> set xs \<Longrightarrow> sl_next l j \<noteq> Some j"
proof -
  assume rep: "sl_rep l xs" and "j \<in> set xs"
  then obtain as bs where xs: "xs = as @ j # bs" by (meson split_list)
  with rep have "sl_next l j = hd_or bs None" "j \<notin> set bs"
    by (auto simp: sl_rep_def dseg_append)
  then show ?thesis by (cases bs) auto
qed

lemma sl_remove_frame:
  assumes "sl_rep l xs" "x \<in> set xs" "j \<notin> set xs"
  shows "sl_next (SLinkedList_Remove l x) j = sl_next l j"
proof -
  obtain as bs where xs: "xs = as @ x # bs" using assms(2) by (meson split_list)
  with assms(1) have "sl_prev l x = last_or None as" by (simp add: sl_rep_def dseg_append)
  with assms(3) xs show ?thesis
    by (cases as rule: rev_cases)
      (auto simp: SLinkedList_Remove_def set_next_def set_prev_def Let_def split: option.splits)
qed

lemma sl_prepend_frame: "j \<noteq> x \<Longrightarrow> sl_next (SLinkedList_Prepend l x) j = sl_next l j"
  by (simp add: SLinkedList_Prepend_def set_next_def set_prev_def Let_def split: option.splits)

lemma sl_set_next_frame: "x \<notin> set xs \<Longrightarrow> sl_rep (set_next x v l) xs = sl_rep l xs"
  by (simp add: sl_rep_def set_next_def dseg_frame)

lemma bp_prepend:
  assumes "bp_ok I g xs" "j \<in> I" "j \<notin> set xs"
  shows "bp_ok I (g\<lparr>bg_jobs := SLinkedList_Prepend (bg_jobs g) j\<rparr>) (j # xs)"
proof -
  have rep: "sl_rep (SLinkedList_Prepend (bg_jobs g) j) (j # xs)"
    using assms by (auto simp: bp_ok_def intro: sl.prepend_law)
  with assms sl_next_self [OF rep] show ?thesis
    by (auto simp: bp_ok_def) (metis sl_prepend_frame)+
qed

lemma bp_remove:
  assumes "bp_ok I g xs" "j \<in> set xs"
  shows "bp_ok (I - {j}) (g\<lparr>bg_jobs := SLinkedList_Remove (bg_jobs g) j\<rparr>) (remove1 j xs)"
    "bp_ok I (g\<lparr>bg_jobs := set_next j (Some j) (SLinkedList_Remove (bg_jobs g) j)\<rparr>) (remove1 j xs)"
proof -
  let ?l = "SLinkedList_Remove (bg_jobs g) j"
  have rep: "sl_rep (bg_jobs g) xs" and d: "distinct xs"
    using assms(1) by (auto simp: bp_ok_def sl.rep_distinct)
  have rep': "sl_rep ?l (remove1 j xs)" using sl.remove1_law [OF rep assms(2)] .
  have "sl_next ?l i \<noteq> Some i \<longleftrightarrow> i \<in> set (remove1 j xs)" if "i \<in> I" "i \<noteq> j" for i
    using that assms d sl_next_self [OF rep', of i] sl_remove_frame [OF rep assms(2), of i]
    by (cases "i \<in> set xs") (auto simp: bp_ok_def)
  with rep' d assms show "bp_ok (I - {j}) (g\<lparr>bg_jobs := ?l\<rparr>) (remove1 j xs)"
    "bp_ok I (g\<lparr>bg_jobs := set_next j (Some j) ?l\<rparr>) (remove1 j xs)"
    by (auto simp: bp_ok_def sl_set_next_frame) (auto simp: set_next_def split: if_splits)
qed

lemma bp_weaken: "bp_ok I g xs \<Longrightarrow> set xs \<subseteq> J \<Longrightarrow> J \<subseteq> I \<Longrightarrow> bp_ok J g xs"
  by (auto simp: bp_ok_def)

lemma bp_pending: "bp_ok I g xs \<Longrightarrow> j \<in> I \<Longrightarrow> sl_next (bg_jobs g) j \<noteq> Some j \<longleftrightarrow> j \<in> set xs"
  by (simp add: bp_ok_def)

lemma bp_set: "bp_ok I g xs \<Longrightarrow> j \<in> I \<Longrightarrow> bp_ok I (BPending_Set j g) (j # remove1 j xs)"
proof -
  assume ok: "bp_ok I g xs" and j: "j \<in> I"
  have d: "distinct xs" using ok by (auto simp: bp_ok_def sl.rep_distinct)
  show ?thesis
  proof (cases "j \<in> set xs")
    case True
    let ?l = "SLinkedList_Prepend (SLinkedList_Remove (bg_jobs g) j) j"
    have rep: "sl_rep ?l (j # remove1 j xs)"
      using sl.move_front [OF _ True] ok by (simp add: bp_ok_def)
    have "bp_ok (I - {j}) (g\<lparr>bg_jobs := SLinkedList_Remove (bg_jobs g) j\<rparr>) (remove1 j xs)"
      using bp_remove(1) [OF ok True] .
    then have "bp_ok I (g\<lparr>bg_jobs := ?l\<rparr>) (j # remove1 j xs)"
      using rep j sl_next_self [OF rep] d
      by (auto simp: bp_ok_def) (metis sl_prepend_frame DiffI singletonD)+
    with True ok j show ?thesis
      by (simp add: BPending_Set_def BSmallPending_Set_def bp_pending)
  next
    case False
    with bp_prepend [OF ok j False] ok j show ?thesis
      using bp_pending [OF ok j]
      by (simp add: BPending_Set_def BSmallPending_Set_def remove1_idem)
  qed
qed

lemma bp_unset: "bp_ok I g xs \<Longrightarrow> j \<in> I \<Longrightarrow> bp_ok I (BPending_Unset j g) (remove1 j xs)"
  using bp_remove(2) [of I g xs j] bp_pending [of I g xs j]
  by (cases "j \<in> set xs")
    (simp_all add: BPending_Unset_def BSmallPending_Unset_def remove1_idem Let_def)

lemma bp_isset: "bp_ok I g xs \<Longrightarrow> j \<in> I \<Longrightarrow> BPending_IsSet j g \<longleftrightarrow> j \<in> set xs"
  by (simp add: BPending_IsSet_def BSmallPending_IsSet_def bp_pending)

lemma bp_init: "bp_ok I g xs \<Longrightarrow> j \<notin> I \<Longrightarrow> bp_ok (insert j I) (BPending_Init j g) xs"
proof -
  assume ok: "bp_ok I g xs" and "j \<notin> I"
  then have "j \<notin> set xs" by (auto simp: bp_ok_def)
  with ok \<open>j \<notin> I\<close> show ?thesis
    by (auto simp: bp_ok_def BPending_Init_def BSmallPending_Init_def sl_set_next_frame)
      (auto simp: set_next_def split: if_splits)
qed

lemma bp_free: "bp_ok I g xs \<Longrightarrow> j \<in> I \<Longrightarrow> bp_ok (I - {j}) (BPending_Free j g) (remove1 j xs)"
  using bp_remove(1) [of I g xs j] bp_pending [of I g xs j] bp_weaken [of I g xs "I - {j}"]
  by (cases "j \<in> set xs")
    (auto simp: BPending_Free_def BSmallPending_Free_def remove1_idem bp_ok_def)

lemma bp_exec:
  "bp_ok I g xs \<Longrightarrow> (case xs of [] \<Rightarrow> BPendingGroup_ExecuteJob g = None
    | x # ys \<Rightarrow> \<exists>g'. BPendingGroup_ExecuteJob g = Some (x, g') \<and> bp_ok I g' ys)"
proof (cases xs)
  case Nil
  assume "bp_ok I g xs"
  then show ?thesis
    by (auto simp: Nil bp_ok_def BPendingGroup_ExecuteJob_def sl.first_law)
next
  case (Cons x ys)
  assume ok: "bp_ok I g xs"
  then have "SLinkedList_First (bg_jobs g) = Some x"
    by (auto simp: Cons bp_ok_def sl.first_law)
  with bp_remove(2) [OF ok, of x] show ?thesis
    by (simp add: Cons BPendingGroup_ExecuteJob_def Let_def)
qed

section \<open>The contract of a job group\<close>

locale job_stack =
  fixes ok :: "'s \<Rightarrow> 'j list \<Rightarrow> bool"
    and known :: "'j set"
    and set_job :: "'j \<Rightarrow> 's \<Rightarrow> 's"
    and unset_job :: "'j \<Rightarrow> 's \<Rightarrow> 's"
    and is_set :: "'j \<Rightarrow> 's \<Rightarrow> bool"
    and exec :: "'s \<Rightarrow> ('j \<times> 's) option"
  assumes set_law: "ok g xs \<Longrightarrow> j \<in> known \<Longrightarrow> ok (set_job j g) (j # remove1 j xs)"
    and unset_law: "ok g xs \<Longrightarrow> j \<in> known \<Longrightarrow> ok (unset_job j g) (remove1 j xs)"
    and is_set_law: "ok g xs \<Longrightarrow> j \<in> known \<Longrightarrow> is_set j g \<longleftrightarrow> j \<in> set xs"
    and exec_law: "ok g xs \<Longrightarrow> (case xs of [] \<Rightarrow> exec g = None
      | x # ys \<Rightarrow> \<exists>g'. exec g = Some (x, g') \<and> ok g' ys)"
    and ok_distinct: "ok g xs \<Longrightarrow> distinct xs"
begin

text \<open>A job that was just set is the next to run, and setting it twice runs it once.\<close>

lemma set_exec:
  "ok g xs \<Longrightarrow> j \<in> known \<Longrightarrow> \<exists>g'. exec (set_job j g) = Some (j, g') \<and> ok g' (remove1 j xs)"
  using exec_law [OF set_law] by simp

lemma exec_some: "ok g xs \<Longrightarrow> exec g = Some (j, g') \<Longrightarrow> \<exists>ys. xs = j # ys \<and> ok g' ys"
  using exec_law [of g xs] by (cases xs) auto

lemma exec_unset: "ok g xs \<Longrightarrow> j \<in> known \<Longrightarrow> exec g = Some (j, g') \<Longrightarrow> \<not> is_set j g'"
  using exec_some [of g xs j g'] ok_distinct [of g xs] is_set_law [of g' _ j] by auto

text \<open>Jobs set one after the other run in the reverse order, before everything older.\<close>

lemma set_all:
  "ok g xs \<Longrightarrow> set js \<subseteq> known \<Longrightarrow> distinct js \<Longrightarrow> set js \<inter> set xs = {} \<Longrightarrow>
    ok (fold set_job js g) (rev js @ xs)"
proof (induction js arbitrary: g xs)
  case (Cons j js)
  have "ok (set_job j g) (j # xs)"
    using set_law [OF Cons.prems(1), of j] Cons.prems by (simp add: remove1_idem)
  then show ?case
    using Cons.IH [of "set_job j g" "j # xs"] Cons.prems by auto
qed simp

end

interpretation bp: job_stack "bp_ok I" I BPending_Set BPending_Unset BPending_IsSet
  BPendingGroup_ExecuteJob for I
  by unfold_locales
    (rule bp_set bp_unset bp_isset bp_exec; assumption | auto simp: bp_ok_def sl.rep_distinct)+

text \<open>C23. A job group is a stack without duplicates: a job that is set is the next one executed
  even if it was already pending, an unset or freed job is not executed, executing a job
  makes it not pending, and a job is reported pending exactly when it is on the stack. A new group is empty,
  a new job is not pending, and \<open>BPendingGroup_PeekJob\<close> returns the job that is executed next.
\<close>

theorem BPendingGroup_is_stack:
  assumes "bp_ok I g xs" "j \<in> I"
  shows "(\<exists>g'. BPendingGroup_ExecuteJob (BPending_Set j g) = Some (j, g') \<and>
      bp_ok I g' (remove1 j xs) \<and> \<not> BPending_IsSet j g') \<and>
    bp_ok I (BPending_Unset j g) (remove1 j xs) \<and>
    bp_ok (I - {j}) (BPending_Free j g) (remove1 j xs) \<and>
    (BPending_IsSet j g \<longleftrightarrow> j \<in> set xs) \<and> (BPendingGroup_HasJobs g \<longleftrightarrow> xs \<noteq> []) \<and>
    bp_ok {} (BPendingGroup_Init g) [] \<and> map_option fst (BPendingGroup_ExecuteJob g) = BPendingGroup_PeekJob g \<and>
    BPendingGroup_PeekJob g = (if xs = [] then None else Some (hd xs)) \<and>
    (k \<notin> I \<longrightarrow> bp_ok (insert k I) (BPending_Init k g) xs \<and> \<not> BPending_IsSet k (BPending_Init k g))"
proof -
  from bp.set_exec [OF assms] obtain g' where
    g': "BPendingGroup_ExecuteJob (BPending_Set j g) = Some (j, g')" "bp_ok I g' (remove1 j xs)"
    by blast
  have "\<not> BPending_IsSet j g'"
    using bp.exec_unset [OF bp.set_law [OF assms] assms(2) g'(1)] .
  moreover have "BPendingGroup_HasJobs g \<longleftrightarrow> xs \<noteq> []"
    using assms(1) sl.first_empty [of "bg_jobs g" xs]
    by (auto simp: BPendingGroup_HasJobs_def SLinkedList_IsEmpty_def bp_ok_def SLinkedList_First_def)
  moreover have "bp_ok {} (BPendingGroup_Init g) []"
    by (simp add: bp_ok_def sl_rep_def BPendingGroup_Init_def SLinkedList_Init_def)
  moreover have "map_option fst (BPendingGroup_ExecuteJob g) = BPendingGroup_PeekJob g"
    by (simp add: BPendingGroup_PeekJob_def BPendingGroup_ExecuteJob_def split: option.splits)
  moreover have "BPendingGroup_PeekJob g = (if xs = [] then None else Some (hd xs))"
    using assms(1) by (cases xs) (auto simp: BPendingGroup_PeekJob_def SLinkedList_First_def bp_ok_def sl_rep_def)
  moreover have "bp_ok (insert k I) (BPending_Init k g) xs \<and> \<not> BPending_IsSet k (BPending_Init k g)" if "k \<notin> I"
    using bp_init [OF assms(1) that] bp.is_set_law [of "insert k I" "BPending_Init k g" xs k] that assms(1)
    by (auto simp: bp_ok_def)
  ultimately show ?thesis
    using g' bp.unset_law [OF assms] bp_free [OF assms] bp.is_set_law [OF assms] by blast
qed

definition bp_example :: "nat BPendingGroup" where
  "bp_example = BPending_Set 2 (BPending_Set 1 (BPending_Init 1 (BPending_Init 2
     \<lparr>bg_jobs = \<lparr>sl_prev = (\<lambda>_. None), sl_next = (\<lambda>_. None), sl_first = None\<rparr>\<rparr>)))"

theorem BPendingGroup_is_stack_witness:
  "\<exists>g'. BPendingGroup_ExecuteJob (BPending_Set 1 bp_example) = Some (1, g') \<and>
    bp_ok {1, 2} g' [2] \<and> \<not> BPending_IsSet 1 g' \<and> BPendingGroup_PeekJob bp_example = Some 2 \<and>
    \<not> BPending_IsSet 3 (BPending_Init 3 bp_example)"
proof -
  let ?g = "\<lparr>bg_jobs = \<lparr>sl_prev = (\<lambda>_. None), sl_next = (\<lambda>_. None), sl_first = None\<rparr>\<rparr>"
  have "bp_ok ({} :: nat set) ?g []"
    by (simp add: bp_ok_def sl_rep_def)
  then have "bp_ok {2 :: nat} (BPending_Init 2 ?g) []"
    using bp_init [of "{} :: nat set" ?g "[]" 2] by simp
  then have "bp_ok {1, 2 :: nat} (BPending_Init 1 (BPending_Init 2 ?g)) []"
    using bp_init [of "{2 :: nat}" _ "[]" 1] by simp
  then have "bp_ok {1, 2 :: nat} (BPending_Set 1 (BPending_Init 1 (BPending_Init 2 ?g))) [1]"
    using bp_set [of "{1, 2 :: nat}" _ "[]" 1] by simp
  then have "bp_ok {1, 2} bp_example [2, 1]"
    using bp_set [of "{1, 2 :: nat}" _ "[1]" 2] by (simp add: bp_example_def)
  from BPendingGroup_is_stack [OF this, of 1 3] show ?thesis by auto
qed

end
