(* ===== verification/Flow_Interfaces.thy ===== *)
theory Flow_Interfaces
  imports Pending_Jobs
begin

text \<open>
  The four one-shot interfaces through which flow objects pass data:
  \<^verbatim>\<open>flow/PacketPassInterface\<close>, \<^verbatim>\<open>PacketRecvInterface\<close>, \<^verbatim>\<open>StreamPassInterface\<close> and
  \<^verbatim>\<open>StreamRecvInterface\<close> (\<^verbatim>\<open>.h\<close> and \<^verbatim>\<open>.c\<close>). An operation takes the interface and the job
  group; \<open>None\<close> is a failed \<^verbatim>\<open>ASSERT\<close>. The job functions return the handler they call. The
  locale \<open>flow_interface\<close> is the common contract, interpreted on all four.
\<close>

section \<open>Common types\<close>

datatype iface_state = STATE_NONE | STATE_OPERATION_PENDING | STATE_BUSY | STATE_DONE_PENDING

datatype 'i iface_job = Job_operation 'i | Job_requestcancel 'i | Job_done 'i

type_synonym 'i jobs = "'i iface_job BPendingGroup"

section \<open>flow/PacketPassInterface\<close>

record 'p PacketPassInterface =
  ppi_mtu :: int
  ppi_has_requestcancel :: bool
  ppi_has_done :: bool
  ppi_job_operation_data :: "'p option"
  ppi_job_operation_len :: int
  ppi_state :: iface_state
  ppi_cancel_requested :: bool

datatype 'p ppi_handler = PPI_handler_operation "'p option" int | PPI_handler_requestcancel
  | PPI_handler_done

definition PacketPassInterface_Init ::
  "'i \<Rightarrow> int \<Rightarrow> 'i jobs \<Rightarrow> ('p PacketPassInterface \<times> 'i jobs) option" where
  "PacketPassInterface_Init a mtu g =
     require (mtu \<ge> 0)
       (\<lparr>ppi_mtu = mtu, ppi_has_requestcancel = False, ppi_has_done = False,
         ppi_job_operation_data = None, ppi_job_operation_len = 0, ppi_state = STATE_NONE,
         ppi_cancel_requested = False\<rparr>,
        BPending_Init (Job_done a) (BPending_Init (Job_requestcancel a)
          (BPending_Init (Job_operation a) g)))"

definition PacketPassInterface_Free :: "'i \<Rightarrow> 'i jobs \<Rightarrow> 'i jobs" where
  "PacketPassInterface_Free a g =
     BPending_Free (Job_operation a) (BPending_Free (Job_requestcancel a) (BPending_Free (Job_done a) g))"

definition PacketPassInterface_EnableCancel ::
  "'p PacketPassInterface \<Rightarrow> 'p PacketPassInterface option" where
  "PacketPassInterface_EnableCancel i =
     require (\<not> ppi_has_requestcancel i \<and> \<not> ppi_has_done i) (i\<lparr>ppi_has_requestcancel := True\<rparr>)"

definition PacketPassInterface_Done ::
  "'i \<Rightarrow> 'p PacketPassInterface \<times> 'i jobs \<Rightarrow> ('p PacketPassInterface \<times> 'i jobs) option" where
  "PacketPassInterface_Done a = (\<lambda>(i, g).
     require (ppi_state i = STATE_BUSY)
       (i\<lparr>ppi_state := STATE_DONE_PENDING\<rparr>,
        BPending_Set (Job_done a) (BPending_Unset (Job_requestcancel a) g)))"

definition PacketPassInterface_GetMTU :: "'p PacketPassInterface \<Rightarrow> int" where
  "PacketPassInterface_GetMTU i = ppi_mtu i"

definition PacketPassInterface_Sender_Init ::
  "'p PacketPassInterface \<Rightarrow> 'p PacketPassInterface option" where
  "PacketPassInterface_Sender_Init i = require (\<not> ppi_has_done i) (i\<lparr>ppi_has_done := True\<rparr>)"

definition PacketPassInterface_Sender_Send ::
  "'i \<Rightarrow> 'p option \<times> int \<Rightarrow> 'p PacketPassInterface \<times> 'i jobs \<Rightarrow>
   ('p PacketPassInterface \<times> 'i jobs) option" where
  "PacketPassInterface_Sender_Send a = (\<lambda>(data, data_len) (i, g).
     require (data_len \<ge> 0 \<and> data_len \<le> ppi_mtu i \<and> (data_len > 0 \<longrightarrow> data \<noteq> None) \<and>
              ppi_state i = STATE_NONE \<and> ppi_has_done i)
       (i\<lparr>ppi_job_operation_data := data, ppi_job_operation_len := data_len,
          ppi_state := STATE_OPERATION_PENDING, ppi_cancel_requested := False\<rparr>,
        BPending_Set (Job_operation a) g))"

definition PacketPassInterface_Sender_RequestCancel ::
  "'i \<Rightarrow> 'p PacketPassInterface \<times> 'i jobs \<Rightarrow> ('p PacketPassInterface \<times> 'i jobs) option" where
  "PacketPassInterface_Sender_RequestCancel a = (\<lambda>(i, g).
     if \<not> ((ppi_state i = STATE_OPERATION_PENDING \<or> ppi_state i = STATE_BUSY \<or>
            ppi_state i = STATE_DONE_PENDING) \<and> ppi_has_requestcancel i)
     then None
     else if ppi_cancel_requested i then Some (i, g)
     else (let i = i\<lparr>ppi_cancel_requested := True\<rparr> in
       if ppi_state i = STATE_OPERATION_PENDING
       then Some (i\<lparr>ppi_state := STATE_DONE_PENDING\<rparr>,
                  BPending_Set (Job_done a) (BPending_Unset (Job_operation a) g))
       else if ppi_state i = STATE_BUSY
       then Some (i, BPending_Set (Job_requestcancel a) g)
       else Some (i, g)))"

definition PacketPassInterface_HasCancel :: "'p PacketPassInterface \<Rightarrow> bool" where
  "PacketPassInterface_HasCancel i = ppi_has_requestcancel i"

definition PacketPassInterface_job_operation ::
  "'p PacketPassInterface \<Rightarrow> ('p PacketPassInterface \<times> 'p ppi_handler) option" where
  "PacketPassInterface_job_operation i =
     require (ppi_state i = STATE_OPERATION_PENDING)
       (i\<lparr>ppi_state := STATE_BUSY\<rparr>,
        PPI_handler_operation (ppi_job_operation_data i) (ppi_job_operation_len i))"

definition PacketPassInterface_job_requestcancel ::
  "'p PacketPassInterface \<Rightarrow> ('p PacketPassInterface \<times> 'p ppi_handler) option" where
  "PacketPassInterface_job_requestcancel i =
     require (ppi_state i = STATE_BUSY \<and> ppi_cancel_requested i \<and> ppi_has_requestcancel i)
       (i, PPI_handler_requestcancel)"

definition PacketPassInterface_job_done ::
  "'p PacketPassInterface \<Rightarrow> ('p PacketPassInterface \<times> 'p ppi_handler) option" where
  "PacketPassInterface_job_done i =
     require (ppi_state i = STATE_DONE_PENDING) (i\<lparr>ppi_state := STATE_NONE\<rparr>, PPI_handler_done)"

section \<open>flow/PacketRecvInterface\<close>

record 'p PacketRecvInterface =
  pri_mtu :: int
  pri_has_done :: bool
  pri_job_operation_data :: "'p option"
  pri_job_done_len :: int
  pri_state :: iface_state

datatype 'p pri_handler = PRI_handler_operation "'p option" | PRI_handler_done int

definition PacketRecvInterface_Init ::
  "'i \<Rightarrow> int \<Rightarrow> 'i jobs \<Rightarrow> ('p PacketRecvInterface \<times> 'i jobs) option" where
  "PacketRecvInterface_Init a mtu g =
     require (mtu \<ge> 0)
       (\<lparr>pri_mtu = mtu, pri_has_done = False, pri_job_operation_data = None, pri_job_done_len = 0,
         pri_state = STATE_NONE\<rparr>,
        BPending_Init (Job_done a) (BPending_Init (Job_operation a) g))"

definition PacketRecvInterface_Free :: "'i \<Rightarrow> 'i jobs \<Rightarrow> 'i jobs" where
  "PacketRecvInterface_Free a g = BPending_Free (Job_operation a) (BPending_Free (Job_done a) g)"

definition PacketRecvInterface_Done ::
  "'i \<Rightarrow> int \<Rightarrow> 'p PacketRecvInterface \<times> 'i jobs \<Rightarrow> ('p PacketRecvInterface \<times> 'i jobs) option" where
  "PacketRecvInterface_Done a data_len = (\<lambda>(i, g).
     require (data_len \<ge> 0 \<and> data_len \<le> pri_mtu i \<and> pri_state i = STATE_BUSY)
       (i\<lparr>pri_job_done_len := data_len, pri_state := STATE_DONE_PENDING\<rparr>,
        BPending_Set (Job_done a) g))"

definition PacketRecvInterface_GetMTU :: "'p PacketRecvInterface \<Rightarrow> int" where
  "PacketRecvInterface_GetMTU i = pri_mtu i"

definition PacketRecvInterface_Receiver_Init ::
  "'p PacketRecvInterface \<Rightarrow> 'p PacketRecvInterface option" where
  "PacketRecvInterface_Receiver_Init i = require (\<not> pri_has_done i) (i\<lparr>pri_has_done := True\<rparr>)"

definition PacketRecvInterface_Receiver_Recv ::
  "'i \<Rightarrow> 'p option \<Rightarrow> 'p PacketRecvInterface \<times> 'i jobs \<Rightarrow>
   ('p PacketRecvInterface \<times> 'i jobs) option" where
  "PacketRecvInterface_Receiver_Recv a data = (\<lambda>(i, g).
     require ((pri_mtu i > 0 \<longrightarrow> data \<noteq> None) \<and> pri_state i = STATE_NONE \<and> pri_has_done i)
       (i\<lparr>pri_job_operation_data := data, pri_state := STATE_OPERATION_PENDING\<rparr>,
        BPending_Set (Job_operation a) g))"

definition PacketRecvInterface_job_operation ::
  "'p PacketRecvInterface \<Rightarrow> ('p PacketRecvInterface \<times> 'p pri_handler) option" where
  "PacketRecvInterface_job_operation i =
     require (pri_state i = STATE_OPERATION_PENDING)
       (i\<lparr>pri_state := STATE_BUSY\<rparr>, PRI_handler_operation (pri_job_operation_data i))"

definition PacketRecvInterface_job_done ::
  "'p PacketRecvInterface \<Rightarrow> ('p PacketRecvInterface \<times> 'p pri_handler) option" where
  "PacketRecvInterface_job_done i =
     require (pri_state i = STATE_DONE_PENDING)
       (i\<lparr>pri_state := STATE_NONE\<rparr>, PRI_handler_done (pri_job_done_len i))"

section \<open>flow/StreamPassInterface\<close>

record 'p StreamPassInterface =
  spi_has_done :: bool
  spi_job_operation_data :: "'p option"
  spi_job_operation_len :: int
  spi_job_done_len :: int
  spi_state :: iface_state

datatype 'p spi_handler = SPI_handler_operation "'p option" int | SPI_handler_done int

definition StreamPassInterface_Init :: "'i \<Rightarrow> 'i jobs \<Rightarrow> 'p StreamPassInterface \<times> 'i jobs" where
  "StreamPassInterface_Init a g =
     (\<lparr>spi_has_done = False, spi_job_operation_data = None, spi_job_operation_len = 0,
       spi_job_done_len = 0, spi_state = STATE_NONE\<rparr>,
      BPending_Init (Job_done a) (BPending_Init (Job_operation a) g))"

definition StreamPassInterface_Free :: "'i \<Rightarrow> 'i jobs \<Rightarrow> 'i jobs" where
  "StreamPassInterface_Free a g = BPending_Free (Job_operation a) (BPending_Free (Job_done a) g)"

definition StreamPassInterface_Done ::
  "'i \<Rightarrow> int \<Rightarrow> 'p StreamPassInterface \<times> 'i jobs \<Rightarrow> ('p StreamPassInterface \<times> 'i jobs) option" where
  "StreamPassInterface_Done a data_len = (\<lambda>(i, g).
     require (spi_state i = STATE_BUSY \<and> data_len > 0 \<and> data_len \<le> spi_job_operation_len i)
       (i\<lparr>spi_job_done_len := data_len, spi_state := STATE_DONE_PENDING\<rparr>,
        BPending_Set (Job_done a) g))"

definition StreamPassInterface_Sender_Init :: "'p StreamPassInterface \<Rightarrow> 'p StreamPassInterface option" where
  "StreamPassInterface_Sender_Init i = require (\<not> spi_has_done i) (i\<lparr>spi_has_done := True\<rparr>)"

definition StreamPassInterface_Sender_Send ::
  "'i \<Rightarrow> 'p option \<times> int \<Rightarrow> 'p StreamPassInterface \<times> 'i jobs \<Rightarrow> ('p StreamPassInterface \<times> 'i jobs) option" where
  "StreamPassInterface_Sender_Send a = (\<lambda>(data, data_len) (i, g).
     require (data_len > 0 \<and> data \<noteq> None \<and> spi_state i = STATE_NONE \<and> spi_has_done i)
       (i\<lparr>spi_job_operation_data := data, spi_job_operation_len := data_len,
          spi_state := STATE_OPERATION_PENDING\<rparr>,
        BPending_Set (Job_operation a) g))"

definition StreamPassInterface_job_operation ::
  "'p StreamPassInterface \<Rightarrow> ('p StreamPassInterface \<times> 'p spi_handler) option" where
  "StreamPassInterface_job_operation i =
     require (spi_state i = STATE_OPERATION_PENDING)
       (i\<lparr>spi_state := STATE_BUSY\<rparr>,
        SPI_handler_operation (spi_job_operation_data i) (spi_job_operation_len i))"

definition StreamPassInterface_job_done ::
  "'p StreamPassInterface \<Rightarrow> ('p StreamPassInterface \<times> 'p spi_handler) option" where
  "StreamPassInterface_job_done i =
     require (spi_state i = STATE_DONE_PENDING)
       (i\<lparr>spi_state := STATE_NONE\<rparr>, SPI_handler_done (spi_job_done_len i))"

section \<open>flow/StreamRecvInterface\<close>

record 'p StreamRecvInterface =
  sri_has_done :: bool
  sri_job_operation_data :: "'p option"
  sri_job_operation_len :: int
  sri_job_done_len :: int
  sri_state :: iface_state

datatype 'p sri_handler = SRI_handler_operation "'p option" int | SRI_handler_done int

definition StreamRecvInterface_Init :: "'i \<Rightarrow> 'i jobs \<Rightarrow> 'p StreamRecvInterface \<times> 'i jobs" where
  "StreamRecvInterface_Init a g =
     (\<lparr>sri_has_done = False, sri_job_operation_data = None, sri_job_operation_len = 0,
       sri_job_done_len = 0, sri_state = STATE_NONE\<rparr>,
      BPending_Init (Job_done a) (BPending_Init (Job_operation a) g))"

definition StreamRecvInterface_Free :: "'i \<Rightarrow> 'i jobs \<Rightarrow> 'i jobs" where
  "StreamRecvInterface_Free a g = BPending_Free (Job_operation a) (BPending_Free (Job_done a) g)"

definition StreamRecvInterface_Done ::
  "'i \<Rightarrow> int \<Rightarrow> 'p StreamRecvInterface \<times> 'i jobs \<Rightarrow> ('p StreamRecvInterface \<times> 'i jobs) option" where
  "StreamRecvInterface_Done a data_len = (\<lambda>(i, g).
     require (sri_state i = STATE_BUSY \<and> data_len > 0 \<and> data_len \<le> sri_job_operation_len i)
       (i\<lparr>sri_job_done_len := data_len, sri_state := STATE_DONE_PENDING\<rparr>,
        BPending_Set (Job_done a) g))"

definition StreamRecvInterface_Receiver_Init :: "'p StreamRecvInterface \<Rightarrow> 'p StreamRecvInterface option" where
  "StreamRecvInterface_Receiver_Init i = require (\<not> sri_has_done i) (i\<lparr>sri_has_done := True\<rparr>)"

definition StreamRecvInterface_Receiver_Recv ::
  "'i \<Rightarrow> 'p option \<times> int \<Rightarrow> 'p StreamRecvInterface \<times> 'i jobs \<Rightarrow> ('p StreamRecvInterface \<times> 'i jobs) option" where
  "StreamRecvInterface_Receiver_Recv a = (\<lambda>(data, data_len) (i, g).
     require (data_len > 0 \<and> data \<noteq> None \<and> sri_state i = STATE_NONE \<and> sri_has_done i)
       (i\<lparr>sri_job_operation_data := data, sri_job_operation_len := data_len,
          sri_state := STATE_OPERATION_PENDING\<rparr>,
        BPending_Set (Job_operation a) g))"

definition StreamRecvInterface_job_operation ::
  "'p StreamRecvInterface \<Rightarrow> ('p StreamRecvInterface \<times> 'p sri_handler) option" where
  "StreamRecvInterface_job_operation i =
     require (sri_state i = STATE_OPERATION_PENDING)
       (i\<lparr>sri_state := STATE_BUSY\<rparr>,
        SRI_handler_operation (sri_job_operation_data i) (sri_job_operation_len i))"

definition StreamRecvInterface_job_done ::
  "'p StreamRecvInterface \<Rightarrow> ('p StreamRecvInterface \<times> 'p sri_handler) option" where
  "StreamRecvInterface_job_done i =
     require (sri_state i = STATE_DONE_PENDING)
       (i\<lparr>sri_state := STATE_NONE\<rparr>, SRI_handler_done (sri_job_done_len i))"

section \<open>An interface in use\<close>

text \<open>
  An interface at address \<open>a\<close>, its job group, and how many operations were started and
  reported done. The steps are the calls of its user and provider, the execution of a
  job, and other objects setting and unsetting their own jobs.
\<close>

record ('f, 'i) iface_sys =
  is_iface :: 'f
  is_jobs :: "'i jobs"
  is_started :: nat
  is_completed :: nat

definition iface_exec ::
  "'i \<Rightarrow> ('f \<Rightarrow> ('f \<times> 'c) option) \<Rightarrow> ('f \<Rightarrow> ('f \<times> 'c) option) \<Rightarrow> ('f \<Rightarrow> ('f \<times> 'c) option) \<Rightarrow>
   ('f, 'i) iface_sys \<Rightarrow> ('f, 'i) iface_sys option" where
  "iface_exec a run_op run_cancel run_done s = (case BPendingGroup_ExecuteJob (is_jobs s) of
     None \<Rightarrow> None
   | Some (j, g) \<Rightarrow>
       (let s = s\<lparr>is_jobs := g\<rparr> in
        if j = Job_operation a then
          map_option (\<lambda>(i, c). s\<lparr>is_iface := i\<rparr>) (run_op (is_iface s))
        else if j = Job_requestcancel a then
          map_option (\<lambda>(i, c). s\<lparr>is_iface := i\<rparr>) (run_cancel (is_iface s))
        else if j = Job_done a then
          map_option (\<lambda>(i, c). s\<lparr>is_iface := i, is_completed := is_completed s + 1\<rparr>)
            (run_done (is_iface s))
        else Some s))"

definition own_jobs :: "'i \<Rightarrow> 'i iface_job set" where
  "own_jobs a = {Job_operation a, Job_requestcancel a, Job_done a}"

inductive iface_reach ::
  "'i \<Rightarrow> 'i iface_job set \<Rightarrow>
   ('x \<Rightarrow> 'f \<times> 'i jobs \<Rightarrow> ('f \<times> 'i jobs) option) \<Rightarrow> ('f \<times> 'i jobs \<Rightarrow> ('f \<times> 'i jobs) option) \<Rightarrow>
   ('y \<Rightarrow> 'f \<times> 'i jobs \<Rightarrow> ('f \<times> 'i jobs) option) \<Rightarrow>
   ('f \<Rightarrow> ('f \<times> 'c) option) \<Rightarrow> ('f \<Rightarrow> ('f \<times> 'c) option) \<Rightarrow> ('f \<Rightarrow> ('f \<times> 'c) option) \<Rightarrow>
   ('f, 'i) iface_sys \<Rightarrow> ('f, 'i) iface_sys \<Rightarrow> bool"
  for a known start cancel finish run_op run_cancel run_done s0 where
  if_init: "iface_reach a known start cancel finish run_op run_cancel run_done s0 s0"
| if_start: "iface_reach a known start cancel finish run_op run_cancel run_done s0 s \<Longrightarrow>
    start x (is_iface s, is_jobs s) = Some (i, g) \<Longrightarrow>
    iface_reach a known start cancel finish run_op run_cancel run_done s0
      (s\<lparr>is_iface := i, is_jobs := g, is_started := is_started s + 1\<rparr>)"
| if_cancel: "iface_reach a known start cancel finish run_op run_cancel run_done s0 s \<Longrightarrow>
    cancel (is_iface s, is_jobs s) = Some (i, g) \<Longrightarrow>
    iface_reach a known start cancel finish run_op run_cancel run_done s0
      (s\<lparr>is_iface := i, is_jobs := g\<rparr>)"
| if_finish: "iface_reach a known start cancel finish run_op run_cancel run_done s0 s \<Longrightarrow>
    finish y (is_iface s, is_jobs s) = Some (i, g) \<Longrightarrow>
    iface_reach a known start cancel finish run_op run_cancel run_done s0
      (s\<lparr>is_iface := i, is_jobs := g\<rparr>)"
| if_exec: "iface_reach a known start cancel finish run_op run_cancel run_done s0 s \<Longrightarrow>
    iface_exec a run_op run_cancel run_done s = Some t \<Longrightarrow>
    iface_reach a known start cancel finish run_op run_cancel run_done s0 t"
| if_other_set: "iface_reach a known start cancel finish run_op run_cancel run_done s0 s \<Longrightarrow>
    j \<in> known - own_jobs a \<Longrightarrow>
    iface_reach a known start cancel finish run_op run_cancel run_done s0
      (s\<lparr>is_jobs := BPending_Set j (is_jobs s)\<rparr>)"
| if_other_unset: "iface_reach a known start cancel finish run_op run_cancel run_done s0 s \<Longrightarrow>
    j \<in> known - own_jobs a \<Longrightarrow>
    iface_reach a known start cancel finish run_op run_cancel run_done s0
      (s\<lparr>is_jobs := BPending_Unset j (is_jobs s)\<rparr>)"

section \<open>The common contract\<close>

locale flow_interface =
  fixes a :: 'i
    and known :: "'i iface_job set"
    and st :: "'f \<Rightarrow> iface_state"
    and cok :: "'f \<Rightarrow> bool"
    and start :: "'x \<Rightarrow> 'f \<times> 'i jobs \<Rightarrow> ('f \<times> 'i jobs) option"
    and cancel :: "'f \<times> 'i jobs \<Rightarrow> ('f \<times> 'i jobs) option"
    and finish :: "'y \<Rightarrow> 'f \<times> 'i jobs \<Rightarrow> ('f \<times> 'i jobs) option"
    and run_op :: "'f \<Rightarrow> ('f \<times> 'c) option"
    and run_cancel :: "'f \<Rightarrow> ('f \<times> 'c) option"
    and run_done :: "'f \<Rightarrow> ('f \<times> 'c) option"
  assumes known_own: "Job_operation a \<in> known" "Job_done a \<in> known"
    and start_law: "start x (i, g) = Some (i', g') \<Longrightarrow> st i = STATE_NONE \<and>
      st i' = STATE_OPERATION_PENDING \<and> g' = BPending_Set (Job_operation a) g"
    and cancel_law: "cancel (i, g) = Some (i', g') \<Longrightarrow> Job_requestcancel a \<in> known \<and>
      (st i = STATE_OPERATION_PENDING \<and> st i' = STATE_DONE_PENDING \<and>
         g' = BPending_Set (Job_done a) (BPending_Unset (Job_operation a) g) \<or>
       st i = STATE_BUSY \<and> st i' = STATE_BUSY \<and> cok i' \<and> g' = BPending_Set (Job_requestcancel a) g \<or>
       st i' = st i \<and> (cok i \<longrightarrow> cok i') \<and> g' = g)"
    and finish_law: "finish y (i, g) = Some (i', g') \<Longrightarrow> st i = STATE_BUSY \<and>
      st i' = STATE_DONE_PENDING \<and>
      (Job_requestcancel a \<in> known \<and> g' = BPending_Set (Job_done a) (BPending_Unset (Job_requestcancel a) g) \<or>
       Job_requestcancel a \<notin> known \<and> g' = BPending_Set (Job_done a) g)"
    and run_op_law: "st i = STATE_OPERATION_PENDING \<Longrightarrow>
      \<exists>i' c. run_op i = Some (i', c) \<and> st i' = STATE_BUSY"
    and run_cancel_law: "st i = STATE_BUSY \<Longrightarrow> cok i \<Longrightarrow>
      \<exists>i' c. run_cancel i = Some (i', c) \<and> st i' = STATE_BUSY"
    and run_done_law: "st i = STATE_DONE_PENDING \<Longrightarrow>
      \<exists>i' c. run_done i = Some (i', c) \<and> st i' = STATE_NONE"
begin

text \<open>The pending jobs mirror the state of the interface.\<close>

definition mirror :: "'f \<Rightarrow> 'i iface_job list \<Rightarrow> bool" where
  "mirror i xs \<longleftrightarrow>
     (Job_operation a \<in> set xs \<longleftrightarrow> st i = STATE_OPERATION_PENDING) \<and>
     (Job_done a \<in> set xs \<longleftrightarrow> st i = STATE_DONE_PENDING) \<and>
     (Job_requestcancel a \<in> set xs \<longrightarrow> st i = STATE_BUSY \<and> cok i)"

definition sys_inv :: "('f, 'i) iface_sys \<Rightarrow> bool" where
  "sys_inv s \<longleftrightarrow> (\<exists>xs. bp_ok known (is_jobs s) xs \<and> mirror (is_iface s) xs) \<and>
     is_started s = is_completed s + (if st (is_iface s) = STATE_NONE then 0 else 1)"

lemma inv_start:
  assumes "bp_ok known g xs" "mirror i xs" "start x (i, g) = Some (i', g')"
  shows "\<exists>ys. bp_ok known g' ys \<and> mirror i' ys" "st i = STATE_NONE" "st i' \<noteq> STATE_NONE"
  using start_law [OF assms(3)] bp.set_law [OF assms(1) known_own(1)] assms(2)
  by (auto simp: mirror_def intro!: exI [of _ "Job_operation a # remove1 (Job_operation a) xs"]
      dest: notin_set_remove1)

lemma inv_cancel:
  assumes ok: "bp_ok known g xs" and m: "mirror i xs" and c: "cancel (i, g) = Some (i', g')"
  shows "(\<exists>ys. bp_ok known g' ys \<and> mirror i' ys) \<and> (st i' = STATE_NONE \<longleftrightarrow> st i = STATE_NONE)"
proof -
  note d = bp.ok_distinct [OF ok]
  from cancel_law [OF c] consider
    (op) "st i = STATE_OPERATION_PENDING" "st i' = STATE_DONE_PENDING"
      "g' = BPending_Set (Job_done a) (BPending_Unset (Job_operation a) g)"
  | (busy) "Job_requestcancel a \<in> known" "st i = STATE_BUSY" "st i' = STATE_BUSY" "cok i'"
      "g' = BPending_Set (Job_requestcancel a) g"
  | (same) "st i' = st i" "cok i \<longrightarrow> cok i'" "g' = g"
    by blast
  then show ?thesis
  proof cases
    case op
    have "bp_ok known g' (Job_done a # remove1 (Job_done a) (remove1 (Job_operation a) xs))"
      using bp.set_law [OF bp.unset_law [OF ok known_own(1)] known_own(2)] op by simp
    with op m d show ?thesis by (auto simp: mirror_def dest: notin_set_remove1)
  next
    case busy
    have "bp_ok known g' (Job_requestcancel a # remove1 (Job_requestcancel a) xs)"
      using bp.set_law [OF ok busy(1)] busy by simp
    with busy m d show ?thesis
      by (auto simp: mirror_def
          intro!: exI [of _ "Job_requestcancel a # remove1 (Job_requestcancel a) xs"])
  next
    case same
    with ok m show ?thesis by (auto simp: mirror_def)
  qed
qed

lemma inv_finish:
  assumes ok: "bp_ok known g xs" and m: "mirror i xs" and f: "finish y (i, g) = Some (i', g')"
  shows "(\<exists>ys. bp_ok known g' ys \<and> mirror i' ys) \<and> st i \<noteq> STATE_NONE \<and> st i' \<noteq> STATE_NONE"
proof -
  note d = bp.ok_distinct [OF ok] and law = finish_law [OF f]
  let ?ys = "if Job_requestcancel a \<in> known then remove1 (Job_requestcancel a) xs else xs"
  have "set xs \<subseteq> known" using ok by (auto simp: bp_ok_def)
  then have out: "Job_requestcancel a \<notin> set ?ys" using d by auto
  have "bp_ok known g' (Job_done a # remove1 (Job_done a) ?ys)"
    using law bp.set_law [OF bp.unset_law [OF ok] known_own(2)] bp.set_law [OF ok known_own(2)] by auto
  moreover have "mirror i' (Job_done a # remove1 (Job_done a) ?ys)"
    using law m d out by (auto simp: mirror_def dest: notin_set_remove1 split: if_splits)
  ultimately show ?thesis using law by auto
qed

text \<open>No job of the interface runs into a failed assertion.\<close>

lemma inv_exec:
  assumes inv: "sys_inv s" and jobs: "BPendingGroup_HasJobs (is_jobs s)"
  shows "\<exists>t. iface_exec a run_op run_cancel run_done s = Some t \<and> sys_inv t"
proof -
  obtain xs where xs: "bp_ok known (is_jobs s) xs" "mirror (is_iface s) xs"
    "is_started s = is_completed s + (if st (is_iface s) = STATE_NONE then 0 else 1)"
    using inv by (auto simp: sys_inv_def)
  have "xs \<noteq> []"
    using jobs sl.first_empty [of "bg_jobs (is_jobs s)" xs] xs(1)
    by (auto simp: BPendingGroup_HasJobs_def SLinkedList_IsEmpty_def bp_ok_def SLinkedList_First_def)
  then obtain j ys where cons: "xs = j # ys" by (cases xs) auto
  with bp.exec_law [OF xs(1)] obtain g where
    ex: "BPendingGroup_ExecuteJob (is_jobs s) = Some (j, g)" "bp_ok known g ys" by auto
  have d: "j \<notin> set ys" using bp.ok_distinct [OF xs(1)] cons by simp
  show ?thesis
  proof (cases "j \<in> own_jobs a")
    case False
    with ex xs cons show ?thesis
      by (auto simp: iface_exec_def own_jobs_def sys_inv_def mirror_def)
  next
    case True
    then consider "j = Job_operation a" | "j = Job_requestcancel a" | "j = Job_done a"
      by (auto simp: own_jobs_def)
    then show ?thesis
    proof cases
      case 1
      with xs cons run_op_law [of "is_iface s"] d ex show ?thesis
        by (fastforce simp: iface_exec_def sys_inv_def mirror_def)
    next
      case 2
      with xs cons run_cancel_law [of "is_iface s"] d ex show ?thesis
        by (fastforce simp: iface_exec_def sys_inv_def mirror_def)
    next
      case 3
      with xs cons run_done_law [of "is_iface s"] d ex show ?thesis
        by (fastforce simp: iface_exec_def sys_inv_def mirror_def)
    qed
  qed
qed

lemma inv_other:
  assumes "sys_inv s" "j \<in> known - own_jobs a"
  shows "sys_inv (s\<lparr>is_jobs := BPending_Set j (is_jobs s)\<rparr>)"
    "sys_inv (s\<lparr>is_jobs := BPending_Unset j (is_jobs s)\<rparr>)"
proof -
  obtain xs where xs: "bp_ok known (is_jobs s) xs" "mirror (is_iface s) xs"
    "is_started s = is_completed s + (if st (is_iface s) = STATE_NONE then 0 else 1)"
    using assms(1) by (auto simp: sys_inv_def)
  have j: "j \<in> known" "j \<noteq> Job_operation a" "j \<noteq> Job_requestcancel a" "j \<noteq> Job_done a"
    using assms(2) by (auto simp: own_jobs_def)
  then have "mirror (is_iface s) (j # remove1 j xs)" "mirror (is_iface s) (remove1 j xs)"
    using xs(2) by (auto simp: mirror_def)
  with bp.set_law [OF xs(1) j(1)] bp.unset_law [OF xs(1) j(1)] xs(3)
  show "sys_inv (s\<lparr>is_jobs := BPending_Set j (is_jobs s)\<rparr>)"
    "sys_inv (s\<lparr>is_jobs := BPending_Unset j (is_jobs s)\<rparr>)"
    by (auto simp: sys_inv_def)
qed

lemma exec_has_jobs:
  "sys_inv s \<Longrightarrow> iface_exec a run_op run_cancel run_done s = Some t \<Longrightarrow>
    BPendingGroup_HasJobs (is_jobs s)"
  by (auto simp: iface_exec_def BPendingGroup_ExecuteJob_def BPendingGroup_HasJobs_def
      SLinkedList_First_def SLinkedList_IsEmpty_def split: option.splits)

lemma inv_reach:
  "iface_reach a known start cancel finish run_op run_cancel run_done s0 s \<Longrightarrow>
    sys_inv s0 \<Longrightarrow> sys_inv s"
proof (induction rule: iface_reach.induct)
  case (if_start s x i g)
  then show ?case
    using inv_start by (fastforce simp: sys_inv_def split: if_splits)
next
  case (if_cancel s i g)
  then show ?case
    using inv_cancel by (fastforce simp: sys_inv_def split: if_splits)
next
  case (if_finish s y i g)
  then show ?case
    using inv_finish by (fastforce simp: sys_inv_def split: if_splits)
next
  case (if_exec s t)
  then show ?case using inv_exec exec_has_jobs by fastforce
next
  case (if_other_set s j)
  then show ?case using inv_other by blast
next
  case (if_other_unset s j)
  then show ?case using inv_other by blast
qed

text \<open>
  In every reachable state each operation was reported done exactly once, except the one
  in progress, and the next job can be executed.
\<close>

lemma reach_result:
  assumes "iface_reach a known start cancel finish run_op run_cancel run_done s0 s"
    "bp_ok known (is_jobs s0) []" "st (is_iface s0) = STATE_NONE"
    "is_started s0 = 0" "is_completed s0 = 0"
  shows "is_started s = is_completed s + (if st (is_iface s) = STATE_NONE then 0 else 1)"
    "BPendingGroup_HasJobs (is_jobs s) \<Longrightarrow> iface_exec a run_op run_cancel run_done s \<noteq> None"
    "BPending_IsSet (Job_operation a) (is_jobs s) = (st (is_iface s) = STATE_OPERATION_PENDING)"
    "BPending_IsSet (Job_done a) (is_jobs s) = (st (is_iface s) = STATE_DONE_PENDING)"
proof -
  have "sys_inv s0" using assms by (auto simp: sys_inv_def mirror_def)
  with assms(1) have inv: "sys_inv s" by (rule inv_reach)
  then show "is_started s = is_completed s + (if st (is_iface s) = STATE_NONE then 0 else 1)"
    by (simp add: sys_inv_def)
  show "BPendingGroup_HasJobs (is_jobs s) \<Longrightarrow> iface_exec a run_op run_cancel run_done s \<noteq> None"
    using inv_exec [OF inv] by fastforce
  from inv obtain xs where "bp_ok known (is_jobs s) xs" "mirror (is_iface s) xs"
    by (auto simp: sys_inv_def)
  with bp.is_set_law known_own
  show "BPending_IsSet (Job_operation a) (is_jobs s) = (st (is_iface s) = STATE_OPERATION_PENDING)"
    "BPending_IsSet (Job_done a) (is_jobs s) = (st (is_iface s) = STATE_DONE_PENDING)"
    by (fastforce simp: mirror_def)+
qed

end

section \<open>The four interfaces keep the contract\<close>

abbreviation ppi_jobs :: "'i \<Rightarrow> 'i iface_job set \<Rightarrow> 'i iface_job set" where
  "ppi_jobs a others \<equiv> own_jobs a \<union> others"

abbreviation plain_jobs :: "'i \<Rightarrow> 'i iface_job set \<Rightarrow> 'i iface_job set" where
  "plain_jobs a others \<equiv> {Job_operation a, Job_done a} \<union> (others - {Job_requestcancel a})"

definition ppi_cok :: "'p PacketPassInterface \<Rightarrow> bool" where
  "ppi_cok i \<longleftrightarrow> ppi_cancel_requested i \<and> ppi_has_requestcancel i"

interpretation ppi: flow_interface a "ppi_jobs a others" ppi_state ppi_cok
  "PacketPassInterface_Sender_Send a" "PacketPassInterface_Sender_RequestCancel a"
  "\<lambda>_ :: unit. PacketPassInterface_Done a" PacketPassInterface_job_operation
  PacketPassInterface_job_requestcancel PacketPassInterface_job_done for a others
  by unfold_locales
    (auto simp: PacketPassInterface_Sender_Send_def PacketPassInterface_Sender_RequestCancel_def
      PacketPassInterface_Done_def PacketPassInterface_job_operation_def own_jobs_def
      PacketPassInterface_job_requestcancel_def PacketPassInterface_job_done_def ppi_cok_def Let_def
      split: if_splits prod.splits)

interpretation pri: flow_interface a "plain_jobs a others" pri_state "\<lambda>_. False"
  "PacketRecvInterface_Receiver_Recv a" "\<lambda>_. None" "PacketRecvInterface_Done a"
  PacketRecvInterface_job_operation "\<lambda>_. None" PacketRecvInterface_job_done for a others
  by unfold_locales
    (auto simp: PacketRecvInterface_Receiver_Recv_def PacketRecvInterface_Done_def
      PacketRecvInterface_job_operation_def PacketRecvInterface_job_done_def)

interpretation spi: flow_interface a "plain_jobs a others" spi_state "\<lambda>_. False"
  "StreamPassInterface_Sender_Send a" "\<lambda>_. None" "StreamPassInterface_Done a"
  StreamPassInterface_job_operation "\<lambda>_. None" StreamPassInterface_job_done for a others
  by unfold_locales
    (auto simp: StreamPassInterface_Sender_Send_def StreamPassInterface_Done_def
      StreamPassInterface_job_operation_def StreamPassInterface_job_done_def split: prod.splits)

interpretation sri: flow_interface a "plain_jobs a others" sri_state "\<lambda>_. False"
  "StreamRecvInterface_Receiver_Recv a" "\<lambda>_. None" "StreamRecvInterface_Done a"
  StreamRecvInterface_job_operation "\<lambda>_. None" StreamRecvInterface_job_done for a others
  by unfold_locales
    (auto simp: StreamRecvInterface_Receiver_Recv_def StreamRecvInterface_Done_def
      StreamRecvInterface_job_operation_def StreamRecvInterface_job_done_def split: prod.splits)

section \<open>Properties\<close>

lemma bp_ok_empty:
  "bp_ok {} \<lparr>bg_jobs = \<lparr>sl_prev = (\<lambda>_. None), sl_next = (\<lambda>_. None), sl_first = None\<rparr>\<rparr> []"
  by (simp add: bp_ok_def sl_rep_def)

lemma ppi_init_ok:
  "bp_ok I g [] \<Longrightarrow> own_jobs a \<inter> I = {} \<Longrightarrow> PacketPassInterface_Init a mtu g = Some (i, g') \<Longrightarrow>
    bp_ok (ppi_jobs a I) g' [] \<and> ppi_state i = STATE_NONE"
  using bp_init [OF bp_init [OF bp_init [of I g "[]" "Job_operation a"], of "Job_requestcancel a"],
      of "Job_done a"]
  by (auto simp: PacketPassInterface_Init_def own_jobs_def insert_commute)

text \<open>C26. In every run of a packet pass interface -- sends, cancel requests, completions by
  the provider and job executions in any order the assertions allow, interleaved with the
  jobs of other objects -- every send is reported done exactly once, at most one operation
  is in progress, the jobs on the group mirror the state field, and executing the next
  job never fails an assertion.
\<close>

theorem PacketPassInterface_protocol:
  assumes "PacketPassInterface_Init a mtu g0 = Some (i0, g)" "bp_ok others g0 []"
    and "own_jobs a \<inter> others = {}" "is_iface s0 = i1" "is_jobs s0 = g" "ppi_state i1 = ppi_state i0"
    and "is_started s0 = 0" "is_completed s0 = 0"
    and "iface_reach a (ppi_jobs a others) (PacketPassInterface_Sender_Send a)
      (PacketPassInterface_Sender_RequestCancel a) (\<lambda>_ :: unit. PacketPassInterface_Done a)
      PacketPassInterface_job_operation PacketPassInterface_job_requestcancel
      PacketPassInterface_job_done s0 s"
  shows "is_started s = is_completed s + (if ppi_state (is_iface s) = STATE_NONE then 0 else 1) \<and>
    BPending_IsSet (Job_operation a) (is_jobs s) = (ppi_state (is_iface s) = STATE_OPERATION_PENDING) \<and>
    BPending_IsSet (Job_done a) (is_jobs s) = (ppi_state (is_iface s) = STATE_DONE_PENDING) \<and>
    (BPendingGroup_HasJobs (is_jobs s) \<longrightarrow>
      iface_exec a PacketPassInterface_job_operation PacketPassInterface_job_requestcancel
        PacketPassInterface_job_done s \<noteq> None)"
proof -
  have "bp_ok (ppi_jobs a others) (is_jobs s0) []" "ppi_state (is_iface s0) = STATE_NONE"
    using ppi_init_ok [OF assms(2,3,1)] assms(4-6) by simp_all
  from ppi.reach_result [OF assms(9) this assms(7,8)] show ?thesis by blast
qed

text \<open>C27. The same holds for the packet receive and the two stream interfaces: operations and
  their completions alternate, the operation job and the done job are queued exactly in the states
  that wait for them, and no job execution fails an assertion.
\<close>

theorem receive_and_stream_protocol:
  assumes "bp_ok (plain_jobs a others) (is_jobs r0) []" "pri_state (is_iface r0) = STATE_NONE"
    "is_started r0 = 0" "is_completed r0 = 0"
    and "iface_reach a (plain_jobs a others) (PacketRecvInterface_Receiver_Recv a) (\<lambda>_. None)
      (PacketRecvInterface_Done a) PacketRecvInterface_job_operation (\<lambda>_. None)
      PacketRecvInterface_job_done r0 r"
    and "bp_ok (plain_jobs a others) (is_jobs p0) []" "spi_state (is_iface p0) = STATE_NONE"
    "is_started p0 = 0" "is_completed p0 = 0"
    and "iface_reach a (plain_jobs a others) (StreamPassInterface_Sender_Send a) (\<lambda>_. None)
      (StreamPassInterface_Done a) StreamPassInterface_job_operation (\<lambda>_. None)
      StreamPassInterface_job_done p0 p"
    and "bp_ok (plain_jobs a others) (is_jobs q0) []" "sri_state (is_iface q0) = STATE_NONE"
    "is_started q0 = 0" "is_completed q0 = 0"
    and "iface_reach a (plain_jobs a others) (StreamRecvInterface_Receiver_Recv a) (\<lambda>_. None)
      (StreamRecvInterface_Done a) StreamRecvInterface_job_operation (\<lambda>_. None)
      StreamRecvInterface_job_done q0 q"
  shows "is_started r = is_completed r + (if pri_state (is_iface r) = STATE_NONE then 0 else 1) \<and>
    BPending_IsSet (Job_operation a) (is_jobs r) = (pri_state (is_iface r) = STATE_OPERATION_PENDING) \<and>
    BPending_IsSet (Job_done a) (is_jobs r) = (pri_state (is_iface r) = STATE_DONE_PENDING) \<and>
    (BPendingGroup_HasJobs (is_jobs r) \<longrightarrow> iface_exec a PacketRecvInterface_job_operation
      (\<lambda>_. None) PacketRecvInterface_job_done r \<noteq> None) \<and>
    is_started p = is_completed p + (if spi_state (is_iface p) = STATE_NONE then 0 else 1) \<and>
    BPending_IsSet (Job_operation a) (is_jobs p) = (spi_state (is_iface p) = STATE_OPERATION_PENDING) \<and>
    BPending_IsSet (Job_done a) (is_jobs p) = (spi_state (is_iface p) = STATE_DONE_PENDING) \<and>
    (BPendingGroup_HasJobs (is_jobs p) \<longrightarrow> iface_exec a StreamPassInterface_job_operation
      (\<lambda>_. None) StreamPassInterface_job_done p \<noteq> None) \<and>
    is_started q = is_completed q + (if sri_state (is_iface q) = STATE_NONE then 0 else 1) \<and>
    BPending_IsSet (Job_operation a) (is_jobs q) = (sri_state (is_iface q) = STATE_OPERATION_PENDING) \<and>
    BPending_IsSet (Job_done a) (is_jobs q) = (sri_state (is_iface q) = STATE_DONE_PENDING) \<and>
    (BPendingGroup_HasJobs (is_jobs q) \<longrightarrow> iface_exec a StreamRecvInterface_job_operation
      (\<lambda>_. None) StreamRecvInterface_job_done q \<noteq> None)"
  using pri.reach_result [OF assms(5,1-4)] spi.reach_result [OF assms(10,6-9)]
    sri.reach_result [OF assms(15,11-14)]
  by blast

definition iface_example :: "'f \<times> nat jobs \<Rightarrow> ('f, nat) iface_sys" where
  "iface_example ig = \<lparr>is_iface = fst ig, is_jobs = snd ig, is_started = 0, is_completed = 0\<rparr>"

abbreviation empty_jobs :: "nat jobs" where
  "empty_jobs \<equiv> \<lparr>bg_jobs = \<lparr>sl_prev = (\<lambda>_. None), sl_next = (\<lambda>_. None), sl_first = None\<rparr>\<rparr>"

theorem PacketPassInterface_protocol_witness:
  "\<exists>s :: (nat PacketPassInterface, nat) iface_sys.
     is_started s = 1 \<and> is_completed s = 0 \<and> ppi_state (is_iface s) = STATE_OPERATION_PENDING \<and>
     BPending_IsSet (Job_operation 0) (is_jobs s) \<and> \<not> BPending_IsSet (Job_done 0) (is_jobs s)"
proof -
  define i0 :: "nat PacketPassInterface" and g where
    "i0 = fst (the (PacketPassInterface_Init (0 :: nat) 1500 empty_jobs))"
    and "g = snd (the (PacketPassInterface_Init (0 :: nat) 1500 empty_jobs
      :: (nat PacketPassInterface \<times> nat jobs) option))"
  have init: "PacketPassInterface_Init 0 1500 empty_jobs = Some (i0, g)"
    by (simp add: i0_def g_def PacketPassInterface_Init_def require_def)
  let ?i = "i0\<lparr>ppi_has_done := True\<rparr>"
  let ?init = "iface_example (?i, g)"
  define r where "r = the (PacketPassInterface_Sender_Send 0 (Some 7, 3) (?i, g))"
  have send: "PacketPassInterface_Sender_Send 0 (Some 7, 3) (is_iface ?init, is_jobs ?init) = Some (fst r, snd r)"
    by (simp add: r_def i0_def PacketPassInterface_Sender_Send_def PacketPassInterface_Init_def
        require_def iface_example_def)
  let ?s = "?init\<lparr>is_iface := fst r, is_jobs := snd r, is_started := is_started ?init + 1\<rparr>"
  have st: "ppi_state (fst r) = STATE_OPERATION_PENDING"
    using send by (auto simp: PacketPassInterface_Sender_Send_def iface_example_def)
  have reach: "iface_reach 0 (ppi_jobs 0 {}) (PacketPassInterface_Sender_Send 0)
      (PacketPassInterface_Sender_RequestCancel 0) (\<lambda>_ :: unit. PacketPassInterface_Done 0)
      PacketPassInterface_job_operation PacketPassInterface_job_requestcancel
      PacketPassInterface_job_done ?init ?s"
    using if_init send by (rule if_start)
  note all = PacketPassInterface_protocol [OF init bp_ok_empty _ _ _ _ _ _ reach]
  have "is_started ?s = 1 \<and> is_completed ?s = 0 \<and> ppi_state (is_iface ?s) = STATE_OPERATION_PENDING \<and>
     BPending_IsSet (Job_operation 0) (is_jobs ?s) \<and> \<not> BPending_IsSet (Job_done 0) (is_jobs ?s)"
    using all st by (simp add: iface_example_def)
  then show ?thesis by blast
qed

theorem receive_and_stream_protocol_witness:
  "\<exists>(r :: (nat PacketRecvInterface, nat) iface_sys).
     is_started r = 1 \<and> pri_state (is_iface r) = STATE_OPERATION_PENDING \<and>
     iface_exec 0 PacketRecvInterface_job_operation (\<lambda>_. None) PacketRecvInterface_job_done r \<noteq> None"
proof -
  define i0 :: "nat PacketRecvInterface" and g where
    "i0 = fst (the (PacketRecvInterface_Init (0 :: nat) 1500 empty_jobs))"
    and "g = BPending_Init (Job_done 0) (BPending_Init (Job_operation 0) empty_jobs)"
  let ?rinit = "iface_example (i0\<lparr>pri_has_done := True\<rparr>, g)"
  let ?pinit = "iface_example (fst (StreamPassInterface_Init 0 empty_jobs :: nat StreamPassInterface \<times> _), g)"
  let ?qinit = "iface_example (fst (StreamRecvInterface_Init 0 empty_jobs :: nat StreamRecvInterface \<times> _), g)"
  have ok: "bp_ok (plain_jobs 0 {}) g []"
    using bp_init [OF bp_init [OF bp_ok_empty, of "Job_operation (0 :: nat)"], of "Job_done 0"]
    by (simp add: g_def insert_commute)
  define x where "x = the (PacketRecvInterface_Receiver_Recv 0 (Some 7) (i0\<lparr>pri_has_done := True\<rparr>, g))"
  have recv: "PacketRecvInterface_Receiver_Recv 0 (Some 7) (is_iface ?rinit, is_jobs ?rinit) = Some (fst x, snd x)"
    by (simp add: x_def i0_def PacketRecvInterface_Receiver_Recv_def PacketRecvInterface_Init_def
        require_def iface_example_def)
  let ?r = "?rinit\<lparr>is_iface := fst x, is_jobs := snd x, is_started := is_started ?rinit + 1\<rparr>"
  have st: "pri_state (fst x) = STATE_OPERATION_PENDING" "BPending_IsSet (Job_operation 0) (snd x)"
    "BPendingGroup_HasJobs (snd x)"
    using recv bp.set_exec [OF ok, of "Job_operation 0"] bp.is_set_law [OF bp.set_law [OF ok]]
    by (auto simp: PacketRecvInterface_Receiver_Recv_def iface_example_def BPendingGroup_HasJobs_def
        BPendingGroup_ExecuteJob_def SLinkedList_IsEmpty_def SLinkedList_First_def split: option.splits)
  have reach: "iface_reach 0 (plain_jobs 0 {}) (PacketRecvInterface_Receiver_Recv 0) (\<lambda>_. None)
      (PacketRecvInterface_Done 0) PacketRecvInterface_job_operation (\<lambda>_. None)
      PacketRecvInterface_job_done ?rinit ?r"
    using if_init recv by (rule if_start)
  have z: "pri_state (is_iface ?rinit) = STATE_NONE" "spi_state (is_iface ?pinit) = STATE_NONE"
    "sri_state (is_iface ?qinit) = STATE_NONE" "is_jobs ?rinit = g" "is_jobs ?pinit = g" "is_jobs ?qinit = g"
    "is_started ?rinit = 0" "is_completed ?rinit = 0" "is_started ?pinit = 0" "is_completed ?pinit = 0"
    "is_started ?qinit = 0" "is_completed ?qinit = 0"
    by (simp_all add: iface_example_def i0_def PacketRecvInterface_Init_def require_def
        StreamPassInterface_Init_def StreamRecvInterface_Init_def)
  have oks: "bp_ok (plain_jobs 0 {}) (is_jobs ?rinit) []" "bp_ok (plain_jobs 0 {}) (is_jobs ?pinit) []"
    "bp_ok (plain_jobs 0 {}) (is_jobs ?qinit) []"
    using ok z by simp_all
  note all = receive_and_stream_protocol [OF oks(1) z(1) z(7,8) reach oks(2) z(2) z(9,10) if_init
      oks(3) z(3) z(11,12) if_init]
  have "BPendingGroup_HasJobs (is_jobs ?r)" using st(3) by simp
  with all have "iface_exec 0 PacketRecvInterface_job_operation (\<lambda>_. None)
      PacketRecvInterface_job_done ?r \<noteq> None"
    by (elim conjE) (erule mp)
  moreover have "is_started ?r = 1" "pri_state (is_iface ?r) = STATE_OPERATION_PENDING"
    using st z by simp_all
  ultimately show ?thesis by blast
qed

end
