(* ===== verification/Packet_Proto.thy ===== *)
theory Packet_Proto
  imports Byte_Order Sizes "HOL-Library.Sublist"
begin

text \<open>
  PacketProto, the framing of packets on a stream: \<^verbatim>\<open>protocol/packetproto.h\<close>,
  \<^verbatim>\<open>flow/PacketProtoEncoder.c\<close> and \<^verbatim>\<open>flow/PacketProtoDecoder.c\<close>. Handlers return the calls they
  make on their interfaces; pointers into the decoder's buffer are offsets. The decoder is
  run against an arbitrary chunking of its input stream.
\<close>

section \<open>protocol/packetproto.h\<close>

text \<open>\<^verbatim>\<open>struct packetproto_header\<close> is the two bytes of its field \<^verbatim>\<open>len\<close>.\<close>

definition packetproto_header :: "u16 \<Rightarrow> bytes" where
  "packetproto_header len = mem16 len"

definition packetproto_header_len :: "bytes \<Rightarrow> u16" where
  "packetproto_header_len b = unmem16 b"

definition PACKETPROTO_ENCLEN :: "int \<Rightarrow> int" where
  "PACKETPROTO_ENCLEN len = 2 + len"

definition PACKETPROTO_MAXPAYLOAD :: int where
  "PACKETPROTO_MAXPAYLOAD = UINT16_MAX"

section \<open>flow/PacketProtoEncoder.c\<close>

text \<open>
  The encoder writes into the buffer its output's user provides; \<open>output_packet\<close> is an
  offset into that memory.
\<close>

record PacketProtoEncoder =
  enc_input_mtu :: int
  enc_output_packet :: "int option"

datatype enc_call = Enc_Receiver_Recv int | Enc_Done int

definition enc_output_handler_recv ::
  "PacketProtoEncoder \<Rightarrow> int \<Rightarrow> (PacketProtoEncoder \<times> enc_call list) option" where
  "enc_output_handler_recv enc data =
     require (enc_output_packet enc = None)
       (enc\<lparr>enc_output_packet := Some data\<rparr>, [Enc_Receiver_Recv (data + 2)])"

definition enc_input_handler_done ::
  "PacketProtoEncoder \<Rightarrow> int \<Rightarrow> bytes \<Rightarrow> (PacketProtoEncoder \<times> bytes \<times> enc_call list) option" where
  "enc_input_handler_done enc in_len mem = (case enc_output_packet enc of
     None \<Rightarrow> None
   | Some out \<Rightarrow>
       (let pp = packetproto_header (htol16 (word_of_int in_len));
            mem = memcpy mem (nat out) pp
        in Some (enc\<lparr>enc_output_packet := None\<rparr>, mem, [Enc_Done (PACKETPROTO_ENCLEN in_len)])))"

definition PacketProtoEncoder_Init :: "int \<Rightarrow> (PacketProtoEncoder \<times> int) option" where
  "PacketProtoEncoder_Init input_mtu =
     require (input_mtu \<le> PACKETPROTO_MAXPAYLOAD)
       (\<lparr>enc_input_mtu = input_mtu, enc_output_packet = None\<rparr>, PACKETPROTO_ENCLEN input_mtu)"

section \<open>flow/PacketProtoDecoder.c\<close>

record PacketProtoDecoder =
  dec_output_mtu :: int
  dec_buf_size :: int
  dec_buf_start :: int
  dec_buf_used :: int
  dec_buf :: bytes

datatype dec_call = Dec_Sender_Send int int | Dec_Receiver_Recv int int | Dec_handler_error

definition process_data :: "PacketProtoDecoder \<Rightarrow> PacketProtoDecoder \<times> dec_call list" where
  "process_data enc =
     (let data = dec_buf_start enc;
          left = dec_buf_used enc;
          receive = (\<lambda>enc. Dec_Receiver_Recv (dec_buf_start enc + dec_buf_used enc)
                       (dec_buf_size enc - (dec_buf_start enc + dec_buf_used enc)));
          wait = (\<lambda>enc.
            let enc = (if dec_buf_start enc + dec_buf_used enc = dec_buf_size enc
                       then enc\<lparr>dec_buf := memcpy (dec_buf enc) 0
                                  (bslice (dec_buf enc) (nat (dec_buf_start enc)) (nat (dec_buf_used enc))),
                                dec_buf_start := 0\<rparr>
                       else enc)
            in (enc, [receive enc]));
          fail = (\<lambda>enc.
            let enc = enc\<lparr>dec_buf_start := 0, dec_buf_used := 0\<rparr>
            in (enc, [receive enc, Dec_handler_error]))
      in if left < 2 then wait enc
         else (let header = packetproto_header_len (drop (nat data) (dec_buf enc));
                   data = data + 2;
                   left = left - 2;
                   data_len = uint (ltoh16 header)
               in if data_len > dec_output_mtu enc then fail enc
                  else if left < data_len then wait enc
                  else (enc\<lparr>dec_buf_start := dec_buf_start enc + (2 + data_len),
                            dec_buf_used := dec_buf_used enc - (2 + data_len)\<rparr>,
                        [Dec_Sender_Send data data_len])))"

definition dec_input_handler_done ::
  "PacketProtoDecoder \<Rightarrow> int \<Rightarrow> (PacketProtoDecoder \<times> dec_call list) option" where
  "dec_input_handler_done enc data_len =
     require (data_len > 0 \<and> data_len \<le> dec_buf_size enc - (dec_buf_start enc + dec_buf_used enc))
       (process_data (enc\<lparr>dec_buf_used := dec_buf_used enc + data_len\<rparr>))"

definition dec_output_handler_done :: "PacketProtoDecoder \<Rightarrow> PacketProtoDecoder \<times> dec_call list" where
  "dec_output_handler_done enc = process_data enc"

definition PacketProtoDecoder_Init ::
  "allocator \<Rightarrow> int \<Rightarrow> (PacketProtoDecoder \<times> dec_call list) option" where
  "PacketProtoDecoder_Init malloc output_if_mtu =
     (let output_mtu = bmin_int output_if_mtu PACKETPROTO_MAXPAYLOAD;
          buf_size = PACKETPROTO_ENCLEN output_mtu
      in case malloc buf_size of
           None \<Rightarrow> None
         | Some buf \<Rightarrow>
             Some (\<lparr>dec_output_mtu = output_mtu, dec_buf_size = buf_size, dec_buf_start = 0,
                    dec_buf_used = 0, dec_buf = buf\<rparr>,
                   [Dec_Receiver_Recv 0 buf_size]))"

definition PacketProtoDecoder_Reset :: "PacketProtoDecoder \<Rightarrow> PacketProtoDecoder" where
  "PacketProtoDecoder_Reset enc =
     enc\<lparr>dec_buf_start := dec_buf_start enc + dec_buf_used enc, dec_buf_used := 0\<rparr>"

section \<open>The decoder against its two interfaces\<close>

text \<open>
  The stream input may deliver any number of bytes up to what was asked for; the packet
  output takes the packet at the address it was given when it finishes. \<open>ds_in\<close>,
  \<open>ds_out\<close> and \<open>ds_errors\<close> record the bytes received and packets delivered since the last
  protocol error, and the number of errors; \<open>ds_all\<close> is every byte received.
\<close>

record dec_sys =
  ds_dec :: PacketProtoDecoder
  ds_recv :: "(int \<times> int) option"
  ds_send :: "(int \<times> int) option"
  ds_in :: bytes
  ds_all :: bytes
  ds_out :: "bytes list"
  ds_errors :: nat

fun dec_do_call :: "dec_call \<Rightarrow> dec_sys \<Rightarrow> dec_sys option" where
  "dec_do_call (Dec_Sender_Send d n) s = require (ds_send s = None \<and> 0 \<le> n) (s\<lparr>ds_send := Some (d, n)\<rparr>)"
| "dec_do_call (Dec_Receiver_Recv d n) s = require (ds_recv s = None \<and> 0 < n) (s\<lparr>ds_recv := Some (d, n)\<rparr>)"
| "dec_do_call Dec_handler_error s =
     Some (s\<lparr>ds_in := [], ds_out := [], ds_errors := ds_errors s + 1\<rparr>)"

fun dec_do_calls :: "dec_call list \<Rightarrow> dec_sys \<Rightarrow> dec_sys option" where
  "dec_do_calls [] s = Some s"
| "dec_do_calls (c # cs) s = Option.bind (dec_do_call c s) (dec_do_calls cs)"

definition dec_input :: "bytes \<Rightarrow> dec_sys \<Rightarrow> dec_sys option" where
  "dec_input bs s = (case ds_recv s of
     None \<Rightarrow> None
   | Some (d, n) \<Rightarrow>
       (let enc = (ds_dec s)\<lparr>dec_buf := memcpy (dec_buf (ds_dec s)) (nat d) bs\<rparr>
        in case dec_input_handler_done enc (int (length bs)) of
             None \<Rightarrow> None
           | Some (enc, cs) \<Rightarrow>
               dec_do_calls cs (s\<lparr>ds_recv := None, ds_in := ds_in s @ bs,
                 ds_all := ds_all s @ bs, ds_dec := enc\<rparr>)))"

definition dec_output :: "dec_sys \<Rightarrow> dec_sys option" where
  "dec_output s = (case ds_send s of
     None \<Rightarrow> None
   | Some (d, n) \<Rightarrow>
       (case dec_output_handler_done (ds_dec s) of
          (enc, cs) \<Rightarrow>
            dec_do_calls cs (s\<lparr>ds_send := None,
              ds_out := ds_out s @ [bslice (dec_buf (ds_dec s)) (nat d) (nat n)], ds_dec := enc\<rparr>)))"

definition dec_start :: "PacketProtoDecoder \<times> dec_call list \<Rightarrow> dec_sys option" where
  "dec_start r = dec_do_calls (snd r)
     \<lparr>ds_dec = fst r, ds_recv = None, ds_send = None, ds_in = [], ds_all = [],
      ds_out = [], ds_errors = 0\<rparr>"

inductive dec_reach :: "dec_sys \<Rightarrow> dec_sys \<Rightarrow> bool" for s0 where
  dr_init: "dec_reach s0 s0"
| dr_input: "dec_reach s0 s \<Longrightarrow> ds_recv s = Some (d, n) \<Longrightarrow> 0 < length bs \<Longrightarrow> int (length bs) \<le> n \<Longrightarrow>
    dec_input bs s = Some t \<Longrightarrow> dec_reach s0 t"
| dr_output: "dec_reach s0 s \<Longrightarrow> ds_send s \<noteq> None \<Longrightarrow> dec_output s = Some t \<Longrightarrow> dec_reach s0 t"

section \<open>The framing\<close>

definition pp_encode :: "bytes \<Rightarrow> bytes" where
  "pp_encode p = packetproto_header (htol16 (word_of_int (int (length p)))) @ p"

text \<open>\<open>pp_partial mtu b\<close>: the bytes are a proper beginning of one encoded packet.\<close>

definition pp_partial :: "int \<Rightarrow> bytes \<Rightarrow> bool" where
  "pp_partial mtu b \<longleftrightarrow> length b < 2 \<or>
     (uint (ltoh16 (packetproto_header_len b)) \<le> mtu \<and>
      int (length b) < 2 + uint (ltoh16 (packetproto_header_len b)))"

lemma length_pp_encode: "length (pp_encode p) = 2 + length p"
  by (simp add: pp_encode_def packetproto_header_def)

lemma header_of_encode:
  "length p \<le> 65535 \<Longrightarrow> uint (ltoh16 (packetproto_header_len (pp_encode p @ r))) = int (length p)"
  by (simp add: pp_encode_def packetproto_header_def packetproto_header_len_def byte_order_defs
      unsigned_of_nat take_bit_nat_eq_self)

lemma encode_of_header:
  assumes "2 \<le> length b" "n = uint (ltoh16 (packetproto_header_len b))" "2 + n \<le> int (length b)"
  shows "b = pp_encode (bslice b 2 (nat n)) @ drop (nat (2 + n)) b"
proof -
  have n: "0 \<le> n" "n < 65536"
    using assms(2) uint_lt2p [of "ltoh16 (packetproto_header_len b)"] by simp_all
  have len: "length (bslice b 2 (nat n)) = nat n" using assms(3) n by simp
  have "word_of_int n = (unmem16 b :: u16)"
    using assms(2) by (simp add: byte_order_defs packetproto_header_len_def)
  then have "packetproto_header (htol16 (word_of_int n)) = take 2 b"
    using assms(1) by (simp add: packetproto_header_def byte_order_defs mem_unmem)
  then have "pp_encode (bslice b 2 (nat n)) = take 2 b @ bslice b 2 (nat n)"
    using n len by (simp add: pp_encode_def)
  also have "\<dots> = take (nat (2 + n)) b"
    using n by (simp add: bslice_def take_add [symmetric] nat_add_distrib)
  finally show ?thesis by simp
qed

lemma partial_not_encode:
  "pp_partial mtu (pp_encode p @ r) \<Longrightarrow> length p \<le> 65535 \<Longrightarrow> False"
  using header_of_encode [of p r] by (auto simp: pp_partial_def length_pp_encode)

lemma pp_encode_inject:
  assumes "pp_encode p @ r = pp_encode q @ t" "length p \<le> 65535" "length q \<le> 65535"
  shows "p = q \<and> r = t"
proof -
  have len: "length p = length q"
    using header_of_encode [of p r] header_of_encode [of q t] assms by simp
  then have "length (pp_encode p) = length (pp_encode q)" by (simp add: length_pp_encode)
  with assms(1) have "pp_encode p = pp_encode q" "r = t" by auto
  with len show ?thesis by (simp add: pp_encode_def packetproto_header_def)
qed

text \<open>A stream has at most one reading as encoded packets and an unfinished one.\<close>

lemma pp_unique:
  assumes "concat (map pp_encode ps) = concat (map pp_encode qs) @ r" "pp_partial mtu r"
    "\<forall>p \<in> set ps. length p \<le> 65535" "\<forall>q \<in> set qs. length q \<le> 65535"
  shows "ps = qs \<and> r = []"
  using assms
proof (induction qs arbitrary: ps)
  case Nil
  show ?case
  proof (cases ps)
    case (Cons p ps')
    with Nil partial_not_encode [of mtu p "concat (map pp_encode ps')"] show ?thesis by simp
  qed (use Nil in simp)
next
  case (Cons q qs)
  show ?case
  proof (cases ps)
    case Nil
    with Cons.prems show ?thesis by (simp add: pp_encode_def packetproto_header_def le_split_numeral)
  next
    case (Cons p ps')
    with Cons.prems pp_encode_inject [of p "concat (map pp_encode ps')" q]
    have "p = q" "concat (map pp_encode ps') = concat (map pp_encode qs) @ r" by auto
    with Cons.IH [of ps'] Cons.prems Cons show ?thesis by simp
  qed
qed

section \<open>One call of \<open>process_data\<close>\<close>

definition dec_wf :: "PacketProtoDecoder \<Rightarrow> bool" where
  "dec_wf enc \<longleftrightarrow> dec_buf_size enc = 2 + dec_output_mtu enc \<and> 0 \<le> dec_output_mtu enc \<and>
     dec_output_mtu enc \<le> 65535 \<and> int (length (dec_buf enc)) = dec_buf_size enc \<and>
     0 \<le> dec_buf_start enc \<and> 0 \<le> dec_buf_used enc \<and>
     dec_buf_start enc + dec_buf_used enc \<le> dec_buf_size enc"

definition dec_bytes :: "PacketProtoDecoder \<Rightarrow> bytes" where
  "dec_bytes enc = bslice (dec_buf enc) (nat (dec_buf_start enc)) (nat (dec_buf_used enc))"

lemma length_dec_bytes: "dec_wf enc \<Longrightarrow> int (length (dec_bytes enc)) = dec_buf_used enc"
  by (auto simp: dec_wf_def dec_bytes_def)

lemma header_dec_bytes:
  "dec_wf enc \<Longrightarrow> 2 \<le> dec_buf_used enc \<Longrightarrow>
    packetproto_header_len (drop (nat (dec_buf_start enc)) (dec_buf enc)) =
    packetproto_header_len (dec_bytes enc)"
  by (simp add: packetproto_header_len_def dec_bytes_def bslice_def min_def le_nat_iff)

definition dec_wait :: "PacketProtoDecoder \<Rightarrow> PacketProtoDecoder" where
  "dec_wait enc = (if dec_buf_start enc + dec_buf_used enc = dec_buf_size enc
     then enc\<lparr>dec_buf := memcpy (dec_buf enc) 0
                (bslice (dec_buf enc) (nat (dec_buf_start enc)) (nat (dec_buf_used enc))),
              dec_buf_start := 0\<rparr>
     else enc)"

lemma dec_wait_keeps:
  assumes "dec_wf enc"
  shows "dec_wf (dec_wait enc)" "dec_bytes (dec_wait enc) = dec_bytes enc"
    "dec_buf_used (dec_wait enc) = dec_buf_used enc" "dec_output_mtu (dec_wait enc) = dec_output_mtu enc"
    "dec_buf_used enc < dec_buf_size enc \<Longrightarrow>
      dec_buf_start (dec_wait enc) + dec_buf_used (dec_wait enc) < dec_buf_size (dec_wait enc)"
proof -
  have len: "nat (dec_buf_used enc) = length (dec_bytes enc)" "length (dec_bytes enc) \<le> length (dec_buf enc)"
    using assms length_dec_bytes [OF assms] by (auto simp: dec_wf_def)
  then have "bslice (memcpy (dec_buf enc) 0 (dec_bytes enc)) 0 (nat (dec_buf_used enc)) = dec_bytes enc"
    using bslice_memcpy_same [of 0 "dec_bytes enc" "dec_buf enc"] by simp
  then show "dec_bytes (dec_wait enc) = dec_bytes enc"
    by (simp add: dec_wait_def dec_bytes_def)
qed (use assms in \<open>auto simp: dec_wf_def dec_wait_def\<close>)

lemma process_wait:
  assumes "dec_wf enc" "pp_partial (dec_output_mtu enc) (dec_bytes enc)"
  shows "process_data enc = (dec_wait enc,
    [Dec_Receiver_Recv (dec_buf_start (dec_wait enc) + dec_buf_used (dec_wait enc))
       (dec_buf_size (dec_wait enc) - (dec_buf_start (dec_wait enc) + dec_buf_used (dec_wait enc)))])"
    "dec_buf_used enc < dec_buf_size enc"
  using assms length_dec_bytes [OF assms(1)] header_dec_bytes [OF assms(1)]
  by (auto simp: process_data_def pp_partial_def dec_wait_def Let_def dec_wf_def)

lemma process_error:
  assumes "dec_wf enc" "2 \<le> dec_buf_used enc"
    "uint (ltoh16 (packetproto_header_len (dec_bytes enc))) > dec_output_mtu enc"
  shows "process_data enc = (enc\<lparr>dec_buf_start := 0, dec_buf_used := 0\<rparr>,
    [Dec_Receiver_Recv 0 (dec_buf_size enc), Dec_handler_error])"
  using assms header_dec_bytes [OF assms(1)] by (simp add: process_data_def Let_def)

lemma process_packet:
  assumes wf: "dec_wf enc" and used: "2 \<le> dec_buf_used enc"
    and n: "n = uint (ltoh16 (packetproto_header_len (dec_bytes enc)))"
    and mtu: "n \<le> dec_output_mtu enc" and full: "2 + n \<le> dec_buf_used enc"
  obtains enc' where "process_data enc = (enc', [Dec_Sender_Send (dec_buf_start enc + 2) n])"
    "dec_wf enc'" "dec_buf enc' = dec_buf enc" "dec_output_mtu enc' = dec_output_mtu enc"
    "dec_bytes enc = pp_encode (bslice (dec_buf enc) (nat (dec_buf_start enc + 2)) (nat n)) @ dec_bytes enc'"
    "0 \<le> n"
proof -
  let ?enc = "enc\<lparr>dec_buf_start := dec_buf_start enc + (2 + n), dec_buf_used := dec_buf_used enc - (2 + n)\<rparr>"
  have n0: "0 \<le> n" using n by simp
  have "process_data enc = (?enc, [Dec_Sender_Send (dec_buf_start enc + 2) n])"
    using used n mtu full header_dec_bytes [OF wf used] by (simp add: process_data_def Let_def)
  moreover have "dec_wf ?enc" using wf n0 full by (auto simp: dec_wf_def)
  moreover have "dec_bytes enc =
      pp_encode (bslice (dec_buf enc) (nat (dec_buf_start enc + 2)) (nat n)) @ dec_bytes ?enc"
  proof -
    have "bslice (dec_bytes enc) 2 (nat n) = bslice (dec_buf enc) (nat (dec_buf_start enc + 2)) (nat n)"
      using wf n0 full by (simp add: dec_bytes_def bslice_bslice dec_wf_def nat_add_distrib)
    moreover have "drop (nat (2 + n)) (dec_bytes enc) = dec_bytes ?enc"
      using wf n0 full
      by (simp add: dec_bytes_def bslice_def dec_wf_def drop_take nat_add_distrib nat_diff_distrib
          add.commute add.left_commute)
    moreover have "dec_bytes enc =
        pp_encode (bslice (dec_bytes enc) 2 (nat n)) @ drop (nat (2 + n)) (dec_bytes enc)"
      using used full length_dec_bytes [OF wf] by (intro encode_of_header [OF _ n]) simp_all
    ultimately show ?thesis by (simp only:)
  qed
  ultimately show ?thesis using that n0 by simp
qed

section \<open>Every run of the decoder\<close>

definition dec_waiting :: "dec_sys \<Rightarrow> bool" where
  "dec_waiting s \<longleftrightarrow> (let enc = ds_dec s; e = dec_buf_start enc + dec_buf_used enc in
     ds_send s = None \<and> ds_recv s = Some (e, dec_buf_size enc - e) \<and> e < dec_buf_size enc \<and>
     pp_partial (dec_output_mtu enc) (dec_bytes enc) \<and>
     ds_in s = concat (map pp_encode (ds_out s)) @ dec_bytes enc)"

definition dec_sending :: "dec_sys \<Rightarrow> bool" where
  "dec_sending s \<longleftrightarrow> (let enc = ds_dec s in
     ds_recv s = None \<and> (\<exists>d n. ds_send s = Some (d, n) \<and> 0 \<le> n \<and> n \<le> dec_output_mtu enc \<and>
     ds_in s = concat (map pp_encode (ds_out s)) @ pp_encode (bslice (dec_buf enc) (nat d) (nat n)) @
       dec_bytes enc))"

definition dec_inv :: "int \<Rightarrow> dec_sys \<Rightarrow> bool" where
  "dec_inv mtu s \<longleftrightarrow> dec_wf (ds_dec s) \<and> dec_output_mtu (ds_dec s) = mtu \<and>
     (dec_waiting s \<or> dec_sending s) \<and> (\<forall>p \<in> set (ds_out s). int (length p) \<le> mtu) \<and>
     (ds_errors s = 0 \<longrightarrow> ds_all s = ds_in s)"

lemma process_inv:
  assumes wf: "dec_wf enc" and io: "ds_recv s = None" "ds_send s = None"
    and inp: "ds_in s = concat (map pp_encode (ds_out s)) @ dec_bytes enc"
    and out: "\<forall>p \<in> set (ds_out s). int (length p) \<le> dec_output_mtu enc"
    and all: "ds_errors s = 0 \<longrightarrow> ds_all s = ds_in s"
    and step: "process_data enc = (enc', cs)"
  shows "\<exists>t. dec_do_calls cs (s\<lparr>ds_dec := enc'\<rparr>) = Some t \<and> dec_inv (dec_output_mtu enc) t \<and>
    ds_all t = ds_all s \<and> (ds_errors t = ds_errors s \<and> ds_out t = ds_out s \<or>
      2 \<le> dec_buf_used enc \<and>
      uint (ltoh16 (packetproto_header_len (dec_bytes enc))) > dec_output_mtu enc)"
proof -
  let ?n = "uint (ltoh16 (packetproto_header_len (dec_bytes enc)))"
  note len = length_dec_bytes [OF wf]
  consider (wait) "pp_partial (dec_output_mtu enc) (dec_bytes enc)"
    | (err) "2 \<le> dec_buf_used enc" "?n > dec_output_mtu enc"
    | (pkt) "2 \<le> dec_buf_used enc" "?n \<le> dec_output_mtu enc" "2 + ?n \<le> dec_buf_used enc"
    using len unfolding pp_partial_def by linarith
  then show ?thesis
  proof cases
    case wait
    note pw = process_wait [OF wf wait] and kw = dec_wait_keeps [OF wf]
    have "enc' = dec_wait enc" using step pw(1) by simp
    moreover have "dec_buf_start enc' + dec_buf_used enc' < dec_buf_size enc'"
      using kw(5) [OF pw(2)] calculation by simp
    ultimately show ?thesis
      using step pw(1) kw wait io inp out all
      by (auto simp: require_def dec_inv_def dec_waiting_def Let_def)
  next
    case err
    then show ?thesis
      using step process_error [OF wf err] io wf
      by (auto simp: require_def dec_inv_def dec_waiting_def Let_def dec_wf_def dec_bytes_def pp_partial_def)
  next
    case pkt
    define n where "n = ?n"
    obtain e where e: "process_data enc = (e, [Dec_Sender_Send (dec_buf_start enc + 2) n])"
      "dec_wf e" "dec_buf e = dec_buf enc" "dec_output_mtu e = dec_output_mtu enc"
      "dec_bytes enc = pp_encode (bslice (dec_buf enc) (nat (dec_buf_start enc + 2)) (nat n)) @ dec_bytes e"
      "0 \<le> n"
      by (rule process_packet [OF wf pkt(1) n_def pkt(2,3) [folded n_def]])
    have "enc' = e" "cs = [Dec_Sender_Send (dec_buf_start enc + 2) n]" using step e(1) by auto
    moreover have "n \<le> dec_output_mtu enc" using pkt(2) by (simp add: n_def)
    ultimately show ?thesis
      using io inp out all e
      by (auto simp: require_def dec_inv_def dec_sending_def Let_def)
  qed
qed

lemma dec_bytes_append:
  assumes "dec_wf enc" "dec_buf_start enc + dec_buf_used enc + int (length bs) \<le> dec_buf_size enc"
  defines "enc' \<equiv> enc\<lparr>dec_buf := memcpy (dec_buf enc) (nat (dec_buf_start enc + dec_buf_used enc)) bs,
    dec_buf_used := dec_buf_used enc + int (length bs)\<rparr>"
  shows "dec_wf enc'" "dec_bytes enc' = dec_bytes enc @ bs" "dec_output_mtu enc' = dec_output_mtu enc"
proof -
  let ?i = "nat (dec_buf_start enc)" and ?m = "nat (dec_buf_used enc)"
  have nn: "0 \<le> dec_buf_start enc" "0 \<le> dec_buf_used enc"
    and fit: "?i + ?m + length bs \<le> length (dec_buf enc)"
    using assms by (auto simp: dec_wf_def)
  show "dec_wf enc'" "dec_output_mtu enc' = dec_output_mtu enc"
    using assms fit nn by (auto simp: dec_wf_def enc'_def nat_add_distrib)
  have "dec_bytes enc' = bslice (memcpy (dec_buf enc) (?i + ?m) bs) ?i (?m + length bs)"
    using nn by (simp add: dec_bytes_def enc'_def nat_add_distrib)
  also have "\<dots> = dec_bytes enc @ bs"
    using fit by (simp add: bslice_append_bslice bslice_memcpy_before dec_bytes_def)
  finally show "dec_bytes enc' = dec_bytes enc @ bs" .
qed

text \<open>The stream goes wrong after the packets \<open>qs\<close>: the next header is too large.\<close>

definition pp_bad :: "int \<Rightarrow> bytes list \<Rightarrow> bytes \<Rightarrow> bool" where
  "pp_bad mtu qs b \<longleftrightarrow> (\<forall>q \<in> set qs. int (length q) \<le> mtu) \<and>
     (\<exists>r. b = concat (map pp_encode qs) @ r \<and> 2 \<le> length r \<and>
       uint (ltoh16 (packetproto_header_len r)) > mtu)"

lemma dec_inv_input:
  assumes inv: "dec_inv mtu s" and recv: "ds_recv s = Some (d, n)"
    and bs: "0 < length bs" "int (length bs) \<le> n"
  shows "\<exists>t. dec_input bs s = Some t \<and> dec_inv mtu t \<and> ds_all t = ds_all s @ bs \<and>
    (ds_errors t = ds_errors s \<or> pp_bad mtu (ds_out s) (ds_in s @ bs))"
proof -
  let ?enc = "ds_dec s"
  let ?e = "dec_buf_start ?enc + dec_buf_used ?enc"
  have wf: "dec_wf ?enc" and mtu: "dec_output_mtu ?enc = mtu" and w: "dec_waiting s"
    using inv recv by (auto simp: dec_inv_def dec_sending_def Let_def)
  have d: "d = ?e" "n = dec_buf_size ?enc - ?e" using w recv by (simp_all add: dec_waiting_def Let_def)
  let ?enc' = "?enc\<lparr>dec_buf := memcpy (dec_buf ?enc) (nat ?e) bs,
    dec_buf_used := dec_buf_used ?enc + int (length bs)\<rparr>"
  have fit: "?e + int (length bs) \<le> dec_buf_size ?enc" using bs(2) d by simp
  note app = dec_bytes_append [OF wf fit]
  obtain e cs where step: "process_data ?enc' = (e, cs)" by fastforce
  let ?s = "s\<lparr>ds_recv := None, ds_in := ds_in s @ bs, ds_all := ds_all s @ bs\<rparr>"
  have "\<exists>t. dec_do_calls cs (?s\<lparr>ds_dec := e\<rparr>) = Some t \<and> dec_inv (dec_output_mtu ?enc') t \<and>
      ds_all t = ds_all ?s \<and> (ds_errors t = ds_errors ?s \<and> ds_out t = ds_out ?s \<or>
        2 \<le> dec_buf_used ?enc' \<and>
        uint (ltoh16 (packetproto_header_len (dec_bytes ?enc'))) > dec_output_mtu ?enc')"
    using w inv app mtu
    by (intro process_inv [OF app(1) _ _ _ _ _ step]) (auto simp: dec_waiting_def dec_inv_def Let_def)
  moreover have "pp_bad mtu (ds_out s) (ds_in s @ bs)"
    if "2 \<le> dec_buf_used ?enc'" "uint (ltoh16 (packetproto_header_len (dec_bytes ?enc'))) > mtu"
    using that w inv app(2) length_dec_bytes [OF app(1)]
    by (auto simp: pp_bad_def dec_waiting_def dec_inv_def Let_def intro!: exI [of _ "dec_bytes ?enc'"])
  ultimately obtain t where t: "dec_do_calls cs (?s\<lparr>ds_dec := e\<rparr>) = Some t" "dec_inv mtu t"
    "ds_all t = ds_all s @ bs" "ds_errors t = ds_errors s \<or> pp_bad mtu (ds_out s) (ds_in s @ bs)"
    using mtu app(3) by auto
  moreover have "dec_input bs s = dec_do_calls cs (?s\<lparr>ds_dec := e\<rparr>)"
    using recv d bs fit step by (simp add: dec_input_def dec_input_handler_done_def require_def Let_def)
  ultimately show ?thesis by auto
qed

lemma dec_inv_output:
  assumes inv: "dec_inv mtu s" and send: "ds_send s \<noteq> None"
  shows "\<exists>t. dec_output s = Some t \<and> dec_inv mtu t \<and> ds_all t = ds_all s \<and>
    (ds_errors t = ds_errors s \<or> (\<exists>qs. pp_bad mtu qs (ds_in s)))"
proof -
  let ?enc = "ds_dec s"
  have wf: "dec_wf ?enc" and mtu: "dec_output_mtu ?enc = mtu" and w: "dec_sending s"
    using inv send by (auto simp: dec_inv_def dec_waiting_def Let_def)
  then obtain d n where d: "ds_send s = Some (d, n)" "0 \<le> n" "n \<le> mtu" "ds_recv s = None"
    and inp: "ds_in s = concat (map pp_encode (ds_out s)) @
      pp_encode (bslice (dec_buf ?enc) (nat d) (nat n)) @ dec_bytes ?enc"
    by (auto simp: dec_sending_def Let_def)
  obtain e cs where step: "process_data ?enc = (e, cs)" by fastforce
  let ?p = "bslice (dec_buf ?enc) (nat d) (nat n)"
  let ?s = "s\<lparr>ds_send := None, ds_out := ds_out s @ [?p]\<rparr>"
  have len: "int (length ?p) \<le> mtu" using d by (simp add: bslice_def)
  have "\<exists>t. dec_do_calls cs (?s\<lparr>ds_dec := e\<rparr>) = Some t \<and> dec_inv (dec_output_mtu ?enc) t \<and>
      ds_all t = ds_all ?s \<and> (ds_errors t = ds_errors ?s \<and> ds_out t = ds_out ?s \<or>
        2 \<le> dec_buf_used ?enc \<and>
        uint (ltoh16 (packetproto_header_len (dec_bytes ?enc))) > dec_output_mtu ?enc)"
    using inv d inp len mtu by (intro process_inv [OF wf _ _ _ _ _ step]) (auto simp: dec_inv_def)
  moreover have "pp_bad mtu (ds_out s @ [?p]) (ds_in s)"
    if "2 \<le> dec_buf_used ?enc" "uint (ltoh16 (packetproto_header_len (dec_bytes ?enc))) > mtu"
    using that inv inp len length_dec_bytes [OF wf]
    by (auto simp: pp_bad_def dec_inv_def intro!: exI [of _ "dec_bytes ?enc"])
  ultimately obtain t where "dec_do_calls cs (?s\<lparr>ds_dec := e\<rparr>) = Some t" "dec_inv mtu t"
    "ds_all t = ds_all s" "ds_errors t = ds_errors s \<or> (\<exists>qs. pp_bad mtu qs (ds_in s))"
    using mtu by auto
  moreover have "dec_output s = dec_do_calls cs (?s\<lparr>ds_dec := e\<rparr>)"
    using d step by (simp add: dec_output_def dec_output_handler_done_def)
  ultimately show ?thesis by auto
qed

lemma dec_inv_reach: "dec_reach s0 s \<Longrightarrow> dec_inv mtu s0 \<Longrightarrow> dec_inv mtu s"
proof (induction rule: dec_reach.induct)
  case (dr_input s d n bs t)
  from dec_inv_input [OF dr_input.IH [OF dr_input.prems] dr_input.hyps(2-4)] dr_input.hyps(5)
  show ?case by auto
next
  case (dr_output s t)
  from dec_inv_output [OF dr_output.IH [OF dr_output.prems] dr_output.hyps(2)] dr_output.hyps(3)
  show ?case by auto
qed

lemma dec_inv_start:
  assumes "malloc_ok malloc" "0 \<le> mtu" "PacketProtoDecoder_Init malloc mtu = Some r" "dec_start r = Some s0"
  shows "dec_inv (min mtu 65535) s0"
proof -
  let ?m = "min mtu 65535"
  have m: "bmin_int mtu PACKETPROTO_MAXPAYLOAD = ?m"
    by (simp add: bmin_int_def PACKETPROTO_MAXPAYLOAD_def UINT16_MAX_def)
  from assms(3) obtain b where b: "malloc (2 + ?m) = Some b"
    and r: "r = (\<lparr>dec_output_mtu = ?m, dec_buf_size = 2 + ?m, dec_buf_start = 0, dec_buf_used = 0,
      dec_buf = b\<rparr>, [Dec_Receiver_Recv 0 (2 + ?m)])"
    by (auto simp: PacketProtoDecoder_Init_def Let_def m PACKETPROTO_ENCLEN_def split: option.splits)
  have "int (length b) = 2 + ?m" using malloc_okD [OF assms(1) b] .
  with assms(2,4) r show ?thesis
    by (auto simp: dec_start_def require_def dec_inv_def dec_waiting_def dec_wf_def dec_bytes_def
        pp_partial_def Let_def split: if_splits)
qed

lemma pp_prefix:
  assumes "prefix (concat (map pp_encode qs) @ r) (concat (map pp_encode ps))"
    "\<forall>p \<in> set ps. length p \<le> 65535" "\<forall>q \<in> set qs. length q \<le> 65535"
  shows "\<exists>ps'. ps = qs @ ps' \<and> prefix r (concat (map pp_encode ps'))"
  using assms
proof (induction qs arbitrary: ps)
  case (Cons q qs)
  obtain p ps' where ps: "ps = p # ps'"
    using Cons.prems(1) by (cases ps) (simp_all add: pp_encode_def packetproto_header_def le_split_numeral)
  from Cons.prems(1) obtain z where
    "pp_encode q @ (concat (map pp_encode qs) @ r @ z) = pp_encode p @ concat (map pp_encode ps')"
    by (auto simp: ps prefix_def)
  from pp_encode_inject [OF this]
  have "q = p" "concat (map pp_encode qs) @ r @ z = concat (map pp_encode ps')"
    using Cons.prems(2,3) ps by simp_all
  then have "prefix (concat (map pp_encode qs) @ r) (concat (map pp_encode ps'))"
    by (metis append.assoc prefixI)
  with Cons.IH [of ps'] Cons.prems ps \<open>q = p\<close> show ?case by simp
qed simp

lemma pp_bad_not_encoded:
  assumes "pp_bad mtu qs b" "prefix b (concat (map pp_encode ps))" "mtu \<le> 65535"
    "\<forall>p \<in> set ps. int (length p) \<le> mtu"
  shows False
proof -
  from assms(1) obtain r where r: "b = concat (map pp_encode qs) @ r" "2 \<le> length r"
    "uint (ltoh16 (packetproto_header_len r)) > mtu" "\<forall>q \<in> set qs. int (length q) \<le> mtu"
    by (auto simp: pp_bad_def)
  with assms pp_prefix [of qs r ps] obtain ps' where ps': "ps = qs @ ps'"
    "prefix r (concat (map pp_encode ps'))"
    by fastforce
  with r(2) obtain p ps'' where p: "ps' = p # ps''" by (cases ps') auto
  obtain z where "pp_encode p @ concat (map pp_encode ps'') = r @ z"
    using ps'(2) p by (auto simp: prefix_def)
  then have "take 2 r = take 2 (pp_encode p @ concat (map pp_encode ps''))"
    using r(2) by (simp only: take_append) simp
  then have "packetproto_header_len r = packetproto_header_len (pp_encode p @ concat (map pp_encode ps''))"
    by (simp only: packetproto_header_len_def)
  then show False
    using header_of_encode [of p "concat (map pp_encode ps'')"] r(3) assms(3,4) ps'(1) p by auto
qed

lemma dec_no_error:
  "dec_reach s0 s \<Longrightarrow> dec_inv mtu s0 \<Longrightarrow> ds_errors s0 = 0 \<Longrightarrow> mtu \<le> 65535 \<Longrightarrow>
    \<forall>p \<in> set ps. int (length p) \<le> mtu \<Longrightarrow> prefix (ds_all s) (concat (map pp_encode ps)) \<Longrightarrow>
    ds_errors s = 0"
proof (induction rule: dec_reach.induct)
  case (dr_input s d n bs t)
  note inv = dec_inv_reach [OF dr_input.hyps(1) dr_input.prems(1)]
  from dec_inv_input [OF inv dr_input.hyps(2-4)] dr_input.hyps(5)
  have t: "ds_all t = ds_all s @ bs" "ds_errors t = ds_errors s \<or> pp_bad mtu (ds_out s) (ds_in s @ bs)"
    by auto
  have e: "ds_errors s = 0" using dr_input t(1) by (auto dest: append_prefixD)
  then have "ds_in s @ bs = ds_all t" using inv t(1) by (simp add: dec_inv_def)
  with t(2) e pp_bad_not_encoded [of mtu "ds_out s" "ds_all t" ps] dr_input.prems show ?case by auto
next
  case (dr_output s t)
  note inv = dec_inv_reach [OF dr_output.hyps(1) dr_output.prems(1)]
  from dec_inv_output [OF inv dr_output.hyps(2)] dr_output.hyps(3)
  have t: "ds_all t = ds_all s" "ds_errors t = ds_errors s \<or> (\<exists>qs. pp_bad mtu qs (ds_in s))"
    by auto
  have e: "ds_errors s = 0" using dr_output t(1) by auto
  then have "ds_in s = ds_all t" using inv t(1) by (simp add: dec_inv_def)
  with t(2) e pp_bad_not_encoded [of mtu _ "ds_all t" ps] dr_output.prems show ?case by auto
qed simp

lemma dec_out_prefix:
  assumes inv: "dec_inv mtu s" and mtu: "mtu \<le> 65535" and err: "ds_errors s = 0"
    and ps: "\<forall>p \<in> set ps. int (length p) \<le> mtu" "prefix (ds_all s) (concat (map pp_encode ps))"
  shows "prefix (ds_out s) ps \<and> (ds_all s = concat (map pp_encode ps) \<and> ds_recv s \<noteq> None \<longrightarrow> ds_out s = ps)"
proof -
  have all: "ds_all s = ds_in s" and out: "\<forall>q \<in> set (ds_out s). length q \<le> 65535"
    and ps': "\<forall>p \<in> set ps. length p \<le> 65535"
    using inv mtu err ps(1) by (force simp: dec_inv_def)+
  obtain r where r: "ds_in s = concat (map pp_encode (ds_out s)) @ r"
    using inv by (auto simp: dec_inv_def dec_waiting_def dec_sending_def Let_def)
  with pp_prefix [OF _ ps' out, of r] ps(2) all have "prefix (ds_out s) ps" by auto
  moreover have "ds_out s = ps" if "ds_in s = concat (map pp_encode ps)" "ds_recv s \<noteq> None"
  proof -
    have "dec_waiting s" using inv that(2) by (auto simp: dec_inv_def dec_sending_def Let_def)
    then show ?thesis
      using that(1) pp_unique [of ps "ds_out s" "dec_bytes (ds_dec s)", OF _ _ ps' out]
      by (auto simp: dec_waiting_def Let_def)
  qed
  ultimately show ?thesis using all by simp
qed

text \<open>C10. The decoder inverts the framing under every fragmentation of the stream: if the
  bytes received so far are a beginning of the encodings of packets within the MTU, cut
  into pieces in any way, then no protocol error is reported, the packets delivered are
  the first of those packets in order, and once everything was received and the decoder
  waits for more input, all of them were delivered.
\<close>

theorem PacketProtoDecoder_decodes:
  assumes "malloc_ok malloc" "0 \<le> mtu" "PacketProtoDecoder_Init malloc mtu = Some r"
    and "dec_start r = Some s0" "dec_reach s0 s"
    and "\<forall>p \<in> set ps. int (length p) \<le> min mtu PACKETPROTO_MAXPAYLOAD"
    and "prefix (ds_all s) (concat (map pp_encode ps))"
  shows "ds_errors s = 0 \<and> prefix (ds_out s) ps \<and>
    (ds_all s = concat (map pp_encode ps) \<and> ds_recv s \<noteq> None \<longrightarrow> ds_out s = ps)"
proof -
  let ?m = "min mtu 65535"
  have ps: "\<forall>p \<in> set ps. int (length p) \<le> ?m"
    using assms(6) by (simp add: PACKETPROTO_MAXPAYLOAD_def UINT16_MAX_def)
  note inv0 = dec_inv_start [OF assms(1-4)]
  have e0: "ds_errors s0 = 0"
    using assms(3,4) by (auto simp: PacketProtoDecoder_Init_def dec_start_def require_def Let_def
        split: option.splits if_splits)
  have "ds_errors s = 0" using dec_no_error [OF assms(5) inv0 e0 _ ps assms(7)] by simp
  with dec_out_prefix [OF dec_inv_reach [OF assms(5) inv0] _ _ ps assms(7)] show ?thesis by simp
qed

theorem PacketProtoDecoder_decodes_witness:
  "\<exists>r s0 s. PacketProtoDecoder_Init (\<lambda>n. Some (replicate (nat n) 0)) 4 = Some r \<and> dec_start r = Some s0 \<and>
     dec_reach s0 s \<and> ds_all s = concat (map pp_encode [[7, 8], []]) \<and> ds_errors s = 0 \<and>
     ds_out s = [[7, 8], []]"
proof -
  let ?malloc = "\<lambda>n :: int. if 0 \<le> n then Some (replicate (nat n) 0 :: bytes) else None"
  define r where "r = the (PacketProtoDecoder_Init ?malloc 4)"
  define s0 where "s0 = the (dec_start r)"
  define s1 where "s1 = the (dec_input [2] s0)"
  define s2 where "s2 = the (dec_input [0, 7, 8, 0, 0] s1)"
  define s3 where "s3 = the (dec_output s2)"
  define s4 where "s4 = the (dec_output s3)"
  note defs = s4_def s3_def s2_def s1_def s0_def r_def
  have init: "PacketProtoDecoder_Init ?malloc 4 = Some r"
    "PacketProtoDecoder_Init (\<lambda>n. Some (replicate (nat n) 0)) 4 = Some r"
    unfolding defs by code_simp+
  have start: "dec_start r = Some s0" unfolding defs by code_simp
  have "ds_recv s0 = Some (0, 6)" "dec_input [2] s0 = Some s1" "ds_recv s1 = Some (1, 5)"
    "dec_input [0, 7, 8, 0, 0] s1 = Some s2" "ds_send s2 \<noteq> None" "dec_output s2 = Some s3"
    "ds_send s3 \<noteq> None" "dec_output s3 = Some s4"
    unfolding defs by code_simp+
  note steps = this
  have reach: "dec_reach s0 s4"
    using dr_output [OF dr_output [OF dr_input [OF dr_input [OF dr_init steps(1) _ _ steps(2)]
          steps(3) _ _ steps(4)] steps(5,6)] steps(7,8)] by simp
  have all: "ds_all s4 = concat (map pp_encode [[7, 8], []])" "ds_recv s4 \<noteq> None"
    unfolding defs by code_simp+
  have m: "malloc_ok ?malloc" by (simp add: malloc_ok_def)
  from PacketProtoDecoder_decodes [OF m _ init(1) start reach, of "[[7, 8], []]"] all
  have "ds_errors s4 = 0 \<and> ds_out s4 = [[7, 8], []]"
    by (simp add: PACKETPROTO_MAXPAYLOAD_def UINT16_MAX_def)
  with init(2) start reach all(1) show ?thesis by blast
qed

text \<open>C28. The decoder always makes progress and respects its interfaces, whatever bytes
  arrive. In every reachable state exactly one of a stream receive and a packet send is outstanding, and the handler of
  either completes without violating an assertion. A decoder that waits for data has delivered every complete packet:
  the bytes since the last protocol error are the encodings of the packets delivered, followed by the buffered bytes, and these are
  less than a header or less than the packet their header announces, which is not above the MTU. It has then asked for at
  least one byte, up to the end of the buffer, right after the buffered ones. A decoder that sends has a complete packet in the buffer.
\<close>

theorem PacketProtoDecoder_progress:
  assumes "malloc_ok malloc" "0 \<le> mtu" "PacketProtoDecoder_Init malloc mtu = Some r"
    and "dec_start r = Some s0" "dec_reach s0 s"
  shows "(ds_recv s = None) \<noteq> (ds_send s = None) \<and>
    (\<forall>d n. ds_recv s = Some (d, n) \<longrightarrow> 0 < n \<and>
      d = dec_buf_start (ds_dec s) + dec_buf_used (ds_dec s) \<and> d + n = dec_buf_size (ds_dec s) \<and>
      ds_in s = concat (map pp_encode (ds_out s)) @ dec_bytes (ds_dec s) \<and>
      (length (dec_bytes (ds_dec s)) < 2 \<or>
        uint (ltoh16 (packetproto_header_len (dec_bytes (ds_dec s)))) \<le> dec_output_mtu (ds_dec s) \<and>
        int (length (dec_bytes (ds_dec s))) < 2 + uint (ltoh16 (packetproto_header_len (dec_bytes (ds_dec s))))) \<and>
      (\<forall>bs. 0 < length bs \<and> int (length bs) \<le> n \<longrightarrow> dec_input bs s \<noteq> None)) \<and>
    (\<forall>d n. ds_send s = Some (d, n) \<longrightarrow> 0 \<le> n \<and> n \<le> dec_output_mtu (ds_dec s) \<and>
      ds_in s = concat (map pp_encode (ds_out s @ [bslice (dec_buf (ds_dec s)) (nat d) (nat n)])) @ dec_bytes (ds_dec s) \<and>
      dec_output s \<noteq> None)"
proof -
  note inv = dec_inv_reach [OF assms(5) dec_inv_start [OF assms(1-4)]]
  then consider "dec_waiting s" | "dec_sending s" by (auto simp: dec_inv_def)
  then show ?thesis
  proof cases
    case 1
    then have "dec_input bs s \<noteq> None" if "ds_recv s = Some (d, n)" "0 < length bs" "int (length bs) \<le> n" for bs d n
      using dec_inv_input [OF inv that] by auto
    then show ?thesis using 1 by (auto simp: dec_waiting_def pp_partial_def Let_def)
  next
    case 2
    then have "ds_send s \<noteq> None" by (auto simp: dec_sending_def Let_def)
    then have "dec_output s \<noteq> None" using dec_inv_output [OF inv] by auto
    then show ?thesis using 2 by (auto simp: dec_sending_def Let_def)
  qed
qed

theorem PacketProtoDecoder_progress_witness:
  "\<exists>r s0 s1. PacketProtoDecoder_Init (\<lambda>n. Some (replicate (nat n) 0)) 4 = Some r \<and> dec_start r = Some s0 \<and>
     dec_input [3, 0, 9] s0 = Some s1 \<and> dec_bytes (ds_dec s1) = [3, 0, 9] \<and> ds_recv s1 = Some (3, 3) \<and>
     int (length (dec_bytes (ds_dec s1))) < 2 + 3 \<and> dec_input [1, 2, 3] s1 \<noteq> None"
proof -
  let ?malloc = "\<lambda>n :: int. if 0 \<le> n then Some (replicate (nat n) 0 :: bytes) else None"
  define r where "r = the (PacketProtoDecoder_Init ?malloc 4)"
  define s0 where "s0 = the (dec_start r)"
  define s1 where "s1 = the (dec_input [3, 0, 9] s0)"
  have init: "PacketProtoDecoder_Init ?malloc 4 = Some r"
    "PacketProtoDecoder_Init (\<lambda>n. Some (replicate (nat n) 0)) 4 = Some r"
    and start: "dec_start r = Some s0" "ds_recv s0 = Some (0, 6)" "dec_input [3, 0, 9] s0 = Some s1"
    and s1: "ds_recv s1 = Some (3, 3)" "dec_bytes (ds_dec s1) = [3, 0, 9]"
      "uint (ltoh16 (packetproto_header_len (dec_bytes (ds_dec s1)))) = 3"
    unfolding s1_def s0_def r_def by code_simp+
  have m: "malloc_ok ?malloc" by (simp add: malloc_ok_def)
  have reach: "dec_reach s0 s1" by (rule dr_input [OF dr_init start(2) _ _ start(3)]) simp_all
  have "int (length (dec_bytes (ds_dec s1))) < 2 + 3 \<and> dec_input [1, 2, 3] s1 \<noteq> None"
    using PacketProtoDecoder_progress [OF m _ init(1) start(1) reach] s1(1,3) by (simp add: s1(2))
  with init(2) start s1 show ?thesis by blast
qed

text \<open>A length field above the decoder's MTU is a protocol error: when the input completes
  such a header, the error handler is called once, the buffered bytes are dropped and the
  decoder asks for input into its whole empty buffer.
\<close>

theorem PacketProtoDecoder_rejects:
  assumes "malloc_ok malloc" "0 \<le> mtu" "PacketProtoDecoder_Init malloc mtu = Some r"
    and "dec_start r = Some s0" "dec_reach s0 s" "ds_recv s = Some (d, n)"
    and "0 < length bs" "int (length bs) \<le> n" "2 \<le> length (dec_bytes (ds_dec s) @ bs)"
    and "uint (ltoh16 (packetproto_header_len (dec_bytes (ds_dec s) @ bs))) > dec_output_mtu (ds_dec s)"
  shows "\<exists>t. dec_input bs s = Some t \<and> ds_errors t = ds_errors s + 1 \<and> dec_bytes (ds_dec t) = [] \<and>
    ds_recv t = Some (0, dec_buf_size (ds_dec t)) \<and> ds_send t = None"
proof -
  let ?enc = "ds_dec s"
  let ?e = "dec_buf_start ?enc + dec_buf_used ?enc"
  note inv = dec_inv_reach [OF assms(5) dec_inv_start [OF assms(1-4)]]
  have wf: "dec_wf ?enc" and w: "dec_waiting s"
    using inv assms(6) by (auto simp: dec_inv_def dec_sending_def Let_def)
  have d: "d = ?e" "n = dec_buf_size ?enc - ?e"
    using w assms(6) by (simp_all add: dec_waiting_def Let_def)
  let ?enc' = "?enc\<lparr>dec_buf := memcpy (dec_buf ?enc) (nat ?e) bs,
    dec_buf_used := dec_buf_used ?enc + int (length bs)\<rparr>"
  have fit: "?e + int (length bs) \<le> dec_buf_size ?enc" using assms(8) d by simp
  note app = dec_bytes_append [OF wf fit]
  have "2 \<le> dec_buf_used ?enc'" using assms(9) length_dec_bytes [OF wf] by simp
  with app assms(10) process_error [OF app(1)]
  have step: "process_data ?enc' = (?enc'\<lparr>dec_buf_start := 0, dec_buf_used := 0\<rparr>,
      [Dec_Receiver_Recv 0 (dec_buf_size ?enc'), Dec_handler_error])" by simp
  then show ?thesis
    using assms(6,7) d fit w wf
    by (simp add: dec_input_def dec_input_handler_done_def require_def Let_def dec_waiting_def
        dec_wf_def dec_bytes_def)
qed


lemma bslice_memcpy_pair:
  assumes "length h = k" "i + k + length p \<le> length m"
  shows "bslice (memcpy (memcpy m (i + k) p) i h) i (k + length p) = h @ p"
proof -
  let ?m = "memcpy (memcpy m (i + k) p) i h"
  have "bslice ?m i k = h"
    using assms bslice_memcpy_same [of i h "memcpy m (i + k) p"] by simp
  moreover have "bslice ?m (i + k) (length p) = p"
    using assms bslice_memcpy_after [of i h "i + k" "memcpy m (i + k) p" "length p"]
      bslice_memcpy_same [of "i + k" p m] by simp
  ultimately show ?thesis by (simp only: bslice_append_bslice)
qed

text \<open>The encoder produces exactly the framing: when its output asks for a packet at
  \<open>data\<close> and its input then delivers \<open>p\<close> at the address the encoder asked for, the memory
  at \<open>data\<close> holds the encoding of \<open>p\<close> and the length reported to the output is that of the
  encoding; the encoder is then ready for the next packet.
\<close>

theorem PacketProtoEncoder_encodes:
  assumes "enc_output_packet enc = None" "0 \<le> data" "length p \<le> 65535"
    and "data + PACKETPROTO_ENCLEN (int (length p)) \<le> int (length mem)"
  shows "\<exists>enc1 dest enc2 mem'. enc_output_handler_recv enc data = Some (enc1, [Enc_Receiver_Recv dest]) \<and>
    enc_input_handler_done enc1 (int (length p)) (memcpy mem (nat dest) p) =
      Some (enc2, mem', [Enc_Done (int (length (pp_encode p)))]) \<and>
    bslice mem' (nat data) (length (pp_encode p)) = pp_encode p \<and> enc_output_packet enc2 = None"
proof -
  let ?h = "packetproto_header (htol16 (word_of_int (int (length p))))"
  have h: "length ?h = 2" by (simp add: packetproto_header_def)
  have fit: "nat data + 2 + length p \<le> length mem"
    using assms(2,4) by (simp add: PACKETPROTO_ENCLEN_def)
  have "bslice (memcpy (memcpy mem (nat data + 2) p) (nat data) ?h) (nat data) (2 + length p) = ?h @ p"
    using fit h bslice_memcpy_pair [of ?h 2 "nat data" p mem] by simp
  then show ?thesis
    using assms
    by (simp add: enc_output_handler_recv_def enc_input_handler_done_def require_def Let_def
        nat_add_distrib PACKETPROTO_ENCLEN_def length_pp_encode) (simp add: pp_encode_def)
qed

end
