(* ===== verification/Packet_Flow.thy ===== *)
theory Packet_Flow
  imports Packet_Buffer Packet_Proto
begin

text \<open>
  The flow objects around PacketProto: \<^verbatim>\<open>flow/PacketStreamSender.c\<close>, \<^verbatim>\<open>flow/BufferWriter.c\<close>,
  \<^verbatim>\<open>flow/PacketPassConnector.c\<close>, \<^verbatim>\<open>flow/PacketProtoFlow.c\<close> (the composition writer, encoder,
  packet buffer) and \<^verbatim>\<open>flowextra/PacketPassInactivityMonitor.c\<close>.
\<close>

section \<open>flow/PacketStreamSender.c\<close>

record PacketStreamSender =
  pss_in_len :: int
  pss_in :: int
  pss_in_used :: int

datatype pss_call = PSS_Sender_Send int int | PSS_Done

definition pss_send_data :: "PacketStreamSender \<Rightarrow> (PacketStreamSender \<times> pss_call) option" where
  "pss_send_data s =
     require (pss_in_len s \<ge> 0)
       (if pss_in_used s < pss_in_len s
        then (s, PSS_Sender_Send (pss_in s + pss_in_used s) (pss_in_len s - pss_in_used s))
        else (s\<lparr>pss_in_len := - 1\<rparr>, PSS_Done))"

definition pss_input_handler_send ::
  "PacketStreamSender \<Rightarrow> int \<Rightarrow> int \<Rightarrow> (PacketStreamSender \<times> pss_call) option" where
  "pss_input_handler_send s data data_len =
     (if pss_in_len s = - 1 \<and> data_len \<ge> 0
      then pss_send_data (s\<lparr>pss_in_len := data_len, pss_in := data, pss_in_used := 0\<rparr>)
      else None)"

definition pss_output_handler_done ::
  "PacketStreamSender \<Rightarrow> int \<Rightarrow> (PacketStreamSender \<times> pss_call) option" where
  "pss_output_handler_done s data_len =
     (if pss_in_len s \<ge> 0 \<and> data_len > 0 \<and> data_len \<le> pss_in_len s - pss_in_used s
      then pss_send_data (s\<lparr>pss_in_used := pss_in_used s + data_len\<rparr>)
      else None)"

definition PacketStreamSender_Init :: "int \<Rightarrow> PacketStreamSender option" where
  "PacketStreamSender_Init mtu =
     require (mtu \<ge> 0) \<lparr>pss_in_len = - 1, pss_in = 0, pss_in_used = 0\<rparr>"

section \<open>flow/BufferWriter.c\<close>

record BufferWriter =
  bw_out_have :: bool
  bw_out :: int
  bw_d_mtu :: int
  bw_d_writing :: bool

definition bw_output_handler_recv :: "BufferWriter \<Rightarrow> int \<Rightarrow> BufferWriter option" where
  "bw_output_handler_recv w data =
     require (\<not> bw_out_have w) (w\<lparr>bw_out_have := True, bw_out := data\<rparr>)"

definition BufferWriter_Init :: "int \<Rightarrow> BufferWriter option" where
  "BufferWriter_Init mtu =
     require (mtu \<ge> 0) \<lparr>bw_out_have = False, bw_out = 0, bw_d_mtu = mtu, bw_d_writing = False\<rparr>"

text \<open>The second component is the returned flag with the buffer it is accompanied by.\<close>

definition BufferWriter_StartPacket :: "BufferWriter \<Rightarrow> (BufferWriter \<times> int option) option" where
  "BufferWriter_StartPacket w =
     require (\<not> bw_d_writing w)
       (if \<not> bw_out_have w then (w, None)
        else (w\<lparr>bw_d_writing := True\<rparr>, Some (bw_out w)))"

text \<open>The second component is the length passed to \<^verbatim>\<open>PacketRecvInterface_Done\<close>.\<close>

definition BufferWriter_EndPacket :: "BufferWriter \<Rightarrow> int \<Rightarrow> (BufferWriter \<times> int) option" where
  "BufferWriter_EndPacket w len =
     require (len \<ge> 0 \<and> len \<le> bw_d_mtu w \<and> bw_out_have w \<and> bw_d_writing w)
       (w\<lparr>bw_out_have := False, bw_d_writing := False\<rparr>, len)"

section \<open>flow/PacketPassConnector.c\<close>

record 'o PacketPassConnector =
  ppc_input_mtu :: int
  ppc_in_len :: int
  ppc_in :: int
  ppc_output :: "'o option"

datatype 'o ppc_call = PPC_Sender_Send 'o int int | PPC_Done

definition ppc_input_handler_send ::
  "'o PacketPassConnector \<Rightarrow> int \<Rightarrow> int \<Rightarrow> ('o PacketPassConnector \<times> 'o ppc_call list) option" where
  "ppc_input_handler_send c data data_len =
     require (data_len \<ge> 0 \<and> data_len \<le> ppc_input_mtu c \<and> ppc_in_len c = - 1)
       (let c = c\<lparr>ppc_in_len := data_len, ppc_in := data\<rparr>
        in (c, case ppc_output c of
                 None \<Rightarrow> [] | Some out \<Rightarrow> [PPC_Sender_Send out (ppc_in c) (ppc_in_len c)]))"

definition ppc_output_handler_done ::
  "'o PacketPassConnector \<Rightarrow> ('o PacketPassConnector \<times> 'o ppc_call list) option" where
  "ppc_output_handler_done c =
     require (ppc_in_len c \<ge> 0 \<and> ppc_output c \<noteq> None) (c\<lparr>ppc_in_len := - 1\<rparr>, [PPC_Done])"

definition PacketPassConnector_Init :: "int \<Rightarrow> 'o PacketPassConnector option" where
  "PacketPassConnector_Init mtu =
     require (mtu \<ge> 0) \<lparr>ppc_input_mtu = mtu, ppc_in_len = - 1, ppc_in = 0, ppc_output = None\<rparr>"

definition PacketPassConnector_ConnectOutput ::
  "'o PacketPassConnector \<Rightarrow> 'o \<Rightarrow> int \<Rightarrow> ('o PacketPassConnector \<times> 'o ppc_call list) option" where
  "PacketPassConnector_ConnectOutput c out out_mtu =
     require (ppc_output c = None \<and> out_mtu \<ge> ppc_input_mtu c)
       (let c = c\<lparr>ppc_output := Some out\<rparr>
        in (c, if ppc_in_len c \<ge> 0 then [PPC_Sender_Send out (ppc_in c) (ppc_in_len c)] else []))"

definition PacketPassConnector_DisconnectOutput ::
  "'o PacketPassConnector \<Rightarrow> 'o PacketPassConnector option" where
  "PacketPassConnector_DisconnectOutput c =
     require (ppc_output c \<noteq> None) (c\<lparr>ppc_output := None\<rparr>)"

section \<open>flow/PacketProtoFlow.c\<close>

record PacketProtoFlow =
  ppf_ainput :: BufferWriter
  ppf_encoder :: PacketProtoEncoder
  ppf_buffer :: PacketBuffer

text \<open>
  A receive call of the packet buffer reaches the encoder's output, whose receive call
  reaches the writer.
\<close>

definition ppf_recv :: "PacketProtoFlow \<Rightarrow> int option \<Rightarrow> PacketProtoFlow option" where
  "ppf_recv f dest = (case dest of None \<Rightarrow> None | Some d \<Rightarrow>
     (case enc_output_handler_recv (ppf_encoder f) d of
        Some (enc, [Enc_Receiver_Recv d']) \<Rightarrow>
          (case bw_output_handler_recv (ppf_ainput f) d' of
             None \<Rightarrow> None
           | Some w \<Rightarrow> Some (f\<lparr>ppf_encoder := enc, ppf_ainput := w\<rparr>))
      | _ \<Rightarrow> None))"

definition PacketProtoFlow_Init ::
  "allocator \<Rightarrow> int \<Rightarrow> int \<Rightarrow> (PacketProtoFlow \<times> int option pipe_call list) option" where
  "PacketProtoFlow_Init malloc input_mtu num_packets =
     (if \<not> (input_mtu \<ge> 0 \<and> input_mtu \<le> PACKETPROTO_MAXPAYLOAD \<and> num_packets > 0) then None
      else (case BufferWriter_Init input_mtu of None \<Rightarrow> None | Some ainput \<Rightarrow>
           (case PacketProtoEncoder_Init input_mtu of None \<Rightarrow> None | Some (encoder, enc_mtu) \<Rightarrow>
           (case PacketBuffer_Init malloc enc_mtu num_packets of None \<Rightarrow> None | Some (buffer, cs) \<Rightarrow>
              Some (\<lparr>ppf_ainput = ainput, ppf_encoder = encoder, ppf_buffer = buffer\<rparr>, cs)))))"

section \<open>flowextra/PacketPassInactivityMonitor.c\<close>

record PacketPassInactivityMonitor =
  mon_has_handler :: bool

datatype mon_call = Mon_Sender_Send int int | Mon_Sender_RequestCancel | Mon_Done | Mon_SetTimer
  | Mon_RemoveTimer | Mon_SetTimerAfter int | Mon_handler | Mon_EnableCancel

definition mon_input_handler_send ::
  "PacketPassInactivityMonitor \<Rightarrow> int \<Rightarrow> int \<Rightarrow> mon_call list" where
  "mon_input_handler_send m data data_len = [Mon_Sender_Send data data_len, Mon_RemoveTimer]"

definition mon_input_handler_requestcancel :: "PacketPassInactivityMonitor \<Rightarrow> mon_call list" where
  "mon_input_handler_requestcancel m = [Mon_Sender_RequestCancel]"

definition mon_output_handler_done :: "PacketPassInactivityMonitor \<Rightarrow> mon_call list" where
  "mon_output_handler_done m = [Mon_SetTimer, Mon_Done]"

definition mon_timer_handler :: "PacketPassInactivityMonitor \<Rightarrow> mon_call list" where
  "mon_timer_handler m = [Mon_SetTimer] @ (if mon_has_handler m then [Mon_handler] else [])"

definition PacketPassInactivityMonitor_Init ::
  "bool \<Rightarrow> bool \<Rightarrow> PacketPassInactivityMonitor \<times> mon_call list" where
  "PacketPassInactivityMonitor_Init output_has_cancel has_handler =
     (\<lparr>mon_has_handler = has_handler\<rparr>,
      (if output_has_cancel then [Mon_EnableCancel] else []) @ [Mon_SetTimer])"

definition PacketPassInactivityMonitor_Free :: "PacketPassInactivityMonitor \<Rightarrow> mon_call list" where
  "PacketPassInactivityMonitor_Free m = [Mon_RemoveTimer]"

definition PacketPassInactivityMonitor_SetHandler ::
  "PacketPassInactivityMonitor \<Rightarrow> bool \<Rightarrow> PacketPassInactivityMonitor" where
  "PacketPassInactivityMonitor_SetHandler m h = m\<lparr>mon_has_handler := h\<rparr>"

definition PacketPassInactivityMonitor_Force :: "PacketPassInactivityMonitor \<Rightarrow> mon_call list" where
  "PacketPassInactivityMonitor_Force m = [Mon_SetTimerAfter 0]"

section \<open>The stream sender concatenates packets\<close>

record pss_sys =
  ss_obj :: PacketStreamSender
  ss_send :: "(int \<times> int) option"
  ss_pkt :: "bytes option"
  ss_done :: "bytes list"
  ss_stream :: bytes

fun pss_do_call :: "pss_call \<Rightarrow> pss_sys \<Rightarrow> pss_sys option" where
  "pss_do_call (PSS_Sender_Send d n) s = require (ss_send s = None \<and> 0 < n) (s\<lparr>ss_send := Some (d, n)\<rparr>)"
| "pss_do_call PSS_Done s = (case ss_pkt s of None \<Rightarrow> None
     | Some p \<Rightarrow> Some (s\<lparr>ss_pkt := None, ss_done := ss_done s @ [p]\<rparr>))"

definition pss_input :: "bytes \<Rightarrow> pss_sys \<Rightarrow> pss_sys option" where
  "pss_input p s = (case pss_input_handler_send (ss_obj s) 0 (int (length p)) of
     None \<Rightarrow> None
   | Some (o', c) \<Rightarrow> pss_do_call c (s\<lparr>ss_pkt := Some p, ss_obj := o'\<rparr>))"

definition pss_output :: "int \<Rightarrow> pss_sys \<Rightarrow> pss_sys option" where
  "pss_output n s = (case (ss_send s, ss_pkt s) of
     (Some (d, m), Some p) \<Rightarrow>
       (case pss_output_handler_done (ss_obj s) n of
          None \<Rightarrow> None
        | Some (o', c) \<Rightarrow>
            pss_do_call c (s\<lparr>ss_send := None, ss_stream := ss_stream s @ bslice p (nat d) (nat n),
              ss_obj := o'\<rparr>))
   | _ \<Rightarrow> None)"

inductive pss_reach :: "pss_sys \<Rightarrow> pss_sys \<Rightarrow> bool" for s0 where
  pr_init: "pss_reach s0 s0"
| pr_input: "pss_reach s0 s \<Longrightarrow> ss_pkt s = None \<Longrightarrow> pss_input p s = Some t \<Longrightarrow> pss_reach s0 t"
| pr_output: "pss_reach s0 s \<Longrightarrow> ss_send s = Some (d, m) \<Longrightarrow> 0 < n \<Longrightarrow> n \<le> m \<Longrightarrow>
    pss_output n s = Some t \<Longrightarrow> pss_reach s0 t"

definition pss_inv :: "pss_sys \<Rightarrow> bool" where
  "pss_inv s \<longleftrightarrow> (let b = ss_obj s in case ss_pkt s of
     None \<Rightarrow> pss_in_len b = - 1 \<and> ss_send s = None \<and> ss_stream s = concat (ss_done s)
   | Some p \<Rightarrow> pss_in_len b = int (length p) \<and> pss_in b = 0 \<and> 0 \<le> pss_in_used b \<and>
       pss_in_used b < pss_in_len b \<and> ss_send s = Some (pss_in_used b, pss_in_len b - pss_in_used b) \<and>
       ss_stream s = concat (ss_done s) @ take (nat (pss_in_used b)) p)"

lemma pss_inv_input:
  "pss_inv s \<Longrightarrow> ss_pkt s = None \<Longrightarrow> \<exists>t. pss_input p s = Some t \<and> pss_inv t"
  by (auto simp: pss_inv_def pss_input_def pss_input_handler_send_def pss_send_data_def require_def Let_def)

lemma pss_inv_output:
  assumes "pss_inv s" "ss_send s = Some (d, m)" "0 < n" "n \<le> m"
  shows "\<exists>t. pss_output n s = Some t \<and> pss_inv t"
proof -
  obtain p where p: "ss_pkt s = Some p" using assms(1,2) by (auto simp: pss_inv_def Let_def split: option.splits)
  let ?b = "ss_obj s"
  have b: "pss_in_len ?b = int (length p)" "pss_in ?b = 0" "0 \<le> pss_in_used ?b"
    "pss_in_used ?b < pss_in_len ?b" "d = pss_in_used ?b" "m = pss_in_len ?b - pss_in_used ?b"
    "ss_stream s = concat (ss_done s) @ take (nat (pss_in_used ?b)) p"
    using assms(1,2) p by (auto simp: pss_inv_def Let_def)
  have "take (nat (pss_in_used ?b)) p @ bslice p (nat d) (nat n) = take (nat (pss_in_used ?b + n)) p"
    using b assms(3) by (simp add: bslice_def take_add [symmetric] nat_add_distrib)
  with b assms p show ?thesis
    by (auto simp: pss_output_def pss_output_handler_done_def pss_send_data_def require_def
        pss_inv_def Let_def)
qed

text \<open>C29. The stream sender writes the packets one after the other and nothing else: in every
  reachable state the bytes accepted by the stream are the packets finished so far
  followed by a proper beginning of the packet in progress, a packet is reported done only
  when all its bytes were accepted, and the handlers never violate an assertion.
\<close>

theorem PacketStreamSender_concatenates:
  assumes "PacketStreamSender_Init mtu = Some b"
    and "pss_reach \<lparr>ss_obj = b, ss_send = None, ss_pkt = None, ss_done = [], ss_stream = []\<rparr> s"
  shows "(case ss_pkt s of None \<Rightarrow> ss_stream s = concat (ss_done s)
      | Some p \<Rightarrow> \<exists>k < length p. ss_stream s = concat (ss_done s) @ take k p) \<and>
    (ss_pkt s = None \<longrightarrow> (\<forall>p. pss_input p s \<noteq> None)) \<and>
    (\<forall>d m n. ss_send s = Some (d, m) \<and> 0 < n \<and> n \<le> m \<longrightarrow> pss_output n s \<noteq> None)"
proof -
  have "pss_inv s"
    using assms(2)
  proof (induction rule: pss_reach.induct)
    case pr_init
    then show ?case using assms(1) by (auto simp: PacketStreamSender_Init_def pss_inv_def)
  next
    case (pr_input s p t)
    then show ?case using pss_inv_input [of s p] by auto
  next
    case (pr_output s d m n t)
    then show ?case using pss_inv_output [of s d m n] by auto
  qed
  moreover from this have "case ss_pkt s of None \<Rightarrow> ss_stream s = concat (ss_done s)
      | Some p \<Rightarrow> \<exists>k < length p. ss_stream s = concat (ss_done s) @ take k p"
    by (auto simp: pss_inv_def Let_def nat_less_iff split: option.splits
        intro!: exI [of _ "nat (pss_in_used (ss_obj s))"])
  ultimately show ?thesis
    using pss_inv_input [of s] pss_inv_output [of s] by fastforce
qed

theorem PacketStreamSender_concatenates_witness:
  "\<exists>b s. PacketStreamSender_Init 10 = Some b \<and>
     pss_reach \<lparr>ss_obj = b, ss_send = None, ss_pkt = None, ss_done = [], ss_stream = []\<rparr> s \<and>
     ss_pkt s = Some [1, 2, 3] \<and> (\<exists>k < 3. ss_stream s = concat (ss_done s) @ take k [1, 2, 3])"
proof -
  define b where "b = the (PacketStreamSender_Init 10)"
  let ?s = "\<lparr>ss_obj = b, ss_send = None, ss_pkt = None, ss_done = [], ss_stream = []\<rparr>"
  define t where "t = the (pss_input [1, 2, 3] ?s)"
  have init: "PacketStreamSender_Init 10 = Some b" and step: "pss_input [1, 2, 3] ?s = Some t"
    "ss_pkt t = Some [1, 2, 3]"
    unfolding t_def b_def by code_simp+
  have reach: "pss_reach ?s t" by (rule pr_input [OF pr_init _ step(1)]) simp
  from PacketStreamSender_concatenates [OF init reach] step(2) init reach show ?thesis
    by (intro exI [of _ b] exI [of _ t]) (simp add: numeral_3_eq_3)
qed

section \<open>The connector\<close>

text \<open>
  The packet in progress, the send outstanding on the connected output, the packets whose
  sending some output finished and those reported done to the input.
\<close>

record 'o ppc_sys =
  cs_obj :: "'o PacketPassConnector"
  cs_pkt :: "bytes option"
  cs_send :: "('o \<times> int \<times> int) option"
  cs_finished :: "bytes list"
  cs_done :: "bytes list"

fun ppc_do_calls :: "'o ppc_call list \<Rightarrow> 'o ppc_sys \<Rightarrow> 'o ppc_sys option" where
  "ppc_do_calls [] s = Some s"
| "ppc_do_calls (PPC_Sender_Send out d n # cs) s =
     (if cs_send s = None then ppc_do_calls cs (s\<lparr>cs_send := Some (out, d, n)\<rparr>) else None)"
| "ppc_do_calls (PPC_Done # cs) s = (case cs_pkt s of None \<Rightarrow> None
     | Some p \<Rightarrow> ppc_do_calls cs (s\<lparr>cs_pkt := None, cs_done := cs_done s @ [p]\<rparr>))"

datatype 'o ppc_event = Conn_input bytes | Conn_output_done | Conn_connect 'o int | Conn_disconnect

fun ppc_step :: "'o ppc_event \<Rightarrow> 'o ppc_sys \<Rightarrow> 'o ppc_sys option" where
  "ppc_step (Conn_input p) s = Option.bind (ppc_input_handler_send (cs_obj s) 0 (int (length p)))
     (\<lambda>(c, cs). ppc_do_calls cs (s\<lparr>cs_pkt := Some p, cs_obj := c\<rparr>))"
| "ppc_step Conn_output_done s = Option.bind (ppc_output_handler_done (cs_obj s))
     (\<lambda>(c, cs). ppc_do_calls cs (s\<lparr>cs_send := None,
        cs_finished := cs_finished s @ [the (cs_pkt s)], cs_obj := c\<rparr>))"
| "ppc_step (Conn_connect out mtu) s = Option.bind (PacketPassConnector_ConnectOutput (cs_obj s) out mtu)
     (\<lambda>(c, cs). ppc_do_calls cs (s\<lparr>cs_obj := c\<rparr>))"
| "ppc_step Conn_disconnect s = map_option (\<lambda>c. s\<lparr>cs_send := None, cs_obj := c\<rparr>)
     (PacketPassConnector_DisconnectOutput (cs_obj s))"

text \<open>What the users of the connector may do: the protocol of the two interfaces.\<close>

fun ppc_enabled :: "'o ppc_event \<Rightarrow> 'o ppc_sys \<Rightarrow> bool" where
  "ppc_enabled (Conn_input p) s \<longleftrightarrow> cs_pkt s = None \<and> int (length p) \<le> ppc_input_mtu (cs_obj s)"
| "ppc_enabled Conn_output_done s \<longleftrightarrow> cs_send s \<noteq> None"
| "ppc_enabled (Conn_connect out mtu) s \<longleftrightarrow> ppc_output (cs_obj s) = None \<and> mtu \<ge> ppc_input_mtu (cs_obj s)"
| "ppc_enabled Conn_disconnect s \<longleftrightarrow> ppc_output (cs_obj s) \<noteq> None"

inductive ppc_reach :: "'o ppc_sys \<Rightarrow> 'o ppc_sys \<Rightarrow> bool" for s0 where
  cr_init: "ppc_reach s0 s0"
| cr_step: "ppc_reach s0 s \<Longrightarrow> ppc_enabled e s \<Longrightarrow> ppc_step e s = Some t \<Longrightarrow> ppc_reach s0 t"

definition ppc_inv :: "'o ppc_sys \<Rightarrow> bool" where
  "ppc_inv s \<longleftrightarrow> (let c = cs_obj s in
     ppc_in_len c = (case cs_pkt s of None \<Rightarrow> - 1 | Some p \<Rightarrow> int (length p)) \<and>
     (cs_pkt s \<noteq> None \<longrightarrow> ppc_in c = 0) \<and>
     cs_send s = (case (ppc_output c, cs_pkt s) of
       (Some out, Some p) \<Rightarrow> Some (out, 0, int (length p)) | _ \<Rightarrow> None) \<and>
     cs_done s = cs_finished s)"

lemma ppc_inv_step: "ppc_inv s \<Longrightarrow> ppc_enabled e s \<Longrightarrow> \<exists>t. ppc_step e s = Some t \<and> ppc_inv t"
  by (cases e) (auto simp: ppc_inv_def ppc_input_handler_send_def ppc_output_handler_done_def
      PacketPassConnector_ConnectOutput_def PacketPassConnector_DisconnectOutput_def require_def Let_def
      split: option.splits)

text \<open>C30. A packet given to the connector is offered to whatever output is connected until
  one of them finishes sending it: in every reachable state a send of the whole packet in
  progress is outstanding exactly when an output is connected, packets are reported done
  exactly when an output finished them, in order, and no handler violates an assertion.
\<close>

theorem PacketPassConnector_forwards:
  assumes "PacketPassConnector_Init mtu = Some c"
    and "ppc_reach \<lparr>cs_obj = c, cs_pkt = None, cs_send = None, cs_finished = [], cs_done = []\<rparr> s"
  shows "cs_send s = (case (ppc_output (cs_obj s), cs_pkt s) of
      (Some out, Some p) \<Rightarrow> Some (out, 0, int (length p)) | _ \<Rightarrow> None) \<and>
    cs_done s = cs_finished s \<and> (\<forall>e. ppc_enabled e s \<longrightarrow> ppc_step e s \<noteq> None)"
proof -
  have inv: "ppc_inv s"
    using assms(2)
  proof (induction rule: ppc_reach.induct)
    case cr_init
    then show ?case using assms(1) by (auto simp: PacketPassConnector_Init_def ppc_inv_def)
  next
    case (cr_step s e t)
    then show ?case using ppc_inv_step [of s e] by auto
  qed
  then show ?thesis
    using ppc_inv_step [OF inv] by (fastforce simp: ppc_inv_def Let_def)
qed

theorem PacketPassConnector_forwards_witness:
  "\<exists>c s. PacketPassConnector_Init 5 = Some c \<and>
     ppc_reach \<lparr>cs_obj = c, cs_pkt = None, cs_send = None, cs_finished = [], cs_done = []\<rparr> s \<and>
     cs_send s = Some (3 :: nat, 0, 2)"
proof -
  define c :: "nat PacketPassConnector" where "c = the (PacketPassConnector_Init 5)"
  let ?s = "\<lparr>cs_obj = c, cs_pkt = None, cs_send = None, cs_finished = [], cs_done = []\<rparr>"
  define s1 where "s1 = the (ppc_step (Conn_input [1, 2]) ?s)"
  define s2 where "s2 = the (ppc_step (Conn_connect 3 9) s1)"
  have init: "PacketPassConnector_Init 5 = Some c"
    and st: "ppc_step (Conn_input [1, 2]) ?s = Some s1" "ppc_enabled (Conn_input [1, 2]) ?s"
      "ppc_step (Conn_connect 3 9) s1 = Some s2" "ppc_enabled (Conn_connect 3 9) s1"
      "ppc_output (cs_obj s2) = Some 3" "cs_pkt s2 = Some [1, 2]"
    unfolding s2_def s1_def c_def by code_simp+
  have reach: "ppc_reach ?s s2" using cr_step [OF cr_step [OF cr_init st(2,1)] st(4,3)] .
  from PacketPassConnector_forwards [OF init reach] st(5,6) have "cs_send s2 = Some (3, 0, 2)" by simp
  with init reach show ?thesis by blast
qed

section \<open>The whole flow: writer, encoder, packet buffer\<close>

text \<open>
  \<open>ppf_calls\<close> carries out the calls of the packet buffer: a receive goes to the encoder and
  the writer, a send becomes outstanding on the output. \<open>ppf_write\<close> is a user writing one
  packet: \<^verbatim>\<open>StartPacket\<close>, the bytes of the packet, \<^verbatim>\<open>EndPacket\<close>, and what the resulting
  completions of the writer and the encoder trigger. A packet is dropped when the writer
  has no buffer. \<open>ppf_write\<close> and \<open>ppf_finish\<close> are this composition, not a function of the code: the completion
  of the packet, the encoding and the next request of the buffer, which the code runs as successive jobs of
  the job group, happen in one step, so no other job comes between them.
\<close>

record ppf_sys =
  fs_flow :: PacketProtoFlow
  fs_send :: "(int option \<times> int) option"
  fs_accepted :: "bytes list"
  fs_out :: "bytes list"

fun ppf_calls :: "int option pipe_call list \<Rightarrow> ppf_sys \<Rightarrow> ppf_sys option" where
  "ppf_calls [] s = Some s"
| "ppf_calls (Receiver_Recv d # cs) s =
     Option.bind (ppf_recv (fs_flow s) d) (\<lambda>f. ppf_calls cs (s\<lparr>fs_flow := f\<rparr>))"
| "ppf_calls (Sender_Send d n # cs) s =
     (if fs_send s = None then ppf_calls cs (s\<lparr>fs_send := Some (d, n)\<rparr>) else None)"

definition ppf_finish :: "PacketProtoFlow \<Rightarrow> int \<Rightarrow> (PacketProtoFlow \<times> int option pipe_call list) option" where
  "ppf_finish f len =
     (case enc_input_handler_done (ppf_encoder f) len (cb_buffer (pb_buf (ppf_buffer f))) of
        Some (enc, mem, [Enc_Done n]) \<Rightarrow>
          (let buf = (ppf_buffer f)\<lparr>pb_buf := (pb_buf (ppf_buffer f))\<lparr>cb_buffer := mem\<rparr>\<rparr>;
               (buf, cs) = pb_input_handler_done buf n
           in Some (f\<lparr>ppf_encoder := enc, ppf_buffer := buf\<rparr>, cs))
      | _ \<Rightarrow> None)"

definition ppf_write :: "bytes \<Rightarrow> ppf_sys \<Rightarrow> ppf_sys option" where
  "ppf_write p s =
     (let f = fs_flow s in
      case BufferWriter_StartPacket (ppf_ainput f) of
        None \<Rightarrow> None
      | Some (w, None) \<Rightarrow> Some s
      | Some (w, Some out) \<Rightarrow>
          (let f = f\<lparr>ppf_buffer := pb_store (ppf_buffer f) (Some out) p\<rparr> in
           case BufferWriter_EndPacket w (int (length p)) of
             None \<Rightarrow> None
           | Some (w, n) \<Rightarrow>
               Option.bind (ppf_finish (f\<lparr>ppf_ainput := w\<rparr>) n)
                 (\<lambda>(f, cs). ppf_calls cs (s\<lparr>fs_flow := f, fs_accepted := fs_accepted s @ [p]\<rparr>))))"

definition ppf_output :: "ppf_sys \<Rightarrow> ppf_sys option" where
  "ppf_output s = (case fs_send s of
     None \<Rightarrow> None
   | Some (d, n) \<Rightarrow>
       (let (buf, cs) = pb_output_handler_done (ppf_buffer (fs_flow s))
        in ppf_calls cs (s\<lparr>fs_send := None, fs_out := fs_out s @ [pb_load (ppf_buffer (fs_flow s)) d n],
             fs_flow := (fs_flow s)\<lparr>ppf_buffer := buf\<rparr>\<rparr>)))"

inductive ppf_reach :: "nat \<Rightarrow> ppf_sys \<Rightarrow> ppf_sys \<Rightarrow> bool" for mtu s0 where
  fr_init: "ppf_reach mtu s0 s0"
| fr_write: "ppf_reach mtu s0 s \<Longrightarrow> length p \<le> mtu \<Longrightarrow> ppf_write p s = Some t \<Longrightarrow> ppf_reach mtu s0 t"
| fr_output: "ppf_reach mtu s0 s \<Longrightarrow> fs_send s \<noteq> None \<Longrightarrow> ppf_output s = Some t \<Longrightarrow> ppf_reach mtu s0 t"

text \<open>
  The writer and the encoder hold the receive of the packet buffer: the writer has a
  buffer exactly when the packet buffer wants a packet, two bytes into its space.
\<close>

definition ppf_linked :: "nat \<Rightarrow> PacketProtoFlow \<Rightarrow> int option option \<Rightarrow> bool" where
  "ppf_linked mtu f r \<longleftrightarrow> bw_d_mtu (ppf_ainput f) = int mtu \<and> \<not> bw_d_writing (ppf_ainput f) \<and>
     (case r of None \<Rightarrow> \<not> bw_out_have (ppf_ainput f) \<and> enc_output_packet (ppf_encoder f) = None
      | Some d \<Rightarrow> bw_out_have (ppf_ainput f) \<and> (\<exists>i \<ge> 0. d = Some i \<and>
          enc_output_packet (ppf_encoder f) = Some i \<and> bw_out (ppf_ainput f) = i + 2))"

definition ppf_inv :: "nat \<Rightarrow> int \<Rightarrow> ppf_sys \<Rightarrow> bool" where
  "ppf_inv mtu num s \<longleftrightarrow> mtu \<le> 65535 \<and>
     ppf_linked mtu (fs_flow s) (pb_wants (ppf_buffer (fs_flow s))) \<and>
     fs_send s = pb_offers (ppf_buffer (fs_flow s)) \<and>
     (\<exists>ps. pb_holds (2 + mtu) num (ppf_buffer (fs_flow s)) ps \<and>
       map pp_encode (fs_accepted s) = fs_out s @ ps)"

text \<open>The calls of the buffer, as far as the contract of the pipe describes them.\<close>

lemma ppf_recv_links:
  assumes "ppf_linked mtu f None" "0 \<le> i"
  shows "\<exists>f'. ppf_recv f (Some i) = Some f' \<and> ppf_linked mtu f' (Some (Some i)) \<and> ppf_buffer f' = ppf_buffer f"
  using assms
  by (auto simp: ppf_recv_def enc_output_handler_recv_def bw_output_handler_recv_def require_def ppf_linked_def)

lemma ppf_calls_ok:
  assumes "do_calls cs (r, fs_send s) = Some (r', w)" "ppf_linked mtu (fs_flow s) r"
    and "\<forall>d. Receiver_Recv d \<in> set cs \<longrightarrow> (\<exists>i \<ge> 0. d = Some i)"
  shows "\<exists>t. ppf_calls cs s = Some t \<and> ppf_linked mtu (fs_flow t) r' \<and> fs_send t = w \<and>
    ppf_buffer (fs_flow t) = ppf_buffer (fs_flow s) \<and> fs_accepted t = fs_accepted s \<and> fs_out t = fs_out s"
  using assms
proof (induction cs arbitrary: r s)
  case (Cons c cs)
  show ?case
  proof (cases c)
    case (Receiver_Recv d)
    with Cons.prems obtain i where i: "d = Some i" "0 \<le> i" by auto
    have r: "r = None" "do_calls cs (Some d, fs_send s) = Some (r', w)"
      using Cons.prems(1) Receiver_Recv by (auto split: if_splits)
    with ppf_recv_links [of mtu "fs_flow s" i] Cons.prems(2) i obtain f' where
      f': "ppf_recv (fs_flow s) (Some i) = Some f'" "ppf_linked mtu f' (Some (Some i))"
        "ppf_buffer f' = ppf_buffer (fs_flow s)" by auto
    from Cons.IH [of "Some d" "s\<lparr>fs_flow := f'\<rparr>"] r f' i Cons.prems(3) Receiver_Recv show ?thesis by auto
  next
    case (Sender_Send d n)
    then have "fs_send s = None" "do_calls cs (r, Some (d, n)) = Some (r', w)"
      using Cons.prems(1) by (auto split: if_splits)
    with Cons.IH [of r "s\<lparr>fs_send := Some (d, n)\<rparr>"] Cons.prems(2,3) Sender_Send show ?thesis by auto
  qed
qed auto

lemma pb_wants_dest:
  assumes "pb_holds mtu num buf ps" "pb_wants buf = Some d"
  shows "\<exists>i \<ge> 0. d = Some i"
proof -
  have cb: "cb_holds (pb_buf buf) ps" and av: "0 \<le> cb_input_avail (pb_buf buf)"
    and d: "d = cb_input_dest (pb_buf buf)"
    using assms by (auto simp: pb_holds_def pb_wants_def split: if_splits)
  have "0 \<le> ChunkBuffer2_end (pb_buf buf)"
    using holds_facts(1) [OF cb] by (auto simp: ChunkBuffer2_assert_buffer_def ChunkBuffer2_end_def)
  with cb_in_ok_avail(2) [OF cb av] d show ?thesis by auto
qed

lemma pb_store_fits:
  assumes "pb_holds mtu num buf ps" "pb_wants buf = Some (Some i)"
  shows "i + int mtu \<le> int (length (cb_buffer (pb_buf buf)))"
proof -
  have cb: "cb_holds (pb_buf buf) ps" and av: "int mtu \<le> cb_input_avail (pb_buf buf)"
    and d: "Some i = cb_input_dest (pb_buf buf)"
    using assms by (auto simp: pb_holds_def pb_wants_def split: if_splits)
  have "cb_free (pb_buf buf) > 0"
    using cb_in_ok_avail(1) [OF cb] av by (auto simp: cb_free_def Let_def split: if_splits)
  moreover have "ChunkBuffer2_end (pb_buf buf) + cb_free (pb_buf buf) \<le> cb_size (pb_buf buf)"
    using holds_facts(1) [OF cb] by (auto simp: cb_free_def ChunkBuffer2_assert_buffer_def)
  moreover have "int (length (cb_buffer (pb_buf buf))) = 4 * cb_size (pb_buf buf)"
    using cb by (simp add: cb_holds_def cb_wf_def)
  ultimately show ?thesis
    using cb_in_ok_avail(2) [OF cb] avail_free [OF cb] av d by simp
qed

lemma pb_recv_calls:
  "pb_input_handler_done buf n = (buf', cs) \<Longrightarrow> Receiver_Recv d \<in> set cs \<Longrightarrow> pb_wants buf' = Some d"
  "pb_output_handler_done buf = (buf', cs) \<Longrightarrow> Receiver_Recv d \<in> set cs \<Longrightarrow> pb_wants buf' = Some d"
  by (auto simp: pb_input_handler_done_def pb_output_handler_done_def pb_wants_def Let_def split: if_splits)

lemma memcpy_memcpy:
  "i + length h + length p \<le> length m \<Longrightarrow>
    memcpy (memcpy m (i + length h) p) i h = memcpy m i (h @ p)"
  by (simp add: memcpy_def add.assoc)

lemma ppf_finish_encodes:
  assumes "enc_output_packet (ppf_encoder f) = Some i" "0 \<le> i"
    and fit: "nat i + 2 + length p \<le> length (cb_buffer (pb_buf (ppf_buffer f)))"
    and step: "pb_input_handler_done (pb_store (ppf_buffer f) (Some i) (pp_encode p))
      (int (length (pp_encode p))) = (buf', cs)"
  shows "ppf_finish (f\<lparr>ppf_buffer := pb_store (ppf_buffer f) (Some (i + 2)) p, ppf_ainput := w\<rparr>) (int (length p)) =
    Some (f\<lparr>ppf_ainput := w, ppf_encoder := (ppf_encoder f)\<lparr>enc_output_packet := None\<rparr>,
      ppf_buffer := buf'\<rparr>, cs)"
proof -
  let ?h = "packetproto_header (htol16 (word_of_int (int (length p))))"
  let ?m = "cb_buffer (pb_buf (ppf_buffer f))"
  have h: "length ?h = 2" by (simp add: packetproto_header_def)
  have "memcpy (memcpy ?m (nat (i + 2)) p) (nat i) ?h = memcpy ?m (nat i) (pp_encode p)"
    using memcpy_memcpy [of "nat i" ?h p ?m] fit h assms(2) by (simp add: pp_encode_def nat_add_distrib)
  then show ?thesis
    using assms by (simp add: ppf_finish_def enc_input_handler_done_def Let_def pb_store_def
        PACKETPROTO_ENCLEN_def length_pp_encode)
qed

lemma ppf_inv_write:
  assumes inv: "ppf_inv mtu num s" and len: "length p \<le> mtu"
  shows "\<exists>t. ppf_write p s = Some t \<and> ppf_inv mtu num t \<and>
    (fs_accepted t = fs_accepted s @ [p] \<or> fs_accepted t = fs_accepted s \<and> pb_wants (ppf_buffer (fs_flow s)) = None)"
proof -
  let ?f = "fs_flow s" let ?buf = "ppf_buffer ?f"
  obtain ps where ps: "pb_holds (2 + mtu) num ?buf ps" "map pp_encode (fs_accepted s) = fs_out s @ ps"
    and l: "ppf_linked mtu ?f (pb_wants ?buf)" and m: "mtu \<le> 65535"
    and snd: "fs_send s = pb_offers ?buf"
    using inv by (auto simp: ppf_inv_def)
  show ?thesis
  proof (cases "pb_wants ?buf")
    case None
    with l inv show ?thesis
      by (auto simp: ppf_write_def BufferWriter_StartPacket_def ppf_linked_def require_def)
  next
    case (Some d)
    then obtain i where i: "d = Some i" "0 \<le> i" "enc_output_packet (ppf_encoder ?f) = Some i"
      "bw_out (ppf_ainput ?f) = i + 2" "bw_out_have (ppf_ainput ?f)"
      using l by (auto simp: ppf_linked_def)
    obtain buf' cs where step: "pb_input_handler_done (pb_store ?buf (Some i) (pp_encode p))
        (int (length (pp_encode p))) = (buf', cs)" by fastforce
    from pb_in_law [OF ps(1) Some [unfolded i(1)] _ step] len
    have law: "pb_holds (2 + mtu) num buf' (ps @ [pp_encode p])"
      "do_calls cs (None, pb_offers ?buf) = Some (pb_wants buf', pb_offers buf')"
      by (auto simp: length_pp_encode)
    have fit: "nat i + 2 + length p \<le> length (cb_buffer (pb_buf ?buf))"
      using pb_store_fits [OF ps(1) Some [unfolded i(1)]] len i(2) by simp
    define w where "w = (ppf_ainput ?f)\<lparr>bw_out_have := False, bw_d_writing := False\<rparr>"
    let ?g = "?f\<lparr>ppf_ainput := w, ppf_encoder := (ppf_encoder ?f)\<lparr>enc_output_packet := None\<rparr>, ppf_buffer := buf'\<rparr>"
    have "ppf_write p s = ppf_calls cs (s\<lparr>fs_flow := ?g, fs_accepted := fs_accepted s @ [p]\<rparr>)"
      using ppf_finish_encodes [OF i(3,2) fit step, of w] i l len Some
      by (simp add: ppf_write_def BufferWriter_StartPacket_def BufferWriter_EndPacket_def require_def
          Let_def ppf_linked_def w_def)
    moreover have "\<exists>t. ppf_calls cs (s\<lparr>fs_flow := ?g, fs_accepted := fs_accepted s @ [p]\<rparr>) = Some t \<and>
        ppf_linked mtu (fs_flow t) (pb_wants buf') \<and> fs_send t = pb_offers buf' \<and>
        ppf_buffer (fs_flow t) = buf' \<and> fs_accepted t = fs_accepted s @ [p] \<and> fs_out t = fs_out s"
      using ppf_calls_ok [of cs None "s\<lparr>fs_flow := ?g, fs_accepted := fs_accepted s @ [p]\<rparr>"
          "pb_wants buf'" "pb_offers buf'" mtu] law l snd pb_recv_calls(1) [OF step]
        pb_wants_dest [OF law(1)]
      by (auto simp: ppf_linked_def w_def)
    ultimately show ?thesis using law(1) ps(2) m by (auto simp: ppf_inv_def)
  qed
qed

lemma ppf_inv_output:
  assumes inv: "ppf_inv mtu num s" and send: "fs_send s \<noteq> None"
  shows "\<exists>t. ppf_output s = Some t \<and> ppf_inv mtu num t"
proof -
  let ?f = "fs_flow s" let ?buf = "ppf_buffer ?f"
  obtain ps where ps: "pb_holds (2 + mtu) num ?buf ps" "map pp_encode (fs_accepted s) = fs_out s @ ps"
    and l: "ppf_linked mtu ?f (pb_wants ?buf)" and m: "mtu \<le> 65535"
    and snd: "fs_send s = pb_offers ?buf"
    using inv by (auto simp: ppf_inv_def)
  from pb_offers_law [OF ps(1)] send snd obtain q qs d n where
    q: "ps = q # qs" "pb_offers ?buf = Some (d, n)" "pb_load ?buf d n = q"
    by (auto split: list.splits)
  obtain buf' cs where step: "pb_output_handler_done ?buf = (buf', cs)" by fastforce
  from pb_out_law [OF ps(1) [unfolded q(1)] step]
  have law: "pb_holds (2 + mtu) num buf' qs"
    "do_calls cs (pb_wants ?buf, None) = Some (pb_wants buf', pb_offers buf')" by auto
  let ?s = "s\<lparr>fs_send := None, fs_out := fs_out s @ [q], fs_flow := ?f\<lparr>ppf_buffer := buf'\<rparr>\<rparr>"
  have "ppf_output s = ppf_calls cs ?s"
    using snd q step by (simp add: ppf_output_def)
  moreover have "ppf_linked mtu (?f\<lparr>ppf_buffer := buf'\<rparr>) (pb_wants ?buf)"
    using l by (simp add: ppf_linked_def split: option.splits)
  then have "\<exists>t. ppf_calls cs ?s = Some t \<and>
      ppf_linked mtu (fs_flow t) (pb_wants buf') \<and> fs_send t = pb_offers buf' \<and>
      ppf_buffer (fs_flow t) = buf' \<and> fs_accepted t = fs_accepted s \<and> fs_out t = fs_out s @ [q]"
    using ppf_calls_ok [of cs "pb_wants ?buf" ?s "pb_wants buf'" "pb_offers buf'" mtu] law
      pb_recv_calls(2) [OF step] pb_wants_dest [OF law(1)]
    by simp
  ultimately show ?thesis using law(1) ps(2) q(1) m by (auto simp: ppf_inv_def)
qed

lemma ppf_init_inv:
  assumes malloc: "malloc_ok malloc"
    and fits: "4 * ChunkBuffer2_calc_blocks (PACKETPROTO_ENCLEN (int mtu)) num \<le> INT_MAX"
    and init: "PacketProtoFlow_Init malloc (int mtu) num = Some (f, cs)"
    and start: "ppf_calls cs \<lparr>fs_flow = f, fs_send = None, fs_accepted = [], fs_out = []\<rparr> = Some s"
  shows "ppf_inv mtu num s"
proof -
  have m: "PACKETPROTO_ENCLEN (int mtu) = int (2 + mtu)" by (simp add: PACKETPROTO_ENCLEN_def)
  from init have mtu: "mtu \<le> 65535" and num: "num > 0"
    and pb: "PacketBuffer_Init malloc (int (2 + mtu)) num = Some (ppf_buffer f, cs)"
    and f: "ppf_linked mtu f None"
    by (auto simp: PacketProtoFlow_Init_def BufferWriter_Init_def PacketProtoEncoder_Init_def require_def
        PACKETPROTO_ENCLEN_def ppf_linked_def PACKETPROTO_MAXPAYLOAD_def UINT16_MAX_def split: if_splits option.splits)
  from pb_init_holds [OF malloc num fits [unfolded m] pb]
  have h: "pb_holds (2 + mtu) num (ppf_buffer f) []"
    and cs: "cs = [Receiver_Recv (cb_input_dest (pb_buf (ppf_buffer f)))]" by auto
  have w: "pb_wants (ppf_buffer f) = Some (cb_input_dest (pb_buf (ppf_buffer f)))"
    using pb_wants_empty [OF h] by (simp add: pb_wants_def split: if_splits)
  have o: "pb_offers (ppf_buffer f) = None" using pb_offers_law [OF h] by simp
  from ppf_calls_ok [of cs None "\<lparr>fs_flow = f, fs_send = None, fs_accepted = [], fs_out = []\<rparr>"
      "pb_wants (ppf_buffer f)" None mtu] f cs w pb_wants_dest [OF h w] start
  show ?thesis using h mtu o by (auto simp: ppf_inv_def)
qed

text \<open>C11. A PacketProto flow delivers exactly what it accepted: in every reachable state the
  encodings of the packets accepted by the writer are, in order, the data delivered to the
  output followed by what is buffered; a packet is accepted whenever fewer than
  \<open>num\<close> packets are buffered; and no handler of the composition violates an assertion.
\<close>

theorem PacketProtoFlow_delivers:
  assumes "malloc_ok malloc" "4 * ChunkBuffer2_calc_blocks (PACKETPROTO_ENCLEN (int mtu)) num \<le> INT_MAX"
    and "PacketProtoFlow_Init malloc (int mtu) num = Some (f, cs)"
    and "ppf_calls cs \<lparr>fs_flow = f, fs_send = None, fs_accepted = [], fs_out = []\<rparr> = Some s0"
    and "ppf_reach mtu s0 s"
  shows "(\<exists>ps. map pp_encode (fs_accepted s) = fs_out s @ ps) \<and>
    (\<forall>p. length p \<le> mtu \<longrightarrow> ppf_write p s \<noteq> None) \<and> (fs_send s \<noteq> None \<longrightarrow> ppf_output s \<noteq> None) \<and>
    (int (length (fs_accepted s)) - int (length (fs_out s)) < num \<longrightarrow>
      (\<forall>p. length p \<le> mtu \<longrightarrow> (\<exists>t. ppf_write p s = Some t \<and> fs_accepted t = fs_accepted s @ [p])))"
proof -
  have inv: "ppf_inv mtu num s"
    using assms(5)
  proof (induction rule: ppf_reach.induct)
    case fr_init
    show ?case using ppf_init_inv [OF assms(1-4)] .
  next
    case (fr_write s p t)
    then show ?case using ppf_inv_write [of mtu num s p] by auto
  next
    case (fr_output s t)
    then show ?case using ppf_inv_output [of mtu num s] by auto
  qed
  then obtain ps where ps: "pb_holds (2 + mtu) num (ppf_buffer (fs_flow s)) ps"
    "map pp_encode (fs_accepted s) = fs_out s @ ps" by (auto simp: ppf_inv_def)
  have len: "int (length (fs_accepted s)) - int (length (fs_out s)) = int (length ps)"
    using arg_cong [OF ps(2), of length] by simp
  have "ppf_write p s \<noteq> None" if "length p \<le> mtu" for p
    using ppf_inv_write [OF inv that] by auto
  moreover have "ppf_output s \<noteq> None" if "fs_send s \<noteq> None"
    using ppf_inv_output [OF inv that] by auto
  moreover have "\<exists>t. ppf_write p s = Some t \<and> fs_accepted t = fs_accepted s @ [p]"
    if "length p \<le> mtu" "int (length ps) < num" for p
    using ppf_inv_write [OF inv that(1)] pb_room [OF ps(1) that(2)] by auto
  ultimately show ?thesis using ps(2) len by auto
qed

theorem PacketProtoFlow_delivers_witness:
  "\<exists>f cs s0 t. PacketProtoFlow_Init (\<lambda>n. if 0 \<le> n then zalloc n else None) 6 2 = Some (f, cs) \<and>
     ppf_calls cs \<lparr>fs_flow = f, fs_send = None, fs_accepted = [], fs_out = []\<rparr> = Some s0 \<and>
     ppf_write [1, 2, 3] s0 = Some t \<and> fs_accepted t = [[1, 2, 3]]"
proof -
  let ?malloc = "\<lambda>n. if 0 \<le> n then zalloc n else None"
  define r where "r = the (PacketProtoFlow_Init ?malloc 6 2)"
  define s0 where "s0 = the (ppf_calls (snd r) \<lparr>fs_flow = fst r, fs_send = None, fs_accepted = [], fs_out = []\<rparr>)"
  have init: "PacketProtoFlow_Init ?malloc (int 6) 2 = Some (fst r, snd r)"
    unfolding r_def by code_simp
  have start: "ppf_calls (snd r) \<lparr>fs_flow = fst r, fs_send = None, fs_accepted = [], fs_out = []\<rparr> = Some s0"
    "fs_accepted s0 = []"
    unfolding s0_def r_def by code_simp+
  have m: "malloc_ok ?malloc" by (simp add: malloc_ok_def zalloc_def)
  have fits: "4 * ChunkBuffer2_calc_blocks (PACKETPROTO_ENCLEN (int 6)) 2 \<le> INT_MAX" by code_simp
  note all = PacketProtoFlow_delivers [OF m fits init start(1) fr_init]
  have "\<exists>t. ppf_write [1, 2, 3] s0 = Some t \<and> fs_accepted t = [] @ [[1, 2, 3]]"
    using all start(2) by simp
  then obtain t where w: "ppf_write [1, 2, 3] s0 = Some t" "fs_accepted t = [[1, 2, 3]]" by auto
  show ?thesis
    by (rule exI [of _ "fst r"], rule exI [of _ "snd r"], rule exI [of _ s0], rule exI [of _ t])
      (use init start(1) w in simp)
qed

section \<open>The inactivity monitor\<close>

text \<open>Whether a send of the input is in progress, whether the timer runs, whether a report was forced during the
  send in progress, the reports made, and those made during a send without having been forced.\<close>

record mon_sys =
  ms_obj :: PacketPassInactivityMonitor
  ms_busy :: bool
  ms_timer :: bool
  ms_forced :: bool
  ms_reports :: nat
  ms_early :: nat

fun mon_do_call :: "mon_call \<Rightarrow> mon_sys \<Rightarrow> mon_sys" where
  "mon_do_call (Mon_Sender_Send d n) s = s\<lparr>ms_busy := True, ms_forced := False\<rparr>"
| "mon_do_call Mon_Sender_RequestCancel s = s"
| "mon_do_call Mon_Done s = s\<lparr>ms_busy := False, ms_forced := False\<rparr>"
| "mon_do_call Mon_SetTimer s = s\<lparr>ms_timer := True\<rparr>"
| "mon_do_call Mon_RemoveTimer s = s\<lparr>ms_timer := False\<rparr>"
| "mon_do_call (Mon_SetTimerAfter t) s = s\<lparr>ms_timer := True, ms_forced := ms_busy s\<rparr>"
| "mon_do_call Mon_handler s =
     s\<lparr>ms_reports := ms_reports s + 1, ms_early := ms_early s + of_bool (ms_busy s \<and> \<not> ms_forced s)\<rparr>"
| "mon_do_call Mon_EnableCancel s = s"

abbreviation mon_do_calls :: "mon_call list \<Rightarrow> mon_sys \<Rightarrow> mon_sys" where
  "mon_do_calls cs s \<equiv> fold mon_do_call cs s"

text \<open>The system after initialisation, and what can happen to it.\<close>

definition mon_start :: "PacketPassInactivityMonitor \<times> mon_call list \<Rightarrow> mon_sys" where
  "mon_start r = mon_do_calls (snd r)
     \<lparr>ms_obj = fst r, ms_busy = False, ms_timer = False, ms_forced = False, ms_reports = 0, ms_early = 0\<rparr>"

inductive mon_reach :: "mon_sys \<Rightarrow> mon_sys \<Rightarrow> bool" for s0 where
  mr_init: "mon_reach s0 s0"
| mr_send: "mon_reach s0 s \<Longrightarrow> \<not> ms_busy s \<Longrightarrow>
    mon_reach s0 (mon_do_calls (mon_input_handler_send (ms_obj s) d n) s)"
| mr_cancel: "mon_reach s0 s \<Longrightarrow> ms_busy s \<Longrightarrow>
    mon_reach s0 (mon_do_calls (mon_input_handler_requestcancel (ms_obj s)) s)"
| mr_done: "mon_reach s0 s \<Longrightarrow> ms_busy s \<Longrightarrow>
    mon_reach s0 (mon_do_calls (mon_output_handler_done (ms_obj s)) s)"
| mr_timer: "mon_reach s0 s \<Longrightarrow> ms_timer s \<Longrightarrow>
    mon_reach s0 (mon_do_calls (mon_timer_handler (ms_obj s)) (s\<lparr>ms_timer := False\<rparr>))"
| mr_force: "mon_reach s0 s \<Longrightarrow> mon_reach s0 (mon_do_calls (PacketPassInactivityMonitor_Force (ms_obj s)) s)"
| mr_handler: "mon_reach s0 s \<Longrightarrow> mon_reach s0 (s\<lparr>ms_obj := PacketPassInactivityMonitor_SetHandler (ms_obj s) h\<rparr>)"

lemmas mon_defs = mon_input_handler_send_def mon_input_handler_requestcancel_def
  mon_output_handler_done_def mon_timer_handler_def PacketPassInactivityMonitor_Force_def

text \<open>C31. The inactivity monitor measures idle time, in every run of sends, cancel requests, completions, expirations of
  the timer, forced reports and changes of the handler. The timer runs exactly while no packet is being sent
  through the monitor or a report was forced during the current send; so a report is made during a send only when
  \<open>PacketPassInactivityMonitor_Force\<close> was called during that send. When the timer expires it is set again, and a report is made if
  a handler is set.
\<close>

theorem PacketPassInactivityMonitor_idle:
  assumes "mon_reach (mon_start (PacketPassInactivityMonitor_Init c h)) s"
  shows "(ms_timer s \<longleftrightarrow> \<not> ms_busy s \<or> ms_forced s) \<and> (ms_forced s \<longrightarrow> ms_busy s) \<and> ms_early s = 0 \<and>
    (ms_timer s \<longrightarrow> (let t = mon_do_calls (mon_timer_handler (ms_obj s)) (s\<lparr>ms_timer := False\<rparr>) in
      ms_timer t \<and> ms_reports t = ms_reports s + of_bool (mon_has_handler (ms_obj s))))"
proof -
  have "(ms_timer s \<longleftrightarrow> \<not> ms_busy s \<or> ms_forced s) \<and> (ms_forced s \<longrightarrow> ms_busy s) \<and> ms_early s = 0"
    using assms
  proof (induction rule: mon_reach.induct)
    case mr_init
    show ?case by (cases c) (auto simp: PacketPassInactivityMonitor_Init_def mon_start_def)
  qed (auto simp: mon_defs)
  then show ?thesis by (simp add: mon_timer_handler_def Let_def)
qed

text \<open>The run of the witness forces a report during a send.\<close>

theorem PacketPassInactivityMonitor_idle_witness:
  "\<exists>s. mon_reach (mon_start (PacketPassInactivityMonitor_Init True True)) s \<and>
     ms_busy s \<and> ms_forced s \<and> ms_timer s \<and> ms_reports s = 1 \<and> ms_early s = 0"
proof -
  let ?s = "mon_start (PacketPassInactivityMonitor_Init True True)"
  let ?t = "mon_do_calls (mon_input_handler_send (ms_obj ?s) 0 4) ?s"
  let ?u = "mon_do_calls (PacketPassInactivityMonitor_Force (ms_obj ?t)) ?t"
  let ?v = "mon_do_calls (mon_timer_handler (ms_obj ?u)) (?u\<lparr>ms_timer := False\<rparr>)"
  have idle: "\<not> ms_busy ?s" and timer: "ms_timer ?u" and v: "ms_busy ?v" "ms_forced ?v" "ms_reports ?v = 1"
    by (simp_all add: mon_start_def PacketPassInactivityMonitor_Init_def mon_defs)
  have reach: "mon_reach ?s ?v" by (rule mr_timer [OF mr_force [OF mr_send [OF mr_init idle]] timer])
  from PacketPassInactivityMonitor_idle [OF reach] v reach show ?thesis by blast
qed

end
