(* ===== verification/Inet_Headers.thy ===== *)
theory Inet_Headers
  imports Byte_Order
begin

text \<open>
  IPv4, IPv6 and UDP headers: \<^verbatim>\<open>misc/ipv4_proto.h\<close>, \<^verbatim>\<open>misc/udp_proto.h\<close> and
  \<^verbatim>\<open>misc/ipv6_proto.h\<close>. A packed struct is a record of its fields as they are in memory
  (network order where the protocol says so) with its byte layout; the check functions
  return the parsed header with the offset and length of the payload, \<open>None\<close> for 0.
\<close>

section \<open>misc/ipv4\_proto.h\<close>

definition IPV4_PROTOCOL_UDP :: byte where
  "IPV4_PROTOCOL_UDP = 17"

record ipv4_header =
  ip4_version4_ihl4 :: byte
  ip4_ds :: byte
  ip4_total_length :: u16
  ip4_identification :: u16
  ip4_flags3_fragmentoffset13 :: u16
  ip4_ttl :: byte
  ip4_protocol :: byte
  ip4_checksum :: u16
  ip4_source_address :: u32
  ip4_destination_address :: u32

definition ipv4_header_mem :: "ipv4_header \<Rightarrow> bytes" where
  "ipv4_header_mem h =
     [ip4_version4_ihl4 h, ip4_ds h] @ mem16 (ip4_total_length h) @
     mem16 (ip4_identification h) @ mem16 (ip4_flags3_fragmentoffset13 h) @
     [ip4_ttl h, ip4_protocol h] @ mem16 (ip4_checksum h) @
     mem32 (ip4_source_address h) @ mem32 (ip4_destination_address h)"

definition ipv4_header_get :: "bytes \<Rightarrow> ipv4_header" where
  "ipv4_header_get b =
     \<lparr>ip4_version4_ihl4 = b ! 0, ip4_ds = b ! 1, ip4_total_length = unmem16 (drop 2 b),
      ip4_identification = unmem16 (drop 4 b), ip4_flags3_fragmentoffset13 = unmem16 (drop 6 b),
      ip4_ttl = b ! 8, ip4_protocol = b ! 9, ip4_checksum = unmem16 (drop 10 b),
      ip4_source_address = unmem32 (drop 12 b), ip4_destination_address = unmem32 (drop 16 b)\<rparr>"

definition IPV4_GET_VERSION :: "ipv4_header \<Rightarrow> byte" where
  "IPV4_GET_VERSION h = drop_bit 4 (ip4_version4_ihl4 h AND 0xF0)"

definition IPV4_GET_IHL :: "ipv4_header \<Rightarrow> byte" where
  "IPV4_GET_IHL h = drop_bit 0 (ip4_version4_ihl4 h AND 0x0F)"

definition IPV4_MAKE_VERSION_IHL :: "nat \<Rightarrow> byte" where
  "IPV4_MAKE_VERSION_IHL sz = of_nat (sz div 4) + push_bit 4 4"

text \<open>The loop over the 16-bit words at \<open>data\<close>, and the carry loop.\<close>

definition sum_be16 :: "bytes \<Rightarrow> nat \<Rightarrow> u32 \<Rightarrow> u32" where
  "sum_be16 data n t = fold (\<lambda>i t. t + ucast (badvpn_read_be16 (drop (2 * i) data))) [0..<n] t"

function fold_carry :: "u32 \<Rightarrow> u32" where
  "fold_carry t = (if drop_bit 16 t \<noteq> 0 then fold_carry ((t AND 0xFFFF) + drop_bit 16 t) else t)"
  by auto

definition ipv4_checksum :: "ipv4_header \<Rightarrow> bytes \<Rightarrow> nat \<Rightarrow> u16" where
  "ipv4_checksum header extra extra_len =
     (let t = sum_be16 (ipv4_header_mem header) (20 div 2) 0;
          t = sum_be16 extra (extra_len div 2) t;
          t = fold_carry t
      in hton16 (ucast (NOT t)))"

definition ipv4_check :: "bytes \<Rightarrow> (ipv4_header \<times> nat \<times> nat) option" where
  "ipv4_check data =
     (if length data < 20 then None
      else (let h = ipv4_header_get data in
        if IPV4_GET_VERSION h \<noteq> 4 then None
        else (let header_len = unat (IPV4_GET_IHL h) * 4 in
          if header_len < 20 then None
          else if header_len > length data then None
          else (let total_length = unat (ntoh16 (ip4_total_length h)) in
            if total_length < header_len then None
            else if total_length > length data then None
            else (let checksum_in_packet = ip4_checksum h;
                      checksum_computed = ipv4_checksum (h\<lparr>ip4_checksum := hton16 0\<rparr>)
                        (drop 20 data) (header_len - 20)
                  in if checksum_in_packet \<noteq> checksum_computed then None
                     else Some (h, header_len, total_length - header_len))))))"

section \<open>misc/ipv6\_proto.h\<close>

definition IPV6_NEXT_UDP :: byte where
  "IPV6_NEXT_UDP = 17"

record ipv6_header =
  ip6_version4_tc4 :: byte
  ip6_tc4_fl4 :: byte
  ip6_fl :: u16
  ip6_payload_length :: u16
  ip6_next_header :: byte
  ip6_hop_limit :: byte
  ip6_source_address :: bytes
  ip6_destination_address :: bytes

definition ipv6_header_mem :: "ipv6_header \<Rightarrow> bytes" where
  "ipv6_header_mem h =
     [ip6_version4_tc4 h, ip6_tc4_fl4 h] @ mem16 (ip6_fl h) @ mem16 (ip6_payload_length h) @
     [ip6_next_header h, ip6_hop_limit h] @ ip6_source_address h @ ip6_destination_address h"

definition ipv6_header_get :: "bytes \<Rightarrow> ipv6_header" where
  "ipv6_header_get b =
     \<lparr>ip6_version4_tc4 = b ! 0, ip6_tc4_fl4 = b ! 1, ip6_fl = unmem16 (drop 2 b),
      ip6_payload_length = unmem16 (drop 4 b), ip6_next_header = b ! 6, ip6_hop_limit = b ! 7,
      ip6_source_address = bslice b 8 16, ip6_destination_address = bslice b 24 16\<rparr>"

definition ipv6_check :: "bytes \<Rightarrow> (ipv6_header \<times> nat \<times> nat) option" where
  "ipv6_check data =
     (if length data < 40 then None
      else (let h = ipv6_header_get data in
        if drop_bit 4 (ntoh8 (ip6_version4_tc4 h)) \<noteq> 6 then None
        else (let payload_length = unat (ntoh16 (ip6_payload_length h)) in
          if payload_length > length data - 40 then None
          else Some (h, 40, payload_length))))"

section \<open>misc/udp\_proto.h\<close>

record udp_header =
  udp_source_port :: u16
  udp_dest_port :: u16
  udp_length :: u16
  udp_checksum_field :: u16

definition udp_header_mem :: "udp_header \<Rightarrow> bytes" where
  "udp_header_mem h =
     mem16 (udp_source_port h) @ mem16 (udp_dest_port h) @ mem16 (udp_length h) @
     mem16 (udp_checksum_field h)"

definition udp_header_get :: "bytes \<Rightarrow> udp_header" where
  "udp_header_get b =
     \<lparr>udp_source_port = unmem16 b, udp_dest_port = unmem16 (drop 2 b), udp_length = unmem16 (drop 4 b),
      udp_checksum_field = unmem16 (drop 6 b)\<rparr>"

definition udp_checksum_summer :: "bytes \<Rightarrow> nat \<Rightarrow> u32" where
  "udp_checksum_summer data len = sum_be16 data (len div 2) 0"

definition udp_checksum_payload :: "bytes \<Rightarrow> nat \<Rightarrow> u32 \<Rightarrow> u32" where
  "udp_checksum_payload payload payload_len t =
     (if payload_len mod 2 = 0 then t + udp_checksum_summer payload payload_len
      else (let t = t + udp_checksum_summer payload (payload_len - 1);
                x = hton16 (push_bit 8 (ucast (payload ! (payload_len - 1))))
            in t + udp_checksum_summer (mem16 x) 2))"

definition udp_checksum_finish :: "u32 \<Rightarrow> u16" where
  "udp_checksum_finish t =
     (let t = fold_carry t;
          t = (if t = 0 then 0xFFFF else t)
      in hton16 (ucast (NOT t)))"

definition udp_checksum :: "udp_header \<Rightarrow> bytes \<Rightarrow> u16 \<Rightarrow> u32 \<Rightarrow> u32 \<Rightarrow> u16" where
  "udp_checksum header payload payload_len source_addr dest_addr =
     (let t = 0;
          t = t + udp_checksum_summer (mem32 source_addr) 4;
          t = t + udp_checksum_summer (mem32 dest_addr) 4;
          x = hton16 (ucast IPV4_PROTOCOL_UDP);
          t = t + udp_checksum_summer (mem16 x) 2;
          x = hton16 (of_nat (8 + unat payload_len));
          t = t + udp_checksum_summer (mem16 x) 2;
          t = t + udp_checksum_summer (udp_header_mem header) 8
      in udp_checksum_finish (udp_checksum_payload payload (unat payload_len) t))"

definition udp_ip6_checksum :: "udp_header \<Rightarrow> bytes \<Rightarrow> u16 \<Rightarrow> bytes \<Rightarrow> bytes \<Rightarrow> u16" where
  "udp_ip6_checksum header payload payload_len source_addr dest_addr =
     (let t = 0;
          t = t + udp_checksum_summer source_addr 16;
          t = t + udp_checksum_summer dest_addr 16;
          x = hton32 (of_nat (8 + unat payload_len));
          t = t + udp_checksum_summer (mem32 x) 4;
          x = hton32 (ucast IPV6_NEXT_UDP);
          t = t + udp_checksum_summer (mem32 x) 4;
          t = t + udp_checksum_summer (udp_header_mem header) 8
      in udp_checksum_finish (udp_checksum_payload payload (unat payload_len) t))"

definition udp_check :: "bytes \<Rightarrow> (udp_header \<times> nat \<times> nat) option" where
  "udp_check data =
     (if length data < 8 then None
      else (let h = udp_header_get data;
                data_len = length data - 8;
                length_field = unat (ntoh16 (udp_length h))
            in if length_field < 8 then None
               else if length_field > 8 + data_len then None
               else Some (h, 8, length_field - 8)))"

section \<open>The carry loop\<close>

lemma drop_bit_16_unat: "unat (drop_bit 16 (t :: u32)) = unat t div 65536"
  by (simp add: drop_bit_eq_div unat_div)

lemma and_FFFF_unat: "unat ((t :: u32) AND 0xFFFF) = unat t mod 65536"
proof -
  have "t AND 0xFFFF = take_bit 16 t" by (simp add: take_bit_eq_mask mask_eq_exp_minus_1)
  then have "unat (t AND 0xFFFF) = take_bit 16 (unat t)" by (simp only: unsigned_take_bit_eq)
  then show ?thesis by (simp add: take_bit_eq_mod)
qed

lemma carry_unat:
  "unat ((t AND 0xFFFF) + drop_bit 16 (t :: u32)) = unat t mod 65536 + unat t div 65536"
proof -
  have "unat t < 2 ^ 32" using unsigned_less [of t] by simp
  then have "unat t mod 65536 + unat t div 65536 < 2 ^ 32" by simp
  then show ?thesis
    by (subst unat_word_ariths(1)) (simp add: and_FFFF_unat drop_bit_16_unat)
qed

lemma drop_bit_16_zero: "drop_bit 16 (t :: u32) = 0 \<longleftrightarrow> unat t < 65536"
  by (metis drop_bit_16_unat div_eq_0_iff unat_eq_zero zero_neq_numeral)

termination fold_carry
proof (relation "measure unat")
  fix t :: u32
  assume "drop_bit 16 t \<noteq> 0"
  then have "65536 \<le> unat t" by (simp add: drop_bit_16_zero)
  then have "0 < unat t div 65536" by (simp add: div_greater_zero_iff)
  then have "unat t mod 65536 + unat t div 65536 < unat t"
    using mult_div_mod_eq [of 65536 "unat t"] by linarith
  then show "((t AND 0xFFFF) + drop_bit 16 t, t) \<in> measure unat"
    by (simp add: carry_unat)
qed simp

declare fold_carry.simps [simp del]

text \<open>The carry loop computes the ones' complement sum: the representative in
  \<open>1 .. 65535\<close> modulo 65535, and 0 only of 0.\<close>

definition ones_complement :: "nat \<Rightarrow> nat" where
  "ones_complement s = (if s = 0 then 0 else (s - 1) mod 65535 + 1)"

lemma ones_complement_small: "s < 65536 \<Longrightarrow> ones_complement s = s"
  by (simp add: ones_complement_def)

lemma ones_complement_carry:
  assumes "65536 \<le> s"
  shows "ones_complement (s mod 65536 + s div 65536) = ones_complement s"
proof -
  let ?r = "s mod 65536 + s div 65536"
  have "?r \<noteq> 0" "s \<noteq> 0" using assms by auto
  moreover have "s = ?r + 65535 * (s div 65536)"
    using mult_div_mod_eq [of 65536 s] by linarith
  ultimately have "s - 1 = (?r - 1) + 65535 * (s div 65536)" by linarith
  then have "(s - 1) mod 65535 = (?r - 1) mod 65535" by (simp only: mod_mult_self2)
  then show ?thesis using \<open>?r \<noteq> 0\<close> \<open>s \<noteq> 0\<close> by (simp only: ones_complement_def if_False)
qed

lemma unat_fold_carry: "unat (fold_carry t) = ones_complement (unat t)"
proof (induction t rule: fold_carry.induct)
  case (1 t)
  show ?case
  proof (cases "drop_bit 16 t = 0")
    case True
    then show ?thesis
      by (simp add: fold_carry.simps [of t] drop_bit_16_zero ones_complement_small)
  next
    case False
    then show ?thesis
      using 1 by (simp add: fold_carry.simps [of t] drop_bit_16_zero carry_unat ones_complement_carry)
  qed
qed

lemma ones_complement_bounds: "ones_complement s \<le> 65535" "ones_complement s = 0 \<longleftrightarrow> s = 0"
proof -
  have "(s - 1) mod 65535 < 65535" by simp
  then have "(s - 1) mod 65535 + 1 \<le> 65535" by linarith
  then show "ones_complement s \<le> 65535" by (simp only: ones_complement_def split: if_split) simp
qed (simp add: ones_complement_def)

lemma ones_complement_mod: "ones_complement s mod 65535 = s mod 65535"
proof (cases "s = 0")
  case False
  then have "((s - 1) mod 65535 + 1) mod 65535 = s mod 65535"
    by (metis Suc_eq_plus1 Suc_pred' mod_Suc_eq not_gr_zero)
  then show ?thesis using False by (simp add: ones_complement_def)
qed (simp add: ones_complement_def)

section \<open>Sums of 16-bit words\<close>

text \<open>The sum of the big-endian 16-bit words of a byte string, an odd last byte padded with
  a zero byte: the sum the protocols define.\<close>

fun be_words :: "bytes \<Rightarrow> nat" where
  "be_words [] = 0"
| "be_words [a] = 256 * unat a"
| "be_words (a # b # r) = 256 * unat a + unat b + be_words r"

lemma be_words_append: "even (length xs) \<Longrightarrow> be_words (xs @ ys) = be_words xs + be_words ys"
  by (induction xs rule: be_words.induct) auto

lemma unat_byte: "unat (a :: byte) < 256"
  using unsigned_less [of a] by simp

lemma be_words_bound: "be_words xs \<le> 65535 * ((length xs + 1) div 2)"
proof (induction xs rule: be_words.induct)
  case (2 a)
  then show ?case using unat_byte [of a] by simp
next
  case (3 a b r)
  then show ?case using unat_byte [of a] unat_byte [of b] by simp
qed simp

lemma unat_bound: "unat (w :: 'a::len word) < 2 ^ LENGTH('a)"
  by (rule unsigned_less)

lemma unat_ucast_up:
  "unat (ucast (b :: byte) :: u16) = unat b" "unat (ucast (b :: byte) :: u32) = unat b"
  "unat (ucast (w :: u16) :: u32) = unat w"
  using unat_bound [of b] unat_bound [of w]
  by (simp_all add: unsigned_ucast_eq take_bit_nat_eq_self)

lemma unat_add_u32: "unat a + unat b < 2 ^ 32 \<Longrightarrow> unat (a + b :: u32) = unat a + unat b"
  by (simp add: unat_word_ariths(1))

lemma unat_add_u16: "unat a + unat b < 2 ^ 16 \<Longrightarrow> unat (a + b :: u16) = unat a + unat b"
  by (simp add: unat_word_ariths(1))

lemma unat_be16: "unat (push_bit 8 (ucast (a :: byte)) OR ucast (b :: byte) :: u16) = 256 * unat a + unat b"
proof -
  have disj: "push_bit 8 (ucast a) AND (ucast b :: u16) = 0"
    by (rule bit_word_eqI) (auto simp: bit_simps dest: bit_imp_le_length)
  have "push_bit 8 (ucast a) OR ucast b = push_bit 8 (ucast a) + (ucast b :: u16)"
    using word_plus_and_or [of "push_bit 8 (ucast a)" "ucast b :: u16"] disj by simp
  moreover have "unat (push_bit 8 (ucast a :: u16)) = 256 * unat a"
    using unat_byte [of a] by (simp add: push_bit_eq_mult unat_word_ariths(2) unat_ucast_up)
  moreover have "unat (ucast b :: u16) = unat b" by (rule unat_ucast_up)
  ultimately show ?thesis
    using unat_byte [of a] unat_byte [of b] by (simp add: unat_add_u16)
qed

lemma unat_read_be16: "unat (badvpn_read_be16 p) = 256 * unat (p ! 0) + unat (p ! 1)"
  by (simp add: badvpn_read_be16_def unat_be16)

lemma be_words_take_Suc:
  assumes "2 * Suc n \<le> length d"
  shows "be_words (take (2 * Suc n) d) = be_words (take (2 * n) d) + unat (badvpn_read_be16 (drop (2 * n) d))"
proof -
  have "take (2 * Suc n) d = take (2 * n) d @ [d ! (2 * n), d ! Suc (2 * n)]"
    using assms by (simp add: take_Suc_conv_app_nth)
  then show ?thesis using assms by (simp add: be_words_append unat_read_be16)
qed

lemma sum_be16_Suc:
  "sum_be16 d (Suc n) t = sum_be16 d n t + ucast (badvpn_read_be16 (drop (2 * n) d))"
  by (simp add: sum_be16_def)

lemma sum_be16_eq: "2 * n \<le> length d \<Longrightarrow> sum_be16 d n t = t + of_nat (be_words (take (2 * n) d))"
proof (induction n)
  case 0
  then show ?case by (simp add: sum_be16_def)
next
  case (Suc n)
  have "ucast w = (of_nat (unat w) :: u32)" for w :: u16 by (simp add: of_nat_unat)
  with Suc show ?case
    by (simp only: sum_be16_Suc be_words_take_Suc) (simp add: add.assoc)
qed

lemma unat_of_nat_u32: "s < 2 ^ 32 \<Longrightarrow> unat (of_nat s :: u32) = s"
  by (simp add: unat_of_nat)

section \<open>Layouts\<close>

lemma be_words_mem16 [simp]: "be_words (mem16 x) = unat (ntoh16 x)"
proof -
  have "mem16 x = badvpn_write_be16 (ntoh16 x)" using mem_hton(1) [of "ntoh16 x"] by simp
  moreover have "be_words p = unat (badvpn_read_be16 p)" if "length p = 2" for p
    using that by (cases p; cases "tl p") (auto simp: unat_read_be16)
  moreover have "length (badvpn_write_be16 y) = 2" for y by (simp add: badvpn_write_be16_def)
  ultimately show ?thesis by (simp add: be16.dec_enc)
qed

lemma take_drop_2: "n + 2 \<le> length b \<Longrightarrow> take 2 (drop n b) = [b ! n, b ! (n + 1)]"
  by (simp add: numeral_2_eq_2 take_Suc_conv_app_nth)

lemma take_drop_4:
  "n + 4 \<le> length b \<Longrightarrow> take 4 (drop n b) = [b ! n, b ! (n + 1), b ! (n + 2), b ! (n + 3)]"
  by (simp add: eval_nat_numeral take_Suc_conv_app_nth)

lemma mem16_drop: "n + 2 \<le> length b \<Longrightarrow> mem16 (unmem16 (drop n b)) = [b ! n, b ! (n + 1)]"
  by (simp only: take_drop_2 mem_unmem list.size)

lemma mem32_drop:
  "n + 4 \<le> length b \<Longrightarrow> mem32 (unmem32 (drop n b)) = [b ! n, b ! (n + 1), b ! (n + 2), b ! (n + 3)]"
  by (simp add: take_drop_4 mem_unmem del: le_join.simps)

lemma take_nth: "n \<le> length b \<Longrightarrow> take n b = map ((!) b) [0..<n]"
  by (metis map_nth take_map take_upt length_map add.left_neutral)

lemma upt_numeral:
  "[0..<8] = [0, 1, 2, 3, 4, 5, 6, 7 :: nat]"
  "[0..<20] = [0, 1, 2, 3, 4, 5, 6, 7, 8, 9, 10, 11, 12, 13, 14, 15, 16, 17, 18, 19 :: nat]"
  by code_simp+

lemma length_ipv4_header_mem [simp]: "length (ipv4_header_mem h) = 20"
  by (simp add: ipv4_header_mem_def)

lemma ipv4_header_mem_get: "20 \<le> length b \<Longrightarrow> ipv4_header_mem (ipv4_header_get b) = take 20 b"
  by (simp add: ipv4_header_mem_def ipv4_header_get_def mem16_drop mem32_drop take_nth [of 20]
      upt_numeral)

lemma ipv4_header_get_mem [simp]: "ipv4_header_get (ipv4_header_mem h @ r) = h"
  by (simp add: ipv4_header_mem_def ipv4_header_get_def nth_append)

lemma length_udp_header_mem [simp]: "length (udp_header_mem h) = 8"
  by (simp add: udp_header_mem_def)

lemma udp_header_get_mem [simp]: "udp_header_get (udp_header_mem h @ r) = h"
  by (simp add: udp_header_mem_def udp_header_get_def)

lemma udp_header_mem_get: "8 \<le> length b \<Longrightarrow> udp_header_mem (udp_header_get b) = take 8 b"
  using mem16_drop [of 0 b]
  by (simp add: udp_header_mem_def udp_header_get_def mem16_drop take_nth [of 8] upt_numeral)

lemma ipv6_header_mem_get: "40 \<le> length b \<Longrightarrow> ipv6_header_mem (ipv6_header_get b) = take 40 b"
proof -
  assume b: "40 \<le> length b"
  have "take 40 b = take 8 b @ bslice b 8 16 @ bslice b 24 16"
    using take_add [of 8 32 b] take_add [of 16 16 "drop 8 b"] by (simp add: bslice_def)
  with b show ?thesis
    by (simp add: ipv6_header_mem_def ipv6_header_get_def mem16_drop take_nth [of 8] upt_numeral)
qed

lemma be_words_ipv4_checksum:
  "be_words (ipv4_header_mem h) =
     be_words (ipv4_header_mem (h\<lparr>ip4_checksum := hton16 0\<rparr>)) + unat (ntoh16 (ip4_checksum h))"
  by (simp add: ipv4_header_mem_def be_words_append)

lemma be_words_udp_checksum:
  "be_words (udp_header_mem h) =
     be_words (udp_header_mem (h\<lparr>udp_checksum_field := hton16 0\<rparr>)) + unat (ntoh16 (udp_checksum_field h))"
  by (simp add: udp_header_mem_def be_words_append)

section \<open>The checksums are the ones the protocols define\<close>

lemma unat_not_low:
  assumes "unat (t :: u32) \<le> 65535"
  shows "unat (ucast (NOT t) :: u16) = 65535 - unat t"
proof -
  have "unat (NOT t) = 65536 * 65535 + (65535 - unat t)"
  proof -
    have "(unat t + unat (NOT t)) mod 2 ^ 32 = unat (t + NOT t)"
      unfolding unat_word_ariths(1) by simp
    also have "\<dots> = 2 ^ 32 - 1" unfolding word_add_not
      by (simp add: unsigned_minus_1_eq_mask mask_eq_exp_minus_1)
    finally have "(unat t + unat (NOT t)) mod 2 ^ 32 = 2 ^ 32 - 1" .
    moreover have "unat (NOT t) < 2 ^ 32" using unat_bound [of "NOT t"] by simp
    ultimately show ?thesis using assms by (simp add: mod_if split: if_splits)
  qed
  moreover have "(65536 * 65535 + (65535 - unat t)) mod 65536 = 65535 - unat t"
    using assms by (simp only: mod_mult_self4) simp
  ultimately show ?thesis by (simp add: unsigned_ucast_eq take_bit_eq_mod)
qed

text \<open>The value, in host order, that a checksum of data whose words sum to \<open>s\<close> has.\<close>

lemma unat_ipv4_checksum:
  assumes "even n" "n \<le> length extra" "n \<le> 65536"
  shows "unat (ntoh16 (ipv4_checksum h extra n)) =
    65535 - ones_complement (be_words (ipv4_header_mem h @ take n extra))"
proof -
  have b: "be_words (ipv4_header_mem h @ take n extra) < 2 ^ 32"
    using be_words_bound [of "ipv4_header_mem h @ take n extra"] assms by simp
  have "sum_be16 extra (n div 2) (sum_be16 (ipv4_header_mem h) (20 div 2) 0) =
      of_nat (be_words (ipv4_header_mem h @ take n extra))"
    using assms by (simp add: sum_be16_eq be_words_append)
  with b show ?thesis
    by (simp add: ipv4_checksum_def Let_def unat_not_low unat_fold_carry ones_complement_bounds
        unat_of_nat_u32)
qed

lemma checksum_verifies:
  assumes "0 < s" "c \<le> 65535"
  shows "c = 65535 - ones_complement s \<longleftrightarrow> (s + c) mod 65535 = 0 \<and> c \<noteq> 65535"
proof -
  define v where "v = ones_complement s"
  have v: "0 < v" "v \<le> 65535" "v mod 65535 = s mod 65535"
    using assms ones_complement_bounds [of s] by (auto simp: v_def ones_complement_mod)
  have "(s + c) mod 65535 = 0 \<longleftrightarrow> (v + c) mod 65535 = 0"
    using v(3) by (metis mod_add_left_eq)
  also have "\<dots> \<longleftrightarrow> v + c = 65535 \<or> v + c = 131070"
  proof
    assume "(v + c) mod 65535 = 0"
    then obtain k where "v + c = 65535 * k" by auto
    moreover from this have "0 < k" "k < 3" using v(1,2) assms(2) by (cases k; simp)+
    ultimately show "v + c = 65535 \<or> v + c = 131070" by (cases "k = 1"; cases "k = 2") simp_all
  qed auto
  finally have eq: "(s + c) mod 65535 = 0 \<longleftrightarrow> v + c = 65535 \<or> v + c = 131070" .
  have "c = 65535 - v \<longleftrightarrow> v + c = 65535" using v(2) by linarith
  moreover have "v + c = 131070 \<longleftrightarrow> v = 65535 \<and> c = 65535" using v(2) assms(2) by linarith
  ultimately show ?thesis unfolding eq v_def [symmetric] using v(1) by linarith
qed

definition ipv4_ihl :: "bytes \<Rightarrow> nat" where
  "ipv4_ihl d = 4 * (unat (d ! 0) mod 16)"

definition ipv4_len :: "bytes \<Rightarrow> nat" where
  "ipv4_len d = 256 * unat (d ! 2) + unat (d ! 3)"

text \<open>A well-formed IPv4 packet at the start of \<open>d\<close>, by the protocol: the words of the
  header, checksum included, sum to a multiple of 65535. \<open>ipv4_check\<close> compares the field
  with the one value it computes, so of the two representations of zero it takes \<open>0x0000\<close>.\<close>

definition ipv4_valid :: "bytes \<Rightarrow> bool" where
  "ipv4_valid d \<longleftrightarrow> 20 \<le> length d \<and> unat (d ! 0) div 16 = 4 \<and> 20 \<le> ipv4_ihl d \<and>
     ipv4_ihl d \<le> ipv4_len d \<and> ipv4_len d \<le> length d \<and>
     be_words (take (ipv4_ihl d) d) mod 65535 = 0 \<and> (d ! 10, d ! 11) \<noteq> (255, 255)"

lemma unat_nibbles:
  "unat (drop_bit 4 (a AND 0xF0) :: byte) = unat a div 16"
  "unat (drop_bit 0 (a AND 0x0F) :: byte) = unat a mod 16"
proof -
  have "drop_bit 4 (a AND push_bit 4 (mask 4)) = drop_bit 4 a"
    by (rule bit_word_eqI) (auto simp: bit_simps dest: bit_imp_le_length)
  then show "unat (drop_bit 4 (a AND 0xF0) :: byte) = unat a div 16"
    by (simp add: drop_bit_eq_div unat_div mask_eq_exp_minus_1 push_bit_eq_mult)
  have "a AND 0x0F = take_bit 4 a" by (simp add: take_bit_eq_mask mask_eq_exp_minus_1)
  then show "unat (drop_bit 0 (a AND 0x0F) :: byte) = unat a mod 16"
    by (simp add: take_bit_eq_mod unat_mod)
qed

lemma unat_ntoh16_drop:
  "n + 2 \<le> length d \<Longrightarrow> unat (ntoh16 (unmem16 (drop n d))) = 256 * unat (d ! n) + unat (d ! (n + 1))"
  using be_words_mem16 [of "unmem16 (drop n d)"] by (simp add: mem16_drop)

lemma unat_ntoh16_inject: "x = y \<longleftrightarrow> unat (ntoh16 x) = unat (ntoh16 y)"
  by (metis ntoh_hton(4) unsigned_word_eqI)

lemma ipv4_checksum_ok:
  assumes d: "20 \<le> length d" "unat (d ! 0) div 16 = 4" "20 \<le> ipv4_ihl d" "ipv4_ihl d \<le> length d"
    and h: "h = ipv4_header_get d"
  shows "ip4_checksum h = ipv4_checksum (h\<lparr>ip4_checksum := hton16 0\<rparr>) (drop 20 d) (ipv4_ihl d - 20)
    \<longleftrightarrow> be_words (take (ipv4_ihl d) d) mod 65535 = 0 \<and> (d ! 10, d ! 11) \<noteq> (255, 255)"
    (is "_ = ipv4_checksum ?h0 _ ?n \<longleftrightarrow> _")
proof -
  define s where "s = be_words (ipv4_header_mem ?h0 @ take ?n (drop 20 d))"
  define c where "c = unat (ntoh16 (ip4_checksum h))"
  have c: "c = 256 * unat (d ! 10) + unat (d ! 11)"
    using d by (simp add: c_def h ipv4_header_get_def unat_ntoh16_drop)
  have "take (ipv4_ihl d) d = ipv4_header_mem h @ take ?n (drop 20 d)"
    using d take_add [of 20 ?n d] by (simp add: h ipv4_header_mem_get)
  then have sum: "s + c = be_words (take (ipv4_ihl d) d)"
    using be_words_ipv4_checksum [of h] by (simp add: s_def c_def be_words_append)
  have "0 < unat (d ! 0)" using d(2) by (cases "unat (d ! 0)") auto
  then have "0 < s" by (simp add: s_def ipv4_header_mem_def h ipv4_header_get_def)
  moreover have "c \<le> 65535"
    using unat_byte [of "d ! 10"] unat_byte [of "d ! 11"] c by simp
  moreover have "c = 65535 \<longleftrightarrow> unat (d ! 10) = 255 \<and> unat (d ! 11) = 255"
    using unat_byte [of "d ! 10"] unat_byte [of "d ! 11"] unfolding c by presburger
  then have "c = 65535 \<longleftrightarrow> (d ! 10, d ! 11) = (255, 255)" by (simp add: word_unat_eq_iff)
  moreover have "unat (ntoh16 (ipv4_checksum ?h0 (drop 20 d) ?n)) = 65535 - ones_complement s"
    unfolding s_def using d by (intro unat_ipv4_checksum) (auto simp: ipv4_ihl_def)
  ultimately show ?thesis
    unfolding unat_ntoh16_inject [of "ip4_checksum h"]
    using checksum_verifies [of s c] sum by (simp add: c_def)
qed

text \<open>C32. \<open>ipv4_check\<close> accepts exactly the well-formed packets, and returns the header they
  start with, the offset of the payload and its length, which lie inside the data.\<close>

theorem ipv4_check_iff:
  "ipv4_check d =
     (if ipv4_valid d then Some (ipv4_header_get d, ipv4_ihl d, ipv4_len d - ipv4_ihl d) else None)"
proof (cases "20 \<le> length d")
  case True
  define h where "h = ipv4_header_get d"
  have f: "IPV4_GET_VERSION h = 4 \<longleftrightarrow> unat (d ! 0) div 16 = 4"
    "unat (IPV4_GET_IHL h) * 4 = ipv4_ihl d" "unat (ntoh16 (ip4_total_length h)) = ipv4_len d"
    using True unat_nibbles [of "d ! 0"]
    by (simp_all add: h_def IPV4_GET_VERSION_def IPV4_GET_IHL_def ipv4_header_get_def ipv4_ihl_def
        ipv4_len_def unat_ntoh16_drop word_unat_eq_iff)
  note ok = ipv4_checksum_ok [OF True _ _ _ h_def]
  show ?thesis
    using True ok by (auto simp: ipv4_check_def ipv4_valid_def Let_def f h_def [symmetric])
qed (simp add: ipv4_check_def ipv4_valid_def)

lemma udp_summer_eq:
  "even n \<Longrightarrow> n \<le> length d \<Longrightarrow> udp_checksum_summer d n = of_nat (be_words (take n d))"
  by (simp add: udp_checksum_summer_def sum_be16_eq)

lemma udp_payload_eq:
  assumes n: "n \<le> length p"
  shows "udp_checksum_payload p n t = t + of_nat (be_words (take n p))"
proof (cases "even n")
  case True
  then show ?thesis
    using n by (simp add: udp_checksum_payload_def udp_summer_eq even_iff_mod_2_eq_zero)
next
  case False
  then obtain m where m: "n = Suc m" "even m" by (cases n) auto
  have s: "be_words (take n p) = be_words (take m p) + 256 * unat (p ! m)"
    using m n by (simp add: take_Suc_conv_app_nth be_words_append)
  have "unat (push_bit 8 (ucast (p ! m)) :: u16) = 256 * unat (p ! m)"
    using unat_be16 [of "p ! m" 0] by simp
  then have "udp_checksum_summer (mem16 (hton16 (push_bit 8 (ucast (p ! m))))) 2 =
      of_nat (256 * unat (p ! m))"
    by (simp add: udp_summer_eq)
  then show ?thesis
    using m n s by (simp add: udp_checksum_payload_def udp_summer_eq Let_def add.assoc mod_Suc
        even_iff_mod_2_eq_zero)
qed

lemma unat_udp_finish:
  "0 < unat t \<Longrightarrow> unat (ntoh16 (udp_checksum_finish t)) = 65535 - ones_complement (unat t)"
  using ones_complement_bounds [of "unat t"]
  by (auto simp: udp_checksum_finish_def Let_def unat_not_low unat_fold_carry word_unat_eq_iff [of _ 0])

definition udp_pseudo_header :: "u32 \<Rightarrow> u32 \<Rightarrow> nat \<Rightarrow> bytes" where
  "udp_pseudo_header src dst n =
     mem32 src @ mem32 dst @ mem16 (hton16 17) @ mem16 (hton16 (of_nat (8 + n)))"

definition udp_ip6_pseudo_header :: "bytes \<Rightarrow> bytes \<Rightarrow> nat \<Rightarrow> bytes" where
  "udp_ip6_pseudo_header src dst n =
     src @ dst @ mem32 (hton32 (of_nat (8 + n))) @ mem32 (hton32 17)"

lemma length_pseudo_headers:
  "length (udp_pseudo_header src dst n) = 12"
  "length src6 = 16 \<Longrightarrow> length dst6 = 16 \<Longrightarrow> length (udp_ip6_pseudo_header src6 dst6 n) = 40"
  by (simp_all add: udp_pseudo_header_def udp_ip6_pseudo_header_def)

lemma unat_udp_checksum:
  assumes "unat n \<le> length p"
  shows "unat (ntoh16 (udp_checksum h p n src dst)) =
    65535 - ones_complement (be_words (udp_pseudo_header src dst (unat n) @ udp_header_mem h @ take (unat n) p))"
proof -
  let ?all = "udp_pseudo_header src dst (unat n) @ udp_header_mem h @ take (unat n) p"
  have n: "unat n < 65536" using unat_bound [of n] by simp
  have b: "be_words ?all < 2 ^ 32"
    using be_words_bound [of ?all] assms n by (simp add: udp_pseudo_header_def)
  have pos: "0 < be_words ?all"
    by (simp add: udp_pseudo_header_def be_words_append)
  have "udp_checksum h p n src dst = udp_checksum_finish (of_nat (be_words ?all))"
    using assms
    by (simp add: udp_checksum_def Let_def udp_summer_eq udp_payload_eq be_words_append
        udp_pseudo_header_def IPV4_PROTOCOL_UDP_def add.assoc)
  then show ?thesis using pos b by (simp add: unat_udp_finish unat_of_nat_u32)
qed

lemma unat_udp_ip6_checksum:
  assumes "unat n \<le> length p" "length src = 16" "length dst = 16"
  shows "unat (ntoh16 (udp_ip6_checksum h p n src dst)) =
    65535 - ones_complement (be_words (udp_ip6_pseudo_header src dst (unat n) @ udp_header_mem h @ take (unat n) p))"
proof -
  let ?all = "udp_ip6_pseudo_header src dst (unat n) @ udp_header_mem h @ take (unat n) p"
  have n: "unat n < 65536" using unat_bound [of n] by simp
  have b: "be_words ?all < 2 ^ 32"
    using be_words_bound [of ?all] assms n by (simp add: udp_ip6_pseudo_header_def)
  have "be_words (mem32 (hton32 17)) = 17" by code_simp
  then have pos: "0 < be_words ?all"
    using assms by (simp add: udp_ip6_pseudo_header_def be_words_append)
  have "udp_ip6_checksum h p n src dst = udp_checksum_finish (of_nat (be_words ?all))"
    using assms
    by (simp add: udp_ip6_checksum_def Let_def udp_summer_eq udp_payload_eq be_words_append
        udp_ip6_pseudo_header_def IPV6_NEXT_UDP_def add.assoc)
  then show ?thesis using pos b by (simp add: unat_udp_finish unat_of_nat_u32)
qed

lemma filled_checksum_sums:
  assumes "even (length ps)" "unat (ntoh16 c) =
      65535 - ones_complement (be_words (ps @ udp_header_mem (h\<lparr>udp_checksum_field := hton16 0\<rparr>) @ p))"
  shows "be_words (ps @ udp_header_mem (h\<lparr>udp_checksum_field := c\<rparr>) @ p) mod 65535 = 0"
proof -
  let ?s = "be_words (ps @ udp_header_mem (h\<lparr>udp_checksum_field := hton16 0\<rparr>) @ p)"
  have "be_words (ps @ udp_header_mem (h\<lparr>udp_checksum_field := c\<rparr>) @ p) = ?s + unat (ntoh16 c)"
    using assms(1) be_words_udp_checksum [of "h\<lparr>udp_checksum_field := c\<rparr>"] by (simp add: be_words_append)
  moreover have "(?s + (65535 - ones_complement ?s)) mod 65535 =
      (ones_complement ?s + (65535 - ones_complement ?s)) mod 65535"
    by (metis mod_add_left_eq ones_complement_mod)
  ultimately show ?thesis using assms(2) ones_complement_bounds [of ?s] by simp
qed

text \<open>C33. A UDP header whose checksum field is filled with what \<open>udp_checksum\<close> (over IPv4) or
  \<open>udp_ip6_checksum\<close> (over IPv6) computes on the header with a zero field verifies at the
  receiver: pseudo-header, header and payload sum to a multiple of 65535 as 16-bit words.
  No carry is lost in the 32-bit accumulator for any payload the 16-bit length can name.\<close>

theorem udp_checksum_fills:
  assumes "unat n \<le> length p" "length src6 = 16" "length dst6 = 16"
  shows "be_words (udp_pseudo_header src dst (unat n) @
           udp_header_mem (h\<lparr>udp_checksum_field :=
             udp_checksum (h\<lparr>udp_checksum_field := hton16 0\<rparr>) p n src dst\<rparr>) @ take (unat n) p) mod 65535 = 0 \<and>
         be_words (udp_ip6_pseudo_header src6 dst6 (unat n) @
           udp_header_mem (h\<lparr>udp_checksum_field :=
             udp_ip6_checksum (h\<lparr>udp_checksum_field := hton16 0\<rparr>) p n src6 dst6\<rparr>) @ take (unat n) p) mod 65535 = 0"
  using assms
  by (simp add: filled_checksum_sums unat_udp_checksum unat_udp_ip6_checksum
      length_pseudo_headers)

theorem udp_checksum_fills_witness:
  "let h = \<lparr>udp_source_port = hton16 53, udp_dest_port = hton16 4000, udp_length = hton16 11,
            udp_checksum_field = 0\<rparr>;
       p = [1, 2, 3];
       c = udp_checksum (h\<lparr>udp_checksum_field := hton16 0\<rparr>) p 3 (hton32 0x0A000001) (hton32 0x0A000002)
   in c = hton16 0xD7FE \<and>
      be_words (udp_pseudo_header (hton32 0x0A000001) (hton32 0x0A000002) (unat (3 :: u16)) @
        udp_header_mem (h\<lparr>udp_checksum_field := c\<rparr>) @ take (unat (3 :: u16)) p) mod 65535 = 0"
proof -
  have "udp_checksum \<lparr>udp_source_port = hton16 53, udp_dest_port = hton16 4000, udp_length = hton16 11,
      udp_checksum_field = hton16 0\<rparr> [1, 2, 3] 3 (hton32 0x0A000001) (hton32 0x0A000002) = hton16 0xD7FE"
    by code_simp
  then show ?thesis
    unfolding Let_def
    using udp_checksum_fills [of 3 "[1, 2, 3]" "replicate 16 0" "replicate 16 0" "hton32 0x0A000001"
        "hton32 0x0A000002" "\<lparr>udp_source_port = hton16 53, udp_dest_port = hton16 4000,
          udp_length = hton16 11, udp_checksum_field = 0\<rparr>"]
    by simp
qed

text \<open>C34. \<open>udp_checksum\<close> returns 0, which on the wire says that there is no checksum, exactly
  when the words it covers sum to a multiple of 65535; the test for 0 before the complement
  never fires.\<close>

theorem udp_checksum_zero:
  assumes "unat n \<le> length p"
  shows "udp_checksum h p n src dst = 0 \<longleftrightarrow>
    be_words (udp_pseudo_header src dst (unat n) @ udp_header_mem h @ take (unat n) p) mod 65535 = 0"
proof -
  let ?s = "be_words (udp_pseudo_header src dst (unat n) @ udp_header_mem h @ take (unat n) p)"
  have "0 < ?s" by (simp add: udp_pseudo_header_def be_words_append)
  moreover have "unat (ntoh16 0) = 0" by code_simp
  ultimately show ?thesis
    using unat_udp_checksum [OF assms, of h src dst] checksum_verifies [of ?s 0]
    by (auto simp: unat_ntoh16_inject)
qed

theorem udp_checksum_zero_witness:
  "let h = \<lparr>udp_source_port = hton16 53, udp_dest_port = hton16 4000, udp_length = hton16 11,
            udp_checksum_field = 0\<rparr>;
       p = [0xD9, 0x00, 3]
   in udp_checksum h p 3 (hton32 0x0A000001) (hton32 0x0A000002) = 0 \<and>
      be_words (udp_pseudo_header (hton32 0x0A000001) (hton32 0x0A000002) (unat (3 :: u16)) @
        udp_header_mem h @ take (unat (3 :: u16)) p) mod 65535 = 0"
proof -
  have "udp_checksum \<lparr>udp_source_port = hton16 53, udp_dest_port = hton16 4000, udp_length = hton16 11,
     udp_checksum_field = 0\<rparr> [0xD9, 0x00, 3] 3 (hton32 0x0A000001) (hton32 0x0A000002) = 0"
    by code_simp
  then show ?thesis
    unfolding Let_def by (subst (asm) (1) udp_checksum_zero; simp add: udp_checksum_zero)
qed

text \<open>\<open>udp_check\<close> and \<open>ipv6_check\<close> return exactly the packets whose length field is at
  least the header and at most the data; the payload lies inside the data and stray bytes
  after it are cut off.\<close>

theorem payload_inside:
  "(udp_check d = Some (h, off, n) \<longleftrightarrow> 8 \<le> length d \<and> h = udp_header_get d \<and> off = 8 \<and>
     off + n \<le> length d \<and> off + n = 256 * unat (d ! 4) + unat (d ! 5)) \<and>
   (ipv6_check d = Some (h6, off, n) \<longleftrightarrow> 40 \<le> length d \<and> h6 = ipv6_header_get d \<and> off = 40 \<and>
     unat (d ! 0) div 16 = 6 \<and> off + n \<le> length d \<and> n = 256 * unat (d ! 4) + unat (d ! 5))"
proof (rule conjI)
  have len: "unat (ntoh16 (unmem16 (drop 4 d))) = 256 * unat (d ! 4) + unat (d ! 5)" if "8 \<le> length d"
    using that by (simp add: unat_ntoh16_drop)
  show "udp_check d = Some (h, off, n) \<longleftrightarrow> 8 \<le> length d \<and> h = udp_header_get d \<and> off = 8 \<and>
      off + n \<le> length d \<and> off + n = 256 * unat (d ! 4) + unat (d ! 5)"
    using len by (auto simp: udp_check_def Let_def udp_header_get_def)
  have "drop_bit 4 (ntoh8 (d ! 0)) = 6 \<longleftrightarrow> unat (d ! 0) div 16 = 6"
    by (simp add: ntoh8_def hton8_def word_unat_eq_iff drop_bit_eq_div unat_div)
  then show "ipv6_check d = Some (h6, off, n) \<longleftrightarrow> 40 \<le> length d \<and> h6 = ipv6_header_get d \<and> off = 40 \<and>
      unat (d ! 0) div 16 = 6 \<and> off + n \<le> length d \<and> n = 256 * unat (d ! 4) + unat (d ! 5)"
    using len by (auto simp: ipv6_check_def Let_def ipv6_header_get_def)
qed

end
