(* ===== verification/Parse_Numbers.thy ===== *)
theory Parse_Numbers
  imports Byte_Order Sizes
begin

text \<open>
  Numbers and IPv4 addresses as text: \<^verbatim>\<open>misc/parse_number.h\<close>, \<^verbatim>\<open>misc/find_char.h\<close> and
  \<^verbatim>\<open>misc/ipaddr.h\<close>. A C string with its length is a \<^typ>\<open>string\<close>, \<^verbatim>\<open>uintmax_t\<close> is a 64-bit
  word whose arithmetic wraps, a function that stores a result and returns 1 returns
  \<open>Some\<close> of it and \<open>None\<close> for 0.
\<close>

section \<open>misc/parse\_number.h\<close>

abbreviation char_code :: "char \<Rightarrow> nat" where
  "char_code \<equiv> of_char"

text \<open>\<open>memcmp\<close>: the sign of the first difference, bytes compared unsigned.\<close>

fun memcmp :: "nat list \<Rightarrow> nat list \<Rightarrow> int" where
  "memcmp (a # as) (b # bs) = (if a < b then - 1 else if b < a then 1 else memcmp as bs)"
| "memcmp _ _ = 0"

definition parse_number__uintmax_max_str :: string where
  "parse_number__uintmax_max_str = ''18446744073709551615''"

definition decode_decimal_digit :: "char \<Rightarrow> int" where
  "decode_decimal_digit c =
     (if c = CHR ''0'' then 0 else if c = CHR ''1'' then 1 else if c = CHR ''2'' then 2
      else if c = CHR ''3'' then 3 else if c = CHR ''4'' then 4 else if c = CHR ''5'' then 5
      else if c = CHR ''6'' then 6 else if c = CHR ''7'' then 7 else if c = CHR ''8'' then 8
      else if c = CHR ''9'' then 9 else - 1)"

definition decode_hex_digit :: "char \<Rightarrow> int" where
  "decode_hex_digit c =
     (if c = CHR ''0'' then 0 else if c = CHR ''1'' then 1 else if c = CHR ''2'' then 2
      else if c = CHR ''3'' then 3 else if c = CHR ''4'' then 4 else if c = CHR ''5'' then 5
      else if c = CHR ''6'' then 6 else if c = CHR ''7'' then 7 else if c = CHR ''8'' then 8
      else if c = CHR ''9'' then 9
      else if c = CHR ''A'' \<or> c = CHR ''a'' then 10 else if c = CHR ''B'' \<or> c = CHR ''b'' then 11
      else if c = CHR ''C'' \<or> c = CHR ''c'' then 12 else if c = CHR ''D'' \<or> c = CHR ''d'' then 13
      else if c = CHR ''E'' \<or> c = CHR ''e'' then 14 else if c = CHR ''F'' \<or> c = CHR ''f'' then 15
      else - 1)"

fun parse__no_overflow :: "string \<Rightarrow> u64 \<Rightarrow> u64 option" where
  "parse__no_overflow [] n = Some n"
| "parse__no_overflow (c # str) n =
     (if char_code c < char_code (CHR ''0'') \<or> char_code c > char_code (CHR ''9'') then None
      else parse__no_overflow str (10 * n + of_nat (char_code c - char_code (CHR ''0''))))"

definition parse_unsigned_integer_bin :: "string \<Rightarrow> u64 option" where
  "parse_unsigned_integer_bin str =
     (if str = [] then None
      else (let str = dropWhile (\<lambda>c. c = CHR ''0'') str in
        if length str > length parse_number__uintmax_max_str \<or>
           length str = length parse_number__uintmax_max_str \<and>
             memcmp (map char_code str) (map char_code parse_number__uintmax_max_str) > 0
        then None
        else parse__no_overflow str 0))"

fun parse_hex_loop :: "string \<Rightarrow> u64 \<Rightarrow> u64 option" where
  "parse_hex_loop [] n = Some n"
| "parse_hex_loop (c # str) n =
     (let digit = decode_hex_digit c in
      if digit < 0 then None
      else if n > (- 1) div 16 then None
      else (let n = n * 16 in
        if of_int digit > - 1 - n then None
        else parse_hex_loop str (n + of_int digit)))"

definition parse_unsigned_hex_integer_bin :: "string \<Rightarrow> u64 option" where
  "parse_unsigned_hex_integer_bin str = (if str = [] then None else parse_hex_loop str 0)"

definition parse_signmag_integer_bin :: "string \<Rightarrow> (int \<times> u64) option" where
  "parse_signmag_integer_bin str =
     (let (sign, str) =
        (if length str > 0 \<and> (str ! 0 = CHR ''+'' \<or> str ! 0 = CHR ''-'')
         then (1 - 2 * (if str ! 0 = CHR ''-'' then 1 else 0), drop 1 str)
         else (1, str))
      in map_option (Pair sign) (parse_unsigned_integer_bin str))"

function compute_decimal_repr_size :: "u64 \<Rightarrow> nat" where
  "compute_decimal_repr_size x = Suc (if x div 10 > 0 then compute_decimal_repr_size (x div 10) else 0)"
  by auto

text \<open>The digits \<open>generate_decimal_repr\<close> writes, moving down from the end of the buffer.\<close>

function decimal_digits_down :: "u64 \<Rightarrow> string \<Rightarrow> string" where
  "decimal_digits_down x out =
     (let out = char_of (char_code (CHR ''0'') + unat (x mod 10)) # out in
      if x div 10 > 0 then decimal_digits_down (x div 10) out else out)"
  by auto

definition generate_decimal_repr :: "u64 \<Rightarrow> nat \<Rightarrow> string option" where
  "generate_decimal_repr x repr_size =
     require (repr_size = compute_decimal_repr_size x) (decimal_digits_down x [])"

definition generate_decimal_repr_string :: "u64 \<Rightarrow> (nat \<times> string) option" where
  "generate_decimal_repr_string x =
     (let repr_size = compute_decimal_repr_size x in
      map_option (\<lambda>out. (repr_size, out @ [CHR 0x00])) (generate_decimal_repr x repr_size))"

section \<open>misc/find\_char.h and misc/ipaddr.h\<close>

definition b_find_char_bin :: "string \<Rightarrow> char \<Rightarrow> nat option" where
  "b_find_char_bin str c =
     (let i = length (takeWhile (\<lambda>x. x \<noteq> c) str) in if i < length str then Some i else None)"

record ipv4_ifaddr =
  ifa_addr :: u32
  ifa_prefix :: nat

text \<open>The loop over the four numbers, with \<open>k = 3 - i\<close> numbers to come after the current one.\<close>

primrec ipaddr_parse_from :: "nat \<Rightarrow> string \<Rightarrow> bytes option" where
  "ipaddr_parse_from 0 name =
     (let j = length (takeWhile (\<lambda>c. c \<noteq> CHR ''.'') name) in
      if j < length name then None
      else if j < 1 \<or> j > 3 then None
      else case parse_unsigned_integer_bin (take j name) of
          None \<Rightarrow> None
        | Some d \<Rightarrow> if d > 255 then None else Some [ucast d])"
| "ipaddr_parse_from (Suc k) name =
     (let j = length (takeWhile (\<lambda>c. c \<noteq> CHR ''.'') name) in
      if j = length name then None
      else if j < 1 \<or> j > 3 then None
      else case parse_unsigned_integer_bin (take j name) of
          None \<Rightarrow> None
        | Some d \<Rightarrow> if d > 255 then None
                    else map_option ((#) (ucast d)) (ipaddr_parse_from k (drop (j + 1) name)))"

definition ipaddr_parse_ipv4_addr_bin :: "string \<Rightarrow> u32 option" where
  "ipaddr_parse_ipv4_addr_bin name = map_option unmem32 (ipaddr_parse_from 3 name)"

definition ipaddr_parse_ipv4_prefix_bin :: "string \<Rightarrow> nat option" where
  "ipaddr_parse_ipv4_prefix_bin str =
     (case parse_unsigned_integer_bin str of
        None \<Rightarrow> None
      | Some d \<Rightarrow> if d > 32 then None else Some (unat d))"

definition ipaddr_parse_ipv4_ifaddr_bin :: "string \<Rightarrow> ipv4_ifaddr option" where
  "ipaddr_parse_ipv4_ifaddr_bin str =
     (case b_find_char_bin str (CHR ''/'') of
        None \<Rightarrow> None
      | Some slash_pos \<Rightarrow>
          (case ipaddr_parse_ipv4_addr_bin (take slash_pos str) of
             None \<Rightarrow> None
           | Some addr \<Rightarrow>
               (case ipaddr_parse_ipv4_prefix_bin (drop (slash_pos + 1) str) of
                  None \<Rightarrow> None
                | Some prefix \<Rightarrow> Some \<lparr>ifa_addr = addr, ifa_prefix = prefix\<rparr>)))"

definition ipaddr_ipv4_mask_from_prefix :: "nat \<Rightarrow> u32 option" where
  "ipaddr_ipv4_mask_from_prefix prefix =
     require (prefix \<le> 32) (hton32 (fold (\<lambda>i t. t OR push_bit (32 - i - 1) 1) [0..<prefix] 0))"

text \<open>The search loop at index \<open>i\<close>, with \<open>n = 33 - i\<close> rounds to go.\<close>

primrec ipaddr_prefix_search :: "nat \<Rightarrow> nat \<Rightarrow> u32 \<Rightarrow> u32 \<Rightarrow> nat option" where
  "ipaddr_prefix_search 0 i t netmask = None"
| "ipaddr_prefix_search (Suc n) i t netmask =
     (if ntoh32 netmask = t then Some i
      else ipaddr_prefix_search n (i + 1) (if i < 32 then t OR push_bit (32 - i - 1) 1 else t) netmask)"

definition ipaddr_ipv4_prefix_from_mask :: "u32 \<Rightarrow> nat option" where
  "ipaddr_ipv4_prefix_from_mask netmask = ipaddr_prefix_search 33 0 0 netmask"

definition ipaddr_ipv4_ifaddr_from_addr_mask :: "u32 \<Rightarrow> u32 \<Rightarrow> ipv4_ifaddr option" where
  "ipaddr_ipv4_ifaddr_from_addr_mask addr netmask =
     map_option (\<lambda>prefix. \<lparr>ifa_addr = addr, ifa_prefix = prefix\<rparr>) (ipaddr_ipv4_prefix_from_mask netmask)"

definition ipaddr_ipv4_addrs_in_network :: "u32 \<Rightarrow> u32 \<Rightarrow> nat \<Rightarrow> bool option" where
  "ipaddr_ipv4_addrs_in_network addr1 addr2 netprefix =
     map_option (\<lambda>netmask. addr1 AND netmask = addr2 AND netmask) (ipaddr_ipv4_mask_from_prefix netprefix)"

text \<open>\<open>sprintf\<close> of an unsigned number in decimal.\<close>

function print_dec :: "nat \<Rightarrow> string" where
  "print_dec n = (if n < 10 then [char_of (48 + n)] else print_dec (n div 10) @ [char_of (48 + n mod 10)])"
  by auto
termination by (relation "measure id") auto

declare print_dec.simps [simp del]

definition ipaddr_print_addr :: "u32 \<Rightarrow> string" where
  "ipaddr_print_addr addr =
     (let b = mem32 addr in
      print_dec (unat (b ! 0)) @ ''.'' @ print_dec (unat (b ! 1)) @ ''.'' @
      print_dec (unat (b ! 2)) @ ''.'' @ print_dec (unat (b ! 3)))"

definition ipaddr_print_ifaddr :: "ipv4_ifaddr \<Rightarrow> string option" where
  "ipaddr_print_ifaddr ifaddr =
     require (ifa_prefix ifaddr \<le> 32)
       (let b = mem32 (ifa_addr ifaddr) in
        print_dec (unat (b ! 0)) @ ''.'' @ print_dec (unat (b ! 1)) @ ''.'' @
        print_dec (unat (b ! 2)) @ ''.'' @ print_dec (unat (b ! 3)) @ ''/'' @
        print_dec (ifa_prefix ifaddr))"

section \<open>Decimal numbers\<close>

primrec dec_value :: "string \<Rightarrow> nat" where
  "dec_value [] = 0"
| "dec_value (c # s) = (char_code c - 48) * 10 ^ length s + dec_value s"

definition is_dec :: "string \<Rightarrow> bool" where
  "is_dec = list_all (\<lambda>c. 48 \<le> char_code c \<and> char_code c \<le> 57)"

lemma is_dec_simps [simp]:
  "is_dec []" "is_dec (c # s) \<longleftrightarrow> 48 \<le> char_code c \<and> char_code c \<le> 57 \<and> is_dec s"
  "is_dec (s @ t) \<longleftrightarrow> is_dec s \<and> is_dec t"
  by (auto simp: is_dec_def)

lemma dec_value_append: "dec_value (s @ t) = dec_value s * 10 ^ length t + dec_value t"
  by (induction s) (simp_all add: algebra_simps power_add)

lemma dec_value_bound: "is_dec s \<Longrightarrow> dec_value s < 10 ^ length s"
proof (induction s)
  case (Cons c s)
  then have "(char_code c - 48) * 10 ^ length s \<le> 9 * 10 ^ length s" by (intro mult_right_mono) auto
  moreover have "dec_value s < 10 ^ length s" using Cons by simp
  ultimately have "(char_code c - 48) * 10 ^ length s + dec_value s < 10 * 10 ^ length s" by linarith
  then show ?case by simp
qed simp

lemma char_code_0_9: "char_code (CHR ''0'') = 48" "char_code (CHR ''9'') = 57"
  by simp_all

lemma parse__no_overflow_Cons:
  "parse__no_overflow (c # s) n =
     (if 48 \<le> char_code c \<and> char_code c \<le> 57
      then parse__no_overflow s (10 * n + of_nat (char_code c - 48)) else None)"
  unfolding parse__no_overflow.simps char_code_0_9 by auto

lemma parse__no_overflow_eq:
  "parse__no_overflow s n =
     (if is_dec s then Some (n * 10 ^ length s + of_nat (dec_value s)) else None)"
  by (induction s arbitrary: n)
    (auto simp: parse__no_overflow_Cons distrib_right distrib_left mult_ac simp del: parse__no_overflow.simps(2))

lemma memcmp_dec:
  "is_dec s \<Longrightarrow> is_dec t \<Longrightarrow> length s = length t \<Longrightarrow>
   memcmp (map char_code s) (map char_code t) > 0 \<longleftrightarrow> dec_value s > dec_value t"
proof (induction s arbitrary: t)
  case (Cons c s)
  then obtain d u where t: "t = d # u" by (cases t) auto
  have less: "(char_code a - 48) * 10 ^ length s + x < (char_code b - 48) * 10 ^ length s + y"
    if "char_code a < char_code b" "48 \<le> char_code a" "x < 10 ^ length s" for a b :: char and x y :: nat
  proof -
    have "Suc (char_code a - 48) * 10 ^ length s \<le> (char_code b - 48) * 10 ^ length s"
      using that by (intro mult_right_mono) auto
    with that(3) show ?thesis by simp
  qed
  have b: "dec_value s < 10 ^ length s" "dec_value u < 10 ^ length s"
    using dec_value_bound [of s] dec_value_bound [of u] Cons.prems t by auto
  show ?case
    using Cons t less [of c d "dec_value s" "dec_value u"] less [of d c "dec_value u" "dec_value s"] b
    by (auto simp: not_less)
qed simp

lemma dec_value_drop_zeros:
  "dec_value (dropWhile (\<lambda>c. c = CHR ''0'') s) = dec_value s"
  "is_dec (dropWhile (\<lambda>c. c = CHR ''0'') s) \<longleftrightarrow> is_dec s"
  by (induction s) auto

lemma dec_value_lower:
  assumes "is_dec s" "s \<noteq> []" "hd s \<noteq> CHR ''0''"
  shows "10 ^ (length s - 1) \<le> dec_value s"
proof -
  obtain c t where s: "s = c # t" using assms(2) by (cases s) auto
  have "char_code c \<noteq> char_code (CHR ''0'')" using assms(3) s by (metis list.sel(1) of_char_eq_iff)
  then have "1 \<le> char_code c - 48" using assms(1) s by auto
  then have "1 * 10 ^ length t \<le> (char_code c - 48) * 10 ^ length t" by (rule mult_right_mono) simp
  then show ?thesis unfolding s by (simp only: dec_value.simps length_Cons diff_Suc_1 mult_1 trans_le_add1)
qed

lemma uintmax_max: "dec_value parse_number__uintmax_max_str = 2 ^ 64 - 1"
  "is_dec parse_number__uintmax_max_str" "length parse_number__uintmax_max_str = 20"
  by (simp_all add: parse_number__uintmax_max_str_def)

lemma unat_div_10: "x div 10 > 0 \<Longrightarrow> unat (x div 10 :: u64) < unat x"
proof -
  assume "x div 10 > 0"
  then have "0 < unat x div 10" by (simp add: unat_div word_gt_0_no [symmetric] word_less_nat_alt)
  then have "0 < unat x" by (cases "unat x") auto
  then show ?thesis by (simp add: unat_div)
qed

termination compute_decimal_repr_size
  by (relation "measure unat") (simp_all add: unat_div_10)

termination decimal_digits_down
  by (relation "measure (unat \<circ> fst)") (simp_all add: unat_div_10)

declare compute_decimal_repr_size.simps [simp del] decimal_digits_down.simps [simp del]

lemma dec_char: "k < 10 \<Longrightarrow> char_code (char_of (48 + k)) = 48 + k"
  by (simp add: of_char_of)

lemma print_dec_value: "is_dec (print_dec n) \<and> dec_value (print_dec n) = n \<and> print_dec n \<noteq> []"
proof (induction n rule: print_dec.induct)
  case (1 n)
  then show ?case
    using dec_char [of n] dec_char [of "n mod 10"]
    by (auto simp: print_dec.simps [of n] dec_value_append)
qed

lemma length_print_dec: "n < 1000 \<Longrightarrow> length (print_dec n) \<le> 3"
  using print_dec.simps [of "n div 100"]
  by (auto simp: print_dec.simps [of n] print_dec.simps [of "n div 10"] div_mult2_eq [symmetric])

lemma decimal_digits_down_eq: "decimal_digits_down x out = print_dec (unat x) @ out"
proof (induction x out rule: decimal_digits_down.induct)
  case (1 x out)
  have m: "unat (x mod 10) = unat x mod 10" "unat (x div 10) = unat x div 10" by (simp_all add: unat_mod unat_div)
  have "x div 10 > 0 \<longleftrightarrow> 10 \<le> unat x" using m by (auto simp: word_less_nat_alt div_greater_zero_iff)
  then show ?case
    using 1 m by (simp add: decimal_digits_down.simps [of x] print_dec.simps [of "unat x"] Let_def)
qed

lemma compute_decimal_repr_size_eq: "compute_decimal_repr_size x = length (print_dec (unat x))"
proof (induction x rule: compute_decimal_repr_size.induct)
  case (1 x)
  have m: "unat (x div 10) = unat x div 10" by (simp add: unat_div)
  have "x div 10 > 0 \<longleftrightarrow> 10 \<le> unat x" using m by (auto simp: word_less_nat_alt div_greater_zero_iff)
  then show ?case
    using 1 m by (simp add: compute_decimal_repr_size.simps [of x] print_dec.simps [of "unat x"])
qed

lemma parse_unsigned_eq:
  "parse_unsigned_integer_bin s =
     (if s \<noteq> [] \<and> is_dec s \<and> dec_value s \<le> 2 ^ 64 - 1 then Some (of_nat (dec_value s)) else None)"
proof (cases "is_dec s")
  case True
  define t where "t = dropWhile (\<lambda>c. c = CHR ''0'') s"
  have t: "is_dec t" "dec_value t = dec_value s" using True by (simp_all add: t_def dec_value_drop_zeros)
  note max = uintmax_max
  consider "length t > 20" | "length t = 20" | "length t < 20" by linarith
  then have "length t > 20 \<or> length t = 20 \<and>
      memcmp (map char_code t) (map char_code parse_number__uintmax_max_str) > 0 \<longleftrightarrow> dec_value s > 2 ^ 64 - 1"
  proof cases
    case 1
    then have "t \<noteq> []" by auto
    moreover from this have "hd t \<noteq> CHR ''0''" unfolding t_def by (rule hd_dropWhile)
    ultimately have "10 ^ (length t - 1) \<le> dec_value s" using dec_value_lower [of t] t by simp
    moreover have "(10 :: nat) ^ 20 \<le> 10 ^ (length t - 1)" using 1 by (intro power_increasing) auto
    ultimately show ?thesis using 1 by simp
  next
    case 2
    then show ?thesis using memcmp_dec [of t parse_number__uintmax_max_str] t max by simp
  next
    case 3
    then have "(10 :: nat) ^ length t \<le> 10 ^ 19" by (intro power_increasing) auto
    then show ?thesis using 3 dec_value_bound [of t] t by simp
  qed
  then show ?thesis
    using True t by (auto simp: parse_unsigned_integer_bin_def Let_def t_def [symmetric] max
        parse__no_overflow_eq)
next
  case False
  then show ?thesis
    by (simp add: parse_unsigned_integer_bin_def Let_def parse__no_overflow_eq dec_value_drop_zeros)
qed

lemma parse_print_dec: "n < 2 ^ 64 \<Longrightarrow> parse_unsigned_integer_bin (print_dec n) = Some (of_nat n)"
  using print_dec_value [of n] by (simp add: parse_unsigned_eq)

section \<open>Address lists\<close>

lemma is_dec_no_sep: "is_dec s \<Longrightarrow> c \<in> set s \<Longrightarrow> c \<noteq> CHR ''.'' \<and> c \<noteq> CHR ''/''"
  by (induction s) auto

lemma takeWhile_dec:
  assumes "is_dec s" "sep = CHR ''.'' \<or> sep = CHR ''/''"
  shows "takeWhile (\<lambda>c. c \<noteq> sep) (s @ sep # r) = s" "takeWhile (\<lambda>c. c \<noteq> sep) s = s"
  using is_dec_no_sep [OF assms(1)] assms(2) by (auto simp: takeWhile_append2 takeWhile_eq_all_conv)

lemma print_byte:
  "length (print_dec (unat (b :: byte))) \<le> 3" "0 < length (print_dec (unat b))"
  "parse_unsigned_integer_bin (print_dec (unat b)) = Some (ucast b)" "(ucast b :: u64) \<le> 255"
  "is_dec (print_dec (unat b))"
proof -
  have b: "unat b < 256" using unsigned_less [of b] by simp
  show "length (print_dec (unat b)) \<le> 3" using b by (intro length_print_dec) simp
  show "0 < length (print_dec (unat b))" "is_dec (print_dec (unat b))"
    using print_dec_value [of "unat b"] by auto
  show "parse_unsigned_integer_bin (print_dec (unat b)) = Some (ucast b)"
    using b by (simp add: parse_print_dec)
  have "unat (ucast b :: u64) < 256" using b by (simp add: unsigned_ucast_eq take_bit_nat_eq_self)
  then show "(ucast b :: u64) \<le> 255" by (simp add: word_le_nat_alt)
qed

lemma ipaddr_parse_from_print:
  "ipaddr_parse_from 0 (print_dec (unat b)) = Some [b]"
  "ipaddr_parse_from (Suc k) (print_dec (unat b) @ CHR ''.'' # r) =
     map_option ((#) b) (ipaddr_parse_from k r)"
proof -
  define q where "q = print_dec (unat b)"
  have q: "\<not> 3 < length q" "q \<noteq> []" "parse_unsigned_integer_bin q = Some (ucast b)"
    using print_byte [of b] by (auto simp: q_def)
  have w: "takeWhile (\<lambda>c. c \<noteq> CHR ''.'') q = q" "takeWhile (\<lambda>c. c \<noteq> CHR ''.'') (q @ CHR ''.'' # r) = q"
    using takeWhile_dec [OF print_byte(5) [of b], of "CHR ''.''"] by (simp_all add: q_def)
  have d: "\<not> 255 < (ucast b :: u64)" "ucast (ucast b :: u64) = b"
    using print_byte(4) [of b] by (simp only: not_less) (rule bit_word_eqI, simp add: bit_simps)
  show "ipaddr_parse_from 0 (print_dec (unat b)) = Some [b]"
    "ipaddr_parse_from (Suc k) (print_dec (unat b) @ CHR ''.'' # r) =
      map_option ((#) b) (ipaddr_parse_from k r)"
    unfolding q_def [symmetric] by (simp_all add: Let_def q w d)
qed

lemma parse_print_addr: "ipaddr_parse_ipv4_addr_bin (ipaddr_print_addr a) = Some a"
proof -
  obtain b0 b1 b2 b3 where b: "mem32 a = [b0, b1, b2, b3]" by (simp add: le_split_numeral)
  have "ipaddr_parse_from 3 (ipaddr_print_addr a) = Some [b0, b1, b2, b3]"
    by (simp add: ipaddr_print_addr_def Let_def b numeral_3_eq_3 ipaddr_parse_from_print
        del: ipaddr_parse_from.simps)
  then show ?thesis using b unmem_mem(2) [of a] by (simp add: ipaddr_parse_ipv4_addr_bin_def)
qed

lemma print_addr_no_slash: "c \<in> set (ipaddr_print_addr a) \<Longrightarrow> c \<noteq> CHR ''/''"
  using is_dec_no_sep [OF print_byte(5)] by (auto simp: ipaddr_print_addr_def Let_def)

section \<open>Network masks\<close>

definition prefix_mask :: "nat \<Rightarrow> u32" where
  "prefix_mask p = fold (\<lambda>i t. t OR push_bit (32 - i - 1) 1) [0..<p] 0"

lemma prefix_mask_Suc: "prefix_mask (Suc p) = prefix_mask p OR push_bit (32 - p - 1) 1"
  by (simp add: prefix_mask_def)

lemma bit_prefix_mask: "p \<le> 32 \<Longrightarrow> bit (prefix_mask p) k \<longleftrightarrow> 32 - p \<le> k \<and> k < 32"
proof (induction p)
  case (Suc p)
  then show ?case by (auto simp: prefix_mask_Suc bit_simps)
qed (simp add: prefix_mask_def)

lemma prefix_mask_inject: "p \<le> 32 \<Longrightarrow> q \<le> 32 \<Longrightarrow> prefix_mask p = prefix_mask q \<longleftrightarrow> p = q"
proof
  assume pq: "p \<le> 32" "q \<le> 32" "prefix_mask p = prefix_mask q"
  have "32 - p \<le> k \<and> k < 32 \<longleftrightarrow> 32 - q \<le> k \<and> k < 32" for k
    using bit_prefix_mask [OF pq(1)] bit_prefix_mask [OF pq(2)] pq(3) by simp
  from this [of "32 - p"] this [of "32 - q"] pq(1,2) show "p = q" by linarith
qed simp

lemma prefix_search:
  "i + n = 33 \<Longrightarrow>
   ipaddr_prefix_search n i (prefix_mask (min i 32)) m = Some p \<longleftrightarrow>
     i \<le> p \<and> p \<le> 32 \<and> ntoh32 m = prefix_mask p"
proof (induction n arbitrary: i)
  case (Suc n)
  have s: "(if i < 32 then prefix_mask (min i 32) OR push_bit (32 - i - 1) 1 else prefix_mask (min i 32)) =
      prefix_mask (min (i + 1) 32)"
    by (cases "i < 32") (simp_all add: prefix_mask_Suc)
  show ?case
  proof (cases "ntoh32 m = prefix_mask (min i 32)")
    case True
    moreover have "i \<le> 32" using Suc.prems by simp
    ultimately show ?thesis using prefix_mask_inject [of i p] by auto
  next
    case False
    then have "ipaddr_prefix_search (Suc n) i (prefix_mask (min i 32)) m =
        ipaddr_prefix_search n (i + 1) (prefix_mask (min (i + 1) 32)) m"
      by (simp only: ipaddr_prefix_search.simps s if_False)
    moreover have "i \<le> p \<and> p \<le> 32 \<and> ntoh32 m = prefix_mask p \<longleftrightarrow>
        i + 1 \<le> p \<and> p \<le> 32 \<and> ntoh32 m = prefix_mask p"
      using False Suc.prems by (cases "i = p") auto
    ultimately show ?thesis using Suc.IH [of "i + 1"] Suc.prems by simp
  qed
qed auto

lemma le_split_and: "le_split n (a AND b) = map2 (AND) (le_split n a) (le_split n b)"
  by (induction n arbitrary: a b) (simp_all add: unsigned_and_eq)

lemma reverse32_and: "badvpn_reverse32 (a AND b) = badvpn_reverse32 a AND badvpn_reverse32 b"
proof -
  have "mem32 (badvpn_reverse32 (a AND b)) = mem32 (badvpn_reverse32 a AND badvpn_reverse32 b)"
    by (simp add: reverse_mem le_split_and rev_map zip_rev)
  then show ?thesis by (simp add: mem_inject)
qed

lemma and_prefix_mask:
  "p \<le> 32 \<Longrightarrow> a AND prefix_mask p = b AND prefix_mask p \<longleftrightarrow> drop_bit (32 - p) a = drop_bit (32 - p) (b :: u32)"
proof -
  assume p: "p \<le> 32"
  have "a AND prefix_mask p = push_bit (32 - p) (drop_bit (32 - p) a)" for a :: u32
    using p by (intro bit_word_eqI) (auto simp: bit_simps bit_prefix_mask)
  moreover have "drop_bit (32 - p) (push_bit (32 - p) (drop_bit (32 - p) a)) = drop_bit (32 - p) a" for a :: u32
    by (rule bit_word_eqI) (auto simp: bit_simps dest: bit_imp_le_length)
  ultimately show ?thesis by metis
qed

section \<open>Properties\<close>

text \<open>C35. \<open>parse_unsigned_integer_bin\<close> accepts exactly the non-empty digit strings whose value
  fits \<open>uintmax_t\<close> and returns that value: the comparison with the text of the maximum
  detects every overflow, and nothing wraps.\<close>

theorem parse_unsigned_integer_iff:
  "parse_unsigned_integer_bin s =
     (if s \<noteq> [] \<and> is_dec s \<and> dec_value s \<le> 2 ^ 64 - 1 then Some (of_nat (dec_value s)) else None)"
  by (rule parse_unsigned_eq)

text \<open>What \<open>generate_decimal_repr_string\<close> writes is a terminated string of the length it
  returns that \<open>parse_unsigned_integer_bin\<close> reads back, for every \<open>uintmax_t\<close>.\<close>

theorem decimal_repr_round_trip:
  "\<exists>out. generate_decimal_repr_string x = Some (length out, out @ [CHR 0x00]) \<and>
     parse_unsigned_integer_bin out = Some x"
proof -
  have "unat x < 2 ^ 64" using unsigned_less [of x] by simp
  then show ?thesis
    by (simp add: generate_decimal_repr_string_def generate_decimal_repr_def Let_def
        compute_decimal_repr_size_eq decimal_digits_down_eq parse_print_dec require_def)
qed

text \<open>C36. An IPv4 address, and an interface address with its prefix length, printed by
  \<open>ipaddr_print_addr\<close> and \<open>ipaddr_print_ifaddr\<close> are parsed back to the same value.\<close>

theorem ipaddr_round_trip:
  "ipaddr_parse_ipv4_addr_bin (ipaddr_print_addr a) = Some a \<and>
   (ifa_prefix i \<le> 32 \<longrightarrow> Option.bind (ipaddr_print_ifaddr i) ipaddr_parse_ipv4_ifaddr_bin = Some i)"
proof (intro conjI impI)
  show "ipaddr_parse_ipv4_addr_bin (ipaddr_print_addr a) = Some a" by (rule parse_print_addr)
  assume p: "ifa_prefix i \<le> 32"
  have print: "ipaddr_print_ifaddr i =
      Some (ipaddr_print_addr (ifa_addr i) @ CHR ''/'' # print_dec (ifa_prefix i))"
    using p by (simp add: ipaddr_print_ifaddr_def ipaddr_print_addr_def require_def Let_def)
  have "(of_nat (ifa_prefix i) :: u64) \<le> 32" "unat (of_nat (ifa_prefix i) :: u64) = ifa_prefix i"
    using p by (simp_all add: unat_of_nat word_le_nat_alt)
  then have "ipaddr_parse_ipv4_prefix_bin (print_dec (ifa_prefix i)) = Some (ifa_prefix i)"
    using p by (simp add: ipaddr_parse_ipv4_prefix_bin_def parse_print_dec not_less)
  moreover have "b_find_char_bin (ipaddr_print_addr (ifa_addr i) @ CHR ''/'' # print_dec (ifa_prefix i)) (CHR ''/'') =
      Some (length (ipaddr_print_addr (ifa_addr i)))"
    using print_addr_no_slash [of _ "ifa_addr i"] by (simp add: b_find_char_bin_def takeWhile_append2)
  ultimately show "Option.bind (ipaddr_print_ifaddr i) ipaddr_parse_ipv4_ifaddr_bin = Some i"
    by (simp add: print ipaddr_parse_ipv4_ifaddr_bin_def parse_print_addr)
qed

theorem ipaddr_round_trip_witness:
  "Option.bind (ipaddr_print_ifaddr \<lparr>ifa_addr = hton32 0x0A00010F, ifa_prefix = 24\<rparr>) ipaddr_parse_ipv4_ifaddr_bin =
     Some \<lparr>ifa_addr = hton32 0x0A00010F, ifa_prefix = 24\<rparr> \<and>
   ipaddr_print_ifaddr \<lparr>ifa_addr = hton32 0x0A00010F, ifa_prefix = 24\<rparr> = Some ''10.0.1.15/24''"
proof
  show "Option.bind (ipaddr_print_ifaddr \<lparr>ifa_addr = hton32 0x0A00010F, ifa_prefix = 24\<rparr>)
      ipaddr_parse_ipv4_ifaddr_bin = Some \<lparr>ifa_addr = hton32 0x0A00010F, ifa_prefix = 24\<rparr>"
    using ipaddr_round_trip [of 0 "\<lparr>ifa_addr = hton32 0x0A00010F, ifa_prefix = 24\<rparr>"] by simp
qed code_simp

text \<open>A network mask in network order has the prefix length \<open>p\<close> exactly when it is the mask
  made from \<open>p\<close>, every other word is rejected, and two addresses are in one network exactly
  when their first \<open>p\<close> bits agree.\<close>

theorem ipaddr_masks:
  "(ipaddr_ipv4_prefix_from_mask m = Some p \<longleftrightarrow> ipaddr_ipv4_mask_from_prefix p = Some m) \<and>
   ipaddr_ipv4_addrs_in_network a b p =
     (if p \<le> 32 then Some (drop_bit (32 - p) (ntoh32 a) = drop_bit (32 - p) (ntoh32 b)) else None)"
proof (rule conjI)
  have "ipaddr_ipv4_prefix_from_mask m = Some p \<longleftrightarrow> p \<le> 32 \<and> ntoh32 m = prefix_mask p"
    using prefix_search [of 0 33 m p] by (simp add: ipaddr_ipv4_prefix_from_mask_def prefix_mask_def)
  moreover have "hton32 (prefix_mask p) = m \<longleftrightarrow> ntoh32 m = prefix_mask p" by (metis ntoh_hton(2,5))
  ultimately show "ipaddr_ipv4_prefix_from_mask m = Some p \<longleftrightarrow> ipaddr_ipv4_mask_from_prefix p = Some m"
    unfolding ipaddr_ipv4_mask_from_prefix_def prefix_mask_def [symmetric] by simp
  have "ntoh32 (x AND hton32 t) = ntoh32 x AND t" for x t
    by (simp add: byte_order_defs reverse32_and)
  then have "x AND hton32 t = y AND hton32 t \<longleftrightarrow> ntoh32 x AND t = ntoh32 y AND t" for x y t
    by (metis ntoh_hton(5))
  then show "ipaddr_ipv4_addrs_in_network a b p =
      (if p \<le> 32 then Some (drop_bit (32 - p) (ntoh32 a) = drop_bit (32 - p) (ntoh32 b)) else None)"
    unfolding ipaddr_ipv4_addrs_in_network_def ipaddr_ipv4_mask_from_prefix_def
      prefix_mask_def [symmetric] require_def
    by (simp add: and_prefix_mask)
qed

end
