(* ===== verification/Avl_Tree.thy ===== *)
theory Avl_Tree
  imports Sizes
begin

text \<open>
  The intrusive AVL tree \<^verbatim>\<open>structure/BAVL.h\<close> (without \<^verbatim>\<open>BAVL_COUNT\<close>). The nodes are linked by
  parent and child pointers that always form a tree, so the heap of nodes is modelled as
  the tree itself: a node of an arbitrary type with its balance factor and its two links. There are no
  parent links, and \<open>BAVL_Verify\<close> checks the order and the balance but not that these links agree with the child links.
  A pointer into the tree, whose \<^verbatim>\<open>parent\<close> links are followed upwards, is a position: the
  frames from the node to the root and the subtree there. A failed assertion and a
  dereferenced null link are \<open>None\<close>. The locale \<open>total_comparator\<close> is what the tree asks of
  its comparator, \<open>node_set\<close>, which every such tree provides, is what the tree promises to its users.
\<close>

section \<open>The comparator contract\<close>

locale total_comparator =
  fixes cmp :: "'v \<Rightarrow> 'v \<Rightarrow> int" and valid :: "'v \<Rightarrow> bool"
  assumes cmp_range: "valid x \<Longrightarrow> valid y \<Longrightarrow> cmp x y = - 1 \<or> cmp x y = 0 \<or> cmp x y = 1"
    and cmp_eq: "valid x \<Longrightarrow> valid y \<Longrightarrow> cmp x y = 0 \<longleftrightarrow> x = y"
    and cmp_swap: "valid x \<Longrightarrow> valid y \<Longrightarrow> cmp y x = - cmp x y"
    and cmp_trans: "valid x \<Longrightarrow> valid y \<Longrightarrow> valid z \<Longrightarrow> cmp x y = - 1 \<Longrightarrow> cmp y z = - 1 \<Longrightarrow> cmp x z = - 1"
begin

lemma cmp_greater: "valid x \<Longrightarrow> valid y \<Longrightarrow> cmp x y = 1 \<longleftrightarrow> cmp y x = - 1"
  using cmp_swap [of x y] by auto

lemma cmp_refl [simp]: "valid x \<Longrightarrow> cmp x x = 0"
  by (simp add: cmp_eq)

lemma cmp_cases:
  assumes "valid x" "valid y"
  obtains "cmp x y = - 1" "cmp y x = 1" "x \<noteq> y" | "x = y" | "cmp x y = 1" "cmp y x = - 1" "x \<noteq> y"
  using cmp_range [OF assms] cmp_eq [OF assms] cmp_swap [OF assms] by auto

end

text \<open>\<^verbatim>\<open>B_COMPARE\<close> on integers is such a comparator.\<close>

interpretation int_cmp: total_comparator B_COMPARE "\<lambda>_. True"
  by unfold_locales (auto simp: B_COMPARE_def split: if_splits)

section \<open>The tree\<close>

datatype 'n avl = Leaf | Node "'n avl" 'n int "'n avl"

record ('n, 'v) BAVL =
  bavl_value :: "'n \<Rightarrow> 'v"
  bavl_comparator :: "'v \<Rightarrow> 'v \<Rightarrow> int"
  bavl_root :: "'n avl"

type_synonym 'n frame = "bool \<times> int \<times> 'n \<times> 'n avl"

text \<open>\<open>link t side\<close> is \<^verbatim>\<open>t->link[side]\<close>; a frame holds the side the position is on, and the
  balance factor, the node and the other subtree of its parent.\<close>

fun link :: "'n avl \<Rightarrow> bool \<Rightarrow> 'n avl" where
  "link Leaf side = Leaf"
| "link (Node l n b r) side = (if side then r else l)"

definition mk_node :: "bool \<Rightarrow> 'n avl \<Rightarrow> 'n \<Rightarrow> int \<Rightarrow> 'n avl \<Rightarrow> 'n avl" where
  "mk_node side x n b y = (if side then Node y n b x else Node x n b y)"

fun balance :: "'n avl \<Rightarrow> int" where
  "balance Leaf = 0"
| "balance (Node l n b r) = b"

fun set_balance :: "'n avl \<Rightarrow> int \<Rightarrow> 'n avl" where
  "set_balance Leaf b' = Leaf"
| "set_balance (Node l n b r) b' = Node l n b' r"

fun set_link :: "'n avl \<Rightarrow> bool \<Rightarrow> 'n avl \<Rightarrow> 'n avl" where
  "set_link Leaf side x = Leaf"
| "set_link (Node l n b r) side x = (if side then Node l n b x else Node x n b r)"

fun plug :: "'n frame list \<Rightarrow> 'n avl \<Rightarrow> 'n avl" where
  "plug [] t = t"
| "plug ((side, b, n, sib) # ctx) t = plug ctx (mk_node side t n b sib)"

definition BAVL_MAX :: "int \<Rightarrow> int \<Rightarrow> int" where
  "BAVL_MAX a b = (if a > b then a else b)"

definition BAVL_OPTNEG :: "int \<Rightarrow> bool \<Rightarrow> int" where
  "BAVL_OPTNEG a neg = (if neg then - a else a)"

definition BAVL_compare_values :: "('n, 'v) BAVL \<Rightarrow> 'v \<Rightarrow> 'v \<Rightarrow> int option" where
  "BAVL_compare_values tr v1 v2 =
     (let res = bavl_comparator tr v1 v2 in require (res = - 1 \<or> res = 0 \<or> res = 1) res)"

definition BAVL_compare_nodes :: "('n, 'v) BAVL \<Rightarrow> 'n \<Rightarrow> 'n \<Rightarrow> int option" where
  "BAVL_compare_nodes tr n1 n2 = BAVL_compare_values tr (bavl_value tr n1) (bavl_value tr n2)"

fun BAVL_rotate :: "'n avl \<Rightarrow> bool \<Rightarrow> 'n avl option" where
  "BAVL_rotate r dir =
     (case link r (\<not> dir) of
        Leaf \<Rightarrow> None
      | nr \<Rightarrow> Some (set_link nr dir (set_link r (\<not> dir) (link nr dir))))"

fun BAVL_subtree_max :: "'n avl \<Rightarrow> 'n option" where
  "BAVL_subtree_max Leaf = None"
| "BAVL_subtree_max (Node l n b r) = (if r \<noteq> Leaf then BAVL_subtree_max r else Some n)"

text \<open>The \<^verbatim>\<open>switch\<close> of \<^verbatim>\<open>_BAVL_rebalance\<close> at a node whose balance factor became \<open>\<plusminus>2\<close>:
  the transformed subtree and the amount \<^verbatim>\<open>delta\<close> is reduced by.\<close>

definition BAVL_transform :: "'n avl \<Rightarrow> ('n avl \<times> int) option" where
  "BAVL_transform node =
     (let bside = (balance node = 2);
          bsidef = (if bside then 1 else - 1);
          child = link node bside
      in if child = Leaf then None
         else if balance child * bsidef = 1 then
           (case BAVL_rotate node (\<not> bside) of
              None \<Rightarrow> None
            | Some t \<Rightarrow>
                let t = set_link t (\<not> bside) (set_balance (link t (\<not> bside)) 0);
                    t = set_balance t 0
                in Some (t, 1))
         else if balance child * bsidef = 0 then
           (case BAVL_rotate node (\<not> bside) of
              None \<Rightarrow> None
            | Some t \<Rightarrow>
                let t = set_link t (\<not> bside) (set_balance (link t (\<not> bside)) (1 * bsidef));
                    t = set_balance t (- 1 * bsidef)
                in Some (t, 0))
         else if balance child * bsidef = - 1 then
           (let gchild = link child (\<not> bside) in
            if gchild = Leaf then None
            else (case BAVL_rotate child bside of
                None \<Rightarrow> None
              | Some c \<Rightarrow> (case BAVL_rotate (set_link node bside c) (\<not> bside) of
                  None \<Rightarrow> None
                | Some t \<Rightarrow>
                    let t = set_link t (\<not> bside) (set_balance (link t (\<not> bside))
                          (- BAVL_MAX 0 (balance gchild * bsidef) * bsidef));
                        t = set_link t bside (set_balance (link t bside)
                          (BAVL_MAX 0 (- balance gchild * bsidef) * bsidef));
                        t = set_balance t 0
                    in Some (t, 1))))
         else None)"

fun BAVL_rebalance :: "'n frame list \<Rightarrow> 'n avl \<Rightarrow> int \<Rightarrow> 'n avl option" where
  "BAVL_rebalance [] t deltac = Some t"
| "BAVL_rebalance ((side, bal, n, sib) # ctx) t deltac =
     (if \<not> (deltac \<ge> - 1 \<and> deltac \<le> 1 \<and> bal \<ge> - 1 \<and> bal \<le> 1) then None
      else if deltac = 0 then Some (plug ((side, bal, n, sib) # ctx) t)
      else (let delta = BAVL_MAX deltac (BAVL_OPTNEG bal side) - BAVL_MAX 0 (BAVL_OPTNEG bal side) in
        if \<not> (delta \<ge> - 1 \<and> delta \<le> 1) then None
        else (let node = mk_node side t n (bal - BAVL_OPTNEG deltac side) sib in
          case (if balance node = 2 \<or> balance node = - 2 then BAVL_transform node else Some (node, 0)) of
            None \<Rightarrow> None
          | Some (node, d) \<Rightarrow>
              let delta = delta - d in
              if \<not> (delta \<ge> - 1 \<and> delta \<le> 1) then None
              else BAVL_rebalance ctx node delta)))"

definition BAVL_Init :: "('n \<Rightarrow> 'v) \<Rightarrow> ('v \<Rightarrow> 'v \<Rightarrow> int) \<Rightarrow> ('n, 'v) BAVL" where
  "BAVL_Init value comparator = \<lparr>bavl_value = value, bavl_comparator = comparator, bavl_root = Leaf\<rparr>"

text \<open>The loop of \<^verbatim>\<open>BAVL_Insert\<close>: the node that compares equal, or the frames down to the null
  link where the new node goes.\<close>

fun BAVL_insert_position :: "('n, 'v) BAVL \<Rightarrow> 'n \<Rightarrow> 'n avl \<Rightarrow> 'n frame list \<Rightarrow> ('n + 'n frame list) option" where
  "BAVL_insert_position tr node Leaf ctx = Some (Inr ctx)"
| "BAVL_insert_position tr node (Node l c b r) ctx =
     (case BAVL_compare_nodes tr node c of
        None \<Rightarrow> None
      | Some res \<Rightarrow>
          if res = 0 then Some (Inl c)
          else if res = 1 then BAVL_insert_position tr node r ((True, b, c, l) # ctx)
          else BAVL_insert_position tr node l ((False, b, c, r) # ctx))"

text \<open>The result is the tree, the return value and \<^verbatim>\<open>*ref\<close>.\<close>

definition BAVL_Insert :: "('n, 'v) BAVL \<Rightarrow> 'n \<Rightarrow> (('n, 'v) BAVL \<times> bool \<times> 'n option) option" where
  "BAVL_Insert tr node =
     (if bavl_root tr = Leaf then Some (tr\<lparr>bavl_root := Node Leaf node 0 Leaf\<rparr>, True, None)
      else (case BAVL_insert_position tr node (bavl_root tr) [] of
          None \<Rightarrow> None
        | Some (Inl c) \<Rightarrow> Some (tr, False, Some c)
        | Some (Inr ctx) \<Rightarrow>
            (case BAVL_rebalance ctx (Node Leaf node 0 Leaf) 1 of
               None \<Rightarrow> None
             | Some t \<Rightarrow> Some (tr\<lparr>bavl_root := t\<rparr>, True, Some (fst (snd (snd (hd ctx))))))))"

text \<open>The position of a node of the tree, which the code holds as a pointer.\<close>

fun BAVL_position :: "'n \<Rightarrow> 'n avl \<Rightarrow> 'n frame list \<Rightarrow> ('n frame list \<times> 'n avl) option" where
  "BAVL_position x Leaf ctx = None"
| "BAVL_position x (Node l n b r) ctx =
     (if x = n then Some (ctx, Node l n b r)
      else (case BAVL_position x l ((False, b, n, r) # ctx) of
          Some p \<Rightarrow> Some p
        | None \<Rightarrow> BAVL_position x r ((True, b, n, l) # ctx)))"

fun BAVL_max_position :: "'n avl \<Rightarrow> 'n frame list \<Rightarrow> 'n frame list \<times> 'n avl" where
  "BAVL_max_position Leaf ctx = (ctx, Leaf)"
| "BAVL_max_position (Node l n b r) ctx =
     (if r \<noteq> Leaf then BAVL_max_position r ((True, b, n, l) # ctx) else (ctx, Node l n b r))"

text \<open>
  \<^verbatim>\<open>_BAVL_swap_nodes\<close> exchanges the links and the balance factors of two nodes: each
  takes the place of the other. Here the lower one is the maximum of the left subtree;
  the result is the position the upper node has afterwards. The model is the effect on the tree:
  the code distinguishes whether the lower node is a child of the upper one and updates the parent links and
  the root pointer, which a tree that is a value does not have.
\<close>

definition BAVL_swap_nodes :: "'n frame list \<times> 'n avl \<Rightarrow> 'n \<Rightarrow> 'n frame list \<times> 'n avl" where
  "BAVL_swap_nodes p m =
     (case p of
        (ctx, Node l n b r) \<Rightarrow>
          (case BAVL_max_position l ((False, b, m, r) # ctx) of
             (ctx', Node l' _ b' r') \<Rightarrow> (ctx', Node l' n b' r')
           | (ctx', Leaf) \<Rightarrow> (ctx', Leaf))
      | _ \<Rightarrow> p)"

definition BAVL_replace_subtree :: "'n frame list \<Rightarrow> 'n avl \<Rightarrow> 'n avl" where
  "BAVL_replace_subtree ctx n = plug ctx n"

definition BAVL_Remove :: "('n, 'v) BAVL \<Rightarrow> 'n \<Rightarrow> ('n, 'v) BAVL option" where
  "BAVL_Remove tr node =
     (case BAVL_position node (bavl_root tr) [] of
        None \<Rightarrow> None
      | Some (ctx, t) \<Rightarrow>
          (case (if link t False \<noteq> Leaf \<and> link t True \<noteq> Leaf
                 then map_option (BAVL_swap_nodes (ctx, t)) (BAVL_subtree_max (link t False))
                 else Some (ctx, t)) of
             None \<Rightarrow> None
           | Some (ctx, t) \<Rightarrow>
               if link t False \<noteq> Leaf \<and> link t True \<noteq> Leaf then None
               else (let child = (if link t False \<noteq> Leaf then link t False else link t True) in
                 if ctx \<noteq> [] then map_option (\<lambda>t. tr\<lparr>bavl_root := t\<rparr>) (BAVL_rebalance ctx child (- 1))
                 else Some (tr\<lparr>bavl_root := BAVL_replace_subtree ctx child\<rparr>))))"

definition BAVL_IsEmpty :: "('n, 'v) BAVL \<Rightarrow> bool" where
  "BAVL_IsEmpty tr \<longleftrightarrow> bavl_root tr = Leaf"

fun BAVL_lookup_loop :: "('n, 'v) BAVL \<Rightarrow> 'v \<Rightarrow> bool \<Rightarrow> 'n avl \<Rightarrow> 'n option option" where
  "BAVL_lookup_loop tr v exact Leaf = Some None"
| "BAVL_lookup_loop tr v exact (Node l c b r) =
     (case BAVL_compare_values tr v (bavl_value tr c) of
        None \<Rightarrow> None
      | Some res \<Rightarrow>
          if res = 0 then Some (Some c)
          else (let sub = (if res = 1 then r else l) in
            if sub = Leaf then Some (if exact then None else Some c)
            else BAVL_lookup_loop tr v exact sub))"

definition BAVL_Lookup :: "('n, 'v) BAVL \<Rightarrow> 'v \<Rightarrow> 'n option option" where
  "BAVL_Lookup tr v = (if bavl_root tr = Leaf then Some None else BAVL_lookup_loop tr v False (bavl_root tr))"

definition BAVL_LookupExact :: "('n, 'v) BAVL \<Rightarrow> 'v \<Rightarrow> 'n option option" where
  "BAVL_LookupExact tr v = (if bavl_root tr = Leaf then Some None else BAVL_lookup_loop tr v True (bavl_root tr))"

fun end_node :: "bool \<Rightarrow> 'n avl \<Rightarrow> 'n option" where
  "end_node side Leaf = None"
| "end_node side (Node l n b r) =
     (if (if side then r else l) \<noteq> Leaf then end_node side (if side then r else l) else Some n)"

definition BAVL_GetFirst :: "('n, 'v) BAVL \<Rightarrow> 'n option" where
  "BAVL_GetFirst tr = end_node False (bavl_root tr)"

definition BAVL_GetLast :: "('n, 'v) BAVL \<Rightarrow> 'n option" where
  "BAVL_GetLast tr = end_node True (bavl_root tr)"

text \<open>Following \<^verbatim>\<open>parent\<close> while the position is on the given side.\<close>

fun climb :: "bool \<Rightarrow> 'n frame list \<Rightarrow> 'n option" where
  "climb side [] = None"
| "climb side ((s, b, n, sib) # ctx) = (if s = side then climb side ctx else Some n)"

definition BAVL_GetNext :: "('n, 'v) BAVL \<Rightarrow> 'n \<Rightarrow> 'n option option" where
  "BAVL_GetNext tr n =
     map_option (\<lambda>(ctx, t). if link t True \<noteq> Leaf then end_node False (link t True) else climb True ctx)
       (BAVL_position n (bavl_root tr) [])"

definition BAVL_GetPrev :: "('n, 'v) BAVL \<Rightarrow> 'n \<Rightarrow> 'n option option" where
  "BAVL_GetPrev tr n =
     map_option (\<lambda>(ctx, t). if link t False \<noteq> Leaf then end_node True (link t False) else climb False ctx)
       (BAVL_position n (bavl_root tr) [])"

text \<open>\<^verbatim>\<open>_BAVL_assert_recurser\<close> computes the height and checks order and balance factors.\<close>

fun BAVL_assert_recurser :: "('n, 'v) BAVL \<Rightarrow> 'n avl \<Rightarrow> int option" where
  "BAVL_assert_recurser tr Leaf = Some 0"
| "BAVL_assert_recurser tr (Node l n b r) =
     (if \<not> (b \<ge> - 1 \<and> b \<le> 1) then None
      else (let child_ok = (\<lambda>t c. case t of Leaf \<Rightarrow> True | Node _ m _ _ \<Rightarrow> BAVL_compare_nodes tr m n = Some c) in
        if \<not> (child_ok l (- 1)) then None
        else (case BAVL_assert_recurser tr l of
            None \<Rightarrow> None
          | Some height_left \<Rightarrow>
              if \<not> (child_ok r 1) then None
              else (case BAVL_assert_recurser tr r of
                  None \<Rightarrow> None
                | Some height_right \<Rightarrow>
                    if b \<noteq> height_right - height_left then None
                    else Some (BAVL_MAX height_left height_right + 1)))))"

definition BAVL_Verify :: "('n, 'v) BAVL \<Rightarrow> bool" where
  "BAVL_Verify tr \<longleftrightarrow> BAVL_assert_recurser tr (bavl_root tr) \<noteq> None"

section \<open>Balance\<close>

fun inorder :: "'n avl \<Rightarrow> 'n list" where
  "inorder Leaf = []"
| "inorder (Node l n b r) = inorder l @ n # inorder r"

fun height :: "'n avl \<Rightarrow> int" where
  "height Leaf = 0"
| "height (Node l n b r) = 1 + max (height l) (height r)"

fun balanced :: "'n avl \<Rightarrow> bool" where
  "balanced Leaf = True"
| "balanced (Node l n b r) \<longleftrightarrow> balanced l \<and> balanced r \<and> b = height r - height l \<and> - 1 \<le> b \<and> b \<le> 1"

lemma height_nonneg: "0 \<le> height t"
  by (induction t) auto

lemma height_zero: "height t = 0 \<longleftrightarrow> t = Leaf"
proof (cases t)
  case (Node l n b r)
  then show ?thesis using height_nonneg [of l] by (simp add: max_def)
qed simp

lemma inorder_Nil [simp]: "inorder t = [] \<longleftrightarrow> t = Leaf"
  by (cases t) auto

lemma transform_right:
  assumes "balanced l" "balanced r" "height r = height l + 2"
  shows "\<exists>t d. BAVL_transform (Node l n 2 r) = Some (t, d) \<and> balanced t \<and>
    inorder t = inorder l @ n # inorder r \<and> height t = 1 + height r - d \<and> (d = 0 \<or> d = 1)"
proof -
  have "r \<noteq> Leaf" using assms(3) height_nonneg [of l] by auto
  then obtain rl c cb rr where r: "r = Node rl c cb rr" by (cases r) auto
  show ?thesis
  proof (cases "cb = - 1")
    case True
    then have "rl \<noteq> Leaf" using assms r height_nonneg [of rr] by auto
    then obtain a g gb b where "rl = Node a g gb b" by (cases rl) auto
    then show ?thesis
      using True assms r by (auto simp: BAVL_transform_def Let_def BAVL_MAX_def)
  next
    case False
    moreover have "- 1 \<le> cb" "cb \<le> 1" using assms(2) r by simp_all
    ultimately consider "cb = 0" | "cb = 1" by linarith
    then show ?thesis
    proof cases
      case 1
      then show ?thesis using assms r by (simp add: BAVL_transform_def Let_def)
    next
      case 2
      then show ?thesis using assms r by (simp add: BAVL_transform_def Let_def)
    qed
  qed
qed

lemma transform_left:
  assumes "balanced l" "balanced r" "height l = height r + 2"
  shows "\<exists>t d. BAVL_transform (Node l n (- 2) r) = Some (t, d) \<and> balanced t \<and>
    inorder t = inorder l @ n # inorder r \<and> height t = 1 + height l - d \<and> (d = 0 \<or> d = 1)"
proof -
  have "l \<noteq> Leaf" using assms(3) height_nonneg [of r] by auto
  then obtain ll c cb lr where l: "l = Node ll c cb lr" by (cases l) auto
  show ?thesis
  proof (cases "cb = 1")
    case True
    then have "lr \<noteq> Leaf" using assms l height_nonneg [of ll] by auto
    then obtain a g gb b where "lr = Node a g gb b" by (cases lr) auto
    then show ?thesis
      using True assms l by (auto simp: BAVL_transform_def Let_def BAVL_MAX_def)
  next
    case False
    moreover have "- 1 \<le> cb" "cb \<le> 1" using assms(1) l by simp_all
    ultimately consider "cb = 0" | "cb = - 1" by linarith
    then show ?thesis
    proof cases
      case 1
      then show ?thesis using assms l by (simp add: BAVL_transform_def Let_def)
    next
      case 2
      then show ?thesis using assms l by (simp add: BAVL_transform_def Let_def)
    qed
  qed
qed

text \<open>A context is fit for a subtree of height \<open>h\<close> if plugging one in gives a balanced tree.\<close>

fun ctx_ok :: "int \<Rightarrow> 'n frame list \<Rightarrow> bool" where
  "ctx_ok h [] = True"
| "ctx_ok h ((side, b, n, sib) # ctx) \<longleftrightarrow> balanced sib \<and>
     b = (if side then h - height sib else height sib - h) \<and> - 1 \<le> b \<and> b \<le> 1 \<and>
     ctx_ok (1 + max h (height sib)) ctx"

fun before :: "'n frame list \<Rightarrow> 'n list" where
  "before [] = []"
| "before ((side, b, n, sib) # ctx) = before ctx @ (if side then inorder sib @ [n] else [])"

fun after :: "'n frame list \<Rightarrow> 'n list" where
  "after [] = []"
| "after ((side, b, n, sib) # ctx) = (if side then [] else n # inorder sib) @ after ctx"

lemma inorder_mk_node:
  "inorder (mk_node side t n b sib) = (if side then inorder sib @ n # inorder t else inorder t @ n # inorder sib)"
  by (simp add: mk_node_def)

lemma balance_mk_node [simp]: "balance (mk_node side t n b sib) = b"
  by (simp add: mk_node_def)

lemma inorder_plug: "inorder (plug ctx t) = before ctx @ inorder t @ after ctx"
  by (induction ctx arbitrary: t rule: before.induct) (auto simp: inorder_mk_node)

lemma balanced_plug: "ctx_ok (height t) ctx \<Longrightarrow> balanced t \<Longrightarrow> balanced (plug ctx t)"
  by (induction "height t" ctx arbitrary: t rule: ctx_ok.induct)
    (auto simp: mk_node_def max.commute split: if_splits)

text \<open>One round of the rebalancing: \<open>t\<close> has replaced a subtree of height \<open>h\<close>.\<close>

lemma rebalance_step:
  assumes "balanced t" "height t = h + d" "d = 1 \<or> d = - 1" "0 \<le> h" "ctx_ok h ((side, bal, n, sib) # ctx)"
  shows "\<exists>t' d'. BAVL_rebalance ((side, bal, n, sib) # ctx) t d = BAVL_rebalance ctx t' d' \<and>
    balanced t' \<and> height t' = 1 + max h (height sib) + d' \<and> (d' = - 1 \<or> d' = 0 \<or> d' = 1) \<and>
    inorder t' = inorder (mk_node side t n bal sib)"
proof -
  define nb where "nb = bal - BAVL_OPTNEG d side"
  define delta where "delta = max (h + d) (height sib) - max h (height sib)"
  have bal: "bal = (if side then h - height sib else height sib - h)" "- 1 \<le> bal" "bal \<le> 1" "balanced sib"
    using assms(5) by auto
  have nb: "nb = (if side then height t - height sib else height sib - height t)"
    using bal assms(2) by (auto simp: nb_def BAVL_OPTNEG_def)
  have delta: "BAVL_MAX d (BAVL_OPTNEG bal side) - BAVL_MAX 0 (BAVL_OPTNEG bal side) = delta"
    "delta = - 1 \<or> delta = 0 \<or> delta = 1"
    using bal assms(3) by (auto simp: delta_def BAVL_MAX_def BAVL_OPTNEG_def split: if_splits)
  have step: "BAVL_rebalance ((side, bal, n, sib) # ctx) t d =
      (case (if nb = 2 \<or> nb = - 2 then BAVL_transform (mk_node side t n nb sib)
             else Some (mk_node side t n nb sib, 0)) of
         None \<Rightarrow> None
       | Some (node, k) \<Rightarrow> if delta - k \<ge> - 1 \<and> delta - k \<le> 1 then BAVL_rebalance ctx node (delta - k) else None)"
  proof -
    have "- 1 \<le> d" "d \<le> 1" "d \<noteq> 0" "- 1 \<le> delta" "delta \<le> 1" using assms(3) delta(2) by auto
    then show ?thesis using bal(2,3) by (simp add: Let_def delta(1) nb_def [symmetric] not_le not_less
          split: option.split)
  qed
  have "- 2 \<le> nb" "nb \<le> 2" using bal(2,3) assms(3) by (auto simp: nb_def BAVL_OPTNEG_def)
  then consider "- 1 \<le> nb" "nb \<le> 1" | "nb = 2" | "nb = - 2" by linarith
  then show ?thesis
  proof cases
    case 1
    then show ?thesis
      using step delta(2) assms(1,2) bal nb
      by (intro exI [of _ "mk_node side t n nb sib"] exI [of _ delta]) (auto simp: mk_node_def delta_def)
  next
    case 2
    then obtain t' k where t': "BAVL_transform (mk_node side t n nb sib) = Some (t', k)" "balanced t'"
      "inorder t' = inorder (mk_node side t n bal sib)" "height t' = 1 + max (h + d) (height sib) - k" "k = 0 \<or> k = 1"
      using transform_right [of sib t n] transform_right [of t sib n] assms(1,2) bal(4) nb
      by (cases side) (auto simp: mk_node_def max_def)
    moreover have "k = 1 \<longrightarrow> delta \<noteq> - 1" using nb 2 assms(2,3) bal by (auto simp: delta_def split: if_splits)
    ultimately show ?thesis
      using step delta(2) 2 by (intro exI [of _ t'] exI [of _ "delta - k"]) (auto simp: delta_def)
  next
    case 3
    then obtain t' k where t': "BAVL_transform (mk_node side t n nb sib) = Some (t', k)" "balanced t'"
      "inorder t' = inorder (mk_node side t n bal sib)" "height t' = 1 + max (h + d) (height sib) - k" "k = 0 \<or> k = 1"
      using transform_left [of sib t n] transform_left [of t sib n] assms(1,2) bal(4) nb
      by (cases side) (auto simp: mk_node_def max_def)
    moreover have "k = 1 \<longrightarrow> delta \<noteq> - 1" using nb 3 assms(2,3) bal by (auto simp: delta_def split: if_splits)
    ultimately show ?thesis
      using step delta(2) 3 by (intro exI [of _ t'] exI [of _ "delta - k"]) (auto simp: delta_def)
  qed
qed

lemma rebalance_ok:
  "balanced t \<Longrightarrow> height t = h + d \<Longrightarrow> d = - 1 \<or> d = 0 \<or> d = 1 \<Longrightarrow> 0 \<le> h \<Longrightarrow> ctx_ok h ctx \<Longrightarrow>
   \<exists>t'. BAVL_rebalance ctx t d = Some t' \<and> balanced t' \<and> inorder t' = before ctx @ inorder t @ after ctx"
proof (induction ctx arbitrary: t h d)
  case (Cons f ctx)
  obtain side bal n sib where f: "f = (side, bal, n, sib)" by (cases f) auto
  show ?case
  proof (cases "d = 0")
    case True
    then show ?thesis
      using Cons.prems f balanced_plug [of t "f # ctx"] inorder_plug [of "f # ctx" t] by simp
  next
    case False
    then obtain t' d' where "BAVL_rebalance (f # ctx) t d = BAVL_rebalance ctx t' d'" "balanced t'"
      "height t' = 1 + max h (height sib) + d'" "d' = - 1 \<or> d' = 0 \<or> d' = 1"
      "inorder t' = inorder (mk_node side t n bal sib)"
      using rebalance_step [of t h d side bal n sib ctx] Cons.prems f by blast
    moreover have "ctx_ok (1 + max h (height sib)) ctx" "0 \<le> 1 + max h (height sib)"
      using Cons.prems f by auto
    ultimately show ?thesis
      using Cons.IH [of t' "1 + max h (height sib)" d'] f by (auto simp: inorder_mk_node split: if_splits)
  qed
qed simp

section \<open>Positions\<close>

lemma position_Some:
  "BAVL_position x t ctx = Some (ctx', t') \<Longrightarrow>
   plug ctx' t' = plug ctx t \<and> (\<exists>l b r. t' = Node l x b r) \<and>
   (balanced t \<longrightarrow> ctx_ok (height t) ctx \<longrightarrow> balanced t' \<and> ctx_ok (height t') ctx')"
proof (induction t arbitrary: ctx)
  case (Node l n b r)
  show ?case
  proof (cases "x = n")
    case True
    with Node.prems show ?thesis by auto
  next
    case False
    show ?thesis
    proof (cases "BAVL_position x l ((False, b, n, r) # ctx)")
      case None
      with Node.IH(2) [of "(True, b, n, l) # ctx"] Node.prems False show ?thesis
        by (auto simp: mk_node_def max.commute)
    next
      case (Some p)
      with Node.IH(1) [of "(False, b, n, r) # ctx"] Node.prems False show ?thesis
        by (auto simp: mk_node_def)
    qed
  qed
qed simp

lemma position_None: "BAVL_position x t ctx = None \<longleftrightarrow> x \<notin> set (inorder t)"
proof (induction t arbitrary: ctx)
  case (Node l n b r)
  then show ?case by (cases "BAVL_position x l ((False, b, n, r) # ctx)") (auto, metis option.distinct(1))
qed simp

lemma max_position:
  "t \<noteq> Leaf \<Longrightarrow> \<exists>ctx' l m b. BAVL_max_position t ctx = (ctx', Node l m b Leaf) \<and>
   BAVL_subtree_max t = Some m \<and> before ctx' @ inorder l @ [m] = before ctx @ inorder t \<and>
   after ctx' = after ctx \<and> (ctx \<noteq> [] \<longrightarrow> ctx' \<noteq> []) \<and>
   (balanced t \<longrightarrow> ctx_ok (height t) ctx \<longrightarrow> balanced l \<and> ctx_ok (1 + height l) ctx')"
proof (induction t arbitrary: ctx)
  case (Node l n b r)
  show ?case
  proof (cases "r = Leaf")
    case True
    then show ?thesis using height_nonneg [of l] by (auto simp: max_def)
  next
    case False
    then obtain ctx' l' m b' where "BAVL_max_position r ((True, b, n, l) # ctx) = (ctx', Node l' m b' Leaf)"
      "BAVL_subtree_max r = Some m" "before ctx' @ inorder l' @ [m] = before ((True, b, n, l) # ctx) @ inorder r"
      "after ctx' = after ((True, b, n, l) # ctx)" "ctx' \<noteq> []"
      "balanced r \<longrightarrow> ctx_ok (height r) ((True, b, n, l) # ctx) \<longrightarrow> balanced l' \<and> ctx_ok (1 + height l') ctx'"
      using Node.IH(2) [of "(True, b, n, l) # ctx"] by blast
    with False show ?thesis by (auto simp: max.commute)
  qed
qed simp

lemma end_node_inorder:
  "t \<noteq> Leaf \<Longrightarrow> end_node False t = Some (hd (inorder t))"
  "t \<noteq> Leaf \<Longrightarrow> end_node True t = Some (last (inorder t))"
  by (induction t) (auto simp: hd_append)

lemma climb_eq:
  "climb True ctx = (if after ctx = [] then None else Some (hd (after ctx)))"
  "climb False ctx = (if before ctx = [] then None else Some (last (before ctx)))"
  by (induction ctx rule: before.induct) auto

section \<open>Order\<close>

definition bavl_nodes :: "('n, 'v) BAVL \<Rightarrow> 'n list" where
  "bavl_nodes tr = inorder (bavl_root tr)"

definition bavl_less :: "('n, 'v) BAVL \<Rightarrow> 'n \<Rightarrow> 'n \<Rightarrow> bool" where
  "bavl_less tr m n \<longleftrightarrow> bavl_comparator tr (bavl_value tr m) (bavl_value tr n) = - 1"

definition bavl_ok :: "('v \<Rightarrow> bool) \<Rightarrow> ('n, 'v) BAVL \<Rightarrow> bool" where
  "bavl_ok valid tr \<longleftrightarrow> balanced (bavl_root tr) \<and> sorted_wrt (bavl_less tr) (bavl_nodes tr) \<and>
     (\<forall>n\<in>set (bavl_nodes tr). valid (bavl_value tr n))"

definition bavl_find :: "('n, 'v) BAVL \<Rightarrow> 'v \<Rightarrow> 'n option" where
  "bavl_find tr v = List.find (\<lambda>c. bavl_value tr c = v) (bavl_nodes tr)"

lemma bavl_ok_Init: "bavl_ok valid (BAVL_Init value cmp)" "bavl_nodes (BAVL_Init value cmp) = []"
  by (simp_all add: bavl_ok_def bavl_nodes_def BAVL_Init_def)

lemma bavl_IsEmpty: "BAVL_IsEmpty tr \<longleftrightarrow> bavl_nodes tr = []"
  by (simp add: BAVL_IsEmpty_def bavl_nodes_def)

lemma Remove_position:
  assumes t: "balanced (bavl_root tr)" and n: "bavl_nodes tr = xs @ n # ys" "n \<notin> set xs" "n \<notin> set ys"
  shows "\<exists>t. BAVL_Remove tr n = Some (tr\<lparr>bavl_root := t\<rparr>) \<and> balanced t \<and> inorder t = xs @ ys"
proof -
  obtain ctx t' where p: "BAVL_position n (bavl_root tr) [] = Some (ctx, t')"
    using position_None [of n "bavl_root tr" "[]"] n(1) by (cases "BAVL_position n (bavl_root tr) []") (auto simp: bavl_nodes_def)
  then obtain l b r where t': "t' = Node l n b r" "plug ctx t' = bavl_root tr"
    and ok: "balanced t'" "ctx_ok (height t') ctx"
    using position_Some [OF p] t by auto
  have "xs @ n # ys = (before ctx @ inorder l) @ n # (inorder r @ after ctx)"
    using inorder_plug [of ctx t'] t' n(1) by (simp add: bavl_nodes_def)
  then have split: "xs = before ctx @ inorder l" "ys = inorder r @ after ctx"
    using append_Cons_eq_iff [OF n(2,3), of "before ctx @ inorder l" "inorder r @ after ctx"] by metis+
  show ?thesis
  proof (cases "l \<noteq> Leaf \<and> r \<noteq> Leaf")
    case True
    then obtain m where max: "BAVL_subtree_max l = Some m" using max_position [of l "[]"] by auto
    let ?ctx = "(False, b, m, r) # ctx"
    have "ctx_ok (height l) ?ctx" "balanced l" using ok t'(1) by simp_all
    then obtain ctx' l' b' where m: "BAVL_max_position l ?ctx = (ctx', Node l' m b' Leaf)"
      "before ctx' @ inorder l' @ [m] = before ?ctx @ inorder l" "after ctx' = after ?ctx" "ctx' \<noteq> []"
      and l': "balanced l'" "ctx_ok (1 + height l') ctx'"
      using max_position [of l ?ctx] True max by auto
    have "BAVL_Remove tr n = map_option (\<lambda>t. tr\<lparr>bavl_root := t\<rparr>) (BAVL_rebalance ctx' l' (- 1))"
      using True m(1,4) max by (cases l') (auto simp: BAVL_Remove_def p t'(1) BAVL_swap_nodes_def)
    then show ?thesis
      using rebalance_ok [OF l'(1), of "1 + height l'" "- 1" ctx'] l'(2) height_nonneg [of l'] m(2,3) split
      by (auto simp: append_assoc [symmetric] simp del: append_assoc)
  next
    case False
    define child where "child = (if l \<noteq> Leaf then l else r)"
    have child: "balanced child" "ctx_ok (1 + height child) ctx" "inorder child = inorder l @ inorder r"
      using False ok t'(1) height_nonneg [of l] height_nonneg [of r] by (auto simp: child_def max_def split: if_splits)
    have "BAVL_Remove tr n = map_option (\<lambda>t. tr\<lparr>bavl_root := t\<rparr>) (BAVL_rebalance ctx child (- 1))"
      using False by (cases ctx) (auto simp: BAVL_Remove_def p t'(1) child_def BAVL_replace_subtree_def)
    then show ?thesis
      using rebalance_ok [OF child(1), of "1 + height child" "- 1" ctx] child height_nonneg [of child] split by auto
  qed
qed

lemma bavl_root_update [simp]:
  "bavl_less (tr\<lparr>bavl_root := t\<rparr>) = bavl_less tr" "bavl_nodes (tr\<lparr>bavl_root := t\<rparr>) = inorder t"
  by (auto simp: bavl_less_def bavl_nodes_def fun_eq_iff)

context total_comparator
begin

definition ordered_tree :: "('n, 'v) BAVL \<Rightarrow> bool" where
  "ordered_tree tr \<longleftrightarrow> bavl_comparator tr = cmp \<and> bavl_ok valid tr"

lemma less_irrefl: "ordered_tree tr \<Longrightarrow> n \<in> set (bavl_nodes tr) \<Longrightarrow> \<not> bavl_less tr n n"
  by (simp add: ordered_tree_def bavl_ok_def bavl_less_def)

lemma nodes_distinct:
  assumes "ordered_tree tr"
  shows "distinct (bavl_nodes tr)" "m \<in> set (bavl_nodes tr) \<Longrightarrow> n \<in> set (bavl_nodes tr) \<Longrightarrow>
    bavl_value tr m = bavl_value tr n \<Longrightarrow> m = n"
proof -
  have s: "sorted_wrt (bavl_less tr) (bavl_nodes tr)" using assms by (simp add: ordered_tree_def bavl_ok_def)
  have irr: "\<not> bavl_less tr a b" if "a \<in> set (bavl_nodes tr)" "bavl_value tr a = bavl_value tr b" for a b
    using less_irrefl [OF assms that(1)] that(2) by (simp add: bavl_less_def)
  have ne: "bavl_nodes tr ! i \<noteq> bavl_nodes tr ! j \<and> bavl_value tr (bavl_nodes tr ! i) \<noteq> bavl_value tr (bavl_nodes tr ! j)"
    if "i < j" "j < length (bavl_nodes tr)" for i j
    using sorted_wrt_nth_less [OF s that] irr that by (metis nth_mem order.strict_trans)
  then show "distinct (bavl_nodes tr)" by (auto simp: distinct_conv_nth) (metis linorder_neqE_nat)
  show "m = n" if "m \<in> set (bavl_nodes tr)" "n \<in> set (bavl_nodes tr)" "bavl_value tr m = bavl_value tr n"
    using that ne by (metis in_set_conv_nth linorder_neqE_nat)
qed

lemma find_eq_Some:
  assumes "ordered_tree tr"
  shows "bavl_find tr v = Some n \<longleftrightarrow> n \<in> set (bavl_nodes tr) \<and> bavl_value tr n = v"
proof
  assume "bavl_find tr v = Some n"
  then show "n \<in> set (bavl_nodes tr) \<and> bavl_value tr n = v"
    by (auto simp: bavl_find_def find_Some_iff)
next
  assume n: "n \<in> set (bavl_nodes tr) \<and> bavl_value tr n = v"
  then obtain m where "bavl_find tr v = Some m"
    by (cases "bavl_find tr v") (auto simp: bavl_find_def find_None_iff)
  moreover from this have "m \<in> set (bavl_nodes tr)" "bavl_value tr m = v"
    by (auto simp: bavl_find_def find_Some_iff)
  ultimately show "bavl_find tr v = Some n" using nodes_distinct(2) [OF assms] n by blast
qed

lemma find_eq_None: "bavl_find tr v = None \<longleftrightarrow> (\<forall>n\<in>set (bavl_nodes tr). bavl_value tr n \<noteq> v)"
  by (auto simp: bavl_find_def find_None_iff)

text \<open>At a node, a value that is not there lies on one side of everything on the other.\<close>

lemma other_side:
  assumes cmp: "bavl_comparator tr = cmp" and v: "valid v"
    and t: "sorted_wrt (bavl_less tr) (inorder l @ c # inorder r)"
      "\<forall>n\<in>set (inorder l @ c # inorder r). valid (bavl_value tr n)"
  shows "cmp (bavl_value tr c) v = - 1 \<Longrightarrow> m \<in> insert c (set (inorder l)) \<Longrightarrow> cmp (bavl_value tr m) v = - 1"
    "cmp v (bavl_value tr c) = - 1 \<Longrightarrow> m \<in> insert c (set (inorder r)) \<Longrightarrow> cmp v (bavl_value tr m) = - 1"
  using assms cmp_trans [of "bavl_value tr m" "bavl_value tr c" v]
    cmp_trans [of v "bavl_value tr c" "bavl_value tr m"]
  by (auto simp: sorted_wrt_append bavl_less_def)

lemma lookup_loop:
  assumes cmp: "bavl_comparator tr = cmp" and v: "valid v"
  shows "sorted_wrt (bavl_less tr) (inorder t) \<Longrightarrow> \<forall>n\<in>set (inorder t). valid (bavl_value tr n) \<Longrightarrow>
    \<exists>res. BAVL_lookup_loop tr v True t = Some res \<and>
      (res = None \<longrightarrow> (\<forall>m\<in>set (inorder t). bavl_value tr m \<noteq> v)) \<and>
      (\<forall>c. res = Some c \<longrightarrow> c \<in> set (inorder t) \<and> bavl_value tr c = v)"
proof (induction t)
  case (Node l c b r)
  have c: "valid (bavl_value tr c)" using Node.prems by simp
  have res: "BAVL_compare_values tr v (bavl_value tr c) = Some (cmp v (bavl_value tr c))"
    using cmp_range [OF v c] cmp by (auto simp: BAVL_compare_values_def)
  have side: "cmp (bavl_value tr c) v = - 1 \<Longrightarrow> \<forall>m\<in>insert c (set (inorder l)). bavl_value tr m \<noteq> v"
    "cmp v (bavl_value tr c) = - 1 \<Longrightarrow> \<forall>m\<in>insert c (set (inorder r)). bavl_value tr m \<noteq> v"
    using other_side [OF cmp v Node.prems(1,2) [unfolded inorder.simps]] cmp_refl [OF v] by fastforce+
  have sub: "sorted_wrt (bavl_less tr) (inorder l)" "sorted_wrt (bavl_less tr) (inorder r)"
    using Node.prems(1) by (simp_all add: sorted_wrt_append)
  from v c show ?case
  proof (cases rule: cmp_cases)
    case 1
    then show ?thesis
      using Node.IH(1) [OF sub(1)] Node.prems(2) side(2) res by (cases "l = Leaf") (auto simp: Let_def)
  next
    case 2
    then show ?thesis using res c by auto
  next
    case 3
    then show ?thesis
      using Node.IH(2) [OF sub(2)] Node.prems(2) side(1) res by (cases "r = Leaf") (auto simp: Let_def)
  qed
qed simp

lemma LookupExact_find:
  assumes "ordered_tree tr" "valid v"
  shows "BAVL_LookupExact tr v = Some (bavl_find tr v)"
proof -
  obtain res where "BAVL_lookup_loop tr v True (bavl_root tr) = Some res"
    "res = None \<longrightarrow> (\<forall>m\<in>set (bavl_nodes tr). bavl_value tr m \<noteq> v)"
    "\<forall>c. res = Some c \<longrightarrow> c \<in> set (bavl_nodes tr) \<and> bavl_value tr c = v"
    using lookup_loop [of tr v "bavl_root tr"] assms
    by (auto simp: ordered_tree_def bavl_ok_def bavl_nodes_def)
  moreover from this have "res = bavl_find tr v"
    using find_eq_Some [OF assms(1), of v] find_eq_None [of tr v] by (cases res) metis+
  moreover have "bavl_root tr = Leaf \<Longrightarrow> bavl_find tr v = None"
    by (simp add: bavl_find_def bavl_nodes_def)
  ultimately show ?thesis by (simp add: BAVL_LookupExact_def)
qed

lemma insert_position:
  assumes cmp: "bavl_comparator tr = cmp" and v: "valid (bavl_value tr n)"
  shows "sorted_wrt (bavl_less tr) (inorder t) \<Longrightarrow> \<forall>m\<in>set (inorder t). valid (bavl_value tr m) \<Longrightarrow>
    \<forall>m\<in>set (inorder t). bavl_value tr m \<noteq> bavl_value tr n \<Longrightarrow> balanced t \<Longrightarrow> ctx_ok (height t) ctx \<Longrightarrow>
    \<forall>m\<in>set (before ctx). bavl_less tr m n \<Longrightarrow> \<forall>m\<in>set (after ctx). bavl_less tr n m \<Longrightarrow>
    \<exists>ctx'. BAVL_insert_position tr n t ctx = Some (Inr ctx') \<and> ctx_ok 0 ctx' \<and> (ctx \<noteq> [] \<or> t \<noteq> Leaf \<longrightarrow> ctx' \<noteq> []) \<and>
    before ctx' @ after ctx' = before ctx @ inorder t @ after ctx \<and>
    (\<forall>m\<in>set (before ctx'). bavl_less tr m n) \<and> (\<forall>m\<in>set (after ctx'). bavl_less tr n m)"
proof (induction t arbitrary: ctx)
  case (Node l c b r)
  have c: "valid (bavl_value tr c)" using Node.prems by simp
  have res: "BAVL_compare_nodes tr n c = Some (cmp (bavl_value tr n) (bavl_value tr c))"
    using cmp_range [OF v c] cmp by (auto simp: BAVL_compare_values_def BAVL_compare_nodes_def)
  have side: "cmp (bavl_value tr c) (bavl_value tr n) = - 1 \<Longrightarrow> \<forall>m\<in>insert c (set (inorder l)). bavl_less tr m n"
    "cmp (bavl_value tr n) (bavl_value tr c) = - 1 \<Longrightarrow> \<forall>m\<in>insert c (set (inorder r)). bavl_less tr n m"
    unfolding bavl_less_def cmp
    using other_side [OF cmp v Node.prems(1,2) [unfolded inorder.simps]] by blast+
  have sub: "sorted_wrt (bavl_less tr) (inorder l)" "sorted_wrt (bavl_less tr) (inorder r)"
    using Node.prems(1) by (simp_all add: sorted_wrt_append)
  from v c show ?case
  proof (cases rule: cmp_cases)
    case 1
    let ?ctx = "(False, b, c, r) # ctx"
    have "\<forall>m\<in>set (after ?ctx). bavl_less tr n m" "ctx_ok (height l) ?ctx"
      using side(2) [OF 1(1)] Node.prems(4,5,7) by auto
    then show ?thesis
      using Node.IH(1) [OF sub(1), of ?ctx] Node.prems(2-6) res 1(1) by simp
  next
    case 2
    then show ?thesis using Node.prems(3) by auto
  next
    case 3
    let ?ctx = "(True, b, c, l) # ctx"
    have "\<forall>m\<in>set (before ?ctx). bavl_less tr m n" "ctx_ok (height r) ?ctx"
      using side(1) [OF 3(2)] Node.prems(4,5,6) by (auto simp: max.commute)
    then show ?thesis
      using Node.IH(2) [OF sub(2), of ?ctx] Node.prems(2-5,7) res 3(1) by simp
  qed
qed simp

lemma insert_equal:
  assumes cmp: "bavl_comparator tr = cmp" and v: "valid (bavl_value tr n)"
  shows "sorted_wrt (bavl_less tr) (inorder t) \<Longrightarrow> \<forall>m\<in>set (inorder t). valid (bavl_value tr m) \<Longrightarrow>
    c \<in> set (inorder t) \<Longrightarrow> bavl_value tr c = bavl_value tr n \<Longrightarrow>
    \<exists>c'. BAVL_insert_position tr n t ctx = Some (Inl c') \<and> c' \<in> set (inorder t) \<and>
      bavl_value tr c' = bavl_value tr n"
proof (induction t arbitrary: ctx)
  case (Node l d b r)
  have d: "valid (bavl_value tr d)" using Node.prems by simp
  have res: "BAVL_compare_nodes tr n d = Some (cmp (bavl_value tr n) (bavl_value tr d))"
    using cmp_range [OF v d] cmp by (auto simp: BAVL_compare_values_def BAVL_compare_nodes_def)
  note side = other_side [OF cmp v, of l d r c]
  from v d show ?case
  proof (cases rule: cmp_cases)
    case 1
    then have "c \<in> set (inorder l)" using side(2) Node.prems v by fastforce
    then show ?thesis using Node.IH(1) [of "(False, b, d, r) # ctx"] Node.prems 1 res by (auto simp: sorted_wrt_append)
  next
    case 2
    then show ?thesis using res v by simp
  next
    case 3
    then have "c \<in> set (inorder r)" using side(1) Node.prems v by fastforce
    then show ?thesis using Node.IH(2) [of "(True, b, d, l) # ctx"] Node.prems 3 res by (auto simp: sorted_wrt_append)
  qed
qed simp

lemma Insert_equal:
  assumes ok: "ordered_tree tr" and v: "valid (bavl_value tr n)" and c: "bavl_find tr (bavl_value tr n) = Some c"
  shows "BAVL_Insert tr n = Some (tr, False, Some c)"
proof -
  have "c \<in> set (inorder (bavl_root tr))" "bavl_value tr c = bavl_value tr n"
    using c find_eq_Some [OF ok] by (auto simp: bavl_nodes_def)
  then obtain c' where "BAVL_insert_position tr n (bavl_root tr) [] = Some (Inl c')"
    "c' \<in> set (bavl_nodes tr)" "bavl_value tr c' = bavl_value tr n"
    using insert_equal [of tr n "bavl_root tr" c "[]"] ok v
    by (auto simp: ordered_tree_def bavl_ok_def bavl_nodes_def)
  moreover have "c' = c" using calculation(2,3) c find_eq_Some [OF ok, of "bavl_value tr n" c'] by simp
  moreover have "bavl_root tr \<noteq> Leaf" using calculation(2) by (auto simp: bavl_nodes_def)
  ultimately show ?thesis by (simp add: BAVL_Insert_def)
qed

lemma Insert_new:
  assumes ok: "ordered_tree tr" and v: "valid (bavl_value tr n)" and new: "bavl_find tr (bavl_value tr n) = None"
  shows "\<exists>t ref. BAVL_Insert tr n = Some (tr\<lparr>bavl_root := t\<rparr>, True, ref) \<and> ordered_tree (tr\<lparr>bavl_root := t\<rparr>) \<and>
    (\<exists>xs ys. bavl_nodes tr = xs @ ys \<and> inorder t = xs @ n # ys)"
proof (cases "bavl_root tr = Leaf")
  case True
  then show ?thesis
    using ok v by (auto simp: BAVL_Insert_def ordered_tree_def bavl_ok_def bavl_nodes_def)
next
  case False
  have s: "sorted_wrt (bavl_less tr) (bavl_nodes tr)" "\<forall>m\<in>set (bavl_nodes tr). valid (bavl_value tr m)"
    "balanced (bavl_root tr)" "bavl_comparator tr = cmp" using ok by (auto simp: ordered_tree_def bavl_ok_def)
  obtain ctx where ctx: "BAVL_insert_position tr n (bavl_root tr) [] = Some (Inr ctx)" "ctx_ok 0 ctx" "ctx \<noteq> []"
    "before ctx @ after ctx = bavl_nodes tr"
    "\<forall>m\<in>set (before ctx). bavl_less tr m n" "\<forall>m\<in>set (after ctx). bavl_less tr n m"
    using insert_position [OF s(4) v, of "bavl_root tr" "[]"] s False new find_eq_None [of tr]
    by (auto simp: bavl_nodes_def)
  obtain t where t: "BAVL_rebalance ctx (Node Leaf n 0 Leaf) 1 = Some t" "balanced t"
    "inorder t = before ctx @ n # after ctx"
    using rebalance_ok [of "Node Leaf n 0 Leaf" 0 1 ctx] ctx(2) by auto
  have "sorted_wrt (bavl_less tr) (inorder t)"
    using s(1) [folded ctx(4)] ctx(5,6) t(3) by (simp add: sorted_wrt_append)
  moreover have "\<forall>m\<in>set (inorder t). valid (bavl_value tr m)"
    using s(2) [folded ctx(4)] v t(3) by auto
  ultimately have "ordered_tree (tr\<lparr>bavl_root := t\<rparr>)"
    using s(4) t(2) by (auto simp: ordered_tree_def bavl_ok_def bavl_less_def bavl_nodes_def)
  moreover have "BAVL_Insert tr n = Some (tr\<lparr>bavl_root := t\<rparr>, True, Some (fst (snd (snd (hd ctx)))))"
    using ctx(1) t(1) False by (simp add: BAVL_Insert_def)
  ultimately show ?thesis using ctx(4) [symmetric] t(3) by blast
qed

lemma Remove_ok:
  assumes ok: "ordered_tree tr" and n: "n \<in> set (bavl_nodes tr)"
  shows "\<exists>t. BAVL_Remove tr n = Some (tr\<lparr>bavl_root := t\<rparr>) \<and> ordered_tree (tr\<lparr>bavl_root := t\<rparr>) \<and>
    inorder t = remove1 n (bavl_nodes tr)"
proof -
  obtain xs ys where xs: "bavl_nodes tr = xs @ n # ys" using n by (meson split_list)
  then have d: "n \<notin> set xs" "n \<notin> set ys" using nodes_distinct(1) [OF ok] by auto
  have b: "balanced (bavl_root tr)" using ok by (simp add: ordered_tree_def bavl_ok_def)
  obtain t where t: "BAVL_Remove tr n = Some (tr\<lparr>bavl_root := t\<rparr>)" "balanced t" "inorder t = xs @ ys"
    using Remove_position [OF b xs d] by auto
  then have "ordered_tree (tr\<lparr>bavl_root := t\<rparr>)"
    using ok xs by (auto simp: ordered_tree_def bavl_ok_def bavl_less_def bavl_nodes_def sorted_wrt_append)
  then show ?thesis using t xs d by (auto simp: remove1_append)
qed

lemma assert_recurser:
  assumes cmp: "bavl_comparator tr = cmp"
  shows "sorted_wrt (bavl_less tr) (inorder t) \<Longrightarrow> \<forall>n\<in>set (inorder t). valid (bavl_value tr n) \<Longrightarrow>
    balanced t \<Longrightarrow> BAVL_assert_recurser tr t = Some (height t)"
proof (induction t)
  case (Node l n b r)
  have "BAVL_compare_nodes tr m n = Some (- 1)" if "m \<in> set (inorder l)" for m
    using that Node.prems(1) by (auto simp: sorted_wrt_append bavl_less_def BAVL_compare_nodes_def BAVL_compare_values_def)
  moreover have "BAVL_compare_nodes tr m n = Some 1" if "m \<in> set (inorder r)" for m
  proof -
    have "cmp (bavl_value tr n) (bavl_value tr m) = - 1" "valid (bavl_value tr m)" "valid (bavl_value tr n)"
      using that Node.prems(1,2) cmp by (auto simp: sorted_wrt_append bavl_less_def)
    then show ?thesis
      using cmp_greater cmp by (simp add: BAVL_compare_nodes_def BAVL_compare_values_def)
  qed
  ultimately show ?case
    using Node by (auto simp: sorted_wrt_append Let_def BAVL_MAX_def max_def split: avl.splits)
qed simp

lemma Verify_ok: "ordered_tree tr \<Longrightarrow> BAVL_Verify tr"
  using assert_recurser [of tr "bavl_root tr"]
  by (auto simp: BAVL_Verify_def ordered_tree_def bavl_ok_def bavl_nodes_def)

end

section \<open>What the tree promises\<close>

locale node_set =
  fixes ok :: "'t \<Rightarrow> bool" and nodes :: "'t \<Rightarrow> 'n set" and key :: "'t \<Rightarrow> 'n \<Rightarrow> 'v" and valid :: "'v \<Rightarrow> bool"
    and ins :: "'t \<Rightarrow> 'n \<Rightarrow> ('t \<times> bool \<times> 'n option) option" and del :: "'t \<Rightarrow> 'n \<Rightarrow> 't option"
    and look :: "'t \<Rightarrow> 'v \<Rightarrow> 'n option option"
  assumes look: "ok t \<Longrightarrow> valid v \<Longrightarrow> \<exists>r. look t v = Some r \<and> (\<forall>n. r = Some n \<longleftrightarrow> n \<in> nodes t \<and> key t n = v)"
    and ins_new: "ok t \<Longrightarrow> valid (key t n) \<Longrightarrow> \<forall>m\<in>nodes t. key t m \<noteq> key t n \<Longrightarrow>
      \<exists>t' ref. ins t n = Some (t', True, ref) \<and> ok t' \<and> nodes t' = insert n (nodes t) \<and> key t' = key t"
    and ins_old: "ok t \<Longrightarrow> valid (key t n) \<Longrightarrow> m \<in> nodes t \<Longrightarrow> key t m = key t n \<Longrightarrow> ins t n = Some (t, False, Some m)"
    and del: "ok t \<Longrightarrow> n \<in> nodes t \<Longrightarrow> \<exists>t'. del t n = Some t' \<and> ok t' \<and> nodes t' = nodes t - {n} \<and> key t' = key t"
    and valid_nodes: "ok t \<Longrightarrow> n \<in> nodes t \<Longrightarrow> valid (key t n)"
begin

lemma look_unique: "ok t \<Longrightarrow> m \<in> nodes t \<Longrightarrow> n \<in> nodes t \<Longrightarrow> key t m = key t n \<Longrightarrow> m = n"
  using look [of t "key t n"] valid_nodes [of t n] by (metis option.inject)

lemma look_Some: "ok t \<Longrightarrow> n \<in> nodes t \<Longrightarrow> look t (key t n) = Some (Some n)"
  using look [of t "key t n"] valid_nodes [of t n] by metis

lemma look_None: "ok t \<Longrightarrow> valid v \<Longrightarrow> look t v = Some None \<longleftrightarrow> (\<forall>n\<in>nodes t. key t n \<noteq> v)"
  using look [of t v] by (metis not_None_eq option.inject)

lemma look_ins:
  assumes "ok t" "valid (key t n)" "valid v" "ins t n = Some (t', True, ref)"
  shows "look t' v = (if v = key t n then Some (Some n) else look t v)"
proof -
  have new: "\<forall>m\<in>nodes t. key t m \<noteq> key t n" using ins_old [of t n] assms by fastforce
  then have t': "ok t'" "nodes t' = insert n (nodes t)" "key t' = key t" using ins_new [of t n] assms by auto
  show ?thesis
  proof (cases "v = key t n")
    case True
    then show ?thesis using look_Some [of t' n] t' by simp
  next
    case False
    obtain r r' where "look t v = Some r" "\<forall>n. r = Some n \<longleftrightarrow> n \<in> nodes t \<and> key t n = v"
      "look t' v = Some r'" "\<forall>n. r' = Some n \<longleftrightarrow> n \<in> nodes t' \<and> key t' n = v"
      using look [of t v] look [of t' v] assms(1,3) t'(1) by blast
    then show ?thesis using False t' by (cases r; cases r') auto
  qed
qed

lemma look_del:
  assumes "ok t" "n \<in> nodes t" "valid v" "del t n = Some t'"
  shows "look t' v = (if v = key t n then Some None else look t v)"
proof -
  have t': "ok t'" "nodes t' = nodes t - {n}" "key t' = key t" using del [of t n] assms by auto
  obtain r r' where "look t v = Some r" "\<forall>m. r = Some m \<longleftrightarrow> m \<in> nodes t \<and> key t m = v"
    "look t' v = Some r'" "\<forall>m. r' = Some m \<longleftrightarrow> m \<in> nodes t' \<and> key t' m = v"
    using look [of t v] look [of t' v] assms(1,3) t'(1) by blast
  moreover have "m \<notin> nodes t'" if "v = key t n" "key t' m = v" for m
    using look_unique [OF assms(1) _ assms(2), of m] that t'(2,3) by auto
  ultimately show ?thesis
  proof (cases "v = key t n")
    case True
    then show ?thesis using \<open>look t' v = Some r'\<close> \<open>\<forall>m. r' = Some m \<longleftrightarrow> m \<in> nodes t' \<and> key t' m = v\<close>
        \<open>\<And>m. v = key t n \<Longrightarrow> key t' m = v \<Longrightarrow> m \<notin> nodes t'\<close> by (cases r') auto
  next
    case False
    then have "r = r'" using \<open>\<forall>m. r = Some m \<longleftrightarrow> m \<in> nodes t \<and> key t m = v\<close>
        \<open>\<forall>m. r' = Some m \<longleftrightarrow> m \<in> nodes t' \<and> key t' m = v\<close> t'(2,3) by (cases r; cases r') auto
    then show ?thesis using False \<open>look t v = Some r\<close> \<open>look t' v = Some r'\<close> by simp
  qed
qed

end

sublocale total_comparator \<subseteq> tree: node_set ordered_tree "\<lambda>tr. set (bavl_nodes tr)" bavl_value valid
  BAVL_Insert BAVL_Remove BAVL_LookupExact
proof
  fix tr :: "('n, 'v) BAVL" and v :: 'v and m n :: 'n
  show "\<exists>r. BAVL_LookupExact tr v = Some r \<and> (\<forall>n. r = Some n \<longleftrightarrow> n \<in> set (bavl_nodes tr) \<and> bavl_value tr n = v)"
    if "ordered_tree tr" "valid v" using LookupExact_find [OF that] find_eq_Some [OF that(1)] by auto
  show "\<exists>t' ref. BAVL_Insert tr n = Some (t', True, ref) \<and> ordered_tree t' \<and>
      set (bavl_nodes t') = insert n (set (bavl_nodes tr)) \<and> bavl_value t' = bavl_value tr"
    if "ordered_tree tr" "valid (bavl_value tr n)" "\<forall>m\<in>set (bavl_nodes tr). bavl_value tr m \<noteq> bavl_value tr n"
  proof -
    note prems = that
    have "bavl_find tr (bavl_value tr n) = None" using that(3) by (simp add: find_eq_None)
    then obtain t ref xs ys where "BAVL_Insert tr n = Some (tr\<lparr>bavl_root := t\<rparr>, True, ref)"
      "ordered_tree (tr\<lparr>bavl_root := t\<rparr>)" "bavl_nodes tr = xs @ ys" "inorder t = xs @ n # ys"
      using Insert_new [OF prems(1,2)] by blast
    then show ?thesis by simp
  qed
  show "BAVL_Insert tr n = Some (tr, False, Some m)"
    if "ordered_tree tr" "valid (bavl_value tr n)" "m \<in> set (bavl_nodes tr)" "bavl_value tr m = bavl_value tr n"
    using Insert_equal [OF that(1,2)] that(3,4) find_eq_Some [OF that(1)] by blast
  show "\<exists>t'. BAVL_Remove tr n = Some t' \<and> ordered_tree t' \<and> set (bavl_nodes t') = set (bavl_nodes tr) - {n} \<and>
      bavl_value t' = bavl_value tr"
    if "ordered_tree tr" "n \<in> set (bavl_nodes tr)"
  proof -
    note prems = that
    obtain t where "BAVL_Remove tr n = Some (tr\<lparr>bavl_root := t\<rparr>)" "ordered_tree (tr\<lparr>bavl_root := t\<rparr>)"
      "inorder t = remove1 n (bavl_nodes tr)" using Remove_ok [OF prems] by blast
    then show ?thesis using nodes_distinct(1) [OF prems(1)] by simp
  qed
  show "valid (bavl_value tr n)" if "ordered_tree tr" "n \<in> set (bavl_nodes tr)"
    using that by (simp add: ordered_tree_def bavl_ok_def)
qed

section \<open>Properties\<close>

datatype 'n bavl_op = Bavl_Insert 'n | Bavl_Remove 'n

fun bavl_run :: "('n, 'v) BAVL \<Rightarrow> 'n bavl_op list \<Rightarrow> ('n, 'v) BAVL option" where
  "bavl_run tr [] = Some tr"
| "bavl_run tr (Bavl_Insert n # ops) =
     (case BAVL_Insert tr n of None \<Rightarrow> None | Some (tr', _, _) \<Rightarrow> bavl_run tr' ops)"
| "bavl_run tr (Bavl_Remove n # ops) =
     (case BAVL_Remove tr n of None \<Rightarrow> None | Some tr' \<Rightarrow> bavl_run tr' ops)"

text \<open>The specification: a set of nodes with distinct values; only nodes in the set are removed.\<close>

fun set_run :: "('n \<Rightarrow> 'v) \<Rightarrow> 'n set \<Rightarrow> 'n bavl_op list \<Rightarrow> 'n set option" where
  "set_run value S [] = Some S"
| "set_run value S (Bavl_Insert n # ops) =
     set_run value (if value n \<in> value ` S then S else insert n S) ops"
| "set_run value S (Bavl_Remove n # ops) = (if n \<in> S then set_run value (S - {n}) ops else None)"

fun op_node :: "'n bavl_op \<Rightarrow> 'n" where
  "op_node (Bavl_Insert n) = n"
| "op_node (Bavl_Remove n) = n"

context total_comparator
begin

lemma run_refines:
  "ordered_tree tr \<Longrightarrow> \<forall>op\<in>set ops. valid (bavl_value tr (op_node op)) \<Longrightarrow>
   set_run (bavl_value tr) (set (bavl_nodes tr)) ops = Some S \<Longrightarrow>
   \<exists>tr'. bavl_run tr ops = Some tr' \<and> ordered_tree tr' \<and> set (bavl_nodes tr') = S \<and> bavl_value tr' = bavl_value tr"
proof (induction ops arbitrary: tr)
  case (Cons op ops)
  show ?case
  proof (cases op)
    case (Bavl_Insert n)
    show ?thesis
    proof (cases "bavl_value tr n \<in> bavl_value tr ` set (bavl_nodes tr)")
      case True
      then obtain m where "m \<in> set (bavl_nodes tr)" "bavl_value tr m = bavl_value tr n" by auto
      then have "BAVL_Insert tr n = Some (tr, False, Some m)"
        using tree.ins_old Cons.prems Bavl_Insert by auto
      then show ?thesis using Cons Bavl_Insert True by simp
    next
      case False
      then obtain tr' ref where "BAVL_Insert tr n = Some (tr', True, ref)" "ordered_tree tr'"
        "set (bavl_nodes tr') = insert n (set (bavl_nodes tr))" "bavl_value tr' = bavl_value tr"
        using tree.ins_new [of tr n] Cons.prems(1,2) Bavl_Insert by (auto simp: image_iff) metis
      then show ?thesis using Cons.IH [of tr'] Cons.prems Bavl_Insert False by simp
    qed
  next
    case (Bavl_Remove n)
    then have "n \<in> set (bavl_nodes tr)" using Cons.prems(3) by (auto split: if_splits)
    then obtain tr' where "BAVL_Remove tr n = Some tr'" "ordered_tree tr'"
      "set (bavl_nodes tr') = set (bavl_nodes tr) - {n}" "bavl_value tr' = bavl_value tr"
      using tree.del [of tr n] Cons.prems by auto
    then show ?thesis using Cons.IH [of tr'] Cons.prems Bavl_Remove by (simp split: if_splits)
  qed
qed simp

lemma GetNext_ok:
  assumes ok: "ordered_tree tr" and n: "bavl_nodes tr = xs @ n # ys"
  shows "BAVL_GetNext tr n = Some (if ys = [] then None else Some (hd ys)) \<and>
    BAVL_GetPrev tr n = Some (if xs = [] then None else Some (last xs))"
proof -
  obtain ctx t where p: "BAVL_position n (bavl_root tr) [] = Some (ctx, t)"
    using position_None [of n "bavl_root tr" "[]"] n
    by (cases "BAVL_position n (bavl_root tr) []") (auto simp: bavl_nodes_def)
  then obtain l b r where t: "t = Node l n b r" "plug ctx t = bavl_root tr" using position_Some by fastforce
  have "xs @ n # ys = (before ctx @ inorder l) @ n # (inorder r @ after ctx)"
    using inorder_plug [of ctx t] t n by (simp add: bavl_nodes_def)
  moreover have "n \<notin> set xs" "n \<notin> set ys" using nodes_distinct(1) [OF ok] n by auto
  ultimately have "xs = before ctx @ inorder l" "ys = inorder r @ after ctx"
    using append_Cons_eq_iff [of n xs ys "before ctx @ inorder l" "inorder r @ after ctx"] by metis+
  then show ?thesis
    by (simp add: BAVL_GetNext_def BAVL_GetPrev_def p t(1) end_node_inorder climb_eq hd_append last_append)
qed

end

lemma height_bound: "balanced t \<Longrightarrow> 2 ^ nat (height t) \<le> (length (inorder t) + 1) ^ 2"
proof (induction t)
  case (Node l n b r)
  let ?L = "length (inorder l) + 1" and ?R = "length (inorder r) + 1"
  define m where "m = nat (height (Node l n b r)) - 2"
  have hl: "m \<le> nat (height l)" "m \<le> nat (height r)" "nat (height (Node l n b r)) \<le> m + 2"
    using Node.prems height_nonneg [of l] height_nonneg [of r] by (auto simp: m_def max_def)
  have "(2 :: nat) ^ m \<le> ?L ^ 2" "(2 :: nat) ^ m \<le> ?R ^ 2"
    using order_trans [OF power_increasing [OF hl(1), of "2 :: nat"] Node.IH(1)]
      order_trans [OF power_increasing [OF hl(2), of "2 :: nat"] Node.IH(2)] Node.prems by auto
  then obtain k where k: "2 ^ m \<le> k ^ 2" "k \<le> ?L" "k \<le> ?R" by (metis linear)
  have "2 ^ (m + 2) \<le> (2 * k) ^ 2" using k(1) by (simp add: power_mult_distrib)
  also have "\<dots> \<le> (?L + ?R) ^ 2" using k(2,3) by (intro power_mono) auto
  finally have "2 ^ (m + 2) \<le> (length (inorder (Node l n b r)) + 1) ^ 2" by simp
  moreover have "(2 :: nat) ^ nat (height (Node l n b r)) \<le> 2 ^ (m + 2)" using hl(3) by (intro power_increasing) auto
  ultimately show ?case by (rule order_trans [rotated])
qed simp

text \<open>C8. With any comparator that is a total order, a sequence of insertions and removals on a
  BAVL acts on the set of nodes as the specification says: a node whose value is taken is not
  inserted, removing takes out exactly that node. No assertion fails on the way, the tree
  passes its own verification (order, balance factors), and the exact lookup of a value
  returns the node that has it, or null.\<close>

theorem BAVL_refines_set:
  assumes "total_comparator cmp valid" "\<forall>op\<in>set ops. valid (value (op_node op))" "set_run value {} ops = Some S"
  shows "\<exists>tr. bavl_run (BAVL_Init value cmp) ops = Some tr \<and> set (bavl_nodes tr) = S \<and>
    sorted_wrt (bavl_less tr) (bavl_nodes tr) \<and> BAVL_Verify tr \<and>
    (\<forall>v. valid v \<longrightarrow> (\<exists>r. BAVL_LookupExact tr v = Some r \<and> (\<forall>n. r = Some n \<longleftrightarrow> n \<in> S \<and> value n = v)))"
proof -
  note ordered = total_comparator.ordered_tree_def [OF assms(1)]
  have init: "bavl_value (BAVL_Init value cmp) = value" "bavl_comparator (BAVL_Init value cmp) = cmp"
    by (simp_all add: BAVL_Init_def)
  then have "total_comparator.ordered_tree cmp valid (BAVL_Init value cmp)"
    by (simp add: ordered bavl_ok_Init)
  then obtain tr where tr: "bavl_run (BAVL_Init value cmp) ops = Some tr"
    "total_comparator.ordered_tree cmp valid tr" "set (bavl_nodes tr) = S" "bavl_value tr = value"
    using total_comparator.run_refines [OF assms(1), of "BAVL_Init value cmp" ops S] assms(2,3)
    by (auto simp: init bavl_ok_Init)
  moreover have "sorted_wrt (bavl_less tr) (bavl_nodes tr)" using tr(2) by (simp add: ordered bavl_ok_def)
  moreover have "BAVL_Verify tr" using total_comparator.Verify_ok [OF assms(1) tr(2)] .
  moreover have "\<exists>r. BAVL_LookupExact tr v = Some r \<and> (\<forall>n. r = Some n \<longleftrightarrow> n \<in> S \<and> value n = v)" if "valid v" for v
    using total_comparator.LookupExact_find [OF assms(1) tr(2) that]
      total_comparator.find_eq_Some [OF assms(1) tr(2)] tr(3,4) by auto
  ultimately show ?thesis by blast
qed

theorem BAVL_refines_set_witness:
  "\<exists>tr. bavl_run (BAVL_Init id B_COMPARE) (map Bavl_Insert [5, 2, 8, 2, 9, 10] @ [Bavl_Remove 5]) = Some tr \<and>
     set (bavl_nodes tr) = {2, 8, 9, 10} \<and> BAVL_Verify tr \<and> BAVL_LookupExact tr 5 = Some None"
proof -
  let ?ops = "map Bavl_Insert [5, 2, 8, 2, 9, 10] @ [Bavl_Remove (5 :: int)]"
  have "set_run id {} ?ops = Some ({2, 8, 9, 10} :: int set)" by auto
  then obtain tr where tr: "bavl_run (BAVL_Init id B_COMPARE) ?ops = Some tr" "set (bavl_nodes tr) = {2, 8, 9, 10}"
    "BAVL_Verify tr" "\<exists>r. BAVL_LookupExact tr 5 = Some r \<and> (\<forall>n. r = Some n \<longleftrightarrow> n \<in> {2, 8, 9, 10} \<and> id n = 5)"
    using BAVL_refines_set [OF int_cmp.total_comparator_axioms, of ?ops id "{2, 8, 9, 10}"] by blast
  then obtain r where "BAVL_LookupExact tr 5 = Some r" "\<forall>n. r = Some n \<longleftrightarrow> n \<in> {2, 8, 9, 10} \<and> id n = 5" by blast
  then have "BAVL_LookupExact tr 5 = Some None" by (cases r) auto
  then show ?thesis using tr(1-3) by blast
qed

text \<open>In every tree built by such a sequence the traversal functions step through the nodes
  in order, from \<open>BAVL_GetFirst\<close> to \<open>BAVL_GetLast\<close> and back, and the depth is logarithmic:
  \<open>2\<^sup>h \<le> (n + 1)\<^sup>2\<close>.\<close>

theorem BAVL_traversal:
  assumes "total_comparator cmp valid" "\<forall>op\<in>set ops. valid (value (op_node op))" "set_run value {} ops = Some S"
    "bavl_run (BAVL_Init value cmp) ops = Some tr" "bavl_nodes tr = xs @ n # ys"
  shows "BAVL_GetFirst tr = Some (hd (bavl_nodes tr)) \<and> BAVL_GetLast tr = Some (last (bavl_nodes tr)) \<and>
    BAVL_GetNext tr n = Some (if ys = [] then None else Some (hd ys)) \<and>
    BAVL_GetPrev tr n = Some (if xs = [] then None else Some (last xs)) \<and>
    2 ^ nat (height (bavl_root tr)) \<le> (card S + 1) ^ 2"
proof -
  note ordered = total_comparator.ordered_tree_def [OF assms(1)]
  have init: "bavl_value (BAVL_Init value cmp) = value" "bavl_comparator (BAVL_Init value cmp) = cmp"
    by (simp_all add: BAVL_Init_def)
  have ok: "total_comparator.ordered_tree cmp valid tr" "set (bavl_nodes tr) = S"
    using total_comparator.run_refines [OF assms(1), of "BAVL_Init value cmp" ops S] assms(2-4)
    by (auto simp: init bavl_ok_Init ordered)
  have "bavl_root tr \<noteq> Leaf" using assms(5) by (auto simp: bavl_nodes_def)
  then have "BAVL_GetFirst tr = Some (hd (bavl_nodes tr))" "BAVL_GetLast tr = Some (last (bavl_nodes tr))"
    by (simp_all add: BAVL_GetFirst_def BAVL_GetLast_def end_node_inorder bavl_nodes_def)
  moreover have "card S = length (bavl_nodes tr)"
    using total_comparator.nodes_distinct(1) [OF assms(1) ok(1)] ok(2) distinct_card by metis
  then have "2 ^ nat (height (bavl_root tr)) \<le> (card S + 1) ^ 2"
    using height_bound [of "bavl_root tr"] ok(1) by (simp add: ordered bavl_ok_def bavl_nodes_def)
  ultimately show ?thesis using total_comparator.GetNext_ok [OF assms(1) ok(1) assms(5)] by blast
qed

end
