(* ===== verification/Socket_Addresses.thy ===== *)
theory Socket_Addresses
  imports Parse_Numbers Avl_Tree
begin

text \<open>
  IP and socket addresses, \<^verbatim>\<open>system/BAddr.h\<close>. The tagged unions \<^verbatim>\<open>BIPAddr\<close> and \<^verbatim>\<open>BAddr\<close> are
  datatypes, with the addresses and ports in network order as in the code; their type
  tags are always one of the cases, so \<^verbatim>\<open>BIPAddr_Assert\<close> and \<^verbatim>\<open>BAddr_Assert\<close> hold.
  \<^verbatim>\<open>getaddrinfo\<close> is a parameter: a function from the family, the \<^verbatim>\<open>AI_NUMERICHOST\<close> flag and
  the host text to the first address found.
\<close>

section \<open>Types\<close>

definition BADDR_TYPE_NONE :: int where "BADDR_TYPE_NONE = 0"
definition BADDR_TYPE_IPV4 :: int where "BADDR_TYPE_IPV4 = 1"
definition BADDR_TYPE_IPV6 :: int where "BADDR_TYPE_IPV6 = 2"
definition BADDR_TYPE_PACKET :: int where "BADDR_TYPE_PACKET = 5"
definition BADDR_MAX_ADDR_LEN :: nat where "BADDR_MAX_ADDR_LEN = 128"
definition BADDR_PACKET_HEADER_TYPE_ETHERNET :: int where "BADDR_PACKET_HEADER_TYPE_ETHERNET = 1"

datatype BIPAddr = BIPAddr_None | BIPAddr_IPv4 u32 | BIPAddr_IPv6 bytes

datatype BAddr =
  BAddr_None
| BAddr_IPv4 (ipv4_ip: u32) (ipv4_port: u16)
| BAddr_IPv6 (ipv6_ip: bytes) (ipv6_port: u16)
| BAddr_Packet (phys_proto: u16) (interface_index: int) (header_type: int) (packet_type: int) (phys_addr: bytes)

record resolver =
  resolve4 :: "bool \<Rightarrow> string \<Rightarrow> u32 option"
  resolve6 :: "bool \<Rightarrow> string \<Rightarrow> bytes option"

fun BAddr_type :: "BAddr \<Rightarrow> int" where
  "BAddr_type BAddr_None = BADDR_TYPE_NONE"
| "BAddr_type (BAddr_IPv4 ip port) = BADDR_TYPE_IPV4"
| "BAddr_type (BAddr_IPv6 ip port) = BADDR_TYPE_IPV6"
| "BAddr_type (BAddr_Packet proto index htype ptype addr) = BADDR_TYPE_PACKET"

section \<open>IP addresses\<close>

definition BIPAddr_InitInvalid :: BIPAddr where
  "BIPAddr_InitInvalid = BIPAddr_None"

definition BIPAddr_InitIPv4 :: "u32 \<Rightarrow> BIPAddr" where
  "BIPAddr_InitIPv4 ip = BIPAddr_IPv4 ip"

definition BIPAddr_InitIPv6 :: "bytes \<Rightarrow> BIPAddr" where
  "BIPAddr_InitIPv6 ip = BIPAddr_IPv6 (take 16 ip)"

definition BIPAddr_IsInvalid :: "BIPAddr \<Rightarrow> bool" where
  "BIPAddr_IsInvalid addr \<longleftrightarrow> addr = BIPAddr_None"

definition BIPAddr_Resolve :: "resolver \<Rightarrow> string \<Rightarrow> bool \<Rightarrow> BIPAddr option" where
  "BIPAddr_Resolve getaddrinfo str noresolve =
     (let len = length str;
          ip6 = (len \<ge> 1 \<and> str ! 0 = CHR ''['' \<and> str ! (len - 1) = CHR '']'');
          addr_str = (if ip6 then take (len - 2) (drop 1 str) else str)
      in if length addr_str > BADDR_MAX_ADDR_LEN then None
         else if ip6 then map_option BIPAddr_IPv6 (resolve6 getaddrinfo noresolve addr_str)
         else map_option BIPAddr_IPv4 (resolve4 getaddrinfo noresolve addr_str))"

fun BIPAddr_Compare :: "BIPAddr \<Rightarrow> BIPAddr \<Rightarrow> bool" where
  "BIPAddr_Compare (BIPAddr_IPv4 a) (BIPAddr_IPv4 b) \<longleftrightarrow> a = b"
| "BIPAddr_Compare (BIPAddr_IPv6 a) (BIPAddr_IPv6 b) \<longleftrightarrow> memcmp (map unat a) (map unat b) = 0"
| "BIPAddr_Compare _ _ \<longleftrightarrow> False"

text \<open>\<open>sprintf\<close> of an unsigned number in hexadecimal, and of an \<^verbatim>\<open>int\<close> in decimal.\<close>

definition hex_digit :: "nat \<Rightarrow> char" where
  "hex_digit d = char_of (if d < 10 then 48 + d else 87 + d)"

function print_hex :: "nat \<Rightarrow> string" where
  "print_hex n = (if n < 16 then [hex_digit n] else print_hex (n div 16) @ [hex_digit (n mod 16)])"
  by auto
termination by (relation "measure id") auto

declare print_hex.simps [simp del]

definition print_hex2 :: "byte \<Rightarrow> string" where
  "print_hex2 b = [hex_digit (unat b div 16), hex_digit (unat b mod 16)]"

definition print_int :: "int \<Rightarrow> string" where
  "print_int i = (if i < 0 then ''-'' @ print_dec (nat (- i)) else print_dec (nat i))"

fun BIPAddr_Print :: "BIPAddr \<Rightarrow> string" where
  "BIPAddr_Print BIPAddr_None = ''(none)''"
| "BIPAddr_Print (BIPAddr_IPv4 ip) =
     (let b = mem32 ip in
      print_dec (unat (b ! 0)) @ ''.'' @ print_dec (unat (b ! 1)) @ ''.'' @
      print_dec (unat (b ! 2)) @ ''.'' @ print_dec (unat (b ! 3)))"
| "BIPAddr_Print (BIPAddr_IPv6 ip) =
     (let w = (\<lambda>i. print_hex (unat (badvpn_read_be16 (drop i ip)))) in
      w 0 @ '':'' @ w 2 @ '':'' @ w 4 @ '':'' @ w 6 @ '':'' @ w 8 @ '':'' @ w 10 @ '':'' @ w 12 @ '':'' @ w 14)"

section \<open>Socket addresses\<close>

fun BAddr_GetPort :: "BAddr \<Rightarrow> u16 option" where
  "BAddr_GetPort (BAddr_IPv4 ip port) = Some port"
| "BAddr_GetPort (BAddr_IPv6 ip port) = Some port"
| "BAddr_GetPort _ = None"

fun BAddr_GetIPAddr :: "BAddr \<Rightarrow> BIPAddr" where
  "BAddr_GetIPAddr (BAddr_IPv4 ip port) = BIPAddr_InitIPv4 ip"
| "BAddr_GetIPAddr (BAddr_IPv6 ip port) = BIPAddr_InitIPv6 ip"
| "BAddr_GetIPAddr _ = BIPAddr_InitInvalid"

fun BAddr_SetPort :: "BAddr \<Rightarrow> u16 \<Rightarrow> BAddr option" where
  "BAddr_SetPort (BAddr_IPv4 ip _) port = Some (BAddr_IPv4 ip port)"
| "BAddr_SetPort (BAddr_IPv6 ip _) port = Some (BAddr_IPv6 ip port)"
| "BAddr_SetPort _ port = None"

definition BAddr_MakeNone :: BAddr where
  "BAddr_MakeNone = BAddr_None"

definition BAddr_MakeIPv4 :: "u32 \<Rightarrow> u16 \<Rightarrow> BAddr" where
  "BAddr_MakeIPv4 ip port = BAddr_IPv4 ip port"

definition BAddr_MakeIPv6 :: "bytes \<Rightarrow> u16 \<Rightarrow> BAddr" where
  "BAddr_MakeIPv6 ip port = BAddr_IPv6 (take 16 ip) port"

fun BAddr_MakeFromIpaddrAndPort :: "BIPAddr \<Rightarrow> u16 \<Rightarrow> BAddr" where
  "BAddr_MakeFromIpaddrAndPort BIPAddr_None port = BAddr_MakeNone"
| "BAddr_MakeFromIpaddrAndPort (BIPAddr_IPv4 ip) port = BAddr_MakeIPv4 ip port"
| "BAddr_MakeFromIpaddrAndPort (BIPAddr_IPv6 ip) port = BAddr_MakeIPv6 ip port"

definition BAddr_InitPacket :: "u16 \<Rightarrow> int \<Rightarrow> int \<Rightarrow> int \<Rightarrow> bytes \<Rightarrow> BAddr option" where
  "BAddr_InitPacket proto index htype ptype addr =
     require (htype = BADDR_PACKET_HEADER_TYPE_ETHERNET \<and> 1 \<le> ptype \<and> ptype \<le> 5)
       (BAddr_Packet proto index htype ptype (take 6 addr))"

definition BAddr_IsInvalid :: "BAddr \<Rightarrow> bool" where
  "BAddr_IsInvalid addr \<longleftrightarrow> addr = BAddr_None"

fun BAddr_Print :: "BAddr \<Rightarrow> string option" where
  "BAddr_Print BAddr_None = Some ''(none)''"
| "BAddr_Print (BAddr_IPv4 ip port) =
     Some (BIPAddr_Print (BIPAddr_InitIPv4 ip) @ '':'' @ print_dec (unat (ntoh16 port)))"
| "BAddr_Print (BAddr_IPv6 ip port) =
     Some (BIPAddr_Print (BIPAddr_InitIPv6 ip) @ '':'' @ print_dec (unat (ntoh16 port)))"
| "BAddr_Print (BAddr_Packet proto index htype ptype addr) =
     require (htype = BADDR_PACKET_HEADER_TYPE_ETHERNET)
       (''proto='' @ print_dec (unat proto) @ '',ifindex='' @ print_int index @ '',htype=eth,ptype='' @
        print_int ptype @ '',addr='' @ print_hex2 (addr ! 0) @ '':'' @ print_hex2 (addr ! 1) @ '':'' @
        print_hex2 (addr ! 2) @ '':'' @ print_hex2 (addr ! 3) @ '':'' @ print_hex2 (addr ! 4) @ '':'' @
        print_hex2 (addr ! 5))"

text \<open>\<open>strtol\<close> in base 10 on a text of a few characters: the value and the text after it, which
  is the whole text when there is no number.\<close>

definition is_space :: "char \<Rightarrow> bool" where
  "is_space c \<longleftrightarrow> c = CHR '' '' \<or> (9 \<le> char_code c \<and> char_code c \<le> 13)"

definition is_digit :: "char \<Rightarrow> bool" where
  "is_digit c \<longleftrightarrow> 48 \<le> char_code c \<and> char_code c \<le> 57"

definition strtol10 :: "string \<Rightarrow> int \<times> string" where
  "strtol10 s =
     (let t = dropWhile is_space s;
          neg = (t \<noteq> [] \<and> hd t = CHR ''-'');
          u = (if t \<noteq> [] \<and> (hd t = CHR ''-'' \<or> hd t = CHR ''+'') then tl t else t);
          ds = takeWhile is_digit u;
          v = foldl (\<lambda>n c. 10 * n + int (char_code c - 48)) 0 ds
      in if ds = [] then (0, s) else (if neg then - v else v, dropWhile is_digit u))"

text \<open>The result is the address and the host text copied to \<open>name\<close>; \<open>name_len\<close> is absent for a
  null \<open>name\<close>.\<close>

definition BAddr_Parse2 :: "resolver \<Rightarrow> string \<Rightarrow> nat option \<Rightarrow> bool \<Rightarrow> (BAddr \<times> string option) option" where
  "BAddr_Parse2 getaddrinfo str name_len noresolve =
     (let len = length str in
      if len < 1 \<or> len > 1000 then None
      else (case
        (if str ! 0 = CHR ''['' then
           (let i = 1 + length (takeWhile (\<lambda>c. c \<noteq> CHR '']'') (drop 1 str)) in
            if i \<ge> len then None
            else if i + 1 \<ge> len \<or> str ! (i + 1) \<noteq> CHR '':'' then None
            else Some (True, 1, i - 1, i + 2))
         else
           (let i = length (takeWhile (\<lambda>c. c \<noteq> CHR '':'') str) in
            if i \<ge> len then None else Some (False, 0, i, i + 1))) of
          None \<Rightarrow> None
        | Some (ip6, addr_start, addr_len, port_start) \<Rightarrow>
            let port_len = len - port_start in
            if addr_len \<ge> 128 then None
            else (let addr_str = take addr_len (drop addr_start str) in
              if port_len \<ge> 6 then None
              else (let port_str = drop port_start str; (conv_res, err) = strtol10 port_str in
                if port_str = [] \<or> err \<noteq> [] then None
                else if conv_res < 0 \<or> conv_res > UINT16_MAX then None
                else (let port = hton16 (of_int conv_res) in
                  case (if ip6 then map_option (\<lambda>ip. BAddr_IPv6 ip port) (resolve6 getaddrinfo noresolve addr_str)
                        else map_option (\<lambda>ip. BAddr_IPv4 ip port) (resolve4 getaddrinfo noresolve addr_str)) of
                    None \<Rightarrow> None
                  | Some addr \<Rightarrow>
                      (case name_len of
                         None \<Rightarrow> Some (addr, None)
                       | Some n \<Rightarrow> if length addr_str \<ge> n then None else Some (addr, Some addr_str)))))))"

definition BAddr_Parse :: "resolver \<Rightarrow> string \<Rightarrow> nat option \<Rightarrow> (BAddr \<times> string option) option" where
  "BAddr_Parse getaddrinfo str name_len = BAddr_Parse2 getaddrinfo str name_len False"

fun BAddr_Compare :: "BAddr \<Rightarrow> BAddr \<Rightarrow> bool" where
  "BAddr_Compare (BAddr_IPv4 ip1 port1) (BAddr_IPv4 ip2 port2) \<longleftrightarrow> ip1 = ip2 \<and> port1 = port2"
| "BAddr_Compare (BAddr_IPv6 ip1 port1) (BAddr_IPv6 ip2 port2) \<longleftrightarrow>
     memcmp (map unat ip1) (map unat ip2) = 0 \<and> port1 = port2"
| "BAddr_Compare _ _ \<longleftrightarrow> False"

definition BAddr_CompareOrder :: "BAddr \<Rightarrow> BAddr \<Rightarrow> int" where
  "BAddr_CompareOrder addr1 addr2 =
     (let cmp = B_COMPARE (BAddr_type addr1) (BAddr_type addr2) in
      if cmp \<noteq> 0 then cmp
      else (case (addr1, addr2) of
          (BAddr_None, BAddr_None) \<Rightarrow> 0
        | (BAddr_IPv4 ip1 port1, BAddr_IPv4 ip2 port2) \<Rightarrow>
            let cmp = B_COMPARE (uint (ntoh32 ip1)) (uint (ntoh32 ip2)) in
            if cmp \<noteq> 0 then cmp else B_COMPARE (uint (ntoh16 port1)) (uint (ntoh16 port2))
        | (BAddr_IPv6 ip1 port1, BAddr_IPv6 ip2 port2) \<Rightarrow>
            let cmp = memcmp (map unat ip1) (map unat ip2) in
            if cmp \<noteq> 0 then B_COMPARE cmp 0 else B_COMPARE (uint (ntoh16 port1)) (uint (ntoh16 port2))
        | _ \<Rightarrow> 0))"

section \<open>The order of addresses\<close>

lemma memcmp_range: "memcmp xs ys = - 1 \<or> memcmp xs ys = 0 \<or> memcmp xs ys = 1"
  by (induction xs ys rule: memcmp.induct) auto

lemma memcmp_swap: "memcmp ys xs = - memcmp xs ys"
  by (induction xs ys rule: memcmp.induct) (auto split: list.split)

lemma memcmp_eq: "length xs = length ys \<Longrightarrow> memcmp xs ys = 0 \<longleftrightarrow> xs = ys"
  by (induction xs ys rule: memcmp.induct) auto

lemma memcmp_trans: "memcmp xs ys = - 1 \<Longrightarrow> memcmp ys zs = - 1 \<Longrightarrow> memcmp xs zs = - 1"
proof (induction xs ys arbitrary: zs rule: memcmp.induct)
  case (1 a as b bs)
  from 1(3) obtain c cs where zs: "zs = c # cs" by (cases zs) auto
  have "a < b \<or> a = b \<and> memcmp as bs = - 1" using 1(2) by (simp split: if_splits)
  moreover have "b < c \<or> b = c \<and> memcmp bs cs = - 1" using 1(3) zs by (simp split: if_splits)
  ultimately show ?case using 1(1) [of cs] zs by auto
qed auto

lemma memcmp_append:
  "length xs = length ys \<Longrightarrow> memcmp (xs @ us) (ys @ vs) = (if memcmp xs ys \<noteq> 0 then memcmp xs ys else memcmp us vs)"
  by (induction xs ys rule: memcmp.induct) auto

fun baddr_ok :: "BAddr \<Rightarrow> bool" where
  "baddr_ok (BAddr_IPv6 ip port) \<longleftrightarrow> length ip = 16"
| "baddr_ok (BAddr_Packet _ _ _ _ _) \<longleftrightarrow> False"
| "baddr_ok _ \<longleftrightarrow> True"

text \<open>The order is the lexicographic one on the numbers an address consists of.\<close>

fun baddr_key :: "BAddr \<Rightarrow> nat list" where
  "baddr_key BAddr_None = [0]"
| "baddr_key (BAddr_IPv4 ip port) = [1, unat (ntoh32 ip), unat (ntoh16 port)]"
| "baddr_key (BAddr_IPv6 ip port) = 2 # map unat ip @ [unat (ntoh16 port)]"
| "baddr_key (BAddr_Packet _ _ _ _ _) = [5]"

lemma ntoh_inject: "ntoh32 a = ntoh32 b \<longleftrightarrow> a = b" "ntoh16 c = ntoh16 d \<longleftrightarrow> c = d"
  by (metis ntoh_hton(5)) (metis ntoh_hton(4))

lemma map_unat_inject: "map unat (xs :: bytes) = map unat ys \<longleftrightarrow> xs = ys"
  by (rule inj_map_eq_map) (simp add: inj_def word_unat_eq_iff)

lemma baddr_key_inject: "baddr_ok a \<Longrightarrow> baddr_ok b \<Longrightarrow> baddr_key a = baddr_key b \<longleftrightarrow> a = b"
  by (cases a; cases b) (auto simp: ntoh_inject map_unat_inject simp flip: word_unat_eq_iff)

lemma B_COMPARE_uint: "B_COMPARE (uint x) (uint y) = memcmp [unat x] [unat y]"
proof -
  have "uint x = int (unat x)" "uint y = int (unat y)" by simp_all
  then show ?thesis unfolding B_COMPARE_def by (simp only: of_nat_less_iff) simp
qed

lemma compare_key:
  assumes "baddr_ok a" "baddr_ok b"
  shows "BAddr_CompareOrder a b = memcmp (baddr_key a) (baddr_key b)"
proof (cases "BAddr_type a = BAddr_type b")
  case True
  then consider "a = BAddr_None" "b = BAddr_None"
    | ip1 p1 ip2 p2 where "a = BAddr_IPv4 ip1 p1" "b = BAddr_IPv4 ip2 p2"
    | ip1 p1 ip2 p2 where "a = BAddr_IPv6 ip1 p1" "b = BAddr_IPv6 ip2 p2"
    using assms by (cases a; cases b) (auto simp: BADDR_TYPE_NONE_def BADDR_TYPE_IPV4_def BADDR_TYPE_IPV6_def)
  then show ?thesis
  proof cases
    case 1
    then show ?thesis by (simp add: BAddr_CompareOrder_def B_COMPARE_def)
  next
    case 2
    have "B_COMPARE (BAddr_type a) (BAddr_type b) = 0" using True by (simp add: B_COMPARE_def)
    with 2 show ?thesis by (simp add: BAddr_CompareOrder_def B_COMPARE_uint Let_def del: BAddr_type.simps)
  next
    case 3
    have "B_COMPARE (BAddr_type a) (BAddr_type b) = 0" using True by (simp add: B_COMPARE_def)
    moreover have "B_COMPARE (memcmp xs ys) 0 = memcmp xs ys" for xs ys
      using memcmp_range [of xs ys] by (auto simp: B_COMPARE_def)
    ultimately show ?thesis using 3 assms
      by (simp add: BAddr_CompareOrder_def B_COMPARE_uint Let_def memcmp_append del: BAddr_type.simps)
  qed
next
  case False
  then show ?thesis
    using assms by (cases a; cases b)
      (simp_all add: BAddr_CompareOrder_def B_COMPARE_def BADDR_TYPE_NONE_def BADDR_TYPE_IPV4_def BADDR_TYPE_IPV6_def)
qed

interpretation baddr: total_comparator BAddr_CompareOrder baddr_ok
proof
  fix a b c :: BAddr
  assume a: "baddr_ok a" and b: "baddr_ok b"
  show "BAddr_CompareOrder a b = - 1 \<or> BAddr_CompareOrder a b = 0 \<or> BAddr_CompareOrder a b = 1"
    using memcmp_range by (simp add: compare_key a b)
  have "length (baddr_key a) = length (baddr_key b) \<or> memcmp (baddr_key a) (baddr_key b) \<noteq> 0"
    using a b by (cases a; cases b) auto
  then show "BAddr_CompareOrder a b = 0 \<longleftrightarrow> a = b"
    using memcmp_eq [of "baddr_key a" "baddr_key b"] baddr_key_inject [OF a b] memcmp_eq [of "baddr_key a" "baddr_key a"]
    by (auto simp: compare_key a b)
  show "BAddr_CompareOrder b a = - BAddr_CompareOrder a b"
    using memcmp_swap [of "baddr_key b" "baddr_key a"] by (simp add: compare_key a b)
  show "BAddr_CompareOrder a c = - 1" if "baddr_ok c" "BAddr_CompareOrder a b = - 1" "BAddr_CompareOrder b c = - 1"
    using that memcmp_trans [of "baddr_key a" "baddr_key b" "baddr_key c"] by (simp add: compare_key a b)
qed

section \<open>Printing and parsing\<close>

lemma takeWhile_digits: "list_all is_digit s \<Longrightarrow> takeWhile is_digit s = s \<and> dropWhile is_digit s = []"
  by (simp add: list_all_iff takeWhile_eq_all_conv dropWhile_eq_Nil_conv)

lemma is_dec_digits: "is_dec s \<longleftrightarrow> list_all is_digit s"
  by (simp add: is_dec_def is_digit_def [abs_def])

lemma foldl_dec: "foldl (\<lambda>n c. 10 * n + int (char_code c - 48)) a s = a * 10 ^ length s + int (dec_value s)"
  by (induction s arbitrary: a) (simp_all add: distrib_right distrib_left mult_ac)

lemma strtol10_dec:
  assumes "is_dec s" "s \<noteq> []"
  shows "strtol10 s = (int (dec_value s), [])"
proof -
  obtain c r where s: "s = c # r" using assms(2) by (cases s) auto
  then have c: "48 \<le> char_code c" "char_code c \<le> 57" using assms(1) by auto
  then have "\<not> is_space c" "c \<noteq> CHR ''-''" "c \<noteq> CHR ''+''" by (auto simp: is_space_def)
  then have t: "dropWhile is_space s = s" "hd s \<noteq> CHR ''-''" "hd s \<noteq> CHR ''+''" using s by auto
  have d: "takeWhile is_digit s = s" "dropWhile is_digit s = []"
    using assms(1) takeWhile_digits [of s] by (simp_all add: is_dec_digits)
  show ?thesis unfolding strtol10_def Let_def by (simp add: foldl_dec t d assms(2))
qed

lemma length_print_dec5: "n < 100000 \<Longrightarrow> length (print_dec n) \<le> 5"
  using print_dec.simps [of "n div 10000"]
  by (auto simp: print_dec.simps [of n] print_dec.simps [of "n div 10"] print_dec.simps [of "n div 100"]
      print_dec.simps [of "n div 1000"] div_mult2_eq [symmetric])

lemma BIPAddr_Print_IPv4: "BIPAddr_Print (BIPAddr_IPv4 ip) = ipaddr_print_addr ip"
  by (simp add: ipaddr_print_addr_def)

lemma print_addr_chars: "c \<in> set (ipaddr_print_addr ip) \<Longrightarrow> c \<noteq> CHR '':'' \<and> c \<noteq> CHR ''[''"
proof -
  have "c \<noteq> CHR '':'' \<and> c \<noteq> CHR ''[''" if "is_dec s" "c \<in> set s" for s
    using that by (induction s) auto
  then show "c \<in> set (ipaddr_print_addr ip) \<Longrightarrow> c \<noteq> CHR '':'' \<and> c \<noteq> CHR ''[''"
    using print_byte(5) by (auto simp: ipaddr_print_addr_def Let_def)
qed

lemma length_print_addr: "length (ipaddr_print_addr ip) \<le> 15" "ipaddr_print_addr ip \<noteq> []"
  using print_byte(1) [of "mem32 ip ! 0"] print_byte(1) [of "mem32 ip ! 1"]
    print_byte(1) [of "mem32 ip ! 2"] print_byte(1) [of "mem32 ip ! 3"]
  by (simp_all add: ipaddr_print_addr_def Let_def)

text \<open>C37. \<open>BAddr_CompareOrder\<close> is a total order on the invalid, IPv4 and IPv6 addresses whose
  equality is equality of addresses, as the trees of connections need it, and
  \<open>BAddr_Compare\<close> is equality on the IPv4 and IPv6 addresses.\<close>

theorem BAddr_CompareOrder_total:
  assumes "baddr_ok a" "baddr_ok b" "baddr_ok c"
  shows "(BAddr_CompareOrder a b = 0 \<longleftrightarrow> a = b) \<and> BAddr_CompareOrder b a = - BAddr_CompareOrder a b \<and>
    (BAddr_CompareOrder a b = - 1 \<longrightarrow> BAddr_CompareOrder b c = - 1 \<longrightarrow> BAddr_CompareOrder a c = - 1) \<and>
    (BAddr_Compare a b \<longleftrightarrow> a = b \<and> a \<noteq> BAddr_None)"
proof -
  have "BAddr_Compare a b \<longleftrightarrow> a = b \<and> a \<noteq> BAddr_None"
    using assms(1,2) by (cases a; cases b) (auto simp: memcmp_eq map_unat_inject)
  then show ?thesis
    using baddr.cmp_eq [OF assms(1,2)] baddr.cmp_swap [OF assms(1,2)] baddr.cmp_trans [OF assms] by blast
qed

theorem BAddr_CompareOrder_total_witness:
  "BAddr_CompareOrder (BAddr_IPv4 (hton32 0x0A000001) 0) (BAddr_IPv4 (hton32 0x0A000002) 0) = - 1 \<and>
   BAddr_CompareOrder (BAddr_IPv4 (hton32 0x0A000002) 0) (BAddr_IPv6 (replicate 16 0) 0) = - 1 \<and>
   BAddr_CompareOrder (BAddr_IPv4 (hton32 0x0A000001) 0) (BAddr_IPv6 (replicate 16 0) 0) = - 1"
proof -
  have "BAddr_CompareOrder (BAddr_IPv4 (hton32 0x0A000001) 0) (BAddr_IPv4 (hton32 0x0A000002) 0) = - 1"
    "BAddr_CompareOrder (BAddr_IPv4 (hton32 0x0A000002) 0) (BAddr_IPv6 (replicate 16 0) 0) = - 1" by code_simp+
  then show ?thesis
    using BAddr_CompareOrder_total [of "BAddr_IPv4 (hton32 0x0A000001) 0" "BAddr_IPv4 (hton32 0x0A000002) 0"
        "BAddr_IPv6 (replicate 16 0) 0"] by simp
qed

text \<open>An IPv4 socket address that is printed and parsed again comes back unchanged, with
  its host text as the name, for every \<open>getaddrinfo\<close> that understands dotted addresses.\<close>

theorem BAddr_print_parse:
  assumes "\<forall>a n. resolve4 g n (ipaddr_print_addr a) = Some a"
  shows "\<exists>s. BAddr_Print (BAddr_IPv4 ip port) = Some s \<and>
    BAddr_Parse2 g s (Some 16) noresolve = Some (BAddr_IPv4 ip port, Some (ipaddr_print_addr ip))"
proof -
  let ?h = "ipaddr_print_addr ip" and ?p = "print_dec (unat (ntoh16 port))"
  let ?s = "?h @ CHR '':'' # ?p"
  have print: "BAddr_Print (BAddr_IPv4 ip port) = Some ?s"
    by (simp only: BAddr_Print.simps BIPAddr_InitIPv4_def BIPAddr_Print_IPv4) simp
  have port: "unat (ntoh16 port) < 65536" using unsigned_less [of "ntoh16 port"] by simp
  have p: "is_dec ?p" "?p \<noteq> []" "dec_value ?p = unat (ntoh16 port)" "length ?p \<le> 5"
    using print_dec_value [of "unat (ntoh16 port)"] length_print_dec5 port by auto
  have tw: "takeWhile (\<lambda>c. c \<noteq> CHR '':'') ?s = ?h" using print_addr_chars by (simp add: takeWhile_append2)
  have "?s ! 0 \<noteq> CHR ''[''" using length_print_addr(2) [of ip] print_addr_chars [of "?h ! 0" ip] by (simp add: nth_append)
  moreover have "hton16 (of_int (int (unat (ntoh16 port)))) = port" "\<not> 65535 < uint (ntoh16 port)"
    using unsigned_less [of "ntoh16 port", where 'a = int] by simp_all
  ultimately show ?thesis
    using print tw p strtol10_dec [OF p(1,2)] length_print_addr [of ip] assms port
    by (simp add: BAddr_Parse2_def Let_def UINT16_MAX_def)
qed

end
