(* ===== verification/Dns_Table.thy ===== *)
theory Dns_Table
  imports Socket_Addresses
begin

text \<open>
  The table of pending DNS queries of \<^verbatim>\<open>tun2socks/tun2socks.c\<close>: a BAVL of heap-allocated
  \<^verbatim>\<open>Connection\<close> objects keyed by the UDP source port. The objects are a map from addresses
  to records; the nodes of the tree are the addresses. \<^verbatim>\<open>malloc\<close> is a parameter: the
  address it returns, or \<open>None\<close> for null, which the code dereferences. The number of pending
  queries of a port is a mathematical integer: the overflow of the \<^verbatim>\<open>int\<close> after \<open>2 ^ 31\<close> queries
  without an answer is not modelled.
\<close>

record Connection =
  con_local_addr :: BAddr
  con_remote_addr :: BAddr
  con_port :: u16
  con_count :: int

record dns_table =
  dt_heap :: "nat \<rightharpoonup> Connection"
  dt_root :: "nat avl"

definition conaddr_comparator :: "u16 \<Rightarrow> u16 \<Rightarrow> int" where
  "conaddr_comparator v1 v2 = (if v1 = v2 then 0 else if v1 > v2 then 1 else - 1)"

definition connections_tree :: "dns_table \<Rightarrow> (nat, u16) BAVL" where
  "connections_tree dt =
     \<lparr>bavl_value = \<lambda>p. con_port (the (dt_heap dt p)), bavl_comparator = conaddr_comparator, bavl_root = dt_root dt\<rparr>"

definition connections_init :: dns_table where
  "connections_init = \<lparr>dt_heap = Map.empty,
     dt_root = bavl_root (BAVL_Init (\<lambda>p :: nat. 0 :: u16) conaddr_comparator)\<rparr>"

definition find_connection :: "dns_table \<Rightarrow> u16 \<Rightarrow> nat option option" where
  "find_connection dt port = BAVL_LookupExact (connections_tree dt) port"

definition remove_connection :: "dns_table \<Rightarrow> nat \<Rightarrow> dns_table option" where
  "remove_connection dt con =
     (case dt_heap dt con of
        None \<Rightarrow> None
      | Some c \<Rightarrow>
          let c = c\<lparr>con_count := con_count c - 1\<rparr>;
              dt = dt\<lparr>dt_heap := (dt_heap dt)(con \<mapsto> c)\<rparr>
          in if con_count c \<le> 0
             then (case BAVL_Remove (connections_tree dt) con of
                 None \<Rightarrow> None
               | Some tr \<Rightarrow> Some \<lparr>dt_heap = (dt_heap dt)(con := None), dt_root = bavl_root tr\<rparr>)
             else Some dt)"

definition insert_connection :: "dns_table \<Rightarrow> nat option \<Rightarrow> BAddr \<Rightarrow> BAddr \<Rightarrow> u16 \<Rightarrow> dns_table option" where
  "insert_connection dt malloc local_addr remote_addr port =
     (case find_connection dt port of
        None \<Rightarrow> None
      | Some (Some con) \<Rightarrow>
          (case dt_heap dt con of
             None \<Rightarrow> None
           | Some c \<Rightarrow> Some (dt\<lparr>dt_heap := (dt_heap dt)(con \<mapsto> c\<lparr>con_count := con_count c + 1\<rparr>)\<rparr>))
      | Some None \<Rightarrow>
          (case malloc of
             None \<Rightarrow> None
           | Some tmp \<Rightarrow>
               let dt = dt\<lparr>dt_heap := (dt_heap dt)(tmp \<mapsto>
                 \<lparr>con_local_addr = local_addr, con_remote_addr = remote_addr, con_port = port, con_count = 1\<rparr>)\<rparr>
               in (case BAVL_Insert (connections_tree dt) tmp of
                     None \<Rightarrow> None
                   | Some (tr, _, _) \<Rightarrow> Some (dt\<lparr>dt_root := bavl_root tr\<rparr>))))"

partial_function (option) free_connections :: "dns_table \<Rightarrow> dns_table option" where
  "free_connections dt =
     (if BAVL_IsEmpty (connections_tree dt) then Some dt
      else (case BAVL_GetLast (connections_tree dt) of
          None \<Rightarrow> None
        | Some con \<Rightarrow> (case BAVL_Remove (connections_tree dt) con of
            None \<Rightarrow> None
          | Some tr \<Rightarrow> free_connections (dt\<lparr>dt_root := bavl_root tr\<rparr>))))"

section \<open>The tree behind the table\<close>

interpretation dns_cmp: total_comparator conaddr_comparator "\<lambda>_. True"
  by unfold_locales (auto simp: conaddr_comparator_def split: if_splits)

definition dns_ok :: "dns_table \<Rightarrow> bool" where
  "dns_ok dt \<longleftrightarrow> dns_cmp.ordered_tree (connections_tree dt) \<and> dom (dt_heap dt) = set (inorder (dt_root dt)) \<and>
     (\<forall>p c. dt_heap dt p = Some c \<longrightarrow> 0 < con_count c)"

text \<open>What the table means: the addresses and the number of pending queries of a port.\<close>

definition dns_lookup :: "dns_table \<Rightarrow> u16 \<rightharpoonup> BAddr \<times> BAddr \<times> int" where
  "dns_lookup dt port =
     (case find_connection dt port of
        Some (Some p) \<Rightarrow> map_option (\<lambda>c. (con_local_addr c, con_remote_addr c, con_count c)) (dt_heap dt p)
      | _ \<Rightarrow> None)"

lemma nodes_tree [simp]: "bavl_nodes (connections_tree dt) = inorder (dt_root dt)"
  by (simp add: bavl_nodes_def connections_tree_def)

lemma value_tree [simp]: "bavl_value (connections_tree dt) p = con_port (the (dt_heap dt p))"
  by (simp add: connections_tree_def)

text \<open>The order of the tree depends on the heap only through the ports of its nodes.\<close>

lemma ordered_cong:
  assumes "\<forall>p\<in>set (inorder (dt_root dt)). con_port (the (dt_heap dt p)) = con_port (the (h p))"
    "dns_cmp.ordered_tree (connections_tree dt)"
  shows "dns_cmp.ordered_tree (connections_tree (dt\<lparr>dt_heap := h\<rparr>))"
proof -
  have "sorted_wrt (bavl_less (connections_tree dt)) (inorder (dt_root dt))"
    using assms(2) by (simp add: dns_cmp.ordered_tree_def bavl_ok_def)
  then have "sorted_wrt (bavl_less (connections_tree (dt\<lparr>dt_heap := h\<rparr>))) (inorder (dt_root dt))"
    by (rule sorted_wrt_mono_rel [rotated]) (use assms(1) in \<open>auto simp: bavl_less_def connections_tree_def\<close>)
  then show ?thesis
    using assms(2) by (simp add: dns_cmp.ordered_tree_def bavl_ok_def connections_tree_def bavl_nodes_def)
qed

lemma dns_okD:
  assumes "dns_ok dt"
  shows "dns_cmp.ordered_tree (connections_tree dt)" "dt_heap dt p = Some c \<Longrightarrow> p \<in> set (inorder (dt_root dt))"
    "p \<in> set (inorder (dt_root dt)) \<Longrightarrow> \<exists>c. dt_heap dt p = Some c" "dt_heap dt p = Some c \<Longrightarrow> 0 < con_count c"
  using assms by (auto simp: dns_ok_def)

lemma find_connection_ok:
  assumes "dns_ok dt"
  shows "\<exists>r. find_connection dt port = Some r \<and>
    (\<forall>p. r = Some p \<longleftrightarrow> (\<exists>c. dt_heap dt p = Some c \<and> con_port c = port))"
proof -
  obtain r where "find_connection dt port = Some r"
    "\<forall>p. r = Some p \<longleftrightarrow> p \<in> set (inorder (dt_root dt)) \<and> con_port (the (dt_heap dt p)) = port"
    using dns_cmp.tree.look [OF dns_okD(1) [OF assms], of port] by (auto simp: find_connection_def)
  moreover have "p \<in> set (inorder (dt_root dt)) \<and> con_port (the (dt_heap dt p)) = port \<longleftrightarrow>
      (\<exists>c. dt_heap dt p = Some c \<and> con_port c = port)" for p
    using dns_okD(2,3) [OF assms] by fastforce
  ultimately show ?thesis by auto
qed

lemma port_unique:
  assumes "dns_ok dt" "dt_heap dt p = Some c" "dt_heap dt q = Some d" "con_port c = con_port d"
  shows "p = q"
  using find_connection_ok [OF assms(1), of "con_port c"] assms(2-4) by (metis option.inject)

lemma dns_lookup_Some:
  assumes "dns_ok dt"
  shows "dns_lookup dt port = Some x \<longleftrightarrow> (\<exists>p c. dt_heap dt p = Some c \<and> con_port c = port \<and>
    x = (con_local_addr c, con_remote_addr c, con_count c))"
proof -
  obtain r where r: "find_connection dt port = Some r"
    "\<And>p. r = Some p \<longleftrightarrow> (\<exists>c. dt_heap dt p = Some c \<and> con_port c = port)"
    using find_connection_ok [OF assms, of port] by blast
  show ?thesis
  proof (cases r)
    case None
    then show ?thesis using r by (auto simp: dns_lookup_def)
  next
    case (Some p)
    then obtain c where c: "dt_heap dt p = Some c" "con_port c = port" using r(2) by blast
    have val: "dns_lookup dt port = Some (con_local_addr c, con_remote_addr c, con_count c)"
      using r(1) Some c(1) by (simp add: dns_lookup_def)
    have uniq: "d = c" if "dt_heap dt q = Some d" "con_port d = port" for q d
      using port_unique [OF assms that(1) c(1)] c that by simp
    show ?thesis using val c uniq by (metis option.inject)
  qed
qed

lemma dns_lookupE:
  assumes "dns_ok dt" "dns_lookup dt port = Some x"
  obtains p c where "dt_heap dt p = Some c" "con_port c = port" "x = (con_local_addr c, con_remote_addr c, con_count c)"
  using assms dns_lookup_Some by blast

lemma dns_lookup_heap:
  "dns_ok dt \<Longrightarrow> dt_heap dt p = Some c \<Longrightarrow>
   dns_lookup dt (con_port c) = Some (con_local_addr c, con_remote_addr c, con_count c)"
  using dns_lookup_Some by blast

lemma dns_lookup_None: "dns_ok dt \<Longrightarrow> dns_lookup dt port = None \<longleftrightarrow> (\<forall>p c. dt_heap dt p = Some c \<longrightarrow> con_port c \<noteq> port)"
  using dns_lookup_Some [of dt port] by (metis not_None_eq)

lemma find_lookup: "dns_ok dt \<Longrightarrow> find_connection dt port = Some r \<Longrightarrow> r = None \<longleftrightarrow> dns_lookup dt port = None"
  using find_connection_ok [of dt port] by (auto simp: dns_lookup_def split: option.splits)

lemma tree_root_update [simp]: "(connections_tree dt)\<lparr>bavl_root := t\<rparr> = connections_tree (dt\<lparr>dt_root := t\<rparr>)"
  by (simp add: connections_tree_def)

lemma dns_eqI:
  assumes ok: "dns_ok dt'" and h: "\<And>p c. dt_heap dt' p = Some c \<Longrightarrow>
      m (con_port c) = Some (con_local_addr c, con_remote_addr c, con_count c)"
    and d: "\<And>port x. m port = Some x \<Longrightarrow> \<exists>p c. dt_heap dt' p = Some c \<and> con_port c = port"
  shows "dns_lookup dt' = m"
proof
  fix port
  show "dns_lookup dt' port = m port"
  proof (cases "dns_lookup dt' port")
    case None
    then show ?thesis using d [of port] dns_lookup_None [OF ok] by (cases "m port") auto
  next
    case (Some x)
    then show ?thesis using h dns_lookup_Some [OF ok, of port x] by auto
  qed
qed

text \<open>Changing a connection without its port.\<close>

lemma update_connection:
  assumes ok: "dns_ok dt" and p: "dt_heap dt p = Some c" and c': "con_port c' = con_port c" "0 < con_count c'"
  shows "dns_ok (dt\<lparr>dt_heap := (dt_heap dt)(p \<mapsto> c')\<rparr>) \<and>
    dns_lookup (dt\<lparr>dt_heap := (dt_heap dt)(p \<mapsto> c')\<rparr>) =
      (dns_lookup dt)(con_port c \<mapsto> (con_local_addr c', con_remote_addr c', con_count c'))"
proof -
  let ?dt = "dt\<lparr>dt_heap := (dt_heap dt)(p \<mapsto> c')\<rparr>"
  have "dns_cmp.ordered_tree (connections_tree ?dt)"
    by (rule ordered_cong) (use dns_okD(1) [OF ok] p c'(1) in auto)
  then have ok': "dns_ok ?dt" using ok p c'(2) by (auto simp: dns_ok_def)
  moreover have "dns_lookup ?dt = (dns_lookup dt)(con_port c \<mapsto> (con_local_addr c', con_remote_addr c', con_count c'))"
  proof (rule dns_eqI [OF ok'])
    fix q d
    assume "dt_heap ?dt q = Some d"
    then show "((dns_lookup dt)(con_port c \<mapsto> (con_local_addr c', con_remote_addr c', con_count c'))) (con_port d) =
        Some (con_local_addr d, con_remote_addr d, con_count d)"
      using c'(1) port_unique [OF ok p] dns_lookup_heap [OF ok] by (auto split: if_splits)
  next
    fix port x
    assume *: "((dns_lookup dt)(con_port c \<mapsto> (con_local_addr c', con_remote_addr c', con_count c'))) port = Some x"
    then show "\<exists>q d. dt_heap ?dt q = Some d \<and> con_port d = port"
    proof (cases "port = con_port c")
      case True
      then show ?thesis using c'(1) by (intro exI [of _ p] exI [of _ c']) simp
    next
      case False
      with * have "dns_lookup dt port = Some x" by simp
      with ok obtain q d where "dt_heap dt q = Some d" "con_port d = port" by (rule dns_lookupE)
      then show ?thesis using False p by (intro exI [of _ q] exI [of _ d]) auto
    qed
  qed
  ultimately show ?thesis by simp
qed

lemma insert_connection_old:
  assumes ok: "dns_ok dt" and old: "dns_lookup dt port = Some (l, r, n)"
  shows "\<exists>dt'. insert_connection dt malloc la ra port = Some dt' \<and> dns_ok dt' \<and>
    dns_lookup dt' = (dns_lookup dt)(port \<mapsto> (l, r, n + 1))"
proof -
  obtain p c where p: "dt_heap dt p = Some c" "con_port c = port" "(l, r, n) = (con_local_addr c, con_remote_addr c, con_count c)"
    using old dns_lookup_Some [OF ok] by auto
  have "find_connection dt port = Some (Some p)"
    using find_connection_ok [OF ok, of port] p(1,2) by auto
  then show ?thesis
    using update_connection [OF ok p(1), of "c\<lparr>con_count := con_count c + 1\<rparr>"] p dns_okD(4) [OF ok p(1)]
    by (simp add: insert_connection_def)
qed

lemma insert_connection_new:
  assumes ok: "dns_ok dt" and new: "dns_lookup dt port = None" and p: "dt_heap dt p = None"
  shows "\<exists>dt'. insert_connection dt (Some p) la ra port = Some dt' \<and> dns_ok dt' \<and>
    dns_lookup dt' = (dns_lookup dt)(port \<mapsto> (la, ra, 1))"
proof -
  define c where "c = \<lparr>con_local_addr = la, con_remote_addr = ra, con_port = port, con_count = 1\<rparr>"
  define dt1 where "dt1 = dt\<lparr>dt_heap := (dt_heap dt)(p \<mapsto> c)\<rparr>"
  have fresh: "p \<notin> set (inorder (dt_root dt))" using dns_okD(3) [OF ok, of p] p by auto
  have "dns_cmp.ordered_tree (connections_tree dt1)"
    unfolding dt1_def by (rule ordered_cong) (use dns_okD(1) [OF ok] fresh in auto)
  moreover have "\<forall>m\<in>set (inorder (dt_root dt)). con_port (the (dt_heap dt1 m)) \<noteq> port"
  proof
    fix m
    assume m: "m \<in> set (inorder (dt_root dt))"
    then obtain d where "dt_heap dt m = Some d" using dns_okD(3) [OF ok] by blast
    then show "con_port (the (dt_heap dt1 m)) \<noteq> port"
      using new dns_lookup_None [OF ok, of port] m fresh by (auto simp: dt1_def)
  qed
  moreover have "con_port (the (dt_heap dt1 p)) = port" by (simp add: dt1_def c_def)
  ultimately obtain t ref xs ys where t: "BAVL_Insert (connections_tree dt1) p = Some (connections_tree (dt1\<lparr>dt_root := t\<rparr>), True, ref)"
    "dns_cmp.ordered_tree (connections_tree (dt1\<lparr>dt_root := t\<rparr>))" "inorder (dt_root dt) = xs @ ys" "inorder t = xs @ p # ys"
    using dns_cmp.Insert_new [of "connections_tree dt1" p] dns_cmp.find_eq_None [of "connections_tree dt1"]
    by (auto simp: dt1_def)
  let ?dt = "dt1\<lparr>dt_root := t\<rparr>"
  have ok': "dns_ok ?dt" using t(2-4) ok by (auto simp: dns_ok_def dt1_def c_def)
  have "find_connection dt port = Some None"
    using find_connection_ok [OF ok, of port] find_lookup [OF ok, of port] new by auto
  then have "insert_connection dt (Some p) la ra port = Some ?dt"
    using t(1) by (simp add: insert_connection_def dt1_def c_def Let_def connections_tree_def)
  moreover have "dns_lookup ?dt = (dns_lookup dt)(port \<mapsto> (la, ra, 1))"
  proof (rule dns_eqI [OF ok'])
    fix q d
    assume "dt_heap ?dt q = Some d"
    then show "((dns_lookup dt)(port \<mapsto> (la, ra, 1))) (con_port d) = Some (con_local_addr d, con_remote_addr d, con_count d)"
      using dns_lookup_heap [OF ok, of q d] dns_lookup_None [OF ok, of port] new
      by (auto simp: dt1_def c_def split: if_splits)
  next
    fix k x
    assume *: "((dns_lookup dt)(port \<mapsto> (la, ra, 1))) k = Some x"
    then show "\<exists>q d. dt_heap ?dt q = Some d \<and> con_port d = k"
    proof (cases "k = port")
      case True
      then show ?thesis by (intro exI [of _ p] exI [of _ c]) (simp add: dt1_def c_def)
    next
      case False
      with * have "dns_lookup dt k = Some x" by simp
      with ok obtain q d where "dt_heap dt q = Some d" "con_port d = k" by (rule dns_lookupE)
      then show ?thesis using p by (intro exI [of _ q] exI [of _ d]) (auto simp: dt1_def)
    qed
  qed
  ultimately show ?thesis using ok' by blast
qed

lemma remove_connection_ok:
  assumes ok: "dns_ok dt" and p: "dt_heap dt p = Some c"
  shows "\<exists>dt'. remove_connection dt p = Some dt' \<and> dns_ok dt' \<and> dns_lookup dt' = (dns_lookup dt)(con_port c :=
    (if con_count c = 1 then None else Some (con_local_addr c, con_remote_addr c, con_count c - 1)))"
proof (cases "con_count c = 1")
  case False
  then have "0 < con_count c - 1" using dns_okD(4) [OF ok p] by simp
  then show ?thesis
    using update_connection [OF ok p, of "c\<lparr>con_count := con_count c - 1\<rparr>"] p False
    by (simp add: remove_connection_def Let_def)
next
  case True
  define dt1 where "dt1 = dt\<lparr>dt_heap := (dt_heap dt)(p \<mapsto> c\<lparr>con_count := con_count c - 1\<rparr>)\<rparr>"
  have "dns_cmp.ordered_tree (connections_tree dt1)"
    unfolding dt1_def by (rule ordered_cong) (use dns_okD(1) [OF ok] p in auto)
  moreover have "p \<in> set (inorder (dt_root dt))" using dns_okD(2) [OF ok p] .
  ultimately obtain t where t: "BAVL_Remove (connections_tree dt1) p = Some (connections_tree (dt1\<lparr>dt_root := t\<rparr>))"
    "dns_cmp.ordered_tree (connections_tree (dt1\<lparr>dt_root := t\<rparr>))" "inorder t = remove1 p (inorder (dt_root dt))"
    using dns_cmp.Remove_ok [of "connections_tree dt1" p] by (auto simp: dt1_def)
  have d: "distinct (inorder (dt_root dt))"
    using dns_cmp.nodes_distinct(1) [OF dns_okD(1) [OF ok]] by simp
  let ?dt = "\<lparr>dt_heap = (dt_heap dt1)(p := None), dt_root = t\<rparr>"
  have "dns_cmp.ordered_tree (connections_tree ((dt1\<lparr>dt_root := t\<rparr>)\<lparr>dt_heap := (dt_heap dt1)(p := None)\<rparr>))"
    by (rule ordered_cong) (use t(2,3) d in auto)
  moreover have "(dt1\<lparr>dt_root := t\<rparr>)\<lparr>dt_heap := (dt_heap dt1)(p := None)\<rparr> = ?dt" by simp
  ultimately have "dns_cmp.ordered_tree (connections_tree ?dt)" by (simp only:)
  then have ok': "dns_ok ?dt" using ok t(3) d p by (auto simp: dns_ok_def dt1_def)
  moreover have "remove_connection dt p = Some ?dt"
    using p True t(1) by (simp add: remove_connection_def Let_def dt1_def connections_tree_def)
  moreover have "dns_lookup ?dt = (dns_lookup dt)(con_port c := None)"
  proof (rule dns_eqI [OF ok'])
    fix q d
    assume "dt_heap ?dt q = Some d"
    then show "((dns_lookup dt)(con_port c := None)) (con_port d) = Some (con_local_addr d, con_remote_addr d, con_count d)"
      using dns_lookup_heap [OF ok, of q d] port_unique [OF ok p, of q d] by (auto simp: dt1_def split: if_splits)
  next
    fix k x
    assume "((dns_lookup dt)(con_port c := None)) k = Some x"
    then have k: "dns_lookup dt k = Some x" "k \<noteq> con_port c" by (auto split: if_splits)
    from ok k(1) obtain q d where "dt_heap dt q = Some d" "con_port d = k" by (rule dns_lookupE)
    then show "\<exists>q d. dt_heap ?dt q = Some d \<and> con_port d = k"
      using p k(2) by (intro exI [of _ q] exI [of _ d]) (auto simp: dt1_def)
  qed
  ultimately show ?thesis using True by auto
qed

lemma connections_init_ok: "dns_ok connections_init" "dns_lookup connections_init = Map.empty"
  by (auto simp: connections_init_def dns_ok_def connections_tree_def BAVL_Init_def dns_cmp.ordered_tree_def
      bavl_ok_def bavl_nodes_def dns_lookup_def find_connection_def BAVL_LookupExact_def fun_eq_iff)

lemma connections_init_empty: "dt_heap connections_init p = None"
  by (simp add: connections_init_def)

text \<open>The loop that empties the tree ends, whatever the heap holds.\<close>

lemma free_connections_ends:
  "dns_cmp.ordered_tree (connections_tree dt) \<Longrightarrow> free_connections dt = Some (dt\<lparr>dt_root := Leaf\<rparr>)"
proof (induction "length (inorder (dt_root dt))" arbitrary: dt)
  case 0
  then have "dt_root dt = Leaf" by simp
  then have "dt\<lparr>dt_root := Leaf\<rparr> = dt" by simp
  with \<open>dt_root dt = Leaf\<close> show ?case
    by (subst free_connections.simps) (simp add: bavl_IsEmpty)
next
  case (Suc n)
  let ?xs = "inorder (dt_root dt)"
  have ne: "?xs \<noteq> []" "dt_root dt \<noteq> Leaf" using Suc.hyps(2) by auto
  have last: "BAVL_GetLast (connections_tree dt) = Some (last ?xs)"
    using end_node_inorder(2) [OF ne(2)] by (simp add: BAVL_GetLast_def connections_tree_def)
  obtain t where t: "BAVL_Remove (connections_tree dt) (last ?xs) = Some (connections_tree (dt\<lparr>dt_root := t\<rparr>))"
    "dns_cmp.ordered_tree (connections_tree (dt\<lparr>dt_root := t\<rparr>))" "inorder t = remove1 (last ?xs) ?xs"
    using dns_cmp.Remove_ok [OF Suc.prems, of "last ?xs"] ne by auto
  have "n = length (inorder (dt_root (dt\<lparr>dt_root := t\<rparr>)))"
    using t(3) Suc.hyps(2) ne(1) by (simp add: length_remove1)
  then have "free_connections (dt\<lparr>dt_root := t\<rparr>) = Some (dt\<lparr>dt_root := Leaf\<rparr>)" using Suc.hyps(1) [OF _ t(2)] by simp
  then show ?case
    using ne last t(1) by (subst free_connections.simps) (simp add: bavl_IsEmpty bavl_nodes_def connections_tree_def)
qed

inductive dns_reach :: "dns_table \<Rightarrow> bool" where
  init: "dns_reach connections_init"
| insert: "dns_reach dt \<Longrightarrow> dt_heap dt p = None \<Longrightarrow> insert_connection dt (Some p) la ra port = Some dt' \<Longrightarrow> dns_reach dt'"
| remove: "dns_reach dt \<Longrightarrow> find_connection dt port = Some (Some con) \<Longrightarrow> remove_connection dt con = Some dt' \<Longrightarrow> dns_reach dt'"

lemma insert_connection_ok:
  assumes "dns_ok dt" "dt_heap dt p = None"
  shows "\<exists>dt'. insert_connection dt (Some p) la ra port = Some dt' \<and> dns_ok dt' \<and>
    dns_lookup dt' = (dns_lookup dt)(port \<mapsto>
      (case dns_lookup dt port of None \<Rightarrow> (la, ra, 1) | Some (l, r, n) \<Rightarrow> (l, r, n + 1)))"
proof (cases "dns_lookup dt port")
  case None
  then show ?thesis using insert_connection_new [OF assms(1) _ assms(2)] by simp
next
  case (Some x)
  then show ?thesis using insert_connection_old [OF assms(1)] by (cases x) auto
qed

lemma find_remove_ok:
  assumes "dns_ok dt" "find_connection dt port = Some (Some con)"
  shows "\<exists>dt' l r n. dns_lookup dt port = Some (l, r, n) \<and> remove_connection dt con = Some dt' \<and> dns_ok dt' \<and>
    dns_lookup dt' = (dns_lookup dt)(port := if n = 1 then None else Some (l, r, n - 1))"
proof -
  obtain c where c: "dt_heap dt con = Some c" "con_port c = port"
    using find_connection_ok [OF assms(1), of port] assms(2) by auto
  then show ?thesis using remove_connection_ok [OF assms(1) c(1)] dns_lookup_heap [OF assms(1) c(1)] by auto
qed

lemma dns_reach_ok: "dns_reach dt \<Longrightarrow> dns_ok dt"
proof (induction rule: dns_reach.induct)
  case (insert dt p la ra port dt')
  then show ?case using insert_connection_ok [of dt p la ra port] by auto
next
  case (remove dt port con dt')
  then show ?case using find_remove_ok [of dt port con] by auto
qed (rule connections_init_ok)

text \<open>C19. In every state the table reaches, it is a map from source ports to the addresses of the
  first query and the number of queries that wait for an answer: an insertion counts up and
  keeps the addresses that are there, a removal counts down and frees the entry at the last
  one, no assertion fails and \<open>free_connections\<close> ends with an empty tree.\<close>

theorem dns_table_counts:
  assumes "dns_reach dt" "dt_heap dt p = None"
  shows "(\<exists>dt'. insert_connection dt (Some p) la ra port = Some dt' \<and>
      dns_lookup dt' = (dns_lookup dt)(port \<mapsto>
        (case dns_lookup dt port of None \<Rightarrow> (la, ra, 1) | Some (l, r, n) \<Rightarrow> (l, r, n + 1)))) \<and>
    (find_connection dt port = Some (Some con) \<longrightarrow>
      (\<exists>dt' l r n. dns_lookup dt port = Some (l, r, n) \<and> remove_connection dt con = Some dt' \<and>
        dns_lookup dt' = (dns_lookup dt)(port := if n = 1 then None else Some (l, r, n - 1)))) \<and>
    (find_connection dt port = Some None \<longleftrightarrow> dns_lookup dt port = None) \<and>
    free_connections dt = Some (dt\<lparr>dt_root := Leaf\<rparr>)"
proof -
  note ok = dns_reach_ok [OF assms(1)]
  have "find_connection dt port = Some None \<longleftrightarrow> dns_lookup dt port = None"
    using find_connection_ok [OF ok, of port] find_lookup [OF ok, of port] by auto
  then show ?thesis
    using insert_connection_ok [OF ok assms(2)] find_remove_ok [OF ok] free_connections_ends [OF dns_okD(1) [OF ok]]
    by blast
qed

theorem dns_table_counts_witness:
  "\<exists>dt dt'. dns_reach dt \<and> insert_connection dt (Some 8) (BAddr_IPv4 3 7) (BAddr_IPv4 4 9) 7 = Some dt' \<and>
     dns_lookup dt' 7 = Some (BAddr_IPv4 1 7, BAddr_IPv4 2 9, 2)"
proof -
  obtain dt where dt: "insert_connection connections_init (Some 4) (BAddr_IPv4 1 7) (BAddr_IPv4 2 9) 7 = Some dt"
    "dns_lookup dt = [7 \<mapsto> (BAddr_IPv4 1 7, BAddr_IPv4 2 9, 1)]"
    using insert_connection_ok [OF connections_init_ok(1), of 4 "BAddr_IPv4 1 7" "BAddr_IPv4 2 9" 7]
    by (auto simp: connections_init_ok connections_init_empty)
  have r: "dns_reach dt" by (rule dns_reach.insert [OF dns_reach.init _ dt(1)]) (rule connections_init_empty)
  have "dt_heap dt 8 = None"
    using dt(1) by (simp add: insert_connection_def find_connection_def BAVL_LookupExact_def connections_tree_def
        connections_init_def BAVL_Init_def BAVL_Insert_def Let_def split: option.splits) auto
  from dns_table_counts [OF r this, of "BAddr_IPv4 3 7" "BAddr_IPv4 4 9" 7 0]
  obtain dt' where "insert_connection dt (Some 8) (BAddr_IPv4 3 7) (BAddr_IPv4 4 9) 7 = Some dt'"
    "dns_lookup dt' = [7 \<mapsto> (BAddr_IPv4 1 7, BAddr_IPv4 2 9, 2)]"
    using dt(2) by auto
  with r show ?thesis by (intro exI [of _ dt] exI [of _ dt']) simp
qed

end
