(* ===== verification/Tunnel_Packets.thy ===== *)
theory Tunnel_Packets
  imports Inet_Headers Dns_Table
begin

text \<open>
  The packet paths of \<^verbatim>\<open>tun2socks/tun2socks.c\<close>: what happens to a packet read from the TUN
  device (DNS rewriting, UDP to the udpgw client, everything else to lwip), to a packet lwip
  sends, and to a datagram the udpgw client received. The globals the code reads are the
  fields of a record; a handler returns the new state and the calls it makes, \<open>None\<close> is a
  failed assertion, a null dereference or a write outside \<^verbatim>\<open>device_write_buf\<close>. A \<^verbatim>\<open>pbuf\<close>
  chain is the list of the payloads of its chunks. lwip and the udpgw client are called,
  not modelled here.
\<close>

section \<open>State and calls\<close>

record tunnel =
  tn_dnsgw :: "BAddr option"
  tn_udpgw_remote_server_addr :: "BAddr option"
  tn_udpgw_transparent_dns :: bool
  tn_netif_ip6addr :: "bytes option"
  tn_netif_ipaddr :: u32
  tn_mtu :: int
  tn_udp_mtu :: int
  tn_quitting :: bool
  tn_init :: bool
  tn_connections :: dns_table

datatype tunnel_call =
  BTap_Send bytes
| SocksUdpGwClient_SubmitPacket_call BAddr BAddr bool bytes
| device_read_Done
| ip_input bytes
| ip6_input bytes

text \<open>The payload sizes \<^verbatim>\<open>main\<close> computes for the udpgw client.\<close>

definition compute_udp_mtu :: "int \<Rightarrow> bool \<Rightarrow> int" where
  "compute_udp_mtu mtu have_ip6 =
     (let udp_mtu = mtu - (20 + 8);
          udp_mtu = (if have_ip6 then
            (let udp_ip6_mtu = mtu - (40 + 8) in if udp_mtu < udp_ip6_mtu then udp_ip6_mtu else udp_mtu)
            else udp_mtu)
      in if udp_mtu < 0 then 0 else udp_mtu)"

text \<open>Copying a packet to \<^verbatim>\<open>device_write_buf\<close>, which has \<^verbatim>\<open>BTap_GetMTU\<close> bytes, and sending it.\<close>

definition device_write :: "tunnel \<Rightarrow> bytes \<Rightarrow> tunnel_call list option" where
  "device_write tn packet = require (int (length packet) \<le> tn_mtu tn) [BTap_Send packet]"

definition ip_version :: "bytes \<Rightarrow> byte" where
  "ip_version data = (if length data > 0 then drop_bit 4 (data ! 0) else 0)"

section \<open>Packets from the device\<close>

text \<open>The UDP datagram of an IPv4 packet, as both handlers take it apart: the headers, with the
  UDP checksum cleared, and the payload.\<close>

definition udp4_parse :: "bytes \<Rightarrow> (ipv4_header \<times> udp_header \<times> bytes) option" where
  "udp4_parse data =
     (if length data < 20 \<or> data ! 9 \<noteq> IPV4_PROTOCOL_UDP then None
      else (case ipv4_check data of
          None \<Rightarrow> None
        | Some (ipv4_header, start, len) \<Rightarrow>
            let data = bslice data start len in
            (case udp_check data of
               None \<Rightarrow> None
             | Some (udp_header, start, len) \<Rightarrow>
                 let data = bslice data start len;
                     checksum_in_packet = udp_checksum_field udp_header;
                     udp_header = udp_header\<lparr>udp_checksum_field := 0\<rparr>;
                     checksum_computed = udp_checksum udp_header data (of_nat len)
                       (ip4_source_address ipv4_header) (ip4_destination_address ipv4_header)
                 in if checksum_in_packet \<noteq> checksum_computed then None
                    else Some (ipv4_header, udp_header, data))))"

definition udp6_parse :: "bytes \<Rightarrow> (ipv6_header \<times> udp_header \<times> bytes) option" where
  "udp6_parse data =
     (if length data < 40 \<or> data ! 6 \<noteq> IPV6_NEXT_UDP then None
      else (case ipv6_check data of
          None \<Rightarrow> None
        | Some (ipv6_header, start, len) \<Rightarrow>
            let data = bslice data start len in
            (case udp_check data of
               None \<Rightarrow> None
             | Some (udp_header, start, len) \<Rightarrow>
                 let data = bslice data start len;
                     checksum_in_packet = udp_checksum_field udp_header;
                     udp_header = udp_header\<lparr>udp_checksum_field := 0\<rparr>;
                     checksum_computed = udp_ip6_checksum udp_header data (of_nat len)
                       (ip6_source_address ipv6_header) (ip6_destination_address ipv6_header)
                 in if checksum_in_packet \<noteq> checksum_computed then None
                    else Some (ipv6_header, udp_header, data))))"

text \<open>The end of the DNS handler: checksums and the packet written to the device.\<close>

definition dns_rewrite :: "ipv4_header \<Rightarrow> udp_header \<Rightarrow> bytes \<Rightarrow> bytes" where
  "dns_rewrite ipv4_header udp_header data =
     (let ipv4_header = ipv4_header\<lparr>ip4_checksum := hton16 0\<rparr>;
          ipv4_header = ipv4_header\<lparr>ip4_checksum := ipv4_checksum ipv4_header [] 0\<rparr>;
          udp_header = udp_header\<lparr>udp_checksum_field := hton16 0\<rparr>;
          udp_header = udp_header\<lparr>udp_checksum_field := udp_checksum udp_header data (of_nat (length data))
            (ip4_source_address ipv4_header) (ip4_destination_address ipv4_header)\<rparr>
      in ipv4_header_mem ipv4_header @ udp_header_mem udp_header @ data)"

definition process_device_dns_packet ::
  "nat option \<Rightarrow> tunnel \<Rightarrow> bytes \<Rightarrow> (tunnel \<times> tunnel_call list \<times> bool) option" where
  "process_device_dns_packet malloc tn data =
     (let fail = Some (tn, [], False);
          submit = (\<lambda>tn packet. map_option (\<lambda>cs. (tn, cs, True)) (device_write tn packet))
      in case tn_dnsgw tn of
        None \<Rightarrow> fail
      | Some dnsgw \<Rightarrow>
          if ip_version data = 4 then
            (case udp4_parse data of
               None \<Rightarrow> fail
             | Some (ipv4_header, udp_header, data) \<Rightarrow>
                 let to_dns = (udp_dest_port udp_header = hton16 53);
                     from_dns = (udp_source_port udp_header = ipv4_port dnsgw)
                 in if \<not> to_dns \<and> \<not> from_dns then fail
                    else if to_dns then
                      (let tn = (if \<not> tn_init tn then tn\<lparr>tn_init := True, tn_connections := connections_init\<rparr> else tn);
                           local_addr = BAddr_MakeIPv4 (ip4_source_address ipv4_header) (udp_source_port udp_header);
                           remote_addr = BAddr_MakeIPv4 (ip4_destination_address ipv4_header) (udp_dest_port udp_header)
                       in case insert_connection (tn_connections tn) malloc local_addr remote_addr (udp_source_port udp_header) of
                            None \<Rightarrow> None
                          | Some dt \<Rightarrow>
                              submit (tn\<lparr>tn_connections := dt\<rparr>) (dns_rewrite
                                (ipv4_header\<lparr>ip4_destination_address := ipv4_ip dnsgw, ip4_source_address := tn_netif_ipaddr tn\<rparr>)
                                (udp_header\<lparr>udp_dest_port := ipv4_port dnsgw\<rparr>) data))
                    else if \<not> tn_init tn then fail
                    else (case find_connection (tn_connections tn) (udp_dest_port udp_header) of
                        None \<Rightarrow> None
                      | Some None \<Rightarrow> fail
                      | Some (Some con) \<Rightarrow>
                          (case dt_heap (tn_connections tn) con of
                             None \<Rightarrow> None
                           | Some c \<Rightarrow>
                               (case remove_connection (tn_connections tn) con of
                                  None \<Rightarrow> None
                                | Some dt \<Rightarrow>
                                    submit (tn\<lparr>tn_connections := dt\<rparr>) (dns_rewrite
                                      (ipv4_header\<lparr>ip4_source_address := ipv4_ip (con_remote_addr c),
                                                   ip4_destination_address := ipv4_ip (con_local_addr c)\<rparr>)
                                      (udp_header\<lparr>udp_source_port := ipv4_port (con_remote_addr c)\<rparr>) data)))))
          else fail)"

definition process_device_udp_packet :: "tunnel \<Rightarrow> bytes \<Rightarrow> tunnel_call list \<times> bool" where
  "process_device_udp_packet tn data =
     (if tn_udpgw_remote_server_addr tn = None then ([], False)
      else (case
        (if ip_version data = 4 then
           (case udp4_parse data of
              None \<Rightarrow> None
            | Some (ipv4_header, udp_header, data) \<Rightarrow>
                Some (BAddr_MakeIPv4 (ip4_source_address ipv4_header) (udp_source_port udp_header),
                  BAddr_MakeIPv4 (ip4_destination_address ipv4_header) (udp_dest_port udp_header),
                  tn_udpgw_transparent_dns tn \<and> ip4_destination_address ipv4_header = tn_netif_ipaddr tn \<and>
                    udp_dest_port udp_header = hton16 53,
                  data))
         else if ip_version data = 6 then
           (if tn_netif_ip6addr tn = None then None
            else (case udp6_parse data of
                None \<Rightarrow> None
              | Some (ipv6_header, udp_header, data) \<Rightarrow>
                  Some (BAddr_MakeIPv6 (ip6_source_address ipv6_header) (udp_source_port udp_header),
                    BAddr_MakeIPv6 (ip6_destination_address ipv6_header) (udp_dest_port udp_header), False, data)))
         else None) of
          None \<Rightarrow> ([], False)
        | Some (local_addr, remote_addr, is_dns, data) \<Rightarrow>
            if int (length data) > tn_udp_mtu tn then ([], False)
            else ([SocksUdpGwClient_SubmitPacket_call local_addr remote_addr is_dns data], True)))"



section \<open>Packets to the device\<close>

fun netif_output_chunks :: "tunnel \<Rightarrow> bytes \<Rightarrow> bytes list \<Rightarrow> bytes option" where
  "netif_output_chunks tn buf [] = Some buf"
| "netif_output_chunks tn buf (p # ps) =
     (if int (length p) > tn_mtu tn - int (length buf) then None
      else netif_output_chunks tn (buf @ p) ps)"

definition common_netif_output :: "tunnel \<Rightarrow> bytes list \<Rightarrow> tunnel_call list" where
  "common_netif_output tn p =
     (if tn_quitting tn then []
      else if tl p = [] then
        (if int (length (hd p)) > tn_mtu tn then [] else [BTap_Send (hd p)])
      else (case netif_output_chunks tn [] p of
          None \<Rightarrow> []
        | Some buf \<Rightarrow> [BTap_Send buf]))"

definition baddr_from_lwip :: "bool \<Rightarrow> u32 \<Rightarrow> bytes \<Rightarrow> u16 \<Rightarrow> BAddr" where
  "baddr_from_lwip is_ipv6 ip4 ip6 port_hostorder =
     (if is_ipv6 then BAddr_MakeIPv6 ip6 (hton16 port_hostorder)
      else BAddr_MakeIPv4 ip4 (hton16 port_hostorder))"

definition udp4_build :: "BAddr \<Rightarrow> BAddr \<Rightarrow> bytes \<Rightarrow> bytes" where
  "udp4_build local_addr remote_addr data =
     (let iph = \<lparr>ip4_version4_ihl4 = IPV4_MAKE_VERSION_IHL 20, ip4_ds = hton8 0,
                 ip4_total_length = hton16 (of_nat (20 + 8 + length data)), ip4_identification = hton16 0,
                 ip4_flags3_fragmentoffset13 = hton16 0, ip4_ttl = hton8 64, ip4_protocol = hton8 IPV4_PROTOCOL_UDP,
                 ip4_checksum = hton16 0, ip4_source_address = ipv4_ip remote_addr,
                 ip4_destination_address = ipv4_ip local_addr\<rparr>;
          iph = iph\<lparr>ip4_checksum := ipv4_checksum iph [] 0\<rparr>;
          udph = \<lparr>udp_source_port = ipv4_port remote_addr, udp_dest_port = ipv4_port local_addr,
                  udp_length = hton16 (of_nat (8 + length data)), udp_checksum_field = hton16 0\<rparr>;
          udph = udph\<lparr>udp_checksum_field := udp_checksum udph data (of_nat (length data))
            (ip4_source_address iph) (ip4_destination_address iph)\<rparr>
      in ipv4_header_mem iph @ udp_header_mem udph @ data)"

definition udp6_build :: "BAddr \<Rightarrow> BAddr \<Rightarrow> bytes \<Rightarrow> bytes" where
  "udp6_build local_addr remote_addr data =
     (let iph = \<lparr>ip6_version4_tc4 = hton8 (push_bit 4 6), ip6_tc4_fl4 = hton8 0, ip6_fl = hton16 0,
                 ip6_payload_length = hton16 (of_nat (8 + length data)), ip6_next_header = hton8 IPV6_NEXT_UDP,
                 ip6_hop_limit = hton8 64, ip6_source_address = take 16 (ipv6_ip remote_addr),
                 ip6_destination_address = take 16 (ipv6_ip local_addr)\<rparr>;
          udph = \<lparr>udp_source_port = ipv6_port remote_addr, udp_dest_port = ipv6_port local_addr,
                  udp_length = hton16 (of_nat (8 + length data)), udp_checksum_field = hton16 0\<rparr>;
          udph = udph\<lparr>udp_checksum_field := udp_ip6_checksum udph data (of_nat (length data))
            (ip6_source_address iph) (ip6_destination_address iph)\<rparr>
      in ipv6_header_mem iph @ udp_header_mem udph @ data)"

definition udpgw_client_handler_received ::
  "tunnel \<Rightarrow> BAddr \<Rightarrow> BAddr \<Rightarrow> bytes \<Rightarrow> tunnel_call list option" where
  "udpgw_client_handler_received tn local_addr remote_addr data =
     (if tn_udpgw_remote_server_addr tn = None \<or> BAddr_type local_addr \<noteq> BAddr_type remote_addr then None
      else (let data_len = int (length data) in
        case local_addr of
          BAddr_IPv4 _ _ \<Rightarrow>
            if data_len > UINT16_MAX - (20 + 8) \<or> data_len > tn_mtu tn - (20 + 8) then Some []
            else device_write tn (udp4_build local_addr remote_addr data)
        | BAddr_IPv6 _ _ \<Rightarrow>
            if tn_netif_ip6addr tn = None then Some []
            else if data_len > UINT16_MAX - 8 \<or> data_len > tn_mtu tn - (40 + 8) then Some []
            else device_write tn (udp6_build local_addr remote_addr data)
        | _ \<Rightarrow> None))"

section \<open>Headers built are headers parsed\<close>

lemma hton16_0 [simp]: "hton16 0 = 0" "ntoh16 0 = 0"
  by code_simp+

lemma ipv4_checksum_no_extra: "ipv4_checksum h extra 0 = ipv4_checksum h [] 0"
  by (simp add: ipv4_checksum_def sum_be16_def)

lemma ip_version_mem: "ip_version (ipv4_header_mem h @ r) = IPV4_GET_VERSION h"
proof -
  have "unat (drop_bit 4 b) = unat (drop_bit 4 (b AND 0xF0))" for b :: byte
    unfolding unat_nibbles by (simp add: drop_bit_eq_div unat_div)
  then show ?thesis
    by (simp add: ip_version_def ipv4_header_mem_def IPV4_GET_VERSION_def word_unat_eq_iff)
qed

lemma unat_ntoh16_of_nat: "n < 65536 \<Longrightarrow> unat (ntoh16 (hton16 (of_nat n))) = n"
  by (simp add: unat_of_nat)

text \<open>An IPv4 header whose lengths are right and a UDP header with them; the headers hold the
  lengths of the datagram and nothing else follows it.\<close>

definition udp4_exact :: "ipv4_header \<Rightarrow> udp_header \<Rightarrow> bytes \<Rightarrow> bool" where
  "udp4_exact h u p \<longleftrightarrow> IPV4_GET_VERSION h = 4 \<and> unat (IPV4_GET_IHL h) = 5 \<and> ip4_protocol h = IPV4_PROTOCOL_UDP \<and>
     unat (ntoh16 (ip4_total_length h)) = 28 + length p \<and> unat (ntoh16 (udp_length u)) = 8 + length p"

lemma ipv4_check_mem:
  assumes "IPV4_GET_VERSION h = 4" "unat (IPV4_GET_IHL h) = 5" "unat (ntoh16 (ip4_total_length h)) = 20 + length r"
    "ip4_checksum h = ipv4_checksum (h\<lparr>ip4_checksum := 0\<rparr>) [] 0"
  shows "ipv4_check (ipv4_header_mem h @ r) = Some (h, 20, length r)"
  using assms by (simp add: ipv4_check_def Let_def ipv4_checksum_no_extra [of _ r])

lemma udp_check_mem:
  "unat (ntoh16 (udp_length u)) = 8 + length p \<Longrightarrow> udp_check (udp_header_mem u @ p) = Some (u, 8, length p)"
  by (simp add: udp_check_def Let_def)

lemma nth_header_mem: "(ipv4_header_mem h @ r) ! 9 = ip4_protocol h"
  "length (ip6_source_address h6) = 16 \<Longrightarrow> (ipv6_header_mem h6 @ r) ! 6 = ip6_next_header h6"
  by (simp_all add: ipv4_header_mem_def ipv6_header_mem_def nth_append)

lemma bslice_append: "bslice (xs @ ys) (length xs) (length ys) = ys"
  by (simp add: bslice_def)

lemma udp4_parse_mem:
  assumes "udp4_exact h u p" "ip4_checksum h = ipv4_checksum (h\<lparr>ip4_checksum := 0\<rparr>) [] 0"
    "udp_checksum_field u = udp_checksum (u\<lparr>udp_checksum_field := 0\<rparr>) p (of_nat (length p))
       (ip4_source_address h) (ip4_destination_address h)"
  shows "udp4_parse (ipv4_header_mem h @ udp_header_mem u @ p) = Some (h, u\<lparr>udp_checksum_field := 0\<rparr>, p)"
proof -
  have c: "ipv4_check (ipv4_header_mem h @ udp_header_mem u @ p) = Some (h, 20, 8 + length p)"
    using ipv4_check_mem [of h "udp_header_mem u @ p"] assms(1,2) by (simp add: udp4_exact_def)
  have s: "bslice (ipv4_header_mem h @ udp_header_mem u @ p) 20 (8 + length p) = udp_header_mem u @ p"
    "bslice (udp_header_mem u @ p) 8 (length p) = p"
    by (simp_all add: bslice_def)
  show ?thesis
    using assms by (simp add: udp4_parse_def c s udp_check_mem udp4_exact_def nth_header_mem Let_def)
qed

lemma dns_rewrite_parse:
  assumes "udp4_exact h u p"
  shows "\<exists>c. udp4_parse (dns_rewrite h u p) = Some (h\<lparr>ip4_checksum := c\<rparr>, u\<lparr>udp_checksum_field := 0\<rparr>, p)"
    "ip_version (dns_rewrite h u p) = 4"
proof -
  define c where "c = ipv4_checksum (h\<lparr>ip4_checksum := 0\<rparr>) [] 0"
  define d where "d = udp_checksum (u\<lparr>udp_checksum_field := 0\<rparr>) p (of_nat (length p))
    (ip4_source_address h) (ip4_destination_address h)"
  have eq: "dns_rewrite h u p =
      ipv4_header_mem (h\<lparr>ip4_checksum := c\<rparr>) @ udp_header_mem (u\<lparr>udp_checksum_field := d\<rparr>) @ p"
    by (simp add: dns_rewrite_def Let_def c_def d_def)
  have "udp4_exact (h\<lparr>ip4_checksum := c\<rparr>) (u\<lparr>udp_checksum_field := d\<rparr>) p"
    using assms by (simp add: udp4_exact_def IPV4_GET_VERSION_def IPV4_GET_IHL_def)
  from udp4_parse_mem [OF this] have
    "udp4_parse (dns_rewrite h u p) = Some (h\<lparr>ip4_checksum := c\<rparr>, u\<lparr>udp_checksum_field := 0\<rparr>, p)"
    by (simp add: eq c_def d_def)
  then show "\<exists>c. udp4_parse (dns_rewrite h u p) = Some (h\<lparr>ip4_checksum := c\<rparr>, u\<lparr>udp_checksum_field := 0\<rparr>, p)" ..
  show "ip_version (dns_rewrite h u p) = 4"
    using assms unfolding eq ip_version_mem by (simp add: udp4_exact_def IPV4_GET_VERSION_def)
qed

lemma length_dns_rewrite: "length (dns_rewrite h u p) = 28 + length p"
  by (simp add: dns_rewrite_def Let_def)

text \<open>What a parsed datagram tells about its headers.\<close>

lemma udp4_parseD:
  assumes "udp4_parse data = Some (h, u, p)"
  shows "IPV4_GET_VERSION h = 4" "ip4_protocol h = IPV4_PROTOCOL_UDP" "unat (ntoh16 (udp_length u)) = 8 + length p"
    "20 \<le> 4 * unat (IPV4_GET_IHL h)" "4 * unat (IPV4_GET_IHL h) + 8 + length p \<le> unat (ntoh16 (ip4_total_length h))"
    "unat (ntoh16 (ip4_total_length h)) \<le> length data" "udp_checksum_field u = 0"
proof -
  obtain start len where ip: "ipv4_check data = Some (h, start, len)" "data ! 9 = IPV4_PROTOCOL_UDP" "20 \<le> length data"
    using assms by (auto simp: udp4_parse_def Let_def split: if_splits option.splits)
  then obtain u0 n where udp: "udp_check (bslice data start len) = Some (u0, 8, n)" "p = bslice (bslice data start len) 8 n"
    "u = u0\<lparr>udp_checksum_field := 0\<rparr>"
    using assms by (auto simp: udp4_parse_def Let_def udp_check_def split: if_splits option.splits)
  have h: "h = ipv4_header_get data" "start = unat (IPV4_GET_IHL h) * 4" "IPV4_GET_VERSION h = 4" "20 \<le> start"
    "start + len = unat (ntoh16 (ip4_total_length h))" "start + len \<le> length data"
    using ip(1) by (auto simp: ipv4_check_def Let_def split: if_splits)
  have "length (bslice data start len) = len" using h(6) by simp
  then have u: "8 + n \<le> len" "unat (ntoh16 (udp_length u0)) = 8 + n"
    using udp(1) by (auto simp: udp_check_def Let_def split: if_splits)
  then have "length p = n" using udp(2) h(6) by simp
  then show "IPV4_GET_VERSION h = 4" "ip4_protocol h = IPV4_PROTOCOL_UDP" "unat (ntoh16 (udp_length u)) = 8 + length p"
    "20 \<le> 4 * unat (IPV4_GET_IHL h)" "4 * unat (IPV4_GET_IHL h) + 8 + length p \<le> unat (ntoh16 (ip4_total_length h))"
    "unat (ntoh16 (ip4_total_length h)) \<le> length data" "udp_checksum_field u = 0"
    using h u udp(3) ip(2) by (auto simp: ipv4_header_get_def)
qed

lemma udp4_parse_exact:
  assumes "udp4_parse data = Some (h, u, p)" "unat (ntoh16 (ip4_total_length h)) = 28 + length p"
  shows "udp4_exact h u p"
  using udp4_parseD [OF assms(1)] assms(2) by (simp add: udp4_exact_def)

lemma udp4_exact_update:
  "udp4_exact (h\<lparr>ip4_source_address := s, ip4_destination_address := d\<rparr>) u p = udp4_exact h u p"
  "udp4_exact (h\<lparr>ip4_destination_address := d, ip4_source_address := s\<rparr>) u p = udp4_exact h u p"
  "udp4_exact h (u\<lparr>udp_dest_port := x\<rparr>) p = udp4_exact h u p"
  "udp4_exact h (u\<lparr>udp_source_port := x\<rparr>) p = udp4_exact h u p"
  by (simp_all add: udp4_exact_def IPV4_GET_VERSION_def IPV4_GET_IHL_def)

lemma ipv6_header_get_mem:
  assumes "length (ip6_source_address h) = 16" "length (ip6_destination_address h) = 16"
  shows "ipv6_header_get (ipv6_header_mem h @ r) = h"
  using assms by (simp add: ipv6_header_get_def ipv6_header_mem_def bslice_def nth_append)

lemma udp6_parse_mem:
  assumes "length (ip6_source_address h) = 16" "length (ip6_destination_address h) = 16"
    "ip6_version4_tc4 h = 0x60" "ip6_next_header h = IPV6_NEXT_UDP"
    "unat (ntoh16 (ip6_payload_length h)) = 8 + length p" "unat (ntoh16 (udp_length u)) = 8 + length p"
    "udp_checksum_field u = udp_ip6_checksum (u\<lparr>udp_checksum_field := 0\<rparr>) p (of_nat (length p))
       (ip6_source_address h) (ip6_destination_address h)"
  shows "udp6_parse (ipv6_header_mem h @ udp_header_mem u @ p) = Some (h, u\<lparr>udp_checksum_field := 0\<rparr>, p)"
proof -
  have len: "length (ipv6_header_mem h) = 40" using assms(1,2) by (simp add: ipv6_header_mem_def)
  have "drop_bit 4 (ntoh8 0x60) = 6" by code_simp
  then have c: "ipv6_check (ipv6_header_mem h @ udp_header_mem u @ p) = Some (h, 40, 8 + length p)"
    using assms len by (simp add: ipv6_check_def Let_def ipv6_header_get_mem)
  have s: "bslice (ipv6_header_mem h @ udp_header_mem u @ p) 40 (8 + length p) = udp_header_mem u @ p"
    "bslice (udp_header_mem u @ p) 8 (length p) = p"
    using len by (simp_all add: bslice_def)
  show ?thesis
    using assms len by (simp add: udp6_parse_def c s udp_check_mem nth_header_mem Let_def)
qed

lemma udp4_build_parse:
  assumes "length p \<le> 65507"
  shows "\<exists>h u. udp4_parse (udp4_build (BAddr_IPv4 lip lport) (BAddr_IPv4 rip rport) p) = Some (h, u, p) \<and>
    ip4_source_address h = rip \<and> ip4_destination_address h = lip \<and> udp_source_port u = rport \<and> udp_dest_port u = lport \<and>
    unat (ntoh16 (ip4_total_length h)) = 28 + length p"
    "ip_version (udp4_build (BAddr_IPv4 lip lport) (BAddr_IPv4 rip rport) p) = 4"
proof -
  define h where "h = \<lparr>ip4_version4_ihl4 = IPV4_MAKE_VERSION_IHL 20, ip4_ds = hton8 0,
    ip4_total_length = hton16 (of_nat (20 + 8 + length p)), ip4_identification = hton16 0,
    ip4_flags3_fragmentoffset13 = hton16 0, ip4_ttl = hton8 64, ip4_protocol = hton8 IPV4_PROTOCOL_UDP,
    ip4_checksum = hton16 0, ip4_source_address = rip, ip4_destination_address = lip\<rparr>"
  define u where "u = \<lparr>udp_source_port = rport, udp_dest_port = lport, udp_length = hton16 (of_nat (8 + length p)),
    udp_checksum_field = hton16 0\<rparr>"
  let ?h = "h\<lparr>ip4_checksum := ipv4_checksum h [] 0\<rparr>"
  let ?u = "u\<lparr>udp_checksum_field := udp_checksum u p (of_nat (length p)) rip lip\<rparr>"
  have b: "udp4_build (BAddr_IPv4 lip lport) (BAddr_IPv4 rip rport) p = ipv4_header_mem ?h @ udp_header_mem ?u @ p"
    by (simp add: udp4_build_def h_def u_def Let_def)
  have v: "IPV4_GET_VERSION ?h = 4" "unat (IPV4_GET_IHL ?h) = 5"
    unfolding h_def IPV4_GET_VERSION_def IPV4_GET_IHL_def by simp_all code_simp+
  have l: "unat (ntoh16 (ip4_total_length ?h)) = 28 + length p" "unat (ntoh16 (udp_length ?u)) = 8 + length p"
    using assms unat_ntoh16_of_nat [of "28 + length p"] unat_ntoh16_of_nat [of "8 + length p"]
    by (simp_all add: h_def u_def del: ntoh_hton)
  have "udp4_exact ?h ?u p"
    using v l unfolding udp4_exact_def by (simp add: h_def hton8_def)
  from udp4_parse_mem [OF this]
  have "udp4_parse (ipv4_header_mem ?h @ udp_header_mem ?u @ p) = Some (?h, ?u\<lparr>udp_checksum_field := 0\<rparr>, p)"
    by (simp add: h_def u_def)
  then show "\<exists>h u. udp4_parse (udp4_build (BAddr_IPv4 lip lport) (BAddr_IPv4 rip rport) p) = Some (h, u, p) \<and>
    ip4_source_address h = rip \<and> ip4_destination_address h = lip \<and> udp_source_port u = rport \<and> udp_dest_port u = lport \<and>
    unat (ntoh16 (ip4_total_length h)) = 28 + length p"
    unfolding b using l(1) by (simp add: h_def u_def del: ntoh_hton)
  show "ip_version (udp4_build (BAddr_IPv4 lip lport) (BAddr_IPv4 rip rport) p) = 4"
    unfolding b ip_version_mem by (rule v)
qed

lemma udp6_build_parse:
  assumes "length p \<le> 65527" "length lip = 16" "length rip = 16"
  shows "\<exists>h u. udp6_parse (udp6_build (BAddr_IPv6 lip lport) (BAddr_IPv6 rip rport) p) = Some (h, u, p) \<and>
    ip6_source_address h = rip \<and> ip6_destination_address h = lip \<and> udp_source_port u = rport \<and> udp_dest_port u = lport"
    "ip_version (udp6_build (BAddr_IPv6 lip lport) (BAddr_IPv6 rip rport) p) = 6"
proof -
  define h where "h = \<lparr>ip6_version4_tc4 = hton8 (push_bit 4 6), ip6_tc4_fl4 = hton8 0, ip6_fl = hton16 0,
    ip6_payload_length = hton16 (of_nat (8 + length p)), ip6_next_header = hton8 IPV6_NEXT_UDP,
    ip6_hop_limit = hton8 64, ip6_source_address = rip, ip6_destination_address = lip\<rparr>"
  define u where "u = \<lparr>udp_source_port = rport, udp_dest_port = lport, udp_length = hton16 (of_nat (8 + length p)),
    udp_checksum_field = hton16 0\<rparr>"
  let ?u = "u\<lparr>udp_checksum_field := udp_ip6_checksum u p (of_nat (length p)) rip lip\<rparr>"
  have b: "udp6_build (BAddr_IPv6 lip lport) (BAddr_IPv6 rip rport) p = ipv6_header_mem h @ udp_header_mem ?u @ p"
    using assms by (simp add: udp6_build_def h_def u_def Let_def)
  have v: "ip6_version4_tc4 h = 0x60" "ip6_next_header h = IPV6_NEXT_UDP"
    unfolding h_def by (simp_all add: hton8_def push_bit_eq_mult)
  have l: "unat (ntoh16 (ip6_payload_length h)) = 8 + length p" "unat (ntoh16 (udp_length ?u)) = 8 + length p"
    using assms unat_ntoh16_of_nat [of "8 + length p"] by (simp_all add: h_def u_def del: ntoh_hton)
  have "udp6_parse (ipv6_header_mem h @ udp_header_mem ?u @ p) = Some (h, ?u\<lparr>udp_checksum_field := 0\<rparr>, p)"
    using assms(2,3) by (intro udp6_parse_mem v l) (simp_all add: h_def u_def)
  then show "\<exists>h u. udp6_parse (udp6_build (BAddr_IPv6 lip lport) (BAddr_IPv6 rip rport) p) = Some (h, u, p) \<and>
    ip6_source_address h = rip \<and> ip6_destination_address h = lip \<and> udp_source_port u = rport \<and> udp_dest_port u = lport"
    unfolding b by (simp add: h_def u_def)
  have "drop_bit 4 (0x60 :: byte) = 6" by code_simp
  then show "ip_version (udp6_build (BAddr_IPv6 lip lport) (BAddr_IPv6 rip rport) p) = 6"
    unfolding b using v(1) by (simp add: ip_version_def ipv6_header_mem_def)
qed

section \<open>Datagrams of the udpgw client\<close>

lemma length_builds:
  "length (udp4_build l r p) = 28 + length p"
  "length (ipv6_ip l) = 16 \<Longrightarrow> length (ipv6_ip r) = 16 \<Longrightarrow> length (udp6_build l r p) = 48 + length p"
  by (simp_all add: udp4_build_def udp6_build_def Let_def ipv6_header_mem_def)

lemma compute_udp_mtu_eq: "compute_udp_mtu mtu ip6 = max 0 (mtu - 28)"
  by (simp add: compute_udp_mtu_def Let_def)

fun datagram_fits :: "tunnel \<Rightarrow> BAddr \<Rightarrow> BAddr \<Rightarrow> bytes \<Rightarrow> bool" where
  "datagram_fits tn (BAddr_IPv4 lip lport) (BAddr_IPv4 rip rport) p \<longleftrightarrow>
     length p \<le> 65507 \<and> int (length p) + 28 \<le> tn_mtu tn"
| "datagram_fits tn (BAddr_IPv6 lip lport) (BAddr_IPv6 rip rport) p \<longleftrightarrow>
     tn_netif_ip6addr tn \<noteq> None \<and> length p \<le> 65527 \<and> int (length p) + 48 \<le> tn_mtu tn"
| "datagram_fits tn _ _ p \<longleftrightarrow> False"

lemma received4:
  assumes tn: "tn_udpgw_remote_server_addr tn \<noteq> None" "tn_udp_mtu tn = max 0 (tn_mtu tn - 28)"
    and l: "l = BAddr_IPv4 lip lport" and r: "r = BAddr_IPv4 rip rport" and fits: "datagram_fits tn l r p"
  shows "\<exists>dns. process_device_udp_packet tn (udp4_build l r p) = ([SocksUdpGwClient_SubmitPacket_call r l dns p], True)"
    "udpgw_client_handler_received tn l r p = Some [BTap_Send (udp4_build l r p)]"
proof -
  have fits: "length p \<le> 65507" "int (length p) + 28 \<le> tn_mtu tn" using fits by (simp_all add: l r)
  obtain h u where "udp4_parse (udp4_build l r p) = Some (h, u, p)" "ip4_source_address h = rip"
    "ip4_destination_address h = lip" "udp_source_port u = rport" "udp_dest_port u = lport"
    using udp4_build_parse(1) [OF fits(1), of lip lport rip rport] by (auto simp: l r)
  moreover have "ip_version (udp4_build l r p) = 4" using udp4_build_parse(2) [OF fits(1)] by (simp add: l r)
  ultimately show "\<exists>dns. process_device_udp_packet tn (udp4_build l r p) = ([SocksUdpGwClient_SubmitPacket_call r l dns p], True)"
    using tn fits(2) by (simp add: process_device_udp_packet_def BAddr_MakeIPv4_def l r)
  show "udpgw_client_handler_received tn l r p = Some [BTap_Send (udp4_build l r p)]"
    using tn(1) fits by (simp add: udpgw_client_handler_received_def device_write_def length_builds UINT16_MAX_def l r)
qed

lemma received6:
  assumes tn: "tn_udpgw_remote_server_addr tn \<noteq> None" "tn_udp_mtu tn = max 0 (tn_mtu tn - 28)"
    and l: "l = BAddr_IPv6 lip lport" and r: "r = BAddr_IPv6 rip rport" and fits: "datagram_fits tn l r p"
    and len: "length lip = 16" "length rip = 16"
  shows "\<exists>dns. process_device_udp_packet tn (udp6_build l r p) = ([SocksUdpGwClient_SubmitPacket_call r l dns p], True)"
    "udpgw_client_handler_received tn l r p = Some [BTap_Send (udp6_build l r p)]"
proof -
  have fits: "length p \<le> 65527" "int (length p) + 48 \<le> tn_mtu tn" and ip6: "tn_netif_ip6addr tn \<noteq> None"
    using fits by (simp_all add: l r)
  obtain h u where "udp6_parse (udp6_build l r p) = Some (h, u, p)" "ip6_source_address h = rip"
    "ip6_destination_address h = lip" "udp_source_port u = rport" "udp_dest_port u = lport"
    using udp6_build_parse(1) [OF fits(1) len, of lport rport] by (auto simp: l r)
  moreover have "ip_version (udp6_build l r p) = 6" using udp6_build_parse(2) [OF fits(1) len] by (simp add: l r)
  ultimately show "\<exists>dns. process_device_udp_packet tn (udp6_build l r p) = ([SocksUdpGwClient_SubmitPacket_call r l dns p], True)"
    using tn fits(2) ip6 len by (auto simp: process_device_udp_packet_def BAddr_MakeIPv6_def l r)
  show "udpgw_client_handler_received tn l r p = Some [BTap_Send (udp6_build l r p)]"
    using tn(1) fits ip6 len
    by (auto simp: udpgw_client_handler_received_def device_write_def length_builds UINT16_MAX_def l r Let_def)
qed

text \<open>C16. A datagram received from the udpgw server goes to the device as one packet that fits
  its MTU when the payload fits (and, for IPv6, the interface has an IPv6 address), and is
  dropped otherwise. The packet is a correct UDP packet from the remote to the local
  address: read back from the device it passes all checks of
  \<open>process_device_udp_packet\<close>, and the same payload is submitted to the udpgw client with
  the two addresses exchanged.\<close>

theorem udpgw_datagram_round_trip:
  assumes "tn_udpgw_remote_server_addr tn \<noteq> None" "baddr_ok l" "baddr_ok r" "BAddr_type l = BAddr_type r" "l \<noteq> BAddr_None"
    "tn_udp_mtu tn = compute_udp_mtu (tn_mtu tn) (tn_netif_ip6addr tn \<noteq> None)"
  shows "if datagram_fits tn l r p
    then \<exists>packet dns. udpgw_client_handler_received tn l r p = Some [BTap_Send packet] \<and>
      int (length packet) \<le> tn_mtu tn \<and>
      process_device_udp_packet tn packet = ([SocksUdpGwClient_SubmitPacket_call r l dns p], True)
    else udpgw_client_handler_received tn l r p = Some []"
proof (cases l)
  case (BAddr_IPv4 lip lport)
  with assms(4) obtain rip rport where r: "r = BAddr_IPv4 rip rport"
    by (cases r) (auto simp: BADDR_TYPE_NONE_def BADDR_TYPE_IPV4_def BADDR_TYPE_IPV6_def BADDR_TYPE_PACKET_def)
  show ?thesis
  proof (cases "datagram_fits tn l r p")
    case True
    with received4 [OF assms(1) _ BAddr_IPv4 r True] assms(6) show ?thesis
      by (auto simp: compute_udp_mtu_eq length_builds BAddr_IPv4 r)
  qed (use assms(1) in \<open>auto simp: udpgw_client_handler_received_def UINT16_MAX_def BAddr_IPv4 r\<close>)
next
  case (BAddr_IPv6 lip lport)
  with assms(4) obtain rip rport where r: "r = BAddr_IPv6 rip rport"
    by (cases r) (auto simp: BADDR_TYPE_NONE_def BADDR_TYPE_IPV4_def BADDR_TYPE_IPV6_def BADDR_TYPE_PACKET_def)
  have len: "length lip = 16" "length rip = 16" using assms(2,3) by (simp_all add: BAddr_IPv6 r)
  show ?thesis
  proof (cases "datagram_fits tn l r p")
    case True
    with received6 [OF assms(1) _ BAddr_IPv6 r True len] assms(6) len show ?thesis
      by (auto simp: compute_udp_mtu_eq length_builds BAddr_IPv6 r)
  qed (use assms(1) in \<open>auto simp: udpgw_client_handler_received_def UINT16_MAX_def BAddr_IPv6 r Let_def\<close>)
qed (use assms in simp_all)

definition sample_tunnel :: tunnel where
  "sample_tunnel = \<lparr>tn_dnsgw = Some (BAddr_IPv4 (hton32 0x7F000001) (hton16 8153)),
     tn_udpgw_remote_server_addr = Some (BAddr_IPv4 (hton32 0x7F000001) (hton16 7300)),
     tn_udpgw_transparent_dns = False, tn_netif_ip6addr = None, tn_netif_ipaddr = hton32 0x1A1A1A02,
     tn_mtu = 1500, tn_udp_mtu = compute_udp_mtu 1500 False, tn_quitting = False, tn_init = False,
     tn_connections = connections_init\<rparr>"

theorem udpgw_datagram_round_trip_witness:
  "\<exists>packet dns. udpgw_client_handler_received sample_tunnel
       (BAddr_IPv4 1 2) (BAddr_IPv4 3 4) [5, 6, 7] = Some [BTap_Send packet] \<and> length packet = 31 \<and>
     process_device_udp_packet sample_tunnel packet =
       ([SocksUdpGwClient_SubmitPacket_call (BAddr_IPv4 3 4) (BAddr_IPv4 1 2) dns [5, 6, 7]], True)"
  using udpgw_datagram_round_trip [of sample_tunnel "BAddr_IPv4 1 2" "BAddr_IPv4 3 4" "[5, 6, 7]"]
  by (auto simp: sample_tunnel_def udpgw_client_handler_received_def device_write_def UINT16_MAX_def length_builds)

section \<open>DNS queries and answers\<close>

definition tn_pending :: "tunnel \<Rightarrow> u16 \<rightharpoonup> BAddr \<times> BAddr \<times> int" where
  "tn_pending tn = (if tn_init tn then dns_lookup (tn_connections tn) else Map.empty)"

definition tunnel_ok :: "tunnel \<Rightarrow> bool" where
  "tunnel_ok tn \<longleftrightarrow> (tn_init tn \<longrightarrow> dns_ok (tn_connections tn)) \<and>
     (\<forall>gw. tn_dnsgw tn = Some gw \<longrightarrow> (\<exists>ip port. gw = BAddr_IPv4 ip port))"

definition tn_fresh :: "tunnel \<Rightarrow> nat \<Rightarrow> bool" where
  "tn_fresh tn m \<longleftrightarrow> (tn_init tn \<longrightarrow> dt_heap (tn_connections tn) m = None)"

lemma udp4_parse_version: "udp4_parse data = Some (h, u, p) \<Longrightarrow> ip_version data = 4"
proof -
  assume parse: "udp4_parse data = Some (h, u, p)"
  then obtain s n where ip: "ipv4_check data = Some (h, s, n)" "20 \<le> length data"
    by (auto simp: udp4_parse_def Let_def split: if_splits option.splits)
  then have "h = ipv4_header_get data" by (auto simp: ipv4_check_def Let_def split: if_splits)
  moreover have "take 20 data @ drop 20 data = data" by simp
  ultimately have "ip_version data = IPV4_GET_VERSION h"
    using ip_version_mem [of h "drop 20 data"] ipv4_header_mem_get [OF ip(2)] by simp
  then show ?thesis using udp4_parseD(1) [OF parse] by simp
qed

lemma dns_query:
  assumes ok: "tunnel_ok tn" "tn_fresh tn m" and gw: "tn_dnsgw tn = Some (BAddr_IPv4 gip gport)"
    and parse: "udp4_parse data = Some (h, u, p)" and to: "udp_dest_port u = hton16 53"
    and mtu: "int (length data) \<le> tn_mtu tn"
  shows "\<exists>dt. process_device_dns_packet (Some m) tn data =
      Some (tn\<lparr>tn_init := True, tn_connections := dt\<rparr>,
        [BTap_Send (dns_rewrite (h\<lparr>ip4_destination_address := gip, ip4_source_address := tn_netif_ipaddr tn\<rparr>)
          (u\<lparr>udp_dest_port := gport\<rparr>) p)], True) \<and> dns_ok dt \<and>
    dns_lookup dt = (tn_pending tn)(udp_source_port u \<mapsto>
      (case tn_pending tn (udp_source_port u) of
         None \<Rightarrow> (BAddr_IPv4 (ip4_source_address h) (udp_source_port u), BAddr_IPv4 (ip4_destination_address h) (hton16 53), 1)
       | Some (l, r, n) \<Rightarrow> (l, r, n + 1)))"
proof -
  define tn1 where "tn1 = (if \<not> tn_init tn then tn\<lparr>tn_init := True, tn_connections := connections_init\<rparr> else tn)"
  have tn1: "dns_ok (tn_connections tn1)" "dt_heap (tn_connections tn1) m = None" "dns_lookup (tn_connections tn1) = tn_pending tn"
    "tn_mtu tn1 = tn_mtu tn" "tn_netif_ipaddr tn1 = tn_netif_ipaddr tn"
    "\<And>dt. tn1\<lparr>tn_connections := dt\<rparr> = tn\<lparr>tn_init := True, tn_connections := dt\<rparr>"
    using ok by (auto simp: tn1_def tunnel_ok_def tn_fresh_def tn_pending_def connections_init_ok connections_init_empty)
  have "int (28 + length p) \<le> tn_mtu tn" using udp4_parseD(4-6) [OF parse] mtu by linarith
  then show ?thesis
    using insert_connection_ok [OF tn1(1,2), of "BAddr_IPv4 (ip4_source_address h) (udp_source_port u)"
        "BAddr_IPv4 (ip4_destination_address h) (hton16 53)" "udp_source_port u"]
    by (auto simp: process_device_dns_packet_def gw parse udp4_parse_version [OF parse] to tn1 BAddr_MakeIPv4_def
        device_write_def length_dns_rewrite simp flip: tn1_def)
qed

lemma dns_reply:
  assumes ok: "tunnel_ok tn" and gw: "tn_dnsgw tn = Some (BAddr_IPv4 gip gport)"
    and parse: "udp4_parse data = Some (h, u, p)" and "from": "udp_source_port u = gport" and not_to: "udp_dest_port u \<noteq> hton16 53"
    and mtu: "int (length data) \<le> tn_mtu tn" and pending: "tn_pending tn (udp_dest_port u) = Some (l, r, n)"
  shows "\<exists>dt. process_device_dns_packet malloc tn data = Some (tn\<lparr>tn_connections := dt\<rparr>,
        [BTap_Send (dns_rewrite (h\<lparr>ip4_source_address := ipv4_ip r, ip4_destination_address := ipv4_ip l\<rparr>)
          (u\<lparr>udp_source_port := ipv4_port r\<rparr>) p)], True) \<and> dns_ok dt \<and>
    dns_lookup dt = (tn_pending tn)(udp_dest_port u := if n = 1 then None else Some (l, r, n - 1))"
proof -
  have init: "tn_init tn" "dns_ok (tn_connections tn)" "tn_pending tn = dns_lookup (tn_connections tn)"
    using pending ok by (auto simp: tn_pending_def tunnel_ok_def split: if_splits)
  obtain con where con: "find_connection (tn_connections tn) (udp_dest_port u) = Some (Some con)"
    using pending by (auto simp: init(3) dns_lookup_def split: option.splits)
  then obtain c where c: "dt_heap (tn_connections tn) con = Some c" "l = con_local_addr c" "r = con_remote_addr c"
    using pending by (auto simp: init(3) dns_lookup_def)
  have "int (28 + length p) \<le> tn_mtu tn" using udp4_parseD(4-6) [OF parse] mtu by linarith
  then show ?thesis
    using find_remove_ok [OF init(2) con] pending
    by (auto simp: process_device_dns_packet_def gw parse udp4_parse_version [OF parse] "from" not_to init con c
        device_write_def length_dns_rewrite)
qed


text \<open>The addresses and the payload of a UDP packet, as its receiver sees them.\<close>

definition udp4_view :: "bytes \<Rightarrow> (BAddr \<times> BAddr \<times> bytes) option" where
  "udp4_view data = map_option (\<lambda>(h, u, p). (BAddr_IPv4 (ip4_source_address h) (udp_source_port u),
     BAddr_IPv4 (ip4_destination_address h) (udp_dest_port u), p)) (udp4_parse data)"

text \<open>A packet without IP options and without bytes after the datagram.\<close>

definition udp4_plain :: "bytes \<Rightarrow> bool" where
  "udp4_plain data \<longleftrightarrow> (case udp4_parse data of
     None \<Rightarrow> False | Some (h, u, p) \<Rightarrow> unat (ntoh16 (ip4_total_length h)) = 28 + length p)"

lemma udp4_viewE:
  assumes "udp4_view data = Some (src, dst, p)"
  obtains h u where "udp4_parse data = Some (h, u, p)" "src = BAddr_IPv4 (ip4_source_address h) (udp_source_port u)"
    "dst = BAddr_IPv4 (ip4_destination_address h) (udp_dest_port u)"
  using assms by (auto simp: udp4_view_def)

lemma view_dns_rewrite:
  "udp4_exact h u p \<Longrightarrow> udp4_view (dns_rewrite h u p) = Some
    (BAddr_IPv4 (ip4_source_address h) (udp_source_port u), BAddr_IPv4 (ip4_destination_address h) (udp_dest_port u), p)"
  using dns_rewrite_parse(1) [of h u p] by (auto simp: udp4_view_def)

lemma plain_exact: "udp4_plain data \<Longrightarrow> udp4_parse data = Some (h, u, p) \<Longrightarrow> udp4_exact h u p"
  using udp4_parse_exact by (simp add: udp4_plain_def)

text \<open>C7. DNS through the gateway: a query to port 53 of any server goes out as a correct packet from
  the address of the interface to the gateway with the same source port and payload. When the gateway
  answers to that port, the answer reaches the client as a correct packet from the server it
  asked, and the table of pending queries is what it was before. This holds under the following conditions:
  query and answer have neither IP options nor trailing bytes and fit the MTU, no other query from the source
  port is pending, the source port is not 53, and memory for the new entry is available. Without them the
  code does something else: options and trailing bytes are dropped, and a second query from a
  port whose first is pending is answered with the addresses of the first.\<close>

theorem dns_gateway_round_trip:
  assumes ok: "tunnel_ok tn" "tn_fresh tn m" and gw: "tn_dnsgw tn = Some (BAddr_IPv4 gip gport)"
    and query: "udp4_view q = Some (BAddr_IPv4 cip cport, BAddr_IPv4 sip (hton16 53), p)" "udp4_plain q" "int (length q) \<le> tn_mtu tn"
    and port: "tn_pending tn cport = None" "cport \<noteq> hton16 53"
    and answer: "udp4_view a = Some (BAddr_IPv4 gip gport, BAddr_IPv4 (tn_netif_ipaddr tn) cport, r)" "udp4_plain a" "int (length a) \<le> tn_mtu tn"
  shows "\<exists>tn1 q1 tn2 a1. process_device_dns_packet (Some m) tn q = Some (tn1, [BTap_Send q1], True) \<and>
    udp4_view q1 = Some (BAddr_IPv4 (tn_netif_ipaddr tn) cport, BAddr_IPv4 gip gport, p) \<and>
    process_device_dns_packet malloc tn1 a = Some (tn2, [BTap_Send a1], True) \<and>
    udp4_view a1 = Some (BAddr_IPv4 sip (hton16 53), BAddr_IPv4 cip cport, r) \<and>
    tn_pending tn2 = tn_pending tn \<and> tunnel_ok tn2"
proof -
  obtain h u where q: "udp4_parse q = Some (h, u, p)" "ip4_source_address h = cip" "udp_source_port u = cport"
    "ip4_destination_address h = sip" "udp_dest_port u = hton16 53"
    by (rule udp4_viewE [OF query(1)]) auto
  obtain dt where dt: "process_device_dns_packet (Some m) tn q = Some (tn\<lparr>tn_init := True, tn_connections := dt\<rparr>,
      [BTap_Send (dns_rewrite (h\<lparr>ip4_destination_address := gip, ip4_source_address := tn_netif_ipaddr tn\<rparr>)
        (u\<lparr>udp_dest_port := gport\<rparr>) p)], True)" "dns_ok dt"
    "dns_lookup dt = (tn_pending tn)(cport \<mapsto> (BAddr_IPv4 cip cport, BAddr_IPv4 sip (hton16 53), 1))"
    using dns_query [OF ok gw q(1,5) query(3)] port q by auto
  let ?tn1 = "tn\<lparr>tn_init := True, tn_connections := dt\<rparr>"
  obtain h' u' where a: "udp4_parse a = Some (h', u', r)" "udp_source_port u' = gport" "udp_dest_port u' = cport"
    by (rule udp4_viewE [OF answer(1)]) auto
  have tn1: "tunnel_ok ?tn1" "tn_dnsgw ?tn1 = Some (BAddr_IPv4 gip gport)" "int (length a) \<le> tn_mtu ?tn1"
    "tn_pending ?tn1 = dns_lookup dt"
    using ok dt(2) gw answer(3) by (auto simp: tunnel_ok_def tn_pending_def)
  obtain dt' where dt': "process_device_dns_packet malloc ?tn1 a = Some (?tn1\<lparr>tn_connections := dt'\<rparr>,
      [BTap_Send (dns_rewrite (h'\<lparr>ip4_source_address := sip, ip4_destination_address := cip\<rparr>)
        (u'\<lparr>udp_source_port := hton16 53\<rparr>) r)], True)" "dns_ok dt'" "dns_lookup dt' = (tn_pending tn)(cport := None)"
    using dns_reply [OF tn1(1,2) a(1,2) _ tn1(3), of "BAddr_IPv4 cip cport" "BAddr_IPv4 sip (hton16 53)" 1 malloc]
    by (auto simp: tn1(4) dt(3) a port)
  note ex = plain_exact [OF query(2) q(1)] plain_exact [OF answer(2) a(1)]
  have "dns_lookup dt' = tn_pending tn" using dt'(3) port(1) by auto
  then have "tn_pending (?tn1\<lparr>tn_connections := dt'\<rparr>) = tn_pending tn" "tunnel_ok (?tn1\<lparr>tn_connections := dt'\<rparr>)"
    using dt'(2) gw by (auto simp: tn_pending_def tunnel_ok_def)
  moreover have "udp4_view (dns_rewrite (h\<lparr>ip4_destination_address := gip, ip4_source_address := tn_netif_ipaddr tn\<rparr>)
        (u\<lparr>udp_dest_port := gport\<rparr>) p) = Some (BAddr_IPv4 (tn_netif_ipaddr tn) cport, BAddr_IPv4 gip gport, p)"
    "udp4_view (dns_rewrite (h'\<lparr>ip4_source_address := sip, ip4_destination_address := cip\<rparr>)
        (u'\<lparr>udp_source_port := hton16 53\<rparr>) r) = Some (BAddr_IPv4 sip (hton16 53), BAddr_IPv4 cip cport, r)"
    using ex q a by (simp_all add: view_dns_rewrite udp4_exact_update)
  ultimately show ?thesis using dt(1) dt'(1) by blast
qed

lemma view_udp4_build:
  assumes "length p \<le> 65507"
  shows "udp4_view (udp4_build (BAddr_IPv4 lip lport) (BAddr_IPv4 rip rport) p) = Some (BAddr_IPv4 rip rport, BAddr_IPv4 lip lport, p)"
    "udp4_plain (udp4_build (BAddr_IPv4 lip lport) (BAddr_IPv4 rip rport) p)"
  using udp4_build_parse(1) [OF assms, of lip lport rip rport] by (auto simp: udp4_view_def udp4_plain_def)

theorem dns_gateway_round_trip_witness:
  "let q = udp4_build (BAddr_IPv4 8 (hton16 53)) (BAddr_IPv4 26 4000) [1, 2, 3];
       a = udp4_build (BAddr_IPv4 (hton32 0x1A1A1A02) 4000) (BAddr_IPv4 (hton32 0x7F000001) (hton16 8153)) [4, 5]
   in \<exists>tn1 q1 tn2 a1. process_device_dns_packet (Some 0) sample_tunnel q = Some (tn1, [BTap_Send q1], True) \<and>
     process_device_dns_packet None tn1 a = Some (tn2, [BTap_Send a1], True) \<and>
     udp4_view a1 = Some (BAddr_IPv4 8 (hton16 53), BAddr_IPv4 26 4000, [4, 5])"
proof -
  have port: "(4000 :: u16) \<noteq> hton16 53" by code_simp
  show ?thesis
    unfolding Let_def
    using dns_gateway_round_trip [of sample_tunnel 0 "hton32 0x7F000001" "hton16 8153"
        "udp4_build (BAddr_IPv4 8 (hton16 53)) (BAddr_IPv4 26 4000) [1, 2, 3]" 26 4000 8 "[1, 2, 3]"
        "udp4_build (BAddr_IPv4 (hton32 0x1A1A1A02) 4000) (BAddr_IPv4 (hton32 0x7F000001) (hton16 8153)) [4, 5]" "[4, 5]" None]
    by (auto simp: sample_tunnel_def tunnel_ok_def tn_fresh_def tn_pending_def view_udp4_build length_builds port)
qed

text \<open>C38. The rewritten query is a valid IPv4 packet exactly when the original has no IP options
  and no bytes after its datagram: otherwise they are dropped, the header still counts them, and
  every receiver that checks the total length rejects the packet.\<close>

theorem dns_query_drops_options:
  assumes "tunnel_ok tn" "tn_fresh tn m" "tn_dnsgw tn = Some (BAddr_IPv4 gip gport)" "int (length q) \<le> tn_mtu tn"
    "udp4_view q = Some (client, BAddr_IPv4 sip (hton16 53), p)"
  shows "\<exists>tn1 q1. process_device_dns_packet (Some m) tn q = Some (tn1, [BTap_Send q1], True) \<and>
    length q1 = 28 + length p \<and> (ipv4_check q1 = None \<longleftrightarrow> \<not> udp4_plain q)"
proof -
  obtain h u where q: "udp4_parse q = Some (h, u, p)" "udp_dest_port u = hton16 53"
    by (rule udp4_viewE [OF assms(5)]) auto
  let ?h = "h\<lparr>ip4_destination_address := gip, ip4_source_address := tn_netif_ipaddr tn\<rparr>"
  let ?u = "u\<lparr>udp_dest_port := gport\<rparr>"
  let ?q = "dns_rewrite ?h ?u p"
  have "ipv4_check ?q \<noteq> None \<longleftrightarrow> udp4_plain q"
  proof
    assume "udp4_plain q"
    then have "udp4_exact ?h ?u p" using plain_exact q(1) by (simp add: udp4_exact_update)
    from dns_rewrite_parse(1) [OF this] show "ipv4_check ?q \<noteq> None"
      by (auto simp: udp4_parse_def split: if_splits option.splits)
  next
    assume "ipv4_check ?q \<noteq> None"
    moreover have "\<exists>c. ?q = ipv4_header_mem (?h\<lparr>ip4_checksum := c\<rparr>) @ drop 20 ?q"
      by (simp add: dns_rewrite_def Let_def) blast
    then obtain c where "ipv4_header_get ?q = ?h\<lparr>ip4_checksum := c\<rparr>" by (metis ipv4_header_get_mem)
    ultimately have "unat (ntoh16 (ip4_total_length h)) \<le> length ?q"
      by (auto simp: ipv4_check_def Let_def split: if_splits)
    then show "udp4_plain q"
      using udp4_parseD(4,5) [OF q(1)] by (simp add: udp4_plain_def q(1) length_dns_rewrite)
  qed
  then have "ipv4_check ?q = None \<longleftrightarrow> \<not> udp4_plain q" by blast
  with dns_query [OF assms(1-3) q assms(4)] show ?thesis by (auto simp: length_dns_rewrite)
qed

theorem dns_query_drops_options_witness:
  "let q = [70, 0, 0, 35, 0, 0, 0, 0, 64, 17, 93, 183, 10, 0, 0, 2, 8, 8, 8, 8, 1, 1, 1, 1, 15, 160, 0, 53, 0, 11, 209, 239, 1, 2, 3]
   in udp4_plain q = False \<and> (\<exists>tn1 q1. process_device_dns_packet (Some 0) sample_tunnel q = Some (tn1, [BTap_Send q1], True) \<and>
     ipv4_check q1 = None)"
proof -
  let ?q = "[70, 0, 0, 35, 0, 0, 0, 0, 64, 17, 93, 183, 10, 0, 0, 2, 8, 8, 8, 8, 1, 1, 1, 1, 15, 160, 0, 53, 0, 11, 209, 239, 1, 2, 3]"
  have v: "udp4_view ?q = Some (BAddr_IPv4 (hton32 0x0A000002) (hton16 4000), BAddr_IPv4 (hton32 0x08080808) (hton16 53), [1, 2, 3])"
    "\<not> udp4_plain ?q" by code_simp+
  show ?thesis
    unfolding Let_def
    using dns_query_drops_options [of sample_tunnel 0 "hton32 0x7F000001" "hton16 8153" ?q, OF _ _ _ _ v(1)] v(2)
    by (auto simp: sample_tunnel_def tunnel_ok_def tn_fresh_def)
qed

section \<open>Every packet is handled\<close>





section \<open>Packets of lwip\<close>

lemma netif_output_chunks_eq:
  "int (length buf) \<le> tn_mtu tn \<Longrightarrow> netif_output_chunks tn buf ps =
    (if int (length (buf @ concat ps)) \<le> tn_mtu tn then Some (buf @ concat ps) else None)"
  by (induction tn buf ps rule: netif_output_chunks.induct) auto

text \<open>A chain of buffers that lwip sends goes to the device as one packet, the concatenation
  of its chunks, if that fits the MTU, and is dropped otherwise; the copy through the write
  buffer and the direct send of a single chunk agree.\<close>

theorem netif_output_sends:
  assumes "p \<noteq> []" "0 \<le> tn_mtu tn"
  shows "common_netif_output tn p =
    (if \<not> tn_quitting tn \<and> int (length (concat p)) \<le> tn_mtu tn then [BTap_Send (concat p)] else [])"
proof (cases "tl p = []")
  case True
  with assms(1) obtain c where "p = [c]" by (cases p) auto
  then show ?thesis by (simp add: common_netif_output_def)
next
  case False
  then show ?thesis using assms(2) by (simp add: common_netif_output_def netif_output_chunks_eq)
qed

end
