(* ===== verification/Socks_Client.thy ===== *)
theory Socks_Client
  imports Socket_Addresses Sizes "HOL-Library.Monad_Syntax"
begin

text \<open>
  The SOCKS5 client, \<^verbatim>\<open>socksclient/BSocksClient.c\<close>, with the messages of
  \<^verbatim>\<open>misc/socks_proto.h\<close>. A handler returns the object and the calls it makes; \<open>None\<close> is a
  failed assertion. The buffer of the object is its bytes, \<open>None\<close> for null; a pointer into it
  is an offset. Connector, connection and reactor are parameters: whether they could be
  initialised, and the events of the system at the end of the theory. \<^verbatim>\<open>realloc\<close> is a parameter
  that returns the new block or \<open>None\<close>.
\<close>

section \<open>misc/socks\_proto.h\<close>

definition SOCKS_VERSION :: byte where "SOCKS_VERSION = 5"
definition SOCKS_METHOD_NO_AUTHENTICATION_REQUIRED :: int where "SOCKS_METHOD_NO_AUTHENTICATION_REQUIRED = 0"
definition SOCKS_METHOD_USERNAME_PASSWORD :: int where "SOCKS_METHOD_USERNAME_PASSWORD = 2"
definition SOCKS_CMD_CONNECT :: byte where "SOCKS_CMD_CONNECT = 1"
definition SOCKS_ATYP_IPV4 :: byte where "SOCKS_ATYP_IPV4 = 1"
definition SOCKS_ATYP_IPV6 :: byte where "SOCKS_ATYP_IPV6 = 4"
definition SOCKS_REP_SUCCEEDED :: byte where "SOCKS_REP_SUCCEEDED = 0"

lemmas socks_consts = SOCKS_VERSION_def SOCKS_METHOD_NO_AUTHENTICATION_REQUIRED_def SOCKS_METHOD_USERNAME_PASSWORD_def
  SOCKS_CMD_CONNECT_def SOCKS_ATYP_IPV4_def SOCKS_ATYP_IPV6_def SOCKS_REP_SUCCEEDED_def

definition socks_client_hello_header :: "byte \<Rightarrow> byte \<Rightarrow> bytes" where
  "socks_client_hello_header ver nmethods = [ver, nmethods]"

definition socks_client_hello_method :: "byte \<Rightarrow> bytes" where
  "socks_client_hello_method method = [method]"

record socks_server_hello =
  hello_ver :: byte
  hello_method :: byte

definition socks_request_header :: "byte \<Rightarrow> byte \<Rightarrow> byte \<Rightarrow> byte \<Rightarrow> bytes" where
  "socks_request_header ver cmd rsv atyp = [ver, cmd, rsv, atyp]"

record socks_reply_header =
  reply_ver :: byte
  reply_rep :: byte
  reply_rsv :: byte
  reply_atyp :: byte

definition socks_addr_ipv4 :: "u32 \<Rightarrow> u16 \<Rightarrow> bytes" where
  "socks_addr_ipv4 addr port = mem32 addr @ mem16 port"

definition socks_addr_ipv6 :: "bytes \<Rightarrow> u16 \<Rightarrow> bytes" where
  "socks_addr_ipv6 addr port = take 16 addr @ mem16 port"

section \<open>The object\<close>

record BSocksClient_auth_info =
  auth_type :: int
  auth_username :: bytes
  auth_password :: bytes

datatype socks_state =
  STATE_CONNECTING | STATE_SENDING_HELLO | STATE_SENT_HELLO | STATE_SENDING_PASSWORD | STATE_SENT_PASSWORD
| STATE_SENDING_REQUEST | STATE_SENT_REQUEST | STATE_RECEIVED_REPLY_HEADER | STATE_UP

text \<open>\<open>sc_connector\<close>, \<open>sc_con\<close>, \<open>sc_control_io\<close> and \<open>sc_up_io\<close> tell which of the parts of the object
  are initialised.\<close>

record BSocksClient =
  sc_auth_info :: "BSocksClient_auth_info list"
  sc_dest_addr :: BAddr
  sc_state :: socks_state
  sc_buffer :: "bytes option"
  sc_recv_dest :: nat
  sc_recv_len :: int
  sc_recv_total :: int
  sc_connector :: bool
  sc_con :: bool
  sc_control_io :: bool
  sc_up_io :: bool

datatype socks_call =
  Socks_Sender_Send bytes
| Socks_Receiver_Recv nat int
| Socks_handler int

definition BSOCKSCLIENT_EVENT_ERROR :: int where "BSOCKSCLIENT_EVENT_ERROR = 1"
definition BSOCKSCLIENT_EVENT_UP :: int where "BSOCKSCLIENT_EVENT_UP = 2"
definition BSOCKSCLIENT_EVENT_ERROR_CLOSED :: int where "BSOCKSCLIENT_EVENT_ERROR_CLOSED = 3"
definition BCONNECTION_EVENT_ERROR :: int where "BCONNECTION_EVENT_ERROR = 1"
definition BCONNECTION_EVENT_RECVCLOSED :: int where "BCONNECTION_EVENT_RECVCLOSED = 2"

lemmas socks_events = BSOCKSCLIENT_EVENT_ERROR_def BSOCKSCLIENT_EVENT_UP_def BSOCKSCLIENT_EVENT_ERROR_CLOSED_def
  BCONNECTION_EVENT_ERROR_def BCONNECTION_EVENT_RECVCLOSED_def

type_synonym socks_result = "(BSocksClient \<times> socks_call list) option"
type_synonym reallocator = "bytes option \<Rightarrow> int \<Rightarrow> bytes option"

definition realloc_ok :: "reallocator \<Rightarrow> bool" where
  "realloc_ok realloc \<longleftrightarrow> (\<forall>m n b. realloc m n = Some b \<longrightarrow> int (length b) = n)"

definition BRealloc :: "reallocator \<Rightarrow> bytes option \<Rightarrow> int \<Rightarrow> bytes option" where
  "BRealloc realloc m n = (if n = 0 then realloc m 1 else realloc m n)"

definition report_error :: "BSocksClient \<Rightarrow> int \<Rightarrow> socks_result" where
  "report_error s error = Some (s, [Socks_handler error])"

definition init_control_io :: "BSocksClient \<Rightarrow> BSocksClient option" where
  "init_control_io s = require (sc_con s \<and> \<not> sc_control_io s \<and> \<not> sc_up_io s) (s\<lparr>sc_control_io := True\<rparr>)"

definition free_control_io :: "BSocksClient \<Rightarrow> BSocksClient option" where
  "free_control_io s = require (sc_con s \<and> sc_control_io s) (s\<lparr>sc_control_io := False\<rparr>)"

definition init_up_io :: "BSocksClient \<Rightarrow> BSocksClient option" where
  "init_up_io s = require (sc_con s \<and> \<not> sc_control_io s \<and> \<not> sc_up_io s) (s\<lparr>sc_up_io := True\<rparr>)"

definition free_up_io :: "BSocksClient \<Rightarrow> BSocksClient option" where
  "free_up_io s = require (sc_con s \<and> sc_up_io s) (s\<lparr>sc_up_io := False\<rparr>)"

definition free_con :: "BSocksClient \<Rightarrow> BSocksClient option" where
  "free_con s = require (sc_con s \<and> \<not> sc_control_io s \<and> \<not> sc_up_io s) (s\<lparr>sc_con := False\<rparr>)"

text \<open>\<open>None\<close> is the return value 0.\<close>

definition reserve_buffer :: "reallocator \<Rightarrow> BSocksClient \<Rightarrow> bsize_t \<Rightarrow> BSocksClient option" where
  "reserve_buffer realloc s sz =
     (if is_overflow sz then None
      else (case BRealloc realloc (sc_buffer s) (bvalue sz) of
          None \<Rightarrow> None
        | Some buffer \<Rightarrow> Some (s\<lparr>sc_buffer := Some buffer\<rparr>)))"

definition do_receive :: "BSocksClient \<Rightarrow> socks_result" where
  "do_receive s = require (sc_recv_len s < sc_recv_total s)
     (s, [Socks_Receiver_Recv (sc_recv_dest s + nat (sc_recv_len s)) (sc_recv_total s - sc_recv_len s)])"

definition start_receive :: "BSocksClient \<Rightarrow> nat \<Rightarrow> int \<Rightarrow> socks_result" where
  "start_receive s dest n =
     (if n > 0 then do_receive (s\<lparr>sc_recv_dest := dest, sc_recv_len := 0, sc_recv_total := n\<rparr>) else None)"

text \<open>\<^verbatim>\<open>PacketPassInterface_Sender_Send\<close> of the start of the buffer; the buffer does not change
  before the send is done.\<close>

definition send_buffer :: "BSocksClient \<Rightarrow> int \<Rightarrow> socks_call list option" where
  "send_buffer s len = (case sc_buffer s of
     None \<Rightarrow> None
   | Some b \<Rightarrow> require (len \<le> int (length b)) [Socks_Sender_Send (take (nat len) b)])"

fun write_methods :: "bytes \<Rightarrow> nat \<Rightarrow> BSocksClient_auth_info list \<Rightarrow> bytes" where
  "write_methods buffer i [] = buffer"
| "write_methods buffer i (ai # ais) =
     write_methods (memcpy buffer (2 + i * 1) (socks_client_hello_method (hton8 (word_of_int (auth_type ai))))) (Suc i) ais"

definition connector_handler :: "reallocator \<Rightarrow> bool \<Rightarrow> BSocksClient \<Rightarrow> bool \<Rightarrow> socks_result" where
  "connector_handler realloc con_init s is_error =
     (if sc_state s \<noteq> STATE_CONNECTING then None
      else if is_error then report_error s BSOCKSCLIENT_EVENT_ERROR
      else if \<not> con_init then report_error s BSOCKSCLIENT_EVENT_ERROR
      else do {
        s \<leftarrow> init_control_io (s\<lparr>sc_con := True\<rparr>);
        let num_auth_info = int (length (sc_auth_info s));
        let fail1 = do {
          s \<leftarrow> free_control_io s;
          s \<leftarrow> free_con s;
          report_error s BSOCKSCLIENT_EVENT_ERROR
        };
        if num_auth_info = 0 \<or> num_auth_info > 255 then fail1
        else (let sz = bsize_add (bsize_fromsize 2) (bsize_mul (bsize_fromsize num_auth_info) (bsize_fromsize 1)) in
          case reserve_buffer realloc s sz of
            None \<Rightarrow> fail1
          | Some s \<Rightarrow> do {
              buffer \<leftarrow> sc_buffer s;
              let header = socks_client_hello_header (hton8 SOCKS_VERSION) (hton8 (word_of_int num_auth_info));
              let buffer = memcpy buffer 0 header;
              let s = s\<lparr>sc_buffer := Some (write_methods buffer 0 (sc_auth_info s))\<rparr>;
              cs \<leftarrow> send_buffer s (bvalue sz);
              Some (s\<lparr>sc_state := STATE_SENDING_HELLO\<rparr>, cs)
            })
      })"

definition connection_handler :: "BSocksClient \<Rightarrow> int \<Rightarrow> socks_result" where
  "connection_handler s event =
     (if sc_state s = STATE_CONNECTING then None
      else if sc_state s = STATE_UP \<and> event = BCONNECTION_EVENT_RECVCLOSED
      then report_error s BSOCKSCLIENT_EVENT_ERROR_CLOSED
      else report_error s BSOCKSCLIENT_EVENT_ERROR)"

definition auth_finished :: "reallocator \<Rightarrow> BSocksClient \<Rightarrow> socks_result" where
  "auth_finished realloc s =
     (let sz = bsize_fromsize 4;
          sz = (case sc_dest_addr s of
                  BAddr_IPv4 _ _ \<Rightarrow> bsize_add sz (bsize_fromsize 6)
                | BAddr_IPv6 _ _ \<Rightarrow> bsize_add sz (bsize_fromsize 18)
                | _ \<Rightarrow> sz)
      in case reserve_buffer realloc s sz of
           None \<Rightarrow> report_error s BSOCKSCLIENT_EVENT_ERROR
         | Some s \<Rightarrow> do {
             buffer \<leftarrow> sc_buffer s;
             (atyp, buffer) \<leftarrow> (case sc_dest_addr s of
                 BAddr_IPv4 ip port \<Rightarrow> Some (hton8 SOCKS_ATYP_IPV4, memcpy buffer 4 (socks_addr_ipv4 ip port))
               | BAddr_IPv6 ip port \<Rightarrow> Some (hton8 SOCKS_ATYP_IPV6, memcpy buffer 4 (socks_addr_ipv6 ip port))
               | _ \<Rightarrow> None);
             let header = socks_request_header (hton8 SOCKS_VERSION) (hton8 SOCKS_CMD_CONNECT) (hton8 0) atyp;
             let s = s\<lparr>sc_buffer := Some (memcpy buffer 0 header)\<rparr>;
             cs \<leftarrow> send_buffer s (bvalue sz);
             Some (s\<lparr>sc_state := STATE_SENDING_REQUEST\<rparr>, cs)
           })"

definition write_password :: "bytes \<Rightarrow> BSocksClient_auth_info \<Rightarrow> bytes" where
  "write_password buffer ai =
     (let ptr = 0;
          buffer = memcpy buffer ptr [1]; ptr = ptr + 1;
          buffer = memcpy buffer ptr [of_nat (length (auth_username ai))]; ptr = ptr + 1;
          buffer = memcpy buffer ptr (auth_username ai); ptr = ptr + length (auth_username ai);
          buffer = memcpy buffer ptr [of_nat (length (auth_password ai))]; ptr = ptr + 1
      in memcpy buffer ptr (auth_password ai))"

fun find_auth :: "BSocksClient_auth_info list \<Rightarrow> int \<Rightarrow> BSocksClient_auth_info option" where
  "find_auth [] method = None"
| "find_auth (ai # ais) method = (if auth_type ai = method then Some ai else find_auth ais method)"

definition send_password :: "reallocator \<Rightarrow> BSocksClient \<Rightarrow> BSocksClient_auth_info \<Rightarrow> socks_result" where
  "send_password realloc s ai =
     (let sz = bsize_fromsize (1 + 1 + int (length (auth_username ai)) + 1 + int (length (auth_password ai))) in
      case reserve_buffer realloc s sz of
        None \<Rightarrow> report_error s BSOCKSCLIENT_EVENT_ERROR
      | Some s \<Rightarrow> do {
          buffer \<leftarrow> sc_buffer s;
          let s = s\<lparr>sc_buffer := Some (write_password buffer ai)\<rparr>;
          cs \<leftarrow> send_buffer s (bvalue sz);
          Some (s\<lparr>sc_state := STATE_SENDING_PASSWORD\<rparr>, cs)
        })"

definition recv_hello :: "reallocator \<Rightarrow> BSocksClient \<Rightarrow> bytes \<Rightarrow> socks_result" where
  "recv_hello realloc s buffer =
     (let imsg = \<lparr>hello_ver = buffer ! 0, hello_method = buffer ! 1\<rparr>;
          fail = report_error s BSOCKSCLIENT_EVENT_ERROR
      in if ntoh8 (hello_ver imsg) \<noteq> SOCKS_VERSION then fail
         else (case find_auth (sc_auth_info s) (uint (ntoh8 (hello_method imsg))) of
             None \<Rightarrow> fail
           | Some ai \<Rightarrow>
               if auth_type ai = SOCKS_METHOD_NO_AUTHENTICATION_REQUIRED then auth_finished realloc s
               else if auth_type ai = SOCKS_METHOD_USERNAME_PASSWORD then
                 (let username_len = int (length (auth_username ai)); password_len = int (length (auth_password ai)) in
                  if username_len = 0 \<or> username_len > 255 \<or> password_len = 0 \<or> password_len > 255 then fail
                  else send_password realloc s ai)
               else None))"

definition recv_reply_header :: "BSocksClient \<Rightarrow> bytes \<Rightarrow> socks_result" where
  "recv_reply_header s buffer =
     (let imsg = \<lparr>reply_ver = buffer ! 0, reply_rep = buffer ! 1, reply_rsv = buffer ! 2, reply_atyp = buffer ! 3\<rparr>;
          fail = report_error s BSOCKSCLIENT_EVENT_ERROR;
          receive = (\<lambda>addr_len. do {
            (s, cs) \<leftarrow> start_receive s 4 addr_len;
            Some (s\<lparr>sc_state := STATE_RECEIVED_REPLY_HEADER\<rparr>, cs)
          })
      in if ntoh8 (reply_ver imsg) \<noteq> SOCKS_VERSION then fail
         else if ntoh8 (reply_rep imsg) \<noteq> SOCKS_REP_SUCCEEDED then fail
         else if ntoh8 (reply_atyp imsg) = SOCKS_ATYP_IPV4 then receive 6
         else if ntoh8 (reply_atyp imsg) = SOCKS_ATYP_IPV6 then receive 18
         else fail)"

definition recv_message :: "reallocator \<Rightarrow> BSocksClient \<Rightarrow> socks_result" where
  "recv_message realloc s = do {
     buffer \<leftarrow> sc_buffer s;
     case sc_state s of
       STATE_SENT_HELLO \<Rightarrow> recv_hello realloc s buffer
     | STATE_SENT_REQUEST \<Rightarrow> recv_reply_header s buffer
     | STATE_SENT_PASSWORD \<Rightarrow>
         if buffer ! 0 \<noteq> 1 then report_error s BSOCKSCLIENT_EVENT_ERROR
         else if buffer ! 1 \<noteq> 0 then report_error s BSOCKSCLIENT_EVENT_ERROR
         else auth_finished realloc s
     | STATE_RECEIVED_REPLY_HEADER \<Rightarrow> do {
         s \<leftarrow> free_control_io (s\<lparr>sc_buffer := None\<rparr>);
         s \<leftarrow> init_up_io s;
         Some (s\<lparr>sc_state := STATE_UP\<rparr>, [Socks_handler BSOCKSCLIENT_EVENT_UP])
       }
     | _ \<Rightarrow> None
   }"

definition recv_handler_done :: "reallocator \<Rightarrow> BSocksClient \<Rightarrow> int \<Rightarrow> socks_result" where
  "recv_handler_done realloc s data_len =
     (if \<not> (data_len \<ge> 0 \<and> data_len \<le> sc_recv_total s - sc_recv_len s) then None
      else (let s = s\<lparr>sc_recv_len := sc_recv_len s + data_len\<rparr> in
        if sc_recv_len s < sc_recv_total s then do_receive s else recv_message realloc s))"

text \<open>Receiving a message of \<open>n\<close> bytes into a buffer of the given size, in the next state.\<close>

definition receive_next :: "reallocator \<Rightarrow> BSocksClient \<Rightarrow> bsize_t \<Rightarrow> int \<Rightarrow> socks_state \<Rightarrow> socks_result" where
  "receive_next realloc s sz n state =
     (case reserve_buffer realloc s sz of
        None \<Rightarrow> report_error s BSOCKSCLIENT_EVENT_ERROR
      | Some s \<Rightarrow> do {
          (s, cs) \<leftarrow> start_receive s 0 n;
          Some (s\<lparr>sc_state := state\<rparr>, cs)
        })"

definition send_handler_done :: "reallocator \<Rightarrow> BSocksClient \<Rightarrow> socks_result" where
  "send_handler_done realloc s =
     (if sc_buffer s = None then None
      else (case sc_state s of
          STATE_SENDING_HELLO \<Rightarrow>
            (let sz = bsize_fromsize 2 in receive_next realloc s sz (bvalue sz) STATE_SENT_HELLO)
        | STATE_SENDING_REQUEST \<Rightarrow>
            (let sz = bsize_add (bsize_fromsize 4) (bsize_max (bsize_fromsize 6) (bsize_fromsize 18))
             in receive_next realloc s sz 4 STATE_SENT_REQUEST)
        | STATE_SENDING_PASSWORD \<Rightarrow>
            (let sz = bsize_fromsize 2 in receive_next realloc s sz (bvalue sz) STATE_SENT_PASSWORD)
        | _ \<Rightarrow> None))"

definition BSocksClient_auth_none :: BSocksClient_auth_info where
  "BSocksClient_auth_none = \<lparr>auth_type = SOCKS_METHOD_NO_AUTHENTICATION_REQUIRED, auth_username = [], auth_password = []\<rparr>"

definition BSocksClient_auth_password :: "bytes \<Rightarrow> bytes \<Rightarrow> BSocksClient_auth_info" where
  "BSocksClient_auth_password username password =
     \<lparr>auth_type = SOCKS_METHOD_USERNAME_PASSWORD, auth_username = username, auth_password = password\<rparr>"

text \<open>The outer \<open>None\<close> is a failed assertion, the inner one the return value 0.\<close>

definition BSocksClient_Init ::
  "bool \<Rightarrow> BAddr \<Rightarrow> BSocksClient_auth_info list \<Rightarrow> BAddr \<Rightarrow> BSocksClient option option" where
  "BSocksClient_Init connector_init server_addr auth_info dest_addr =
     require (\<not> BAddr_IsInvalid server_addr \<and>
         (BAddr_type dest_addr = BADDR_TYPE_IPV4 \<or> BAddr_type dest_addr = BADDR_TYPE_IPV6) \<and>
         list_all (\<lambda>ai. auth_type ai = SOCKS_METHOD_NO_AUTHENTICATION_REQUIRED \<or>
           auth_type ai = SOCKS_METHOD_USERNAME_PASSWORD) auth_info)
       (if \<not> connector_init then None
        else Some \<lparr>sc_auth_info = auth_info, sc_dest_addr = dest_addr, sc_state = STATE_CONNECTING, sc_buffer = None,
          sc_recv_dest = 0, sc_recv_len = 0, sc_recv_total = 0, sc_connector = True, sc_con = False,
          sc_control_io = False, sc_up_io = False\<rparr>)"

definition BSocksClient_Free :: "BSocksClient \<Rightarrow> BSocksClient option" where
  "BSocksClient_Free s = do {
     s \<leftarrow> (if sc_state s \<noteq> STATE_CONNECTING then do {
         s \<leftarrow> (if sc_state s = STATE_UP then free_up_io s else free_control_io s);
         free_con s
       } else Some s);
     s \<leftarrow> require (sc_connector s) (s\<lparr>sc_connector := False\<rparr>);
     Some (s\<lparr>sc_buffer := None\<rparr>)
   }"

section \<open>The client and its connection\<close>

text \<open>The state of the object, its pending send and receive operations, all bytes sent and
  received, and the events reported to the user. \<open>ss_io_error\<close> records a failed or broken
  connection.\<close>

record socks_sys =
  ss_client :: BSocksClient
  ss_sending :: bool
  ss_recv :: "(nat \<times> int) option"
  ss_tx :: bytes
  ss_rx :: bytes
  ss_events :: "int list"
  ss_io_error :: bool

fun ss_call :: "socks_call \<Rightarrow> socks_sys \<Rightarrow> socks_sys option" where
  "ss_call (Socks_Sender_Send b) s = require (\<not> ss_sending s) (s\<lparr>ss_sending := True, ss_tx := ss_tx s @ b\<rparr>)"
| "ss_call (Socks_Receiver_Recv d n) s = require (ss_recv s = None) (s\<lparr>ss_recv := Some (d, n)\<rparr>)"
| "ss_call (Socks_handler e) s = Some (s\<lparr>ss_events := ss_events s @ [e]\<rparr>)"

fun ss_calls :: "socks_call list \<Rightarrow> socks_sys \<Rightarrow> socks_sys option" where
  "ss_calls [] s = Some s"
| "ss_calls (c # cs) s = do { s \<leftarrow> ss_call c s; ss_calls cs s }"

definition ss_after :: "socks_sys \<Rightarrow> socks_result \<Rightarrow> socks_sys option" where
  "ss_after s r = do { (c, cs) \<leftarrow> r; ss_calls cs (s\<lparr>ss_client := c\<rparr>) }"

datatype socks_input = Connected bool bool | Sent | Received bytes | Connection_event int

fun ss_step :: "reallocator \<Rightarrow> socks_input \<Rightarrow> socks_sys \<Rightarrow> socks_sys option" where
  "ss_step realloc (Connected con_init is_error) s =
     ss_after (s\<lparr>ss_io_error := (is_error \<or> \<not> con_init)\<rparr>) (connector_handler realloc con_init (ss_client s) is_error)"
| "ss_step realloc Sent s = ss_after (s\<lparr>ss_sending := False\<rparr>) (send_handler_done realloc (ss_client s))"
| "ss_step realloc (Received data) s = (case (ss_recv s, sc_buffer (ss_client s)) of
     (Some (d, n), Some b) \<Rightarrow>
       if d + length data \<le> length b then
         ss_after (s\<lparr>ss_recv := None, ss_rx := ss_rx s @ data\<rparr>)
           (recv_handler_done realloc ((ss_client s)\<lparr>sc_buffer := Some (memcpy b d data)\<rparr>) (int (length data)))
       else None
   | _ \<Rightarrow> None)"
| "ss_step realloc (Connection_event e) s =
     ss_after (s\<lparr>ss_io_error := True\<rparr>) (connection_handler (ss_client s) e)"

definition ss_live :: "socks_sys \<Rightarrow> bool" where
  "ss_live s \<longleftrightarrow> ss_events s = [] \<or> ss_events s = [BSOCKSCLIENT_EVENT_UP]"

fun ss_enabled :: "socks_input \<Rightarrow> socks_sys \<Rightarrow> bool" where
  "ss_enabled (Connected _ _) s \<longleftrightarrow> ss_live s \<and> sc_state (ss_client s) = STATE_CONNECTING"
| "ss_enabled Sent s \<longleftrightarrow> ss_live s \<and> ss_sending s"
| "ss_enabled (Received data) s \<longleftrightarrow> ss_live s \<and> 0 < length data \<and>
     (case ss_recv s of None \<Rightarrow> False | Some (d, n) \<Rightarrow> int (length data) \<le> n)"
| "ss_enabled (Connection_event e) s \<longleftrightarrow> ss_live s \<and> sc_state (ss_client s) \<noteq> STATE_CONNECTING"

definition ss_init :: "BSocksClient \<Rightarrow> socks_sys" where
  "ss_init c = \<lparr>ss_client = c, ss_sending = False, ss_recv = None, ss_tx = [], ss_rx = [], ss_events = [], ss_io_error = False\<rparr>"

inductive socks_reach :: "reallocator \<Rightarrow> BSocksClient_auth_info list \<Rightarrow> BAddr \<Rightarrow> socks_sys \<Rightarrow> bool"
  for realloc auths dest where
  init: "BSocksClient_Init True server auths dest = Some (Some c) \<Longrightarrow> socks_reach realloc auths dest (ss_init c)"
| step: "socks_reach realloc auths dest s \<Longrightarrow> ss_enabled i s \<Longrightarrow> ss_step realloc i s = Some s' \<Longrightarrow>
    socks_reach realloc auths dest s'"

section \<open>The protocol\<close>

text \<open>The messages of RFC 1928 and RFC 1929, and what a client that received the bytes \<open>r\<close> is to
  do: wait for a number of further bytes, give up, or take the connection as established. Each
  verdict has the bytes that have been sent until then.\<close>

definition hello_msg :: "BSocksClient_auth_info list \<Rightarrow> bytes" where
  "hello_msg auths = [5, of_nat (length auths)] @ map (\<lambda>ai. word_of_int (auth_type ai)) auths"

definition password_msg :: "BSocksClient_auth_info \<Rightarrow> bytes" where
  "password_msg ai = [1, of_nat (length (auth_username ai))] @ auth_username ai @
     [of_nat (length (auth_password ai))] @ auth_password ai"

definition password_ok :: "BSocksClient_auth_info \<Rightarrow> bool" where
  "password_ok ai \<longleftrightarrow> length (auth_username ai) \<in> {1..255} \<and> length (auth_password ai) \<in> {1..255}"

fun request_msg :: "BAddr \<Rightarrow> bytes" where
  "request_msg (BAddr_IPv4 ip port) = [5, 1, 0, 1] @ mem32 ip @ mem16 port"
| "request_msg (BAddr_IPv6 ip port) = [5, 1, 0, 4] @ ip @ mem16 port"
| "request_msg _ = []"

datatype verdict = Waiting int bytes | Rejected bytes | Established bytes

definition reply_verdict :: "bytes \<Rightarrow> bytes \<Rightarrow> verdict" where
  "reply_verdict t r =
     (if length r < 4 then Waiting (4 - int (length r)) t
      else if r ! 0 \<noteq> 5 \<or> r ! 1 \<noteq> 0 \<or> (r ! 3 \<noteq> 1 \<and> r ! 3 \<noteq> 4) then Rejected t
      else (let n = (if r ! 3 = 1 then 10 else 22) in
        if length r < n then Waiting (int n - int (length r)) t else Established t))"

definition socks_verdict :: "BSocksClient_auth_info list \<Rightarrow> BAddr \<Rightarrow> bytes \<Rightarrow> verdict" where
  "socks_verdict auths dest r =
     (if length auths \<notin> {1..255} then Rejected []
      else (let t = hello_msg auths in
        if length r < 2 then Waiting (2 - int (length r)) t
        else if r ! 0 \<noteq> 5 then Rejected t
        else (case find_auth auths (uint (r ! 1)) of
            None \<Rightarrow> Rejected t
          | Some ai \<Rightarrow>
              if auth_type ai = 0 then reply_verdict (t @ request_msg dest) (drop 2 r)
              else if \<not> password_ok ai then Rejected t
              else (let t = t @ password_msg ai in
                if length r < 4 then Waiting (4 - int (length r)) t
                else if r ! 2 \<noteq> 1 \<or> r ! 3 \<noteq> 0 then Rejected t
                else reply_verdict (t @ request_msg dest) (drop 4 r)))))"

section \<open>The invariant\<close>

definition receiving :: "socks_sys \<Rightarrow> nat \<Rightarrow> nat \<Rightarrow> bytes \<Rightarrow> bool" where
  "receiving s d n r \<longleftrightarrow> \<not> ss_sending s \<and> sc_recv_dest (ss_client s) = d \<and> sc_recv_total (ss_client s) = int n \<and>
     sc_recv_len (ss_client s) = int (length r) \<and> length r < n \<and>
     ss_recv s = Some (d + length r, int n - int (length r)) \<and>
     (\<exists>b. sc_buffer (ss_client s) = Some b \<and> d + n \<le> length b \<and> bslice b d (length r) = r)"

definition sending :: "socks_sys \<Rightarrow> bool" where
  "sending s \<longleftrightarrow> ss_sending s \<and> ss_recv s = None \<and> sc_buffer (ss_client s) \<noteq> None"

text \<open>The authentication succeeded with the bytes \<open>r\<close> received and \<open>t\<close> sent.\<close>

definition auth_done :: "BSocksClient_auth_info list \<Rightarrow> bytes \<Rightarrow> bytes \<Rightarrow> bool" where
  "auth_done auths r t \<longleftrightarrow>
     r = [5, 0] \<and> find_auth auths 0 \<noteq> None \<and> t = hello_msg auths \<or>
     r = [5, 2, 1, 0] \<and> (\<exists>ai. find_auth auths 2 = Some ai \<and> password_ok ai \<and> t = hello_msg auths @ password_msg ai)"

definition res_inv :: "BSocksClient \<Rightarrow> bool" where
  "res_inv c \<longleftrightarrow> sc_connector c \<and> sc_con c = (sc_state c \<noteq> STATE_CONNECTING) \<and> sc_up_io c = (sc_state c = STATE_UP) \<and>
     sc_control_io c = (sc_state c \<noteq> STATE_CONNECTING \<and> sc_state c \<noteq> STATE_UP)"

fun proto_inv :: "socks_state \<Rightarrow> BSocksClient_auth_info list \<Rightarrow> BAddr \<Rightarrow> socks_sys \<Rightarrow> bool" where
  "proto_inv STATE_CONNECTING auths dest s \<longleftrightarrow> ss_tx s = [] \<and> ss_rx s = [] \<and> \<not> ss_sending s \<and> ss_recv s = None"
| "proto_inv STATE_SENDING_HELLO auths dest s \<longleftrightarrow> sending s \<and> ss_rx s = [] \<and> ss_tx s = hello_msg auths"
| "proto_inv STATE_SENT_HELLO auths dest s \<longleftrightarrow> receiving s 0 2 (ss_rx s) \<and> ss_tx s = hello_msg auths"
| "proto_inv STATE_SENDING_PASSWORD auths dest s \<longleftrightarrow> sending s \<and> ss_rx s = [5, 2] \<and>
     (\<exists>ai. find_auth auths 2 = Some ai \<and> password_ok ai \<and> ss_tx s = hello_msg auths @ password_msg ai)"
| "proto_inv STATE_SENT_PASSWORD auths dest s \<longleftrightarrow> (\<exists>ai r. ss_rx s = [5, 2] @ r \<and> receiving s 0 2 r \<and>
     find_auth auths 2 = Some ai \<and> password_ok ai \<and> ss_tx s = hello_msg auths @ password_msg ai)"
| "proto_inv STATE_SENDING_REQUEST auths dest s \<longleftrightarrow> (\<exists>t. sending s \<and> auth_done auths (ss_rx s) t \<and> ss_tx s = t @ request_msg dest)"
| "proto_inv STATE_SENT_REQUEST auths dest s \<longleftrightarrow> (\<exists>t r r1. ss_rx s = r @ r1 \<and> receiving s 0 4 r1 \<and>
     length (the (sc_buffer (ss_client s))) = 22 \<and> auth_done auths r t \<and> ss_tx s = t @ request_msg dest)"
| "proto_inv STATE_RECEIVED_REPLY_HEADER auths dest s \<longleftrightarrow> (\<exists>t r h r1. ss_rx s = r @ h @ r1 \<and> auth_done auths r t \<and>
     ss_tx s = t @ request_msg dest \<and> length h = 4 \<and> h ! 0 = 5 \<and> h ! 1 = 0 \<and>
     (h ! 3 = 1 \<and> receiving s 4 6 r1 \<or> h ! 3 = 4 \<and> receiving s 4 18 r1))"
| "proto_inv STATE_UP auths dest s \<longleftrightarrow> \<not> ss_sending s \<and> ss_recv s = None \<and>
     socks_verdict auths dest (ss_rx s) = Established (ss_tx s)"

definition socks_ok :: "reallocator \<Rightarrow> BSocksClient_auth_info list \<Rightarrow> BAddr \<Rightarrow> socks_sys \<Rightarrow> bool" where
  "socks_ok realloc auths dest s \<longleftrightarrow>
     sc_auth_info (ss_client s) = auths \<and> sc_dest_addr (ss_client s) = dest \<and> res_inv (ss_client s) \<and>
     (sc_state (ss_client s) \<noteq> STATE_CONNECTING \<longrightarrow> length auths \<in> {1..255}) \<and>
     (ss_live s \<longrightarrow> proto_inv (sc_state (ss_client s)) auths dest s) \<and>
     (ss_events s = [BSOCKSCLIENT_EVENT_UP] \<longleftrightarrow> ss_live s \<and> sc_state (ss_client s) = STATE_UP) \<and>
     (\<not> ss_live s \<longrightarrow> ss_io_error s \<or> (\<exists>m n. 0 < n \<and> realloc m n = None) \<or> socks_verdict auths dest (ss_rx s) = Rejected (ss_tx s))"

section \<open>The messages written\<close>

lemma hton8_id [simp]: "hton8 x = x" "ntoh8 x = x"
  by (simp_all add: hton8_def ntoh8_def)

lemma memcpy_append: "memcpy (xs @ ys) (length xs) zs = xs @ zs @ drop (length zs) ys"
  by (simp add: memcpy_def)

lemma write_methods_eq:
  "2 + i + length ais \<le> length b \<Longrightarrow> write_methods b i ais =
     take (2 + i) b @ map (\<lambda>ai. word_of_int (auth_type ai)) ais @ drop (2 + i + length ais) b"
proof (induction b i ais rule: write_methods.induct)
  case (2 b i ai ais)
  let ?b = "memcpy b (2 + i) [word_of_int (auth_type ai)]"
  have "?b = take (2 + i) b @ [word_of_int (auth_type ai)] @ drop (3 + i) b" by (simp add: memcpy_def eval_nat_numeral)
  then have "take (2 + Suc i) ?b = take (2 + i) b @ [word_of_int (auth_type ai)]"
    "drop (2 + Suc i + length ais) ?b = drop (2 + i + length (ai # ais)) b" "length ?b = length b"
    using "2.prems" by (simp_all add: eval_nat_numeral ac_simps)
  with 2 show ?case by (simp add: socks_client_hello_method_def)
qed simp

lemma write_password_eq:
  assumes "length b = 3 + length (auth_username ai) + length (auth_password ai)"
  shows "write_password b ai = password_msg ai"
proof -
  let ?u = "auth_username ai" and ?p = "auth_password ai"
  have step: "length xs = p \<Longrightarrow> memcpy (xs @ ys) p zs = (xs @ zs) @ drop (length zs) ys" for xs ys zs :: bytes and p
    by (simp add: memcpy_def)
  have "write_password ([] @ b) ai = ([] @ [1] @ [of_nat (length ?u)] @ ?u @ [of_nat (length ?p)] @ ?p) @
      drop (length ?p) (drop 1 (drop (length ?u) (drop 1 (drop 1 b))))"
    unfolding write_password_def Let_def
    by (simp only: step append_assoc [symmetric] list.size length_append) simp
  moreover have "drop (length ?p) (drop 1 (drop (length ?u) (drop 1 (drop 1 b)))) = []" using assms by simp
  ultimately show ?thesis by (simp add: password_msg_def)
qed

lemma reserve_cases:
  assumes "realloc_ok realloc" "\<not> is_overflow sz" "0 < bvalue sz"
  obtains "reserve_buffer realloc s sz = None" "\<exists>m n. 0 < n \<and> realloc m n = None"
  | b where "reserve_buffer realloc s sz = Some (s\<lparr>sc_buffer := Some b\<rparr>)" "int (length b) = bvalue sz"
proof (cases "BRealloc realloc (sc_buffer s) (bvalue sz)")
  case None
  then show thesis using assms(2,3) by (intro that(1)) (auto simp: reserve_buffer_def BRealloc_def)
next
  case (Some b)
  moreover from this have "int (length b) = bvalue sz"
    using assms(1,3) by (simp add: realloc_ok_def BRealloc_def)
  ultimately show thesis using assms(2) by (intro that(2)) (simp_all add: reserve_buffer_def)
qed

section \<open>Verdicts\<close>

lemma find_auth_type: "find_auth auths m = Some ai \<Longrightarrow> auth_type ai = m"
  by (induction auths m rule: find_auth.induct) (auto split: if_splits)

lemma verdict_hello:
  "length auths \<in> {1..255} \<Longrightarrow> length r < 2 \<Longrightarrow> socks_verdict auths dest r = Waiting (2 - int (length r)) (hello_msg auths)"
  by (simp add: socks_verdict_def Let_def)

lemma verdict_password:
  assumes "length auths \<in> {1..255}" "find_auth auths 2 = Some ai" "password_ok ai" "length r \<le> 2"
  shows "socks_verdict auths dest ([5, 2] @ r) =
    (if length r < 2 then Waiting (2 - int (length r)) (hello_msg auths @ password_msg ai)
     else if r ! 0 \<noteq> 1 \<or> r ! 1 \<noteq> 0 then Rejected (hello_msg auths @ password_msg ai)
     else Waiting 4 (hello_msg auths @ password_msg ai @ request_msg dest))"
  using assms find_auth_type [OF assms(2)] by (auto simp: socks_verdict_def reply_verdict_def Let_def)

lemma verdict_auth_done:
  assumes "length auths \<in> {1..255}" "auth_done auths r t"
  shows "socks_verdict auths dest (r @ r1) = reply_verdict (t @ request_msg dest) r1"
  using assms find_auth_type [of auths 0] find_auth_type [of auths 2]
  by (auto simp: socks_verdict_def auth_done_def Let_def)

lemma proto_inv_verdict:
  assumes "length auths \<in> {1..255}" "proto_inv (sc_state (ss_client s)) auths dest s"
    "sc_state (ss_client s) \<noteq> STATE_CONNECTING" "sc_state (ss_client s) \<noteq> STATE_UP"
  shows "\<exists>n. socks_verdict auths dest (ss_rx s) = Waiting n (ss_tx s) \<and>
    (ss_sending s \<and> ss_recv s = None \<or> \<not> ss_sending s \<and> (\<exists>d. ss_recv s = Some (d, n)))"
proof (cases "sc_state (ss_client s)")
  case STATE_SENDING_HELLO
  then show ?thesis using assms(2) verdict_hello [OF assms(1), of "[]"] by (auto simp: sending_def)
next
  case STATE_SENT_HELLO
  then show ?thesis using assms(2) verdict_hello [OF assms(1), of "ss_rx s"] by (auto simp: receiving_def)
next
  case STATE_SENDING_PASSWORD
  then show ?thesis using assms(2) verdict_password [OF assms(1), of _ "[]"] by (auto simp: sending_def)
next
  case STATE_SENT_PASSWORD
  then show ?thesis using assms(2) verdict_password [OF assms(1)] by (auto simp: receiving_def)
next
  case STATE_SENDING_REQUEST
  then show ?thesis using assms(2) verdict_auth_done [OF assms(1), of _ _ dest "[]"] by (auto simp: sending_def reply_verdict_def)
next
  case STATE_SENT_REQUEST
  then show ?thesis using assms(2) verdict_auth_done [OF assms(1)] by (auto simp: receiving_def reply_verdict_def)
next
  case STATE_RECEIVED_REPLY_HEADER
  then obtain t r h r1 where x: "ss_rx s = r @ h @ r1" "auth_done auths r t" "ss_tx s = t @ request_msg dest" "length h = 4"
    "h ! 0 = 5" "h ! 1 = 0" "h ! 3 = 1 \<and> receiving s 4 6 r1 \<or> h ! 3 = 4 \<and> receiving s 4 18 r1"
    using assms(2) by auto
  then show ?thesis
    using verdict_auth_done [OF assms(1) x(2), of dest "h @ r1"]
    by (auto simp: reply_verdict_def nth_append receiving_def Let_def)
qed (use assms in auto)

section \<open>Every step keeps the invariant\<close>

lemma bsize_consts:
  "bsize_add (bsize_fromsize 4) (bsize_fromsize 6) = bsize_fromsize 10"
  "bsize_add (bsize_fromsize 4) (bsize_fromsize 18) = bsize_fromsize 22"
  "bsize_add (bsize_fromsize 4) (bsize_max (bsize_fromsize 6) (bsize_fromsize 18)) = bsize_fromsize 22"
  by (simp_all add: bsize_add_def bsize_max_def bsize_fromsize_def c_size_def SIZE_MAX_def)

lemma bsize_methods:
  assumes "0 < n" "n \<le> 255"
  shows "bsize_add (bsize_fromsize 2) (bsize_mul (bsize_fromsize n) (bsize_fromsize 1)) = bsize_fromsize (2 + n)"
proof -
  have "1 \<le> SIZE_MAX div n" using mul_fits_iff [OF assms(1), of 1 SIZE_MAX] assms(2) by (simp add: SIZE_MAX_def)
  then show ?thesis
    using assms by (simp add: bsize_add_def bsize_mul_def bsize_fromsize_def c_size_def SIZE_MAX_def)
qed

lemma bsize_fromsize_sel [simp]: "is_overflow (bsize_fromsize n) = False" "bvalue (bsize_fromsize n) = n"
  by (simp_all add: bsize_fromsize_def)

text \<open>The step ends in a state that satisfies the invariant.\<close>

definition step_ok :: "reallocator \<Rightarrow> BSocksClient_auth_info list \<Rightarrow> BAddr \<Rightarrow> socks_sys option \<Rightarrow> bool" where
  "step_ok realloc auths dest r \<longleftrightarrow> (case r of None \<Rightarrow> False | Some s \<Rightarrow> socks_ok realloc auths dest s)"

definition client_ok :: "BSocksClient_auth_info list \<Rightarrow> BAddr \<Rightarrow> BSocksClient \<Rightarrow> bool" where
  "client_ok auths dest c \<longleftrightarrow> sc_auth_info c = auths \<and> sc_dest_addr c = dest \<and> res_inv c \<and>
     (sc_state c \<noteq> STATE_CONNECTING \<longrightarrow> length auths \<in> {1..255})"

lemma step_error:
  assumes "client_ok auths dest c" "ss_events s = []"
    "ss_io_error s \<or> (\<exists>m n. 0 < n \<and> realloc m n = None) \<or> socks_verdict auths dest (ss_rx s) = Rejected (ss_tx s)"
  shows "step_ok realloc auths dest (ss_after s (report_error c BSOCKSCLIENT_EVENT_ERROR))"
  using assms by (auto simp: step_ok_def ss_after_def report_error_def socks_ok_def client_ok_def ss_live_def socks_events)

lemma step_send:
  assumes "client_ok auths dest c" "ss_events s = []" "\<not> ss_sending s" "sc_state c \<noteq> STATE_UP"
    "proto_inv (sc_state c) auths dest (s\<lparr>ss_client := c, ss_sending := True, ss_tx := ss_tx s @ b\<rparr>)"
  shows "step_ok realloc auths dest (ss_after s (Some (c, [Socks_Sender_Send b])))"
  using assms by (auto simp: step_ok_def ss_after_def socks_ok_def client_ok_def ss_live_def socks_events require_def)

lemma step_receive:
  assumes "client_ok auths dest c" "ss_events s = []" "ss_recv s = None" "sc_state c \<noteq> STATE_UP"
    "proto_inv (sc_state c) auths dest (s\<lparr>ss_client := c, ss_recv := Some (d, n)\<rparr>)"
  shows "step_ok realloc auths dest (ss_after s (Some (c, [Socks_Receiver_Recv d n])))"
  using assms by (auto simp: step_ok_def ss_after_def socks_ok_def client_ok_def ss_live_def socks_events require_def)

lemma client_ok_state:
  assumes "client_ok auths dest c" "sc_state c \<noteq> STATE_CONNECTING" "sc_state c \<noteq> STATE_UP"
    "st \<noteq> STATE_CONNECTING" "st \<noteq> STATE_UP"
  shows "client_ok auths dest (c\<lparr>sc_state := st\<rparr>)"
  using assms by (simp add: client_ok_def res_inv_def)

lemma client_ok_fields [simp]:
  "client_ok auths dest (c\<lparr>sc_buffer := b\<rparr>) = client_ok auths dest c"
  "client_ok auths dest (c\<lparr>sc_recv_len := n\<rparr>) = client_ok auths dest c"
  "client_ok auths dest (c\<lparr>sc_recv_dest := d\<rparr>) = client_ok auths dest c"
  "client_ok auths dest (c\<lparr>sc_recv_total := m\<rparr>) = client_ok auths dest c"
  by (simp_all add: client_ok_def res_inv_def)

lemma connector_step:
  assumes ok: "realloc_ok realloc" and c: "client_ok auths dest c" "sc_state c = STATE_CONNECTING"
    and s: "ss_events s = []" "ss_tx s = []" "ss_rx s = []" "\<not> ss_sending s" "ss_recv s = None"
      "ss_io_error s = (is_error \<or> \<not> con_init)"
  shows "step_ok realloc auths dest (ss_after s (connector_handler realloc con_init c is_error))"
proof (cases "ss_io_error s")
  case True
  with c(2) s(6) have "connector_handler realloc con_init c is_error = report_error c BSOCKSCLIENT_EVENT_ERROR"
    by (auto simp: connector_handler_def)
  then show ?thesis using step_error [OF c(1) s(1)] True by simp
next
  case False
  define c1 where "c1 = c\<lparr>sc_con := True, sc_control_io := True\<rparr>"
  have c0: "sc_auth_info c = auths" "sc_dest_addr c = dest" "sc_connector c" "\<not> sc_con c" "\<not> sc_control_io c" "\<not> sc_up_io c"
    using c by (auto simp: client_ok_def res_inv_def)
  have fail: "do { s \<leftarrow> free_control_io c1; s \<leftarrow> free_con s; report_error s BSOCKSCLIENT_EVENT_ERROR } =
      report_error c BSOCKSCLIENT_EVENT_ERROR"
    using c0 by (simp add: c1_def free_control_io_def free_con_def require_def) (cases c, simp)
  have init: "init_control_io (c\<lparr>sc_con := True\<rparr>) = Some c1" using c0 by (simp add: c1_def init_control_io_def)
  show ?thesis
  proof (cases "length auths \<in> {1..255}")
    case False
    then have "int (length auths) = 0 \<or> int (length auths) > 255" by (cases auths) auto
    moreover have "sc_auth_info c1 = auths" by (simp add: c1_def c0)
    ultimately have "connector_handler realloc con_init c is_error = report_error c BSOCKSCLIENT_EVENT_ERROR"
      using \<open>\<not> ss_io_error s\<close> s(6) fail by (simp add: connector_handler_def c(2) init Let_def)
    then show ?thesis using step_error [OF c(1) s(1)] False s by (simp add: socks_verdict_def)
  next
    case True
    let ?sz = "bsize_fromsize (2 + int (length auths))"
    have len: "bsize_add (bsize_fromsize 2) (bsize_mul (bsize_fromsize (int (length auths))) (bsize_fromsize 1)) = ?sz"
      using True by (intro bsize_methods) auto
    have c1: "sc_auth_info c1 = auths" by (simp add: c1_def c0)
    show ?thesis
    proof (rule reserve_cases [OF ok, of ?sz c1])
      assume "reserve_buffer realloc c1 ?sz = None" "\<exists>m n. 0 < n \<and> realloc m n = None"
      then show ?thesis
        using \<open>\<not> ss_io_error s\<close> s(6) fail True step_error [OF c(1) s(1), of realloc]
        by (auto simp: connector_handler_def c(2) init Let_def c1 len)
    next
      fix b assume b: "reserve_buffer realloc c1 ?sz = Some (c1\<lparr>sc_buffer := Some b\<rparr>)" "int (length b) = bvalue ?sz"
      let ?h = "socks_client_hello_header (hton8 SOCKS_VERSION) (hton8 (word_of_int (int (length auths))))"
      have lb: "length b = 2 + length auths" using b(2) by simp
      then have "length (memcpy b 0 ?h) = 2 + length auths" by (simp add: socks_client_hello_header_def)
      then have w: "write_methods (memcpy b 0 ?h) 0 auths = hello_msg auths"
        by (subst write_methods_eq) (simp_all add: hello_msg_def memcpy_def socks_client_hello_header_def SOCKS_VERSION_def)
      let ?c = "c1\<lparr>sc_buffer := Some (hello_msg auths), sc_state := STATE_SENDING_HELLO\<rparr>"
      have "length (hello_msg auths) = 2 + length auths" by (simp add: hello_msg_def)
      then have "connector_handler realloc con_init c is_error = Some (?c, [Socks_Sender_Send (hello_msg auths)])"
        using \<open>\<not> ss_io_error s\<close> s(6) True w
        by (auto simp: connector_handler_def c(2) init Let_def c1 len b(1) send_buffer_def require_def nat_add_distrib)
      moreover have "client_ok auths dest ?c" using True c0 by (simp add: client_ok_def res_inv_def c1_def)
      ultimately show ?thesis
        using s step_send [of auths dest ?c s "hello_msg auths" realloc] by (simp add: sending_def)
    qed (use True in auto)
  qed
qed

text \<open>The end of the authentication: the request is sent.\<close>

lemma auth_finished_step:
  assumes ok: "realloc_ok realloc" and c: "client_ok auths dest c" "sc_state c \<noteq> STATE_CONNECTING" "sc_state c \<noteq> STATE_UP"
    and dest: "(\<exists>ip port. dest = BAddr_IPv4 ip port) \<or> (\<exists>ip port. dest = BAddr_IPv6 ip port \<and> length ip = 16)"
    and s: "ss_events s = []" "\<not> ss_sending s" "ss_recv s = None" "auth_done auths (ss_rx s) (ss_tx s)"
  shows "step_ok realloc auths dest (ss_after s (auth_finished realloc c))"
proof -
  define n where "n = length (request_msg dest)"
  have n: "n = 10 \<or> n = 22" using dest by (auto simp: n_def)
  have sz: "(case sc_dest_addr c of BAddr_IPv4 _ _ \<Rightarrow> bsize_add (bsize_fromsize 4) (bsize_fromsize 6)
      | BAddr_IPv6 _ _ \<Rightarrow> bsize_add (bsize_fromsize 4) (bsize_fromsize 18) | _ \<Rightarrow> bsize_fromsize 4) = bsize_fromsize (int n)"
    using dest c(1) by (auto simp: client_ok_def n_def bsize_consts)
  show ?thesis
  proof (rule reserve_cases [OF ok, of "bsize_fromsize (int n)" c])
    assume "reserve_buffer realloc c (bsize_fromsize (int n)) = None" "\<exists>m n. 0 < n \<and> realloc m n = None"
    then show ?thesis using step_error [OF c(1) s(1), of realloc] by (simp add: auth_finished_def sz)
  next
    fix b assume b: "reserve_buffer realloc c (bsize_fromsize (int n)) = Some (c\<lparr>sc_buffer := Some b\<rparr>)"
      "int (length b) = bvalue (bsize_fromsize (int n))"
    let ?c = "c\<lparr>sc_buffer := Some (request_msg dest), sc_state := STATE_SENDING_REQUEST\<rparr>"
    have lb: "length b = n" using b(2) by simp
    have d: "sc_dest_addr c = dest" using c(1) by (simp add: client_ok_def)
    have "auth_finished realloc c = Some (?c, [Socks_Sender_Send (request_msg dest)])"
      using dest lb b(1)
      by (auto simp: auth_finished_def Let_def bsize_consts d send_buffer_def require_def n_def memcpy_def socks_consts
          socks_addr_ipv4_def socks_addr_ipv6_def socks_request_header_def)
    moreover have "client_ok auths dest ?c"
      using c by (intro client_ok_state) simp_all
    ultimately show ?thesis
      using s step_send [of auths dest ?c s "request_msg dest" realloc] by (auto simp: sending_def)
  qed (use n in auto)
qed

lemma receive_next_step:
  assumes ok: "realloc_ok realloc" and c: "client_ok auths dest c" "sc_state c \<noteq> STATE_CONNECTING" "sc_state c \<noteq> STATE_UP"
    and s: "ss_events s = []" "ss_recv s = None" "\<not> ss_sending s" and n: "0 < n" "n \<le> m"
    and st: "st \<noteq> STATE_CONNECTING" "st \<noteq> STATE_UP"
    and inv: "\<And>c' s'. receiving s' 0 n [] \<Longrightarrow> length (the (sc_buffer (ss_client s'))) = m \<Longrightarrow>
      ss_tx s' = ss_tx s \<Longrightarrow> ss_rx s' = ss_rx s \<Longrightarrow> proto_inv st auths dest s'"
  shows "step_ok realloc auths dest (ss_after s (receive_next realloc c (bsize_fromsize (int m)) (int n) st))"
proof (rule reserve_cases [OF ok, of "bsize_fromsize (int m)" c])
  assume "reserve_buffer realloc c (bsize_fromsize (int m)) = None" "\<exists>m n. 0 < n \<and> realloc m n = None"
  then show ?thesis using step_error [OF c(1) s(1), of realloc] by (simp add: receive_next_def)
next
  fix b assume b: "reserve_buffer realloc c (bsize_fromsize (int m)) = Some (c\<lparr>sc_buffer := Some b\<rparr>)"
    "int (length b) = bvalue (bsize_fromsize (int m))"
  let ?c = "c\<lparr>sc_buffer := Some b, sc_recv_dest := 0, sc_recv_len := 0, sc_recv_total := int n, sc_state := st\<rparr>"
  have "receive_next realloc c (bsize_fromsize (int m)) (int n) st = Some (?c, [Socks_Receiver_Recv 0 (int n)])"
    using n by (simp add: receive_next_def b(1) start_receive_def do_receive_def require_def)
  moreover have "client_ok auths dest ?c" using c st by (intro client_ok_state) simp_all
  moreover have "proto_inv st auths dest (s\<lparr>ss_client := ?c, ss_recv := Some (0, int n)\<rparr>)"
    using b(2) n s by (intro inv) (simp_all add: receiving_def)
  ultimately show ?thesis using step_receive [of auths dest ?c s 0 "int n" realloc] s st by simp
qed (use n in auto)

definition dest_ok :: "BAddr \<Rightarrow> bool" where
  "dest_ok dest \<longleftrightarrow> (\<exists>ip port. dest = BAddr_IPv4 ip port) \<or> (\<exists>ip port. dest = BAddr_IPv6 ip port \<and> length ip = 16)"

definition auths_ok :: "BSocksClient_auth_info list \<Rightarrow> bool" where
  "auths_ok auths \<longleftrightarrow> list_all (\<lambda>ai. auth_type ai = 0 \<or> auth_type ai = 2) auths"

lemma find_auth_ok: "auths_ok auths \<Longrightarrow> find_auth auths m = Some ai \<Longrightarrow> m = 0 \<or> m = 2"
  unfolding auths_ok_def by (induction auths m rule: find_auth.induct) (auto split: if_splits)

lemma uint_byte_eq: "uint (x :: byte) = 0 \<longleftrightarrow> x = 0" "uint (x :: byte) = 2 \<longleftrightarrow> x = 2"
  by (simp_all add: word_uint_eq_iff)

lemma send_password_step:
  assumes ok: "realloc_ok realloc" and c: "client_ok auths dest c" "sc_state c = STATE_SENT_HELLO"
    and s: "ss_events s = []" "\<not> ss_sending s" "ss_recv s = None" "ss_tx s = hello_msg auths" "ss_rx s = [5, 2]"
    and ai: "find_auth auths 2 = Some ai" "password_ok ai"
  shows "step_ok realloc auths dest (ss_after s (send_password realloc c ai))"
proof (rule reserve_cases [OF ok, of "bsize_fromsize (int (length (password_msg ai)))" c])
  have sz: "1 + 1 + int (length (auth_username ai)) + 1 + int (length (auth_password ai)) = int (length (password_msg ai))"
    by (simp add: password_msg_def)
  let ?sz = "bsize_fromsize (int (length (password_msg ai)))"
  note def = send_password_def Let_def sz
  {
    assume "reserve_buffer realloc c ?sz = None" "\<exists>m n. 0 < n \<and> realloc m n = None"
    then show ?thesis using step_error [OF c(1) s(1), of realloc] unfolding def by simp
  next
    fix b assume b: "reserve_buffer realloc c ?sz = Some (c\<lparr>sc_buffer := Some b\<rparr>)" "int (length b) = bvalue ?sz"
    let ?c = "c\<lparr>sc_buffer := Some (password_msg ai), sc_state := STATE_SENDING_PASSWORD\<rparr>"
    have "length b = 3 + length (auth_username ai) + length (auth_password ai)" using b(2) by (simp add: password_msg_def)
    then have "send_password realloc c ai = Some (?c, [Socks_Sender_Send (password_msg ai)])"
      unfolding def by (simp add: b(1) write_password_eq send_buffer_def require_def)
    moreover have "client_ok auths dest ?c" using c by (intro client_ok_state) simp_all
    ultimately show ?thesis
      using s ai step_send [of auths dest ?c s "password_msg ai" realloc] by (auto simp: sending_def)
  }
qed (simp_all add: password_msg_def)

lemma recv_hello_step:
  assumes ok: "realloc_ok realloc" "dest_ok dest" "auths_ok auths"
    and c: "client_ok auths dest c" "sc_state c = STATE_SENT_HELLO"
    and s: "ss_events s = []" "\<not> ss_sending s" "ss_recv s = None" "ss_tx s = hello_msg auths"
      "ss_rx s = [x, y]" "take 2 b = [x, y]"
  shows "step_ok realloc auths dest (ss_after s (recv_hello realloc c b))"
proof -
  have len: "length auths \<in> {1..255}" and a: "sc_auth_info c = auths" using c by (auto simp: client_ok_def)
  have b: "b ! 0 = x" "b ! Suc 0 = y" using nth_take [of 0 2 b] nth_take [of 1 2 b] by (simp_all add: s(6))
  note v = socks_verdict_def [of auths dest "[x, y]"]
  consider "x \<noteq> 5 \<or> find_auth auths (uint y) = None"
    | ai where "x = 5" "y = 0" "find_auth auths 0 = Some ai" "auth_type ai = 0"
    | ai where "x = 5" "y = 2" "find_auth auths 2 = Some ai" "auth_type ai = 2"
    using find_auth_ok [OF ok(3)] find_auth_type uint_byte_eq [of y] by (metis option.exhaust)
  then show ?thesis
  proof cases
    case 1
    then have "recv_hello realloc c b = report_error c BSOCKSCLIENT_EVENT_ERROR"
      by (auto simp: recv_hello_def b a SOCKS_VERSION_def Let_def)
    then show ?thesis using 1 step_error [OF c(1) s(1), of realloc] len by (auto simp: s v Let_def)
  next
    case 2
    then have "recv_hello realloc c b = auth_finished realloc c" by (simp add: recv_hello_def b a socks_consts)
    then show ?thesis
      using auth_finished_step [OF ok(1) c(1), of s] ok(2) c(2) s 2 by (simp add: dest_ok_def auth_done_def)
  next
    case (3 ai)
    show ?thesis
    proof (cases "password_ok ai")
      case False
      then have "recv_hello realloc c b = report_error c BSOCKSCLIENT_EVENT_ERROR"
        using 3 by (auto simp: recv_hello_def b a socks_consts password_ok_def Let_def Suc_le_eq)
      then show ?thesis using 3 False step_error [OF c(1) s(1), of realloc] len by (simp add: s socks_verdict_def Let_def)
    next
      case True
      then have "recv_hello realloc c b = send_password realloc c ai"
        using 3 by (auto simp: recv_hello_def b a socks_consts password_ok_def Let_def)
      then show ?thesis using send_password_step [OF ok(1) c s(1-4) _ 3(3) True] s(5) 3 by simp
    qed
  qed
qed

lemma recv_reply_step:
  assumes c: "client_ok auths dest c" "sc_state c = STATE_SENT_REQUEST" "sc_buffer c = Some b" "length b = 22"
    and s: "ss_events s = []" "\<not> ss_sending s" "ss_recv s = None" "ss_rx s = r @ h" "ss_tx s = t @ request_msg dest"
      "auth_done auths r t" "length h = 4" "take 4 b = h"
  shows "step_ok realloc auths dest (ss_after s (recv_reply_header c b))"
proof -
  have len: "length auths \<in> {1..255}" using c by (auto simp: client_ok_def)
  have b: "b ! 0 = h ! 0" "b ! Suc 0 = h ! Suc 0" "b ! 3 = h ! 3" using s(8) by auto
  have fail: "recv_reply_header c b = report_error c BSOCKSCLIENT_EVENT_ERROR \<Longrightarrow>
      h ! 0 \<noteq> 5 \<or> h ! 1 \<noteq> 0 \<or> (h ! 3 \<noteq> 1 \<and> h ! 3 \<noteq> 4) \<Longrightarrow> ?thesis"
    using step_error [OF c(1) s(1), of realloc] verdict_auth_done [OF len s(6), of dest h] s by (simp add: reply_verdict_def)
  have go: ?thesis if "recv_reply_header c b = do {
      (c, cs) \<leftarrow> start_receive c 4 (int n); Some (c\<lparr>sc_state := STATE_RECEIVED_REPLY_HEADER\<rparr>, cs) }"
    "h ! 0 = 5" "h ! 1 = 0" "h ! 3 = 1 \<and> n = 6 \<or> h ! 3 = 4 \<and> n = 18" for n
  proof -
    let ?c = "c\<lparr>sc_recv_dest := 4, sc_recv_len := 0, sc_recv_total := int n, sc_state := STATE_RECEIVED_REPLY_HEADER\<rparr>"
    have "recv_reply_header c b = Some (?c, [Socks_Receiver_Recv 4 (int n)])"
      using that by (auto simp: start_receive_def do_receive_def require_def)
    moreover have "client_ok auths dest ?c" using c by (intro client_ok_state) simp_all
    moreover have "receiving (s\<lparr>ss_client := ?c, ss_recv := Some (4, int n)\<rparr>) 4 n []"
      using that(4) c s by (auto simp: receiving_def)
    then have "proto_inv STATE_RECEIVED_REPLY_HEADER auths dest (s\<lparr>ss_client := ?c, ss_recv := Some (4, int n)\<rparr>)"
      unfolding proto_inv.simps using that s
      by (intro exI [of _ t] exI [of _ r] exI [of _ h] exI [of _ "[]"]) auto
    ultimately show ?thesis using step_receive [of auths dest ?c s 4 "int n" realloc] s by simp
  qed
  show ?thesis
    using fail go [of 6] go [of 18] by (auto simp: recv_reply_header_def b socks_consts Let_def)
qed

text \<open>A part of a message, and the end of one.\<close>

lemma received_cases:
  assumes rec: "receiving s d n r" and len: "ss_recv s = Some (d', k)" "0 < length data" "int (length data) \<le> k"
  obtains b where "length r + length data < n"
      "ss_step realloc (Received data) s = ss_after (s\<lparr>ss_recv := None, ss_rx := ss_rx s @ data\<rparr>)
        (Some ((ss_client s)\<lparr>sc_buffer := Some b, sc_recv_len := int (length (r @ data))\<rparr>,
          [Socks_Receiver_Recv (d + length (r @ data)) (int n - int (length (r @ data)))]))"
      "d + n \<le> length b" "bslice b d (length (r @ data)) = r @ data" "length b = length (the (sc_buffer (ss_client s)))"
  | b where "length r + length data = n"
      "ss_step realloc (Received data) s = ss_after (s\<lparr>ss_recv := None, ss_rx := ss_rx s @ data\<rparr>)
        (recv_message realloc ((ss_client s)\<lparr>sc_buffer := Some b, sc_recv_len := int n\<rparr>))"
      "d + n \<le> length b" "bslice b d n = r @ data" "length b = length (the (sc_buffer (ss_client s)))"
proof -
  obtain b where b: "sc_buffer (ss_client s) = Some b" "d + n \<le> length b" "bslice b d (length r) = r"
    and c: "sc_recv_dest (ss_client s) = d" "sc_recv_total (ss_client s) = int n" "sc_recv_len (ss_client s) = int (length r)"
    and rv: "d' = d + length r" "k = int n - int (length r)" "length r < n"
    using rec len(1) by (auto simp: receiving_def)
  let ?b = "memcpy b (d + length r) data"
  have fit: "d + length r + length data \<le> length b" "length ?b = length b" using b(2) len(3) rv by auto
  have sl: "bslice ?b d (length r + length data) = r @ data"
    using bslice_append_bslice [of ?b d "length r" "length data"] bslice_memcpy_before [of d "length r" "d + length r" data b]
      bslice_memcpy_same [of "d + length r" data b] b(3) fit(1) by simp
  have st: "ss_step realloc (Received data) s = ss_after (s\<lparr>ss_recv := None, ss_rx := ss_rx s @ data\<rparr>)
      (recv_handler_done realloc ((ss_client s)\<lparr>sc_buffer := Some ?b\<rparr>) (int (length data)))"
    using fit(1) by (simp add: len(1) b(1) rv(1))
  show thesis
  proof (cases "length r + length data < n")
    case True
    then show thesis using st c sl fit b len rv
      by (intro that(1) [of ?b]) (simp_all add: recv_handler_done_def do_receive_def require_def nat_add_distrib add.assoc)
  next
    case False
    then have "length r + length data = n" using len(3) rv by linarith
    then show thesis using st c sl fit b by (intro that(2) [of ?b]) (auto simp: recv_handler_done_def)
  qed
qed

lemma received_more:
  assumes c: "client_ok auths dest (ss_client s)" "sc_state (ss_client s) \<noteq> STATE_UP" and ev: "ss_events s = []"
    and rec: "receiving s d n r" and len: "length r + length data < n" "d + n \<le> length b" "bslice b d (length (r @ data)) = r @ data"
    and inv: "\<And>s'. receiving s' d n (r @ data) \<Longrightarrow> sc_buffer (ss_client s') = Some b \<Longrightarrow> ss_rx s' = ss_rx s @ data \<Longrightarrow>
      ss_tx s' = ss_tx s \<Longrightarrow> proto_inv (sc_state (ss_client s)) auths dest s'"
  shows "step_ok realloc auths dest (ss_after (s\<lparr>ss_recv := None, ss_rx := ss_rx s @ data\<rparr>)
    (Some ((ss_client s)\<lparr>sc_buffer := Some b, sc_recv_len := int (length (r @ data))\<rparr>,
      [Socks_Receiver_Recv (d + length (r @ data)) (int n - int (length (r @ data)))])))"
  using c ev len rec by (intro step_receive) (auto simp: receiving_def intro!: inv)

lemma list_2: "length xs = 2 \<Longrightarrow> \<exists>x y. xs = [x, y]"
  by (cases xs; cases "tl xs") auto

lemma received_up:
  assumes c: "client_ok auths dest c" "sc_state c = STATE_RECEIVED_REPLY_HEADER" "sc_buffer c = Some b"
    and s: "ss_events s = []" "\<not> ss_sending s" "ss_recv s = None" "socks_verdict auths dest (ss_rx s) = Established (ss_tx s)"
  shows "step_ok realloc auths dest (ss_after s (recv_message realloc c))"
proof -
  let ?c = "c\<lparr>sc_buffer := None, sc_control_io := False, sc_up_io := True, sc_state := STATE_UP\<rparr>"
  have r: "sc_connector c" "sc_con c" "sc_control_io c" "\<not> sc_up_io c" "sc_auth_info c = auths" "sc_dest_addr c = dest"
    "length auths \<in> {1..255}"
    using c by (auto simp: client_ok_def res_inv_def)
  have "recv_message realloc c = Some (?c, [Socks_handler BSOCKSCLIENT_EVENT_UP])"
    using c r by (simp add: recv_message_def free_control_io_def init_up_io_def require_def)
  then show ?thesis
    using s r by (auto simp: step_ok_def ss_after_def socks_ok_def ss_live_def res_inv_def)
qed

lemma received_sent_hello:
  assumes ok: "realloc_ok realloc" "dest_ok dest" "auths_ok auths" and inv: "socks_ok realloc auths dest s"
    and ev: "ss_events s = []" and len: "ss_recv s = Some (d, k)" "0 < length data" "int (length data) \<le> k"
    and st: "sc_state (ss_client s) = STATE_SENT_HELLO"
  shows "step_ok realloc auths dest (ss_step realloc (Received data) s)"
proof -
  have c: "client_ok auths dest (ss_client s)" and p: "proto_inv (sc_state (ss_client s)) auths dest s"
    using inv ev by (auto simp: socks_ok_def client_ok_def ss_live_def)
  note more = received_more [OF c _ ev]
  have x: "receiving s 0 2 (ss_rx s)" "ss_tx s = hello_msg auths" using p st by auto
  show ?thesis
  proof (rule received_cases [OF x(1) len, of realloc], goal_cases)
    case (1 b)
    then show ?thesis using more [OF _ x(1), of data b realloc] st x(2) by simp
  next
    case (2 b)
    then obtain u v where uv: "ss_rx s @ data = [u, v]" using list_2 [of "ss_rx s @ data"] by auto
    then have "take 2 b = [u, v]" using 2(4) by (simp add: bslice_def)
    with 2 uv st c x show ?thesis
      using recv_hello_step [OF ok, of "(ss_client s)\<lparr>sc_buffer := Some b, sc_recv_len := 2\<rparr>"
          "s\<lparr>ss_recv := None, ss_rx := ss_rx s @ data\<rparr>" u v b] ev
      by (simp add: recv_message_def receiving_def)
  qed
qed

lemma received_sent_password:
  assumes ok: "realloc_ok realloc" "dest_ok dest" "auths_ok auths" and inv: "socks_ok realloc auths dest s"
    and ev: "ss_events s = []" and len: "ss_recv s = Some (d, k)" "0 < length data" "int (length data) \<le> k"
    and st: "sc_state (ss_client s) = STATE_SENT_PASSWORD"
  shows "step_ok realloc auths dest (ss_step realloc (Received data) s)"
proof -
  have c: "client_ok auths dest (ss_client s)" and p: "proto_inv (sc_state (ss_client s)) auths dest s"
    using inv ev by (auto simp: socks_ok_def client_ok_def ss_live_def)
  note more = received_more [OF c _ ev]
  obtain ai r where x: "ss_rx s = [5, 2] @ r" "receiving s 0 2 r" "find_auth auths 2 = Some ai" "password_ok ai"
    "ss_tx s = hello_msg auths @ password_msg ai" using p st by auto
  show ?thesis
  proof (rule received_cases [OF x(2) len, of realloc], goal_cases)
    case (1 b)
    then show ?thesis using more [OF _ x(2), of data b realloc] st x by simp
  next
    case (2 b)
    let ?c = "(ss_client s)\<lparr>sc_buffer := Some b, sc_recv_len := 2\<rparr>"
    let ?s = "s\<lparr>ss_recv := None, ss_rx := ss_rx s @ data\<rparr>"
    obtain u v where uv: "r @ data = [u, v]" using 2(1) list_2 [of "r @ data"] by auto
    then have t: "take 2 b = [u, v]" using 2(4) by (simp add: bslice_def)
    have b: "b ! 0 = u" "b ! Suc 0 = v" using nth_take [of 0 2 b] nth_take [of 1 2 b] by (simp_all add: t)
    have rx: "ss_rx ?s = [5, 2, u, v]" using x(1) uv by simp
    have len: "length auths \<in> {1..255}" using c st by (auto simp: client_ok_def)
    show ?thesis
    proof (cases "u = 1 \<and> v = 0")
      case True
      then have "recv_message realloc ?c = auth_finished realloc ?c" using b st by (simp add: recv_message_def)
      moreover have "step_ok realloc auths dest (ss_after ?s (auth_finished realloc ?c))"
        using c st ok ev x True rx by (intro auth_finished_step) (auto simp: dest_ok_def auth_done_def receiving_def)
      ultimately show ?thesis using 2(2) by simp
    next
      case False
      then have "recv_message realloc ?c = report_error ?c BSOCKSCLIENT_EVENT_ERROR"
        using b st by (auto simp: recv_message_def)
      moreover have "step_ok realloc auths dest (ss_after ?s (report_error ?c BSOCKSCLIENT_EVENT_ERROR))"
        using c ev False rx verdict_password [OF len x(3,4), of "[u, v]" dest] x(5) by (intro step_error) auto
      ultimately show ?thesis using 2(2) by simp
    qed
  qed
qed

lemma received_sent_request:
  assumes ok: "realloc_ok realloc" "dest_ok dest" "auths_ok auths" and inv: "socks_ok realloc auths dest s"
    and ev: "ss_events s = []" and len: "ss_recv s = Some (d, k)" "0 < length data" "int (length data) \<le> k"
    and st: "sc_state (ss_client s) = STATE_SENT_REQUEST"
  shows "step_ok realloc auths dest (ss_step realloc (Received data) s)"
proof -
  have c: "client_ok auths dest (ss_client s)" and p: "proto_inv (sc_state (ss_client s)) auths dest s"
    using inv ev by (auto simp: socks_ok_def client_ok_def ss_live_def)
  note more = received_more [OF c _ ev]
  obtain t r r1 where x: "ss_rx s = r @ r1" "receiving s 0 4 r1" "length (the (sc_buffer (ss_client s))) = 22"
    "auth_done auths r t" "ss_tx s = t @ request_msg dest" using p st by auto
  show ?thesis
  proof (rule received_cases [OF x(2) len, of realloc], goal_cases)
    case (1 b)
    then show ?thesis using more [OF _ x(2), of data b realloc] st x by auto
  next
    case (2 b)
    have "step_ok realloc auths dest (ss_after (s\<lparr>ss_recv := None, ss_rx := ss_rx s @ data\<rparr>)
        (recv_reply_header ((ss_client s)\<lparr>sc_buffer := Some b, sc_recv_len := 4\<rparr>) b))"
      using c st ev x 2 by (intro recv_reply_step [where r = r and h = "r1 @ data" and t = t])
        (auto simp: receiving_def bslice_def)
    with 2(2) st show ?thesis by (simp add: recv_message_def)
  qed
qed

lemma received_reply_header:
  assumes ok: "realloc_ok realloc" "dest_ok dest" "auths_ok auths" and inv: "socks_ok realloc auths dest s"
    and ev: "ss_events s = []" and len: "ss_recv s = Some (d, k)" "0 < length data" "int (length data) \<le> k"
    and st: "sc_state (ss_client s) = STATE_RECEIVED_REPLY_HEADER"
  shows "step_ok realloc auths dest (ss_step realloc (Received data) s)"
proof -
  have c: "client_ok auths dest (ss_client s)" and p: "proto_inv (sc_state (ss_client s)) auths dest s"
    using inv ev by (auto simp: socks_ok_def client_ok_def ss_live_def)
  note more = received_more [OF c _ ev]
  obtain t r h r1 n where x: "ss_rx s = r @ h @ r1" "auth_done auths r t" "ss_tx s = t @ request_msg dest"
    "length h = 4" "h ! 0 = 5" "h ! 1 = 0" "h ! 3 = 1 \<and> n = 6 \<or> h ! 3 = 4 \<and> n = 18" "receiving s 4 n r1" using p st by auto
  show ?thesis
  proof (rule received_cases [OF x(8) len, of realloc], goal_cases)
    case (1 b)
    then show ?thesis
      using more [OF _ x(8), of data b realloc] st x(1-7) by (simp; fastforce)
  next
    case (2 b)
    have "length auths \<in> {1..255}" using c st by (auto simp: client_ok_def)
    from verdict_auth_done [OF this x(2), of dest "h @ r1 @ data"]
    have "socks_verdict auths dest (ss_rx s @ data) = Established (ss_tx s)"
      using x(1,3-7) 2(1) by (auto simp: reply_verdict_def nth_append Let_def)
    then show ?thesis
      using 2 c st ev x(8) by (auto simp: receiving_def intro!: received_up)
  qed
qed

lemma received_step:
  assumes ok: "realloc_ok realloc" "dest_ok dest" "auths_ok auths" and inv: "socks_ok realloc auths dest s"
    and ev: "ss_events s = []" and len: "ss_recv s = Some (d, k)" "0 < length data" "int (length data) \<le> k"
  shows "step_ok realloc auths dest (ss_step realloc (Received data) s)"
proof -
  have "proto_inv (sc_state (ss_client s)) auths dest s" using inv ev by (auto simp: socks_ok_def ss_live_def)
  then have "sc_state (ss_client s) \<in> {STATE_SENT_HELLO, STATE_SENT_PASSWORD, STATE_SENT_REQUEST, STATE_RECEIVED_REPLY_HEADER}"
    using len(1) by (cases "sc_state (ss_client s)") (auto simp: sending_def)
  then show ?thesis
    using received_sent_hello [OF assms] received_sent_password [OF assms] received_sent_request [OF assms] received_reply_header [OF assms] by blast
qed

lemma sent_step:
  assumes ok: "realloc_ok realloc" and inv: "socks_ok realloc auths dest s" and ev: "ss_events s = []" and snd: "ss_sending s"
  shows "step_ok realloc auths dest (ss_step realloc Sent s)"
proof -
  have c: "client_ok auths dest (ss_client s)" and p: "proto_inv (sc_state (ss_client s)) auths dest s"
    using inv ev by (auto simp: socks_ok_def client_ok_def ss_live_def)
  let ?s = "s\<lparr>ss_sending := False\<rparr>"
  note next_step = receive_next_step [OF ok c, of ?s]
  have "sc_state (ss_client s) \<in> {STATE_SENDING_HELLO, STATE_SENDING_PASSWORD, STATE_SENDING_REQUEST}"
    using p snd by (cases "sc_state (ss_client s)") (auto simp: receiving_def)
  then consider "sc_state (ss_client s) = STATE_SENDING_HELLO" | "sc_state (ss_client s) = STATE_SENDING_PASSWORD"
    | "sc_state (ss_client s) = STATE_SENDING_REQUEST" by auto
  then show ?thesis
  proof cases
    case 1
    then have x: "sending s" "ss_rx s = []" "ss_tx s = hello_msg auths" using p by auto
    then show ?thesis
      using next_step [of 2 2 STATE_SENT_HELLO] 1 ev by (auto simp: send_handler_done_def sending_def)
  next
    case 2
    then obtain ai where x: "sending s" "ss_rx s = [5, 2]" "find_auth auths 2 = Some ai" "password_ok ai"
      "ss_tx s = hello_msg auths @ password_msg ai" using p by auto
    then show ?thesis
      using next_step [of 2 2 STATE_SENT_PASSWORD] 2 ev by (auto simp: send_handler_done_def sending_def)
  next
    case 3
    then obtain t where x: "sending s" "auth_done auths (ss_rx s) t" "ss_tx s = t @ request_msg dest" using p by auto
    have "proto_inv STATE_SENT_REQUEST auths dest s'" if "receiving s' 0 4 []" "length (the (sc_buffer (ss_client s'))) = 22"
      "ss_tx s' = ss_tx s" "ss_rx s' = ss_rx s" for s'
      using that x by auto
    then show ?thesis
      using next_step [of 4 22 STATE_SENT_REQUEST] 3 ev x(1)
      by (auto simp: send_handler_done_def sending_def bsize_consts simp del: proto_inv.simps)
  qed
qed

lemma event_step:
  assumes "socks_ok realloc auths dest s" "ss_live s" "sc_state (ss_client s) \<noteq> STATE_CONNECTING"
  shows "step_ok realloc auths dest (ss_step realloc (Connection_event e) s)"
  using assms by (auto simp: step_ok_def socks_ok_def ss_after_def connection_handler_def report_error_def ss_live_def socks_events)

lemma socks_step:
  assumes "realloc_ok realloc" "dest_ok dest" "auths_ok auths" "socks_ok realloc auths dest s" "ss_enabled i s"
  shows "step_ok realloc auths dest (ss_step realloc i s)"
proof -
  have up: "ss_events s = []" if "ss_live s" "sc_state (ss_client s) \<noteq> STATE_UP"
    using assms(4) that by (auto simp: socks_ok_def ss_live_def)
  have idle: "\<not> ss_sending s \<and> ss_recv s = None" if "ss_live s" "sc_state (ss_client s) = STATE_UP"
    using assms(4) that by (auto simp: socks_ok_def)
  show ?thesis
  proof (cases i)
    case (Connected con_init is_error)
    then have c: "sc_state (ss_client s) = STATE_CONNECTING" "ss_events s = []" using assms(5) up by auto
    then have "client_ok auths dest (ss_client s)" "proto_inv STATE_CONNECTING auths dest s"
      using assms(4) by (auto simp: socks_ok_def client_ok_def ss_live_def)
    then show ?thesis
      using connector_step [OF assms(1) _ c(1), of auths dest "s\<lparr>ss_io_error := (is_error \<or> \<not> con_init)\<rparr>"] c(2)
      by (simp add: Connected)
  next
    case Sent
    then show ?thesis using sent_step [OF assms(1,4)] assms(5) up idle by auto
  next
    case (Received data)
    then show ?thesis using received_step [OF assms(1-4)] assms(5) up idle by (fastforce split: option.splits)
  next
    case (Connection_event e)
    then show ?thesis using event_step [OF assms(4)] assms(5) by auto
  qed
qed

lemma socks_reach_ok:
  assumes "socks_reach realloc auths dest s" "realloc_ok realloc" "baddr_ok dest"
  shows "socks_ok realloc auths dest s \<and> dest_ok dest \<and> auths_ok auths"
  using assms(1)
proof induction
  case (init server c)
  then have "dest_ok dest" using assms(3)
    by (cases dest) (auto simp: BSocksClient_Init_def dest_ok_def BADDR_TYPE_NONE_def BADDR_TYPE_IPV4_def BADDR_TYPE_IPV6_def)
  with init show ?case
    by (auto simp: BSocksClient_Init_def auths_ok_def socks_consts socks_ok_def ss_init_def res_inv_def ss_live_def)
next
  case (step s i s')
  then show ?case using socks_step [OF assms(2), of dest auths s i] by (simp add: step_ok_def)
qed

fun ss_run :: "reallocator \<Rightarrow> socks_input list \<Rightarrow> socks_sys \<Rightarrow> socks_sys option" where
  "ss_run realloc [] s = Some s"
| "ss_run realloc (i # is) s = do {
     s \<leftarrow> (if ss_enabled i s then ss_step realloc i s else None);
     ss_run realloc is s
   }"

lemma socks_reach_run: "socks_reach realloc auths dest s \<Longrightarrow> ss_run realloc is s = Some s' \<Longrightarrow> socks_reach realloc auths dest s'"
  by (induction "is" arbitrary: s) (auto simp: bind_eq_Some_conv split: if_splits intro: socks_reach.step)

text \<open>C4. In whatever pieces the answers of the server arrive, the client speaks SOCKS5: what
  it has sent and what it waits for are what the protocol gives for the bytes received. It reports
  that it is up exactly when the server has accepted an offered method, the password if one is
  asked for, and the request, and it has then read no byte beyond the reply; and it reports an error only when the
  protocol gives the dialogue up, the connection fails, or memory runs out.\<close>

theorem socks_client_follows_protocol:
  assumes "socks_reach realloc auths dest s" "realloc_ok realloc" "baddr_ok dest"
  shows "(ss_events s = [BSOCKSCLIENT_EVENT_UP] \<longrightarrow> socks_verdict auths dest (ss_rx s) = Established (ss_tx s)) \<and>
    (socks_verdict auths dest (ss_rx s) = Established t \<longrightarrow> ss_events s = [BSOCKSCLIENT_EVENT_UP] \<or>
      ss_io_error s \<or> (\<exists>m n. 0 < n \<and> realloc m n = None)) \<and>
    (ss_events s = [] \<and> sc_state (ss_client s) \<noteq> STATE_CONNECTING \<longrightarrow>
      (\<exists>n. socks_verdict auths dest (ss_rx s) = Waiting n (ss_tx s) \<and>
        (ss_sending s \<and> ss_recv s = None \<or> \<not> ss_sending s \<and> (\<exists>d. ss_recv s = Some (d, n))))) \<and>
    (\<not> ss_live s \<longrightarrow> ss_io_error s \<or> (\<exists>m n. 0 < n \<and> realloc m n = None) \<or>
      socks_verdict auths dest (ss_rx s) = Rejected (ss_tx s))"
proof -
  have ok: "socks_ok realloc auths dest s" using socks_reach_ok [OF assms] by blast
  then have not_up: "sc_state (ss_client s) \<noteq> STATE_UP" if "ss_events s = []" using that by (auto simp: socks_ok_def ss_live_def)
  have waiting: "\<exists>n. socks_verdict auths dest (ss_rx s) = Waiting n (ss_tx s) \<and>
        (ss_sending s \<and> ss_recv s = None \<or> \<not> ss_sending s \<and> (\<exists>d. ss_recv s = Some (d, n)))"
    if "ss_events s = []" "sc_state (ss_client s) \<noteq> STATE_CONNECTING"
    using ok not_up that proto_inv_verdict [of auths s dest] by (auto simp: socks_ok_def ss_live_def)
  have dead: "ss_io_error s \<or> (\<exists>m n. 0 < n \<and> realloc m n = None) \<or> socks_verdict auths dest (ss_rx s) = Rejected (ss_tx s)"
    if "\<not> ss_live s"
    using ok that by (simp add: socks_ok_def)
  have up: "socks_verdict auths dest (ss_rx s) = Established (ss_tx s)" if "ss_events s = [BSOCKSCLIENT_EVENT_UP]"
    using ok that by (auto simp: socks_ok_def)
  have "socks_verdict auths dest [] \<noteq> Established t" by (simp add: socks_verdict_def Let_def)
  then have "sc_state (ss_client s) \<noteq> STATE_CONNECTING" if "ss_events s = []" "socks_verdict auths dest (ss_rx s) = Established t"
    using ok that by (auto simp: socks_ok_def ss_live_def)
  then have "ss_events s = [BSOCKSCLIENT_EVENT_UP] \<or> ss_io_error s \<or> (\<exists>m n. 0 < n \<and> realloc m n = None)"
    if "socks_verdict auths dest (ss_rx s) = Established t"
    using that waiting dead unfolding ss_live_def by force
  then show ?thesis using waiting dead up by blast
qed

definition sample_realloc :: reallocator where
  "sample_realloc m n = (if n < 0 then None else Some (replicate (nat n) 0))"

definition sample_auths :: "BSocksClient_auth_info list" where
  "sample_auths = [BSocksClient_auth_none, BSocksClient_auth_password [97] [98, 99]]"

definition sample_client :: BSocksClient where
  "sample_client = the (the (BSocksClient_Init True (BAddr_IPv4 1 2) sample_auths (BAddr_IPv4 3 4)))"

lemma sample_realloc_ok: "realloc_ok sample_realloc"
  by (simp add: realloc_ok_def sample_realloc_def)

lemma sample_reach: "socks_reach sample_realloc sample_auths (BAddr_IPv4 3 4) (ss_init sample_client)"
proof -
  have "BSocksClient_Init True (BAddr_IPv4 1 2) sample_auths (BAddr_IPv4 3 4) = Some (Some sample_client)" by code_simp
  then show ?thesis by (rule socks_reach.init)
qed

theorem socks_client_follows_protocol_witness:
  "\<exists>s. ss_run sample_realloc [Connected True False, Sent, Received [5], Received [2], Sent, Received [1, 0], Sent,
       Received [5, 0, 0, 1], Received [1, 2, 3], Received [4, 5, 6]] (ss_init sample_client) = Some s \<and>
     socks_verdict sample_auths (BAddr_IPv4 3 4) (ss_rx s) = Established (ss_tx s)"
proof -
  define s where "s = the (ss_run sample_realloc [Connected True False, Sent, Received [5], Received [2], Sent, Received [1, 0], Sent,
       Received [5, 0, 0, 1], Received [1, 2, 3], Received [4, 5, 6]] (ss_init sample_client))"
  have s: "ss_run sample_realloc [Connected True False, Sent, Received [5], Received [2], Sent, Received [1, 0], Sent,
       Received [5, 0, 0, 1], Received [1, 2, 3], Received [4, 5, 6]] (ss_init sample_client) = Some s"
    "ss_events s = [BSOCKSCLIENT_EVENT_UP]"
    unfolding s_def by code_simp+
  show ?thesis
    using socks_client_follows_protocol [OF socks_reach_run [OF sample_reach s(1)] sample_realloc_ok] s by simp
qed

text \<open>C21. In every state the client can reach, the next event is handled without a failed
  assertion, and the object can be freed: \<open>BSocksClient_Free\<close> releases exactly the parts
  that are initialised and leaves none behind.\<close>

theorem socks_client_safe:
  assumes "socks_reach realloc auths dest s" "realloc_ok realloc" "baddr_ok dest"
  shows "(ss_enabled i s \<longrightarrow> ss_step realloc i s \<noteq> None) \<and>
    (\<exists>c. BSocksClient_Free (ss_client s) = Some c \<and> \<not> sc_connector c \<and> \<not> sc_con c \<and> \<not> sc_control_io c \<and>
      \<not> sc_up_io c \<and> sc_buffer c = None)"
proof -
  have ok: "socks_ok realloc auths dest s" "dest_ok dest" "auths_ok auths" using socks_reach_ok [OF assms] by auto
  then have "res_inv (ss_client s)" by (simp add: socks_ok_def)
  then have "\<exists>c. BSocksClient_Free (ss_client s) = Some c \<and> \<not> sc_connector c \<and> \<not> sc_con c \<and> \<not> sc_control_io c \<and>
      \<not> sc_up_io c \<and> sc_buffer c = None"
    by (auto simp: BSocksClient_Free_def res_inv_def free_up_io_def free_control_io_def free_con_def require_def)
  then show ?thesis using socks_step [OF assms(2) ok(2,3,1), of i] by (auto simp: step_ok_def split: option.splits)
qed

theorem socks_client_safe_witness:
  "\<exists>c. BSocksClient_Free sample_client = Some c \<and> \<not> sc_connector c \<and> \<not> sc_con c"
  using socks_client_safe [OF sample_reach sample_realloc_ok, of Sent] by (auto simp: ss_init_def)

end
