(* ===== verification/Tcp_Client.thy ===== *)
theory Tcp_Client
  imports Tunnel_Packets Socks_Client "HOL-Library.Monad_Syntax"
begin

text \<open>
  The TCP clients of \<^verbatim>\<open>tun2socks/tun2socks.c\<close>: a connection that lwip accepted is relayed to a
  SOCKS connection. The \<^verbatim>\<open>struct tcp_client\<close> is a record; each function returns the client and
  the calls it makes to lwip and to the SOCKS client, \<open>None\<close> is a failed assertion. A freed
  client is a record with \<open>tc_freed\<close> set. lwip is a parameter: what \<^verbatim>\<open>tcp_close\<close>,
  \<^verbatim>\<open>tcp_sndbuf\<close>, \<^verbatim>\<open>tcp_write\<close> and \<^verbatim>\<open>tcp_output\<close> return. A callback that reaches
  \<^verbatim>\<open>SYNC_COMMIT\<close> lets the pending jobs run: they are further inputs, and the part of the
  callback after it is a function of its own.
\<close>

section \<open>State\<close>

definition TCP_WND :: nat where "TCP_WND = 4 * 1460"
definition CLIENT_SOCKS_RECV_BUF_SIZE :: nat where "CLIENT_SOCKS_RECV_BUF_SIZE = 8192"
definition ERR_OK :: int where "ERR_OK = 0"
definition ERR_MEM :: int where "ERR_MEM = - 1"
definition ERR_ABRT :: int where "ERR_ABRT = - 10"

lemmas lwip_errors = ERR_OK_def ERR_MEM_def ERR_ABRT_def

text \<open>\<open>tc_recv_cb\<close>, \<open>tc_sent_cb\<close> and \<open>tc_err_cb\<close> tell which callbacks are set at the pcb.
  \<open>tc_dead_client\<close> holds the variable that \<^verbatim>\<open>dead_client\<close> points to and, after it, those that
  the saved pointers of the enclosing \<^verbatim>\<open>DEAD_ENTER\<close>s point to (\<^verbatim>\<open>misc/dead.h\<close>).\<close>

record tcp_client =
  tc_dead_client :: "bool list"
  tc_local_addr :: BAddr
  tc_remote_addr :: BAddr
  tc_recv_cb :: bool
  tc_sent_cb :: bool
  tc_err_cb :: bool
  tc_client_closed :: bool
  tc_buf :: bytes
  tc_buf_used :: int
  tc_socks_username :: "string option"
  tc_socks_up :: bool
  tc_socks_closed :: bool
  tc_socks_recv_buf :: bytes
  tc_socks_recv_buf_used :: int
  tc_socks_recv_buf_sent :: int
  tc_socks_recv_waiting :: bool
  tc_socks_recv_tcp_pending :: int
  tc_freed :: bool

datatype tcp_call =
  tcp_close bool
| tcp_abort
| tcp_recved int
| tcp_write bytes
| tcp_output
| pbuf_free
| Socks_Free
| Socks_Send int
| Socks_Recv nat
| Client_Dealloc

datatype cb_result = Returned int | In_sync

type_synonym tc_result = "(tcp_client \<times> tcp_call list) option"
type_synonym cb_outcome = "(tcp_client \<times> tcp_call list \<times> cb_result) option"

definition tc_emit :: "tcp_call list \<Rightarrow> tc_result \<Rightarrow> tc_result" where
  "tc_emit cs r = map_option (\<lambda>(c, cs'). (c, cs @ cs')) r"

text \<open>The answers of lwip: whether \<open>tcp_close\<close> succeeds, \<open>tcp_sndbuf\<close> and the result of
  \<open>tcp_write\<close> in each round of the loop, and the result of \<open>tcp_output\<close>.\<close>

record lwip =
  lw_close_ok :: bool
  lw_write :: "nat \<Rightarrow> nat \<times> int"
  lw_output :: int

section \<open>misc/dead.h\<close>

fun DEAD_SET :: "bool \<Rightarrow> bool list \<Rightarrow> bool list" where
  "DEAD_SET v [] = []"
| "DEAD_SET v (_ # ds) = v # ds"

definition DEAD_KILL :: "bool list \<Rightarrow> bool list" where
  "DEAD_KILL ds = DEAD_SET True ds"

definition DEAD_ENTER :: "bool list \<Rightarrow> bool list" where
  "DEAD_ENTER ds = False # ds"

text \<open>The result of \<open>DEAD_LEAVE2\<close> is \<open>DEAD_KILLED\<close> and the chain afterwards.\<close>

fun DEAD_LEAVE2 :: "bool list \<Rightarrow> bool \<times> bool list" where
  "DEAD_LEAVE2 [] = (False, [])"
| "DEAD_LEAVE2 (d # ds) = (d, (if d then d # DEAD_SET d ds else DEAD_SET d ds))"

section \<open>Closing\<close>

definition remove_callbacks :: "tcp_client \<Rightarrow> tcp_client" where
  "remove_callbacks c = c\<lparr>tc_err_cb := False, tc_recv_cb := False, tc_sent_cb := False\<rparr>"

definition client_dealloc :: "tcp_client \<Rightarrow> tc_result" where
  "client_dealloc c =
     require (tc_client_closed c \<and> tc_socks_closed c) (c\<lparr>tc_freed := True\<rparr>, [Client_Dealloc])"

function client_handle_freed_client :: "bool \<Rightarrow> tcp_client \<Rightarrow> tc_result"
  and client_free_client :: "bool \<Rightarrow> tcp_client \<Rightarrow> tc_result"
  and client_free_socks :: "bool \<Rightarrow> tcp_client \<Rightarrow> tc_result" where
  "client_handle_freed_client close_ok c =
     (if tc_client_closed c then None
      else (let c = c\<lparr>tc_dead_client := DEAD_KILL (tc_dead_client c), tc_client_closed := True\<rparr> in
        if tc_buf_used c > 0 \<and> \<not> tc_socks_closed c then Some (c, [])
        else if \<not> tc_socks_closed c then client_free_socks close_ok c
        else client_dealloc c))"
| "client_free_client close_ok c =
     (if tc_client_closed c then None
      else tc_emit (if close_ok then [tcp_close True] else [tcp_close False, tcp_abort])
        (client_handle_freed_client close_ok (remove_callbacks c)))"
| "client_free_socks close_ok c =
     (if tc_socks_closed c then None
      else (let c = (if tc_socks_up c \<and> \<not> tc_client_closed c then c\<lparr>tc_recv_cb := False\<rparr> else c);
                c = c\<lparr>tc_socks_closed := True\<rparr>
            in tc_emit [Socks_Free]
              (if tc_socks_up c \<and> (tc_socks_recv_buf_used c \<ge> 0 \<or> tc_socks_recv_tcp_pending c > 0) \<and>
                  \<not> tc_client_closed c
               then Some (c, [])
               else if \<not> tc_client_closed c then client_free_client close_ok c
               else client_dealloc c)))"
  by pat_completeness auto
termination
  by (relation "measure (\<lambda>x. case x of
        Inl (_, c) \<Rightarrow> 3 * (of_bool (\<not> tc_client_closed c) + of_bool (\<not> tc_socks_closed c))
      | Inr (Inl (_, c)) \<Rightarrow> 1 + 3 * (of_bool (\<not> tc_client_closed c) + of_bool (\<not> tc_socks_closed c))
      | Inr (Inr (_, c)) \<Rightarrow> 2 + 3 * (of_bool (\<not> tc_client_closed c) + of_bool (\<not> tc_socks_closed c)))")
    (auto simp: remove_callbacks_def)

definition client_abort_client :: "bool \<Rightarrow> tcp_client \<Rightarrow> tc_result" where
  "client_abort_client close_ok c =
     (if tc_client_closed c then None
      else tc_emit [tcp_abort] (client_handle_freed_client close_ok (remove_callbacks c)))"

definition client_murder :: "tcp_client \<Rightarrow> tc_result" where
  "client_murder c =
     (let (c, cs) = (if tc_client_closed c then (c, [])
            else ((remove_callbacks c)\<lparr>tc_dead_client := DEAD_KILL (tc_dead_client c), tc_client_closed := True\<rparr>,
                  [tcp_abort]));
          (c, cs') = (if tc_socks_closed c then (c, []) else (c\<lparr>tc_socks_closed := True\<rparr>, [Socks_Free]))
      in tc_emit (cs @ cs') (client_dealloc c))"

definition client_err_func :: "bool \<Rightarrow> int \<Rightarrow> tcp_client \<Rightarrow> tc_result" where
  "client_err_func close_ok err c =
     (if tc_client_closed c then None else client_handle_freed_client close_ok c)"

section \<open>From the client to SOCKS\<close>

definition client_send_to_socks :: "tcp_client \<Rightarrow> tc_result" where
  "client_send_to_socks c =
     require (\<not> tc_socks_closed c \<and> tc_socks_up c \<and> tc_buf_used c > 0) (c, [Socks_Send (tc_buf_used c)])"

text \<open>The difference \<open>sizeof(client->buf) - client->buf_used\<close> is of type \<open>size_t\<close>.\<close>

definition client_recv_func :: "bool \<Rightarrow> bytes option \<Rightarrow> int \<Rightarrow> tcp_client \<Rightarrow> cb_outcome" where
  "client_recv_func close_ok p err c =
     (if tc_client_closed c \<or> err \<noteq> ERR_OK then None
      else (case p of
        None \<Rightarrow> do {
          (c, cs) \<leftarrow> client_free_client close_ok c;
          Some (c, cs, Returned ERR_ABRT)
        }
      | Some data \<Rightarrow>
          if data = [] then None
          else if int (length data) > c_size (int TCP_WND - tc_buf_used c) then Some (c, [], Returned ERR_MEM)
          else (let c = c\<lparr>tc_buf := memcpy (tc_buf c) (nat (tc_buf_used c)) data,
                          tc_buf_used := tc_buf_used c + int (length data)\<rparr> in
            if tc_buf_used c = int (length data) \<and> tc_socks_up c then
              (if tc_socks_closed c then None
               else do {
                 (c, cs) \<leftarrow> client_send_to_socks c;
                 Some (c\<lparr>tc_dead_client := DEAD_ENTER (tc_dead_client c)\<rparr>, cs, In_sync)
               })
            else Some (c, [pbuf_free], Returned ERR_OK))))"

definition client_recv_return :: "tcp_client \<Rightarrow> tcp_client \<times> tcp_call list \<times> cb_result" where
  "client_recv_return c =
     (let (killed, ds) = DEAD_LEAVE2 (tc_dead_client c); c = c\<lparr>tc_dead_client := ds\<rparr> in
      if killed then (c, [], Returned ERR_ABRT) else (c, [pbuf_free], Returned ERR_OK))"

definition client_socks_send_handler_done :: "bool \<Rightarrow> int \<Rightarrow> tcp_client \<Rightarrow> tc_result" where
  "client_socks_send_handler_done close_ok data_len c =
     (if tc_socks_closed c \<or> \<not> tc_socks_up c \<or> \<not> tc_buf_used c > 0 \<or> \<not> data_len > 0 \<or> \<not> data_len \<le> tc_buf_used c
      then None
      else (let c = c\<lparr>tc_buf := memcpy (tc_buf c) 0 (bslice (tc_buf c) (nat data_len) (nat (tc_buf_used c - data_len))),
                      tc_buf_used := tc_buf_used c - data_len\<rparr>
            in tc_emit (if tc_client_closed c then [] else [tcp_recved data_len])
              (if tc_buf_used c > 0 then Some (c, [Socks_Send (tc_buf_used c)])
               else if tc_client_closed c then client_free_socks close_ok c
               else Some (c, []))))"

section \<open>From SOCKS to the client\<close>

definition client_socks_recv_initiate :: "tcp_client \<Rightarrow> tc_result" where
  "client_socks_recv_initiate c =
     require (\<not> tc_client_closed c \<and> \<not> tc_socks_closed c \<and> tc_socks_up c \<and> tc_socks_recv_buf_used c = - 1)
       (c, [Socks_Recv CLIENT_SOCKS_RECV_BUF_SIZE])"

text \<open>The loop of \<open>client_socks_recv_send_out\<close>, from round \<open>k\<close>; the flag tells whether
  \<open>tcp_write\<close> failed with another error than \<open>ERR_MEM\<close>.\<close>

function send_out_loop :: "(nat \<Rightarrow> nat \<times> int) \<Rightarrow> nat \<Rightarrow> tcp_client \<Rightarrow> tcp_client \<times> tcp_call list \<times> bool" where
  "send_out_loop write k c =
     (let (sndbuf, err) = write k;
          to_write = min (tc_socks_recv_buf_used c - tc_socks_recv_buf_sent c) (int sndbuf)
      in if to_write = 0 then (c, [], False)
         else if err \<noteq> ERR_OK then (c, [], err \<noteq> ERR_MEM)
         else (let data = bslice (tc_socks_recv_buf c) (nat (tc_socks_recv_buf_sent c)) (nat to_write);
                   c = c\<lparr>tc_socks_recv_buf_sent := tc_socks_recv_buf_sent c + to_write,
                         tc_socks_recv_tcp_pending := tc_socks_recv_tcp_pending c + to_write\<rparr>
               in if tc_socks_recv_buf_sent c < tc_socks_recv_buf_used c
                  then (let (c, cs, failed) = send_out_loop write (Suc k) c in (c, tcp_write data # cs, failed))
                  else (c, [tcp_write data], False)))"
  by pat_completeness auto
termination
  by (relation "measure (\<lambda>(_, _, c). nat (tc_socks_recv_buf_used c - tc_socks_recv_buf_sent c))")
    (auto simp: min_def split: if_splits)

declare send_out_loop.simps [simp del]

definition client_socks_recv_send_out :: "lwip \<Rightarrow> tcp_client \<Rightarrow> (tcp_client \<times> tcp_call list \<times> int) option" where
  "client_socks_recv_send_out lw c =
     (if tc_client_closed c \<or> \<not> tc_socks_up c \<or> \<not> tc_socks_recv_buf_used c > 0 \<or>
         \<not> tc_socks_recv_buf_sent c < tc_socks_recv_buf_used c \<or> tc_socks_recv_waiting c then None
      else (let (c, cs, failed) = send_out_loop (lw_write lw) 0 c;
                abort = (\<lambda>cs. do {
                  (c, cs') \<leftarrow> client_abort_client (lw_close_ok lw) c;
                  Some (c, cs @ cs', - 1)
                })
            in if failed then abort cs
               else if lw_output lw \<noteq> ERR_OK then abort (cs @ [tcp_output])
               else if tc_socks_recv_buf_sent c < tc_socks_recv_buf_used c then
                 (if tc_socks_recv_tcp_pending c = 0 then abort (cs @ [tcp_output])
                  else Some (c\<lparr>tc_socks_recv_waiting := True\<rparr>, cs @ [tcp_output], 0))
               else Some (c\<lparr>tc_socks_recv_buf_used := - 1\<rparr>, cs @ [tcp_output], 0)))"

definition client_socks_recv_handler_done :: "lwip \<Rightarrow> int \<Rightarrow> tcp_client \<Rightarrow> tc_result" where
  "client_socks_recv_handler_done lw data_len c =
     (if \<not> data_len > 0 \<or> \<not> data_len \<le> int CLIENT_SOCKS_RECV_BUF_SIZE \<or> tc_socks_closed c \<or> \<not> tc_socks_up c \<or>
         tc_socks_recv_buf_used c \<noteq> - 1 then None
      else if tc_client_closed c then Some (c, [])
      else do {
        (c, cs, r) \<leftarrow> client_socks_recv_send_out lw
          (c\<lparr>tc_socks_recv_buf_used := data_len, tc_socks_recv_buf_sent := 0, tc_socks_recv_waiting := False\<rparr>);
        if r < 0 then Some (c, cs)
        else if tc_socks_recv_buf_used c = - 1 then tc_emit cs (client_socks_recv_initiate c)
        else Some (c, cs)
      })"

definition client_sent_func :: "lwip \<Rightarrow> int \<Rightarrow> tcp_client \<Rightarrow> cb_outcome" where
  "client_sent_func lw len c =
     (if tc_client_closed c \<or> \<not> tc_socks_up c \<or> \<not> len > 0 \<or> \<not> len \<le> tc_socks_recv_tcp_pending c then None
      else (let c = c\<lparr>tc_socks_recv_tcp_pending := tc_socks_recv_tcp_pending c - len\<rparr> in
        if tc_socks_recv_buf_used c > 0 then
          (if \<not> tc_socks_recv_waiting c \<or> \<not> tc_socks_recv_buf_sent c < tc_socks_recv_buf_used c then None
           else do {
             (c, cs, r) \<leftarrow> client_socks_recv_send_out lw (c\<lparr>tc_socks_recv_waiting := False\<rparr>);
             if r < 0 then Some (c, cs, Returned ERR_ABRT)
             else if \<not> tc_socks_recv_tcp_pending c > 0 then None
             else if tc_socks_recv_buf_used c = - 1 \<and> \<not> tc_socks_closed c then do {
               (c, cs') \<leftarrow> client_socks_recv_initiate c;
               Some (c\<lparr>tc_dead_client := DEAD_ENTER (tc_dead_client c)\<rparr>, cs @ cs', In_sync)
             }
             else Some (c, cs, Returned ERR_OK)
           })
        else if tc_socks_closed c \<and> tc_socks_recv_tcp_pending c = 0 then do {
          (c, cs) \<leftarrow> client_free_client (lw_close_ok lw) c;
          Some (c, cs, Returned ERR_ABRT)
        }
        else Some (c, [], Returned ERR_OK)))"

definition client_sent_return :: "tcp_client \<Rightarrow> tcp_client \<times> tcp_call list \<times> cb_result" where
  "client_sent_return c =
     (let (killed, ds) = DEAD_LEAVE2 (tc_dead_client c)
      in (c\<lparr>tc_dead_client := ds\<rparr>, [], Returned (if killed then ERR_ABRT else ERR_OK)))"

definition client_socks_handler :: "bool \<Rightarrow> int \<Rightarrow> tcp_client \<Rightarrow> tc_result" where
  "client_socks_handler close_ok event c =
     (if tc_socks_closed c then None
      else if event = BSOCKSCLIENT_EVENT_ERROR then client_free_socks close_ok c
      else if event = BSOCKSCLIENT_EVENT_UP then
        (if tc_socks_up c then None
         else do {
           let c = c\<lparr>tc_socks_recv_buf_used := - 1, tc_socks_recv_tcp_pending := 0\<rparr>;
           let c = (if tc_client_closed c then c else c\<lparr>tc_sent_cb := True\<rparr>);
           let c = c\<lparr>tc_socks_up := True\<rparr>;
           (c, cs) \<leftarrow> (if tc_buf_used c > 0 then client_send_to_socks c else Some (c, []));
           (c, cs') \<leftarrow> (if tc_client_closed c then Some (c, []) else client_socks_recv_initiate c);
           Some (c, cs @ cs')
         })
      else if event = BSOCKSCLIENT_EVENT_ERROR_CLOSED then
        (if tc_socks_up c then client_free_socks close_ok c else None)
      else None)"

section \<open>Accepting\<close>

fun concat_sum :: "int \<Rightarrow> string list \<Rightarrow> int option" where
  "concat_sum sm [] = Some sm"
| "concat_sum sm (s # ss) =
     (if int (length s) > SIZE_MAX - 1 - sm then None else concat_sum (sm + int (length s)) ss)"

definition concat_strings :: "(int \<Rightarrow> bool) \<Rightarrow> string list \<Rightarrow> string option" where
  "concat_strings alloc ss =
     do { sm \<leftarrow> concat_sum 0 ss; require (alloc (sm + 1)) (concat ss) }"

text \<open>\<open>socks_auth_info[1].password.username\<close> points to the text of the option or to the
  \<open>socks_username\<close> of a client.\<close>

datatype username_ptr = Options_username | Client_username nat

record clients =
  tcp_clients :: "nat list"
  num_clients :: int
  socks_auth_username :: username_ptr

record tun_options =
  opt_username :: "string option"
  opt_append_source_to_username :: bool

text \<open>The system's part in accepting a connection: the memory that \<open>malloc\<close> returns, with
  whatever is in it, whether the text can be allocated, and whether \<open>BSocksClient_Init\<close>
  succeeds.\<close>

record accept_env =
  ae_memory :: "tcp_client option"
  ae_malloc :: "int \<Rightarrow> bool"
  ae_socks_init :: bool

definition accepted_client :: "tcp_client \<Rightarrow> tcp_client" where
  "accepted_client c =
     c\<lparr>tc_dead_client := [False], tc_client_closed := False, tc_err_cb := True, tc_recv_cb := True, tc_sent_cb := False,
       tc_buf_used := 0, tc_socks_up := False, tc_socks_closed := False, tc_freed := False\<rparr>"

text \<open>The addresses of the new pcb.\<close>

record tcp_pcb =
  pcb_is_ipv6 :: bool
  pcb_local_ip4 :: u32
  pcb_local_ip6 :: bytes
  pcb_local_port :: u16
  pcb_remote_ip4 :: u32
  pcb_remote_ip6 :: bytes
  pcb_remote_port :: u16

text \<open>The part of \<open>listener_accept_func\<close> that adds the source address to the username: the name, if
  there is one to be added, or \<open>None\<close> when there is no memory for it.\<close>

definition append_source ::
  "tun_options \<Rightarrow> accept_env \<Rightarrow> nat \<Rightarrow> BAddr \<Rightarrow> clients \<Rightarrow> (clients \<times> string option option) option" where
  "append_source opts env client remote g =
     (case (opt_username opts, opt_append_source_to_username opts) of
        (Some username, True) \<Rightarrow> do {
          addr_str \<leftarrow> BAddr_Print remote;
          Some (case concat_strings (ae_malloc env) [username, ''@'', addr_str] of
              None \<Rightarrow> (g, None)
            | Some name \<Rightarrow> (g\<lparr>socks_auth_username := Client_username client\<rparr>, Some (Some name)))
        }
      | _ \<Rightarrow> Some (g, Some None))"

text \<open>The new client, or the value returned to lwip. \<open>tcp_accepted\<close> and \<open>tcp_nagle_disable\<close>, which tell lwip about its backlog
  and its sending strategy and change nothing of the client, are left out.\<close>

definition listener_accept_func ::
  "tun_options \<Rightarrow> accept_env \<Rightarrow> nat \<Rightarrow> tcp_pcb \<Rightarrow> int \<Rightarrow> clients \<Rightarrow> (clients \<times> tcp_client option \<times> cb_result) option" where
  "listener_accept_func opts env client newpcb err g =
     (if err \<noteq> ERR_OK then None
      else (case ae_memory env of
        None \<Rightarrow> Some (g, None, Returned ERR_MEM)
      | Some c \<Rightarrow> do {
          let local = baddr_from_lwip (pcb_is_ipv6 newpcb) (pcb_local_ip4 newpcb) (pcb_local_ip6 newpcb) (pcb_local_port newpcb);
          let remote = baddr_from_lwip (pcb_is_ipv6 newpcb) (pcb_remote_ip4 newpcb) (pcb_remote_ip6 newpcb) (pcb_remote_port newpcb);
          let c = c\<lparr>tc_socks_username := None, tc_local_addr := local, tc_remote_addr := remote\<rparr>;
          (g, username) \<leftarrow> append_source opts env client remote g;
          (case username of
             None \<Rightarrow> Some (g, None, Returned ERR_MEM)
           | Some name \<Rightarrow>
               if \<not> ae_socks_init env then Some (g, None, Returned ERR_MEM)
               else if \<not> num_clients g \<ge> 0 then None
               else Some (g\<lparr>tcp_clients := tcp_clients g @ [client], num_clients := num_clients g + 1\<rparr>,
                          Some (accepted_client (c\<lparr>tc_socks_username := name\<rparr>)), In_sync))
        }))"

definition listener_accept_return :: "tcp_client \<Rightarrow> tcp_client \<times> tcp_call list \<times> cb_result" where
  "listener_accept_return c =
     (let (killed, ds) = DEAD_LEAVE2 (tc_dead_client c)
      in (c\<lparr>tc_dead_client := ds\<rparr>, [], Returned (if killed then ERR_ABRT else ERR_OK)))"

text \<open>The part of \<open>client_dealloc\<close> that concerns the list of the clients.\<close>

definition forget_client :: "nat \<Rightarrow> clients \<Rightarrow> clients option" where
  "forget_client client g =
     require (num_clients g > 0) (g\<lparr>num_clients := num_clients g - 1, tcp_clients := remove1 client (tcp_clients g)\<rparr>)"

section \<open>One client and its surroundings\<close>

text \<open>\<open>ts_frame\<close> is the callback of lwip that is waiting in \<open>SYNC_COMMIT\<close>, \<open>ts_pcb\<close> and \<open>ts_socks\<close>
  tell whether the pcb and the SOCKS client exist, \<open>ts_sending\<close> and \<open>ts_receiving\<close> are the
  operations in progress at the SOCKS client. The other fields are the history: the bytes that
  each side gave and got, the bytes that were given back to the receive window and those that
  the client acknowledged, whether the pcb was aborted, whether the client side and the SOCKS
  side ended by themselves, and the value the last callback returned.\<close>

datatype cb_frame = Frame_accept | Frame_recv | Frame_sent

record tc_sys =
  ts_client :: tcp_client
  ts_frame :: "cb_frame option"
  ts_pcb :: bool
  ts_socks :: bool
  ts_memory :: bool
  ts_sending :: "int option"
  ts_receiving :: bool
  ts_from_client :: bytes
  ts_to_socks :: bytes
  ts_from_socks :: bytes
  ts_to_client :: bytes
  ts_recved :: int
  ts_acked :: int
  ts_aborted :: bool
  ts_client_end :: bool
  ts_socks_end :: bool
  ts_ret :: "int option"

datatype tc_input =
  Client_data bytes
| Client_fin
| Client_err int
| Client_acked int
| Callback_return
| Socks_event int
| Socks_sent int
| Socks_data bytes
| Murder

fun ts_call :: "tcp_call \<Rightarrow> tc_sys \<Rightarrow> tc_sys option" where
  "ts_call (tcp_close ok) s = require (ts_pcb s) (s\<lparr>ts_pcb := \<not> ok\<rparr>)"
| "ts_call tcp_abort s = require (ts_pcb s) (s\<lparr>ts_pcb := False, ts_aborted := True\<rparr>)"
| "ts_call (tcp_recved n) s = require (ts_pcb s) (s\<lparr>ts_recved := ts_recved s + n\<rparr>)"
| "ts_call (tcp_write data) s = require (ts_pcb s) (s\<lparr>ts_to_client := ts_to_client s @ data\<rparr>)"
| "ts_call tcp_output s = require (ts_pcb s) s"
| "ts_call pbuf_free s = Some s"
| "ts_call Socks_Free s = require (ts_socks s) (s\<lparr>ts_socks := False, ts_sending := None, ts_receiving := False\<rparr>)"
| "ts_call (Socks_Send n) s = require (ts_socks s \<and> ts_sending s = None \<and> n > 0) (s\<lparr>ts_sending := Some n\<rparr>)"
| "ts_call (Socks_Recv n) s = require (ts_socks s \<and> \<not> ts_receiving s \<and> n > 0) (s\<lparr>ts_receiving := True\<rparr>)"
| "ts_call Client_Dealloc s = require (ts_memory s \<and> \<not> ts_pcb s \<and> \<not> ts_socks s) (s\<lparr>ts_memory := False\<rparr>)"

fun ts_calls :: "tcp_call list \<Rightarrow> tc_sys \<Rightarrow> tc_sys option" where
  "ts_calls [] s = Some s"
| "ts_calls (c # cs) s = do { s \<leftarrow> ts_call c s; ts_calls cs s }"

definition ts_after :: "tc_sys \<Rightarrow> tc_result \<Rightarrow> tc_sys option" where
  "ts_after s r = do { (c, cs) \<leftarrow> r; ts_calls cs (s\<lparr>ts_client := c\<rparr>) }"

definition ts_callback :: "cb_frame \<Rightarrow> tc_sys \<Rightarrow> cb_outcome \<Rightarrow> tc_sys option" where
  "ts_callback frame s r = do {
     (c, cs, res) \<leftarrow> r;
     ts_calls cs (case res of
         Returned v \<Rightarrow> s\<lparr>ts_frame := None, ts_ret := Some v, ts_client := c\<rparr>
       | In_sync \<Rightarrow> s\<lparr>ts_frame := Some frame, ts_client := c\<rparr>)
   }"

text \<open>Data that \<open>client_recv_func\<close> refuses stays with lwip.\<close>

definition data_refused :: "bytes \<Rightarrow> tc_sys \<Rightarrow> bool" where
  "data_refused data s \<longleftrightarrow> int (length data) > int TCP_WND - tc_buf_used (ts_client s)"

fun ts_step :: "lwip \<Rightarrow> tc_input \<Rightarrow> tc_sys \<Rightarrow> tc_sys option" where
  "ts_step lw (Client_data data) s =
     ts_callback Frame_recv
       (s\<lparr>ts_ret := None, ts_from_client := ts_from_client s @ (if data_refused data s then [] else data)\<rparr>)
       (client_recv_func (lw_close_ok lw) (Some data) ERR_OK (ts_client s))"
| "ts_step lw Client_fin s =
     ts_callback Frame_recv (s\<lparr>ts_ret := None, ts_client_end := True\<rparr>)
       (client_recv_func (lw_close_ok lw) None ERR_OK (ts_client s))"
| "ts_step lw (Client_err e) s =
     ts_after (s\<lparr>ts_ret := None, ts_client_end := True, ts_pcb := False\<rparr>)
       (client_err_func (lw_close_ok lw) e (ts_client s))"
| "ts_step lw (Client_acked n) s =
     ts_callback Frame_sent (s\<lparr>ts_ret := None, ts_acked := ts_acked s + n\<rparr>) (client_sent_func lw n (ts_client s))"
| "ts_step lw Callback_return s =
     ts_callback Frame_sent (s\<lparr>ts_ret := None\<rparr>)
       (case ts_frame s of
          None \<Rightarrow> None
        | Some Frame_accept \<Rightarrow> Some (listener_accept_return (ts_client s))
        | Some Frame_recv \<Rightarrow> Some (client_recv_return (ts_client s))
        | Some Frame_sent \<Rightarrow> Some (client_sent_return (ts_client s)))"
| "ts_step lw (Socks_event e) s =
     ts_after (s\<lparr>ts_ret := None, ts_socks_end := (ts_socks_end s \<or> e \<noteq> BSOCKSCLIENT_EVENT_UP)\<rparr>)
       (client_socks_handler (lw_close_ok lw) e (ts_client s))"
| "ts_step lw (Socks_sent n) s =
     ts_after (s\<lparr>ts_ret := None, ts_sending := None, ts_to_socks := ts_to_socks s @ take (nat n) (tc_buf (ts_client s))\<rparr>)
       (client_socks_send_handler_done (lw_close_ok lw) n (ts_client s))"
| "ts_step lw (Socks_data data) s =
     ts_after (s\<lparr>ts_ret := None, ts_receiving := False, ts_from_socks := ts_from_socks s @ data\<rparr>)
       (client_socks_recv_handler_done lw (int (length data))
         ((ts_client s)\<lparr>tc_socks_recv_buf := memcpy (tc_socks_recv_buf (ts_client s)) 0 data\<rparr>))"
| "ts_step lw Murder s =
     ts_after (s\<lparr>ts_ret := None, ts_client_end := True, ts_socks_end := True\<rparr>) (client_murder (ts_client s))"

text \<open>When an input can come. lwip calls the callbacks that are set at an existing pcb, and not
  from within another; it acknowledges at most what was written. The SOCKS client reports to its
  user until it is freed, and finishes the operations in progress.\<close>

fun ts_enabled :: "tc_input \<Rightarrow> tc_sys \<Rightarrow> bool" where
  "ts_enabled (Client_data data) s \<longleftrightarrow> ts_frame s = None \<and> ts_pcb s \<and> tc_recv_cb (ts_client s) \<and> data \<noteq> []"
| "ts_enabled Client_fin s \<longleftrightarrow> ts_frame s = None \<and> ts_pcb s \<and> tc_recv_cb (ts_client s)"
| "ts_enabled (Client_err e) s \<longleftrightarrow> ts_frame s = None \<and> ts_pcb s \<and> tc_err_cb (ts_client s)"
| "ts_enabled (Client_acked n) s \<longleftrightarrow> ts_frame s = None \<and> ts_pcb s \<and> tc_sent_cb (ts_client s) \<and>
     0 < n \<and> n \<le> int (length (ts_to_client s)) - ts_acked s"
| "ts_enabled Callback_return s \<longleftrightarrow> ts_frame s \<noteq> None"
| "ts_enabled (Socks_event e) s \<longleftrightarrow> ts_socks s \<and>
     (e = BSOCKSCLIENT_EVENT_ERROR \<or> e = BSOCKSCLIENT_EVENT_UP \<and> \<not> tc_socks_up (ts_client s) \<or>
      e = BSOCKSCLIENT_EVENT_ERROR_CLOSED \<and> tc_socks_up (ts_client s))"
| "ts_enabled (Socks_sent n) s \<longleftrightarrow> (case ts_sending s of None \<Rightarrow> False | Some m \<Rightarrow> 0 < n \<and> n \<le> m)"
| "ts_enabled (Socks_data data) s \<longleftrightarrow> ts_receiving s \<and> data \<noteq> [] \<and> length data \<le> CLIENT_SOCKS_RECV_BUF_SIZE"
| "ts_enabled Murder s \<longleftrightarrow> ts_frame s = None \<and> ts_memory s"

definition ts_init :: "tcp_client \<Rightarrow> tc_sys" where
  "ts_init c = \<lparr>ts_client = c, ts_frame = Some Frame_accept, ts_pcb = True, ts_socks = True, ts_memory = True,
     ts_sending = None, ts_receiving = False, ts_from_client = [], ts_to_socks = [], ts_from_socks = [],
     ts_to_client = [], ts_recved = 0, ts_acked = 0, ts_aborted = False, ts_client_end = False,
     ts_socks_end = False, ts_ret = None\<rparr>"

inductive tc_reach :: "tc_sys \<Rightarrow> bool" where
  accept: "length (tc_buf c) = TCP_WND \<Longrightarrow> length (tc_socks_recv_buf c) = CLIENT_SOCKS_RECV_BUF_SIZE \<Longrightarrow>
    tc_reach (ts_init (accepted_client c))"
| step: "tc_reach s \<Longrightarrow> ts_enabled i s \<Longrightarrow> ts_step lw i s = Some s' \<Longrightarrow> tc_reach s'"

section \<open>All clients\<close>

record tun_sys =
  tu_clients :: clients
  tu_sys :: "nat \<Rightarrow> tc_sys option"

datatype tun_input = Accept accept_env nat tcp_pcb | Input nat lwip tc_input

fun tun_step :: "tun_options \<Rightarrow> tun_input \<Rightarrow> tun_sys \<Rightarrow> tun_sys option" where
  "tun_step opts (Accept env i pcb) u = do {
     (g, c, res) \<leftarrow> listener_accept_func opts env i pcb ERR_OK (tu_clients u);
     Some (case c of
         None \<Rightarrow> u\<lparr>tu_clients := g\<rparr>
       | Some c \<Rightarrow> u\<lparr>tu_clients := g, tu_sys := (tu_sys u)(i \<mapsto> ts_init c)\<rparr>)
   }"
| "tun_step opts (Input i lw inp) u = do {
     s \<leftarrow> tu_sys u i;
     s' \<leftarrow> ts_step lw inp s;
     g \<leftarrow> (if ts_memory s \<and> \<not> ts_memory s' then forget_client i (tu_clients u) else Some (tu_clients u));
     Some (u\<lparr>tu_clients := g, tu_sys := (tu_sys u)(i \<mapsto> s')\<rparr>)
   }"

text \<open>A new client gets an address that no earlier one had, and memory of the size of the
  structure.\<close>

definition memory_ok :: "tcp_client \<Rightarrow> bool" where
  "memory_ok c \<longleftrightarrow> length (tc_buf c) = TCP_WND \<and> length (tc_socks_recv_buf c) = CLIENT_SOCKS_RECV_BUF_SIZE"

fun tun_enabled :: "tun_input \<Rightarrow> tun_sys \<Rightarrow> bool" where
  "tun_enabled (Accept env i pcb) u \<longleftrightarrow> tu_sys u i = None \<and>
     (case ae_memory env of None \<Rightarrow> True | Some c \<Rightarrow> memory_ok c)"
| "tun_enabled (Input i lw inp) u \<longleftrightarrow> (case tu_sys u i of None \<Rightarrow> False | Some s \<Rightarrow> ts_enabled inp s)"

definition tun_init :: tun_sys where
  "tun_init = \<lparr>tu_clients = \<lparr>tcp_clients = [], num_clients = 0, socks_auth_username = Options_username\<rparr>, tu_sys = Map.empty\<rparr>"

inductive tun_reach :: "tun_options \<Rightarrow> tun_sys \<Rightarrow> bool" for opts where
  init: "tun_reach opts tun_init"
| step: "tun_reach opts u \<Longrightarrow> tun_enabled i u \<Longrightarrow> tun_step opts i u = Some u' \<Longrightarrow> tun_reach opts u'"

text \<open>The loop in \<open>main\<close> that frees the clients when the program ends.\<close>

partial_function (option) free_clients :: "tun_options \<Rightarrow> lwip \<Rightarrow> tun_sys \<Rightarrow> tun_sys option" where
  "free_clients opts lw u =
     (case tcp_clients (tu_clients u) of
        [] \<Rightarrow> Some u
      | client # _ \<Rightarrow> Option.bind (tun_step opts (Input client lw Murder) u) (free_clients opts lw))"

end
