(* ===== verification/Tcp_Relay.thy ===== *)
theory Tcp_Relay
  imports Tcp_Client
begin

text \<open>
  What the TCP clients of \<^verbatim>\<open>tun2socks/tun2socks.c\<close> keep, whatever lwip answers: the
  invariant of one client with its pcb and its SOCKS client, the steps that preserve it, and what
  follows for one client and for all of them: no assertion fails, nothing is used after it was
  released or released twice, the bytes of each direction arrive in order and are complete when
  the connection ends by itself, and the list of the clients and its counter agree.
\<close>

section \<open>The invariant\<close>

text \<open>What has to be released, and the callbacks.\<close>

definition owned_ok :: "tc_sys \<Rightarrow> bool" where
  "owned_ok s \<longleftrightarrow> (let c = ts_client s in
     ts_pcb s = (\<not> tc_client_closed c) \<and> ts_socks s = (\<not> tc_socks_closed c) \<and>
     tc_freed c = (tc_client_closed c \<and> tc_socks_closed c) \<and> ts_memory s = (\<not> tc_freed c) \<and>
     (tc_client_closed c \<longrightarrow> tc_socks_closed c \<or> tc_buf_used c > 0) \<and>
     (\<not> tc_client_closed c \<longrightarrow> tc_err_cb c \<and> tc_recv_cb c = (\<not> tc_socks_closed c) \<and> tc_sent_cb c = tc_socks_up c \<and>
        (tc_socks_closed c \<longrightarrow> ts_socks_end s \<and> tc_socks_up c \<and>
           (tc_socks_recv_buf_used c \<noteq> - 1 \<or> tc_socks_recv_tcp_pending c > 0))))"

text \<open>The callback in progress learns that the pcb is gone.\<close>

definition frame_ok :: "tc_sys \<Rightarrow> bool" where
  "frame_ok s \<longleftrightarrow> (let c = ts_client s in
     (case ts_frame s of
        Some f \<Rightarrow> tc_dead_client c = [tc_client_closed c]
      | None \<Rightarrow> tc_client_closed c \<or> tc_dead_client c = []) \<and>
     (ts_ret s \<noteq> None \<longrightarrow> ts_frame s = None) \<and>
     (case ts_ret s of Some r \<Rightarrow> (r = ERR_ABRT) = tc_client_closed c | None \<Rightarrow> True))"

text \<open>From the client to SOCKS.\<close>

definition up_ok :: "tc_sys \<Rightarrow> bool" where
  "up_ok s \<longleftrightarrow> (let c = ts_client s in
     length (tc_buf c) = TCP_WND \<and> 0 \<le> tc_buf_used c \<and> tc_buf_used c \<le> int TCP_WND \<and>
     ts_from_client s = ts_to_socks s @ take (nat (tc_buf_used c)) (tc_buf c) \<and>
     (case ts_sending s of
        Some m \<Rightarrow> 0 < m \<and> m \<le> tc_buf_used c \<and> tc_socks_up c \<and> \<not> tc_socks_closed c
      | None \<Rightarrow> \<not> tc_socks_up c \<or> tc_socks_closed c \<or> tc_buf_used c = 0) \<and>
     (\<not> tc_client_closed c \<longrightarrow> ts_recved s = int (length (ts_to_socks s))) \<and>
     ts_recved s \<le> int (length (ts_to_socks s)) \<and>
     (tc_freed c \<and> \<not> ts_socks_end s \<longrightarrow> tc_buf_used c = 0))"

text \<open>From SOCKS to the client.\<close>

definition socks_rest :: "tcp_client \<Rightarrow> bytes" where
  "socks_rest c = (if tc_socks_recv_buf_used c = - 1 then []
     else drop (nat (tc_socks_recv_buf_sent c)) (take (nat (tc_socks_recv_buf_used c)) (tc_socks_recv_buf c)))"

definition down_ok :: "tc_sys \<Rightarrow> bool" where
  "down_ok s \<longleftrightarrow> (let c = ts_client s in
     length (tc_socks_recv_buf c) = CLIENT_SOCKS_RECV_BUF_SIZE \<and>
     (\<not> tc_client_closed c \<longrightarrow>
        ts_receiving s = (tc_socks_up c \<and> \<not> tc_socks_closed c \<and> tc_socks_recv_buf_used c = - 1)) \<and>
     (tc_client_closed c \<and> ts_receiving s \<longrightarrow>
        tc_socks_up c \<and> \<not> tc_socks_closed c \<and> tc_socks_recv_buf_used c = - 1) \<and>
     (\<exists>rest. ts_from_socks s = ts_to_client s @ rest) \<and>
     (\<not> tc_socks_up c \<longrightarrow> ts_to_client s = [] \<and> ts_from_socks s = [] \<and> ts_acked s = 0) \<and>
     (tc_socks_up c \<and> \<not> tc_client_closed c \<longrightarrow>
        tc_socks_recv_tcp_pending c = int (length (ts_to_client s)) - ts_acked s \<and> tc_socks_recv_tcp_pending c \<ge> 0 \<and>
        (tc_socks_recv_buf_used c \<noteq> - 1 \<longrightarrow> 0 \<le> tc_socks_recv_buf_sent c \<and>
           tc_socks_recv_buf_sent c < tc_socks_recv_buf_used c \<and>
           tc_socks_recv_buf_used c \<le> int CLIENT_SOCKS_RECV_BUF_SIZE \<and>
           tc_socks_recv_waiting c \<and> tc_socks_recv_tcp_pending c > 0) \<and>
        ts_from_socks s = ts_to_client s @ socks_rest c) \<and>
     (tc_client_closed c \<and> \<not> ts_client_end s \<and> \<not> ts_aborted s \<longrightarrow>
        tc_socks_closed c \<and> ts_from_socks s = ts_to_client s \<and> ts_acked s = int (length (ts_to_client s))))"

definition tc_ok :: "tc_sys \<Rightarrow> bool" where
  "tc_ok s \<longleftrightarrow> owned_ok s \<and> frame_ok s \<and> up_ok s \<and> down_ok s"

lemmas tc_ok_defs = tc_ok_def owned_ok_def frame_ok_def up_ok_def down_ok_def

lemma tc_ok_init:
  assumes "length (tc_buf c) = TCP_WND" "length (tc_socks_recv_buf c) = CLIENT_SOCKS_RECV_BUF_SIZE"
  shows "tc_ok (ts_init (accepted_client c))"
  using assms by (simp add: tc_ok_defs ts_init_def accepted_client_def)

section \<open>The closing functions\<close>

declare client_handle_freed_client.simps [simp del] client_free_client.simps [simp del]
  client_free_socks.simps [simp del]

lemma tc_emit_Some [simp]: "tc_emit cs (Some (c, cs')) = Some (c, cs @ cs')"
  by (simp add: tc_emit_def)

text \<open>With the client gone, freeing SOCKS frees the rest.\<close>

lemma client_free_socks_closed:
  assumes "\<not> tc_socks_closed c" "tc_client_closed c"
  shows "client_free_socks k c =
    Some (c\<lparr>tc_socks_closed := True, tc_freed := True\<rparr>, [Socks_Free, Client_Dealloc])"
  using assms by (simp add: client_free_socks.simps client_dealloc_def require_def)

lemma client_handle_freed_client_eq:
  assumes "\<not> tc_client_closed c"
  shows "client_handle_freed_client k c =
    (let c = c\<lparr>tc_dead_client := DEAD_KILL (tc_dead_client c), tc_client_closed := True\<rparr> in
     if tc_socks_closed c then Some (c\<lparr>tc_freed := True\<rparr>, [Client_Dealloc])
     else if tc_buf_used c > 0 then Some (c, [])
     else Some (c\<lparr>tc_socks_closed := True, tc_freed := True\<rparr>, [Socks_Free, Client_Dealloc]))"
  using assms
  by (simp add: client_handle_freed_client.simps client_free_socks_closed client_dealloc_def require_def Let_def)

lemma client_free_socks_open:
  assumes "\<not> tc_socks_closed c" "\<not> tc_client_closed c"
  shows "client_free_socks k c =
    (if tc_socks_up c \<and> (tc_socks_recv_buf_used c \<ge> 0 \<or> tc_socks_recv_tcp_pending c > 0)
     then Some (c\<lparr>tc_recv_cb := False, tc_socks_closed := True\<rparr>, [Socks_Free])
     else Some (c\<lparr>tc_dead_client := DEAD_KILL (tc_dead_client c), tc_err_cb := False, tc_recv_cb := False, tc_sent_cb := False,
            tc_client_closed := True, tc_socks_closed := True, tc_freed := True\<rparr>,
            Socks_Free # (if k then [tcp_close True] else [tcp_close False, tcp_abort]) @ [Client_Dealloc]))"
  using assms
  by (simp add: client_free_socks.simps client_free_client.simps client_handle_freed_client_eq remove_callbacks_def Let_def)

lemmas closing_eqs = client_handle_freed_client_eq client_free_socks_closed client_free_socks_open
  client_free_client.simps client_abort_client_def remove_callbacks_def

lemma ts_calls_append: "ts_calls (cs @ cs') s = Option.bind (ts_calls cs s) (ts_calls cs')"
proof (induction cs arbitrary: s)
  case (Cons a cs)
  show ?case by (cases "ts_call a s") (simp_all add: Cons)
qed simp

lemma DEAD_KILL_simps [simp]: "DEAD_KILL [] = []" "DEAD_KILL [d] = [True]"
  by (simp_all add: DEAD_KILL_def)

section \<open>The steps\<close>

text \<open>A step succeeds and what it reaches is acceptable again.\<close>

definition tc_steps :: "tc_sys option \<Rightarrow> bool" where
  "tc_steps r \<longleftrightarrow> (case r of None \<Rightarrow> False | Some s \<Rightarrow> tc_ok s)"

lemma tc_steps_Some [simp]: "tc_steps (Some s) \<longleftrightarrow> tc_ok s"
  by (simp add: tc_steps_def)

lemma ts_call_client: "ts_call a (s\<lparr>ts_client := c\<rparr>) = map_option (\<lambda>s. s\<lparr>ts_client := c\<rparr>) (ts_call a s)"
  by (cases a) (simp_all add: require_def)

lemma ts_calls_client: "ts_calls cs (s\<lparr>ts_client := c\<rparr>) = map_option (\<lambda>s. s\<lparr>ts_client := c\<rparr>) (ts_calls cs s)"
proof (induction cs arbitrary: s)
  case (Cons a cs)
  show ?case by (cases "ts_call a s") (simp_all add: Cons ts_call_client)
qed simp

lemma ts_after_emit: "ts_after s (tc_emit cs r) = Option.bind (ts_calls cs s) (\<lambda>s. ts_after s r)"
proof (cases r)
  case None
  then show ?thesis by (cases "ts_calls cs s") (simp_all add: ts_after_def tc_emit_def)
next
  case (Some x)
  then show ?thesis
    by (cases x; cases "ts_calls cs s") (simp_all add: ts_after_def ts_calls_append ts_calls_client)
qed

lemma ts_after_Some: "ts_after s (Some (c, cs)) = ts_calls cs (s\<lparr>ts_client := c\<rparr>)"
  by (simp add: ts_after_def)

lemma ts_callback_Some [simp]:
  "ts_callback f s (Some (c, cs, Returned v)) = ts_after (s\<lparr>ts_frame := None, ts_ret := Some v\<rparr>) (Some (c, cs))"
  "ts_callback f s (Some (c, cs, In_sync)) = ts_after (s\<lparr>ts_frame := Some f\<rparr>) (Some (c, cs))"
  by (simp_all add: ts_callback_def ts_after_def)

lemma ts_callback_bind [simp]:
  "ts_callback f s (Option.bind r (\<lambda>(c, cs). Some (c, cs, Returned v))) =
    ts_after (s\<lparr>ts_frame := None, ts_ret := Some v\<rparr>) r"
  by (cases r) (auto simp: ts_callback_def ts_after_def)

text \<open>The client side is about to be given up: its pcb has been taken care of.\<close>

definition closing :: "tc_sys \<Rightarrow> bool" where
  "closing s \<longleftrightarrow> (let c = ts_client s in
     \<not> tc_client_closed c \<and> \<not> tc_freed c \<and> ts_memory s \<and> \<not> ts_pcb s \<and> ts_socks s = (\<not> tc_socks_closed c) \<and>
     (tc_socks_closed c \<longrightarrow> ts_socks_end s) \<and>
     (case ts_frame s of Some f \<Rightarrow> tc_dead_client c = [False] \<and> ts_ret s = None
      | None \<Rightarrow> tc_dead_client c = [] \<and> ts_ret s \<in> {None, Some ERR_ABRT}) \<and>
     up_ok s \<and> length (tc_socks_recv_buf c) = CLIENT_SOCKS_RECV_BUF_SIZE \<and>
     (ts_receiving s \<longrightarrow> tc_socks_up c \<and> \<not> tc_socks_closed c \<and> tc_socks_recv_buf_used c = - 1) \<and>
     (\<exists>rest. ts_from_socks s = ts_to_client s @ rest) \<and>
     (\<not> tc_socks_up c \<longrightarrow> ts_to_client s = [] \<and> ts_from_socks s = [] \<and> ts_acked s = 0) \<and>
     (ts_client_end s \<or> ts_aborted s \<or>
        tc_socks_closed c \<and> ts_from_socks s = ts_to_client s \<and> ts_acked s = int (length (ts_to_client s))))"

lemma tc_stepsI: "r = Some s \<Longrightarrow> owned_ok s \<Longrightarrow> frame_ok s \<Longrightarrow> up_ok s \<Longrightarrow> down_ok s \<Longrightarrow> tc_steps r"
  by (simp add: tc_ok_def)

lemma handle_freed_ok:
  assumes "closing s"
  shows "tc_steps (ts_after s (client_handle_freed_client k (ts_client s)))"
proof -
  let ?c = "ts_client s"
  have o: "\<not> tc_client_closed ?c" using assms by (simp add: closing_def Let_def)
  note e = client_handle_freed_client_eq o ts_after_Some closing_def require_def Let_def
  consider (gone) "tc_socks_closed ?c" | (wait) "\<not> tc_socks_closed ?c" "tc_buf_used ?c > 0"
    | (both) "\<not> tc_socks_closed ?c" "\<not> tc_buf_used ?c > 0" by blast
  then show ?thesis
  proof cases
    case gone
    show ?thesis
    proof (rule tc_stepsI)
      show "ts_after s (client_handle_freed_client k ?c) = Some (s\<lparr>ts_client := ?c\<lparr>tc_dead_client := DEAD_KILL (tc_dead_client ?c),
          tc_client_closed := True, tc_freed := True\<rparr>, ts_memory := False\<rparr>)"
        using assms gone by (simp add: e)
    qed (use assms gone in \<open>simp_all add: owned_ok_def frame_ok_def up_ok_def down_ok_def closing_def Let_def split: option.splits\<close>,
        auto)
  next
    case wait
    show ?thesis
    proof (rule tc_stepsI)
      show "ts_after s (client_handle_freed_client k ?c) = Some (s\<lparr>ts_client := ?c\<lparr>tc_dead_client := DEAD_KILL (tc_dead_client ?c),
          tc_client_closed := True\<rparr>\<rparr>)"
        using assms wait by (simp add: e)
    qed (use assms wait in \<open>simp_all add: owned_ok_def frame_ok_def up_ok_def down_ok_def closing_def Let_def split: option.splits\<close>,
        auto)
  next
    case both
    show ?thesis
    proof (rule tc_stepsI)
      show "ts_after s (client_handle_freed_client k ?c) = Some (s\<lparr>ts_client := ?c\<lparr>tc_dead_client := DEAD_KILL (tc_dead_client ?c),
          tc_client_closed := True, tc_socks_closed := True, tc_freed := True\<rparr>, ts_socks := False, ts_sending := None,
          ts_receiving := False, ts_memory := False\<rparr>)"
        using assms both by (simp add: e)
    qed (use assms both in \<open>simp_all add: owned_ok_def frame_ok_def up_ok_def down_ok_def closing_def Let_def split: option.splits\<close>,
        auto)
  qed
qed

lemma ts_after_client: "ts_after (s\<lparr>ts_client := c\<rparr>) r = ts_after s r"
  by (simp add: ts_after_def)

lemma closing_callbacks: "closing (s\<lparr>ts_client := remove_callbacks (ts_client s)\<rparr>) = closing s"
  by (cases "ts_frame s"; cases "ts_sending s") (simp_all add: closing_def remove_callbacks_def up_ok_def Let_def)

lemma closing_abort: "closing s \<Longrightarrow> closing (s\<lparr>ts_aborted := True\<rparr>)"
  by (cases "ts_frame s"; cases "ts_sending s") (simp_all add: closing_def up_ok_def Let_def)

lemma handle_freed_callbacks:
  assumes "closing s"
  shows "tc_steps (ts_after s (client_handle_freed_client k (remove_callbacks (ts_client s))))"
  using handle_freed_ok [of "s\<lparr>ts_client := remove_callbacks (ts_client s)\<rparr>"] assms
  by (simp add: closing_callbacks ts_after_client)

lemma closing_open: "closing s \<Longrightarrow> \<not> tc_client_closed (ts_client s)"
  by (simp add: closing_def Let_def)

lemma free_client_ok:
  assumes "ts_pcb s" "closing (s\<lparr>ts_pcb := False\<rparr>)"
  shows "tc_steps (ts_after s (client_free_client k (ts_client s)))"
proof -
  have o: "\<not> tc_client_closed (ts_client s)" using closing_open [OF assms(2)] by simp
  have "tc_steps (ts_after (s\<lparr>ts_pcb := False\<rparr>) (client_handle_freed_client k (remove_callbacks (ts_client s))))"
    "tc_steps (ts_after (s\<lparr>ts_pcb := False, ts_aborted := True\<rparr>) (client_handle_freed_client k (remove_callbacks (ts_client s))))"
    using handle_freed_callbacks [OF assms(2)] handle_freed_callbacks [OF closing_abort [OF assms(2)]] by simp_all
  then show ?thesis by (cases k) (simp_all add: client_free_client.simps o ts_after_emit require_def assms(1))
qed

lemma abort_client_ok:
  assumes "ts_pcb s" "closing (s\<lparr>ts_pcb := False, ts_aborted := True\<rparr>)"
  shows "tc_steps (ts_after s (client_abort_client k (ts_client s)))"
proof -
  have o: "\<not> tc_client_closed (ts_client s)" using closing_open [OF assms(2)] by simp
  show ?thesis using handle_freed_callbacks [OF assms(2)]
    by (simp add: client_abort_client_def o ts_after_emit require_def assms(1))
qed

text \<open>Giving up the client from an acceptable state.\<close>

lemma tc_ok_open:
  assumes "tc_ok s" "ts_pcb s"
  shows "\<not> tc_client_closed (ts_client s)" "\<not> tc_freed (ts_client s)" "ts_memory s"
    "ts_socks s = (\<not> tc_socks_closed (ts_client s))" "tc_socks_closed (ts_client s) \<Longrightarrow> ts_socks_end s"
    "length (tc_socks_recv_buf (ts_client s)) = CLIENT_SOCKS_RECV_BUF_SIZE"
    "ts_receiving s \<Longrightarrow> tc_socks_up (ts_client s) \<and> \<not> tc_socks_closed (ts_client s) \<and> tc_socks_recv_buf_used (ts_client s) = - 1"
    "\<exists>rest. ts_from_socks s = ts_to_client s @ rest"
    "\<not> tc_socks_up (ts_client s) \<Longrightarrow> ts_to_client s = [] \<and> ts_from_socks s = [] \<and> ts_acked s = 0"
    "up_ok s"
  using assms unfolding tc_ok_def owned_ok_def down_ok_def Let_def by blast+

text \<open>The fields each part of the invariant does not speak of.\<close>

lemma owned_ok_other [simp]:
  "owned_ok (s\<lparr>ts_frame := f\<rparr>) = owned_ok s"
  "owned_ok (s\<lparr>ts_sending := m\<rparr>) = owned_ok s"
  "owned_ok (s\<lparr>ts_receiving := b\<rparr>) = owned_ok s"
  "owned_ok (s\<lparr>ts_from_client := d\<rparr>) = owned_ok s"
  "owned_ok (s\<lparr>ts_to_socks := d\<rparr>) = owned_ok s"
  "owned_ok (s\<lparr>ts_from_socks := d\<rparr>) = owned_ok s"
  "owned_ok (s\<lparr>ts_to_client := d\<rparr>) = owned_ok s"
  "owned_ok (s\<lparr>ts_recved := n\<rparr>) = owned_ok s"
  "owned_ok (s\<lparr>ts_acked := n\<rparr>) = owned_ok s"
  "owned_ok (s\<lparr>ts_aborted := b\<rparr>) = owned_ok s"
  "owned_ok (s\<lparr>ts_client_end := b\<rparr>) = owned_ok s"
  "owned_ok (s\<lparr>ts_ret := r\<rparr>) = owned_ok s"
  by (simp_all add: owned_ok_def)

lemma frame_ok_other [simp]:
  "frame_ok (s\<lparr>ts_pcb := b\<rparr>) = frame_ok s"
  "frame_ok (s\<lparr>ts_socks := b\<rparr>) = frame_ok s"
  "frame_ok (s\<lparr>ts_memory := b\<rparr>) = frame_ok s"
  "frame_ok (s\<lparr>ts_sending := m\<rparr>) = frame_ok s"
  "frame_ok (s\<lparr>ts_receiving := b\<rparr>) = frame_ok s"
  "frame_ok (s\<lparr>ts_from_client := d\<rparr>) = frame_ok s"
  "frame_ok (s\<lparr>ts_to_socks := d\<rparr>) = frame_ok s"
  "frame_ok (s\<lparr>ts_from_socks := d\<rparr>) = frame_ok s"
  "frame_ok (s\<lparr>ts_to_client := d\<rparr>) = frame_ok s"
  "frame_ok (s\<lparr>ts_recved := n\<rparr>) = frame_ok s"
  "frame_ok (s\<lparr>ts_acked := n\<rparr>) = frame_ok s"
  "frame_ok (s\<lparr>ts_aborted := b\<rparr>) = frame_ok s"
  "frame_ok (s\<lparr>ts_client_end := b\<rparr>) = frame_ok s"
  "frame_ok (s\<lparr>ts_socks_end := b\<rparr>) = frame_ok s"
  by (simp_all add: frame_ok_def)

lemma up_ok_other [simp]:
  "up_ok (s\<lparr>ts_frame := f\<rparr>) = up_ok s"
  "up_ok (s\<lparr>ts_pcb := b\<rparr>) = up_ok s"
  "up_ok (s\<lparr>ts_socks := b\<rparr>) = up_ok s"
  "up_ok (s\<lparr>ts_memory := b\<rparr>) = up_ok s"
  "up_ok (s\<lparr>ts_receiving := b\<rparr>) = up_ok s"
  "up_ok (s\<lparr>ts_from_socks := d\<rparr>) = up_ok s"
  "up_ok (s\<lparr>ts_to_client := d\<rparr>) = up_ok s"
  "up_ok (s\<lparr>ts_acked := n\<rparr>) = up_ok s"
  "up_ok (s\<lparr>ts_aborted := b\<rparr>) = up_ok s"
  "up_ok (s\<lparr>ts_client_end := b\<rparr>) = up_ok s"
  "up_ok (s\<lparr>ts_ret := r\<rparr>) = up_ok s"
  by (simp_all add: up_ok_def)

lemma down_ok_other [simp]:
  "down_ok (s\<lparr>ts_frame := f\<rparr>) = down_ok s"
  "down_ok (s\<lparr>ts_pcb := b\<rparr>) = down_ok s"
  "down_ok (s\<lparr>ts_socks := b\<rparr>) = down_ok s"
  "down_ok (s\<lparr>ts_memory := b\<rparr>) = down_ok s"
  "down_ok (s\<lparr>ts_sending := m\<rparr>) = down_ok s"
  "down_ok (s\<lparr>ts_from_client := d\<rparr>) = down_ok s"
  "down_ok (s\<lparr>ts_to_socks := d\<rparr>) = down_ok s"
  "down_ok (s\<lparr>ts_recved := n\<rparr>) = down_ok s"
  "down_ok (s\<lparr>ts_socks_end := b\<rparr>) = down_ok s"
  "down_ok (s\<lparr>ts_ret := r\<rparr>) = down_ok s"
  by (simp_all add: down_ok_def)

lemma socks_rest_other [simp]:
  "socks_rest (c\<lparr>tc_dead_client := ds\<rparr>) = socks_rest c"
  "socks_rest (c\<lparr>tc_recv_cb := b\<rparr>) = socks_rest c"
  "socks_rest (c\<lparr>tc_sent_cb := b\<rparr>) = socks_rest c"
  "socks_rest (c\<lparr>tc_err_cb := b\<rparr>) = socks_rest c"
  "socks_rest (c\<lparr>tc_client_closed := b\<rparr>) = socks_rest c"
  "socks_rest (c\<lparr>tc_buf := bs\<rparr>) = socks_rest c"
  "socks_rest (c\<lparr>tc_buf_used := n\<rparr>) = socks_rest c"
  "socks_rest (c\<lparr>tc_socks_up := b\<rparr>) = socks_rest c"
  "socks_rest (c\<lparr>tc_socks_closed := b\<rparr>) = socks_rest c"
  "socks_rest (c\<lparr>tc_socks_recv_waiting := b\<rparr>) = socks_rest c"
  "socks_rest (c\<lparr>tc_socks_recv_tcp_pending := n\<rparr>) = socks_rest c"
  "socks_rest (c\<lparr>tc_freed := b\<rparr>) = socks_rest c"
  by (simp_all add: socks_rest_def)

lemma frame_ok_client:
  "tc_client_closed c = tc_client_closed (ts_client s) \<Longrightarrow> tc_dead_client c = tc_dead_client (ts_client s) \<Longrightarrow>
    frame_ok (s\<lparr>ts_client := c\<rparr>) = frame_ok s"
  by (cases "ts_frame s"; cases "ts_ret s") (simp_all add: frame_ok_def Let_def)

lemma frame_ok_ret: "frame_ok s \<Longrightarrow> frame_ok (s\<lparr>ts_ret := None\<rparr>)"
  by (simp add: frame_ok_def Let_def)

lemma down_ok_client:
  "tc_socks_recv_buf c = tc_socks_recv_buf (ts_client s) \<Longrightarrow> tc_client_closed c = tc_client_closed (ts_client s) \<Longrightarrow>
    tc_socks_up c = tc_socks_up (ts_client s) \<Longrightarrow> tc_socks_closed c = tc_socks_closed (ts_client s) \<Longrightarrow>
    tc_socks_recv_buf_used c = tc_socks_recv_buf_used (ts_client s) \<Longrightarrow>
    tc_socks_recv_buf_sent c = tc_socks_recv_buf_sent (ts_client s) \<Longrightarrow>
    tc_socks_recv_waiting c = tc_socks_recv_waiting (ts_client s) \<Longrightarrow>
    tc_socks_recv_tcp_pending c = tc_socks_recv_tcp_pending (ts_client s) \<Longrightarrow>
    down_ok (s\<lparr>ts_client := c\<rparr>) = down_ok s"
  by (simp add: down_ok_def socks_rest_def Let_def)

lemma up_ok_client:
  "tc_buf c = tc_buf (ts_client s) \<Longrightarrow> tc_buf_used c = tc_buf_used (ts_client s) \<Longrightarrow>
    tc_client_closed c = tc_client_closed (ts_client s) \<Longrightarrow> tc_socks_up c = tc_socks_up (ts_client s) \<Longrightarrow>
    tc_socks_closed c = tc_socks_closed (ts_client s) \<Longrightarrow> tc_freed c = tc_freed (ts_client s) \<Longrightarrow>
    up_ok (s\<lparr>ts_client := c\<rparr>) = up_ok s"
  by (cases "ts_sending s") (simp_all add: up_ok_def Let_def)

lemma tc_ok_dead:
  assumes "tc_ok s" "ts_pcb s"
  shows "tc_dead_client (ts_client s) = (if ts_frame s = None then [] else [False])"
  using assms tc_ok_open(1) [OF assms] by (auto simp: tc_ok_def frame_ok_def Let_def split: option.splits)

lemma closing_ended:
  assumes "tc_ok s" "ts_pcb s" "ts_frame s = None"
  shows "closing (s\<lparr>ts_ret := None, ts_client_end := True, ts_pcb := False\<rparr>)"
    "closing (s\<lparr>ts_client_end := True, ts_frame := None, ts_ret := Some ERR_ABRT, ts_pcb := False\<rparr>)"
   apply (simp_all add: closing_def Let_def assms(3) tc_ok_dead [OF assms(1,2)])
  using tc_ok_open [OF assms(1,2)] by blast+

lemma step_Client_err: "tc_ok s \<Longrightarrow> ts_enabled (Client_err e) s \<Longrightarrow> tc_steps (ts_step lw (Client_err e) s)"
  using handle_freed_ok [OF closing_ended(1) [of s]] tc_ok_open(1) [of s] by (simp add: client_err_func_def)

lemma step_Client_fin: "tc_ok s \<Longrightarrow> ts_enabled Client_fin s \<Longrightarrow> tc_steps (ts_step lw Client_fin s)"
  using free_client_ok [of "s\<lparr>ts_client_end := True, ts_frame := None, ts_ret := Some ERR_ABRT\<rparr>"] closing_ended(2) [of s]
    tc_ok_open(1) [of s] by (simp add: client_recv_func_def)

lemma up_ok_socks_end: "up_ok s \<Longrightarrow> up_ok (s\<lparr>ts_socks_end := True\<rparr>)"
  by (cases "ts_sending s") (simp_all add: up_ok_def Let_def)

lemma tc_ok_ret: "tc_ok s \<Longrightarrow> tc_ok (s\<lparr>ts_ret := None\<rparr>)"
  by (simp add: tc_ok_def frame_ok_def Let_def)

lemma tc_ok_socks_end: "tc_ok s \<Longrightarrow> tc_ok (s\<lparr>ts_socks_end := True\<rparr>)"
  by (simp add: tc_ok_def owned_ok_def up_ok_socks_end Let_def)

text \<open>Giving up the SOCKS side.\<close>

lemma free_socks_closed:
  assumes "up_ok s" "frame_ok s" "down_ok s" "tc_client_closed (ts_client s)" "\<not> tc_socks_closed (ts_client s)"
    "\<not> ts_pcb s" "ts_socks s" "ts_memory s" "ts_socks_end s \<or> tc_buf_used (ts_client s) = 0"
  shows "tc_steps (ts_after s (client_free_socks k (ts_client s)))"
proof (rule tc_stepsI)
  show "ts_after s (client_free_socks k (ts_client s)) =
    Some (s\<lparr>ts_client := (ts_client s)\<lparr>tc_socks_closed := True, tc_freed := True\<rparr>, ts_socks := False,
      ts_sending := None, ts_receiving := False, ts_memory := False\<rparr>)"
    using assms(4-8) by (simp add: client_free_socks_closed ts_after_Some require_def)
next
  show "up_ok (s\<lparr>ts_client := (ts_client s)\<lparr>tc_socks_closed := True, tc_freed := True\<rparr>, ts_socks := False,
      ts_sending := None, ts_receiving := False, ts_memory := False\<rparr>)"
    using assms(1,4,9) by (auto simp: up_ok_def Let_def)
  show "frame_ok (s\<lparr>ts_client := (ts_client s)\<lparr>tc_socks_closed := True, tc_freed := True\<rparr>, ts_socks := False,
      ts_sending := None, ts_receiving := False, ts_memory := False\<rparr>)"
    using assms(2) by (simp add: frame_ok_client)
  show "down_ok (s\<lparr>ts_client := (ts_client s)\<lparr>tc_socks_closed := True, tc_freed := True\<rparr>, ts_socks := False,
      ts_sending := None, ts_receiving := False, ts_memory := False\<rparr>)"
    using assms(3,4) by (simp add: down_ok_def Let_def)
qed (use assms(4-8) in \<open>simp add: owned_ok_def Let_def\<close>)

lemma free_socks_wait:
  assumes "tc_ok s" "\<not> tc_client_closed (ts_client s)" "\<not> tc_socks_closed (ts_client s)" "ts_socks_end s"
    "tc_socks_up (ts_client s)" "tc_socks_recv_buf_used (ts_client s) \<ge> 0 \<or> tc_socks_recv_tcp_pending (ts_client s) > 0"
  shows "tc_steps (ts_after s (client_free_socks k (ts_client s)))"
proof (rule tc_stepsI)
  let ?s = "s\<lparr>ts_client := (ts_client s)\<lparr>tc_recv_cb := False, tc_socks_closed := True\<rparr>, ts_socks := False,
      ts_sending := None, ts_receiving := False\<rparr>"
  have o: "ts_socks s" using assms(1,3) by (simp add: tc_ok_def owned_ok_def Let_def)
  show "ts_after s (client_free_socks k (ts_client s)) = Some ?s"
    using assms(2-) o by (simp add: client_free_socks_open ts_after_Some require_def)
  have parts: "owned_ok s" "frame_ok s" "up_ok s" "down_ok s" using assms(1) by (simp_all add: tc_ok_def)
  show "owned_ok ?s" using parts(1) assms(2-) by (auto simp: owned_ok_def Let_def)
  show "frame_ok ?s" using parts(2) by (simp add: frame_ok_client)
  show "up_ok ?s" using parts(3) assms(2-) by (simp add: up_ok_def Let_def)
  show "down_ok ?s" using parts(4) assms(2-) by (auto simp: down_ok_def Let_def)
qed

text \<open>Nothing is left for the client.\<close>

lemma all_delivered:
  assumes "tc_ok s" "ts_pcb s"
    "\<not> (tc_socks_up (ts_client s) \<and> (tc_socks_recv_buf_used (ts_client s) \<ge> 0 \<or> tc_socks_recv_tcp_pending (ts_client s) > 0))"
  shows "ts_from_socks s = ts_to_client s \<and> ts_acked s = int (length (ts_to_client s))"
proof (cases "tc_socks_up (ts_client s)")
  case True
  have "down_ok s" using assms(1) by (simp add: tc_ok_def)
  then have d: "tc_socks_recv_tcp_pending (ts_client s) = int (length (ts_to_client s)) - ts_acked s"
    "tc_socks_recv_tcp_pending (ts_client s) \<ge> 0" "tc_socks_recv_buf_used (ts_client s) \<noteq> - 1 \<Longrightarrow>
      0 \<le> tc_socks_recv_buf_sent (ts_client s) \<and> tc_socks_recv_buf_sent (ts_client s) < tc_socks_recv_buf_used (ts_client s)"
    "ts_from_socks s = ts_to_client s @ socks_rest (ts_client s)"
    using True tc_ok_open(1) [OF assms(1,2)] unfolding down_ok_def Let_def by blast+
  have "tc_socks_recv_buf_used (ts_client s) = - 1" using d(3) assms(3) True by force
  then show ?thesis using d assms(3) True by (simp add: socks_rest_def)
next
  case False
  then show ?thesis using tc_ok_open(9) [OF assms(1,2)] by simp
qed

lemma free_socks_now:
  assumes "tc_ok s" "\<not> tc_client_closed (ts_client s)" "\<not> tc_socks_closed (ts_client s)" "ts_socks_end s" "ts_ret s = None"
    "\<not> (tc_socks_up (ts_client s) \<and> (tc_socks_recv_buf_used (ts_client s) \<ge> 0 \<or> tc_socks_recv_tcp_pending (ts_client s) > 0))"
  shows "tc_steps (ts_after s (client_free_socks k (ts_client s)))"
proof -
  define c where "c = (if tc_socks_up (ts_client s) then (ts_client s)\<lparr>tc_recv_cb := False\<rparr> else ts_client s)\<lparr>tc_socks_closed := True\<rparr>"
  define s' where "s' = s\<lparr>ts_socks := False, ts_sending := None, ts_receiving := False, ts_client := c\<rparr>"
  have o: "ts_pcb s" "ts_socks s" "ts_memory s" "\<not> tc_freed (ts_client s)"
    using assms(1-3) by (simp_all add: tc_ok_def owned_ok_def Let_def)
  have c: "tc_client_closed c = tc_client_closed (ts_client s)" "tc_socks_up c = tc_socks_up (ts_client s)"
    "tc_socks_recv_buf_used c = tc_socks_recv_buf_used (ts_client s)" "tc_socks_closed c" "tc_freed c = tc_freed (ts_client s)"
    "tc_socks_recv_tcp_pending c = tc_socks_recv_tcp_pending (ts_client s)" "tc_dead_client c = tc_dead_client (ts_client s)"
    "length (tc_socks_recv_buf c) = length (tc_socks_recv_buf (ts_client s))" "tc_buf c = tc_buf (ts_client s)"
    "tc_buf_used c = tc_buf_used (ts_client s)"
    by (simp_all add: c_def)
  have "ts_after s (client_free_socks k (ts_client s)) = ts_after s' (client_free_client k (ts_client s'))"
    using assms(2,3,6) o(2) c
    by (simp add: client_free_socks.simps ts_after_emit require_def s'_def ts_after_client c_def [symmetric] Let_def)
  moreover have "up_ok s'"
    using tc_ok_open(10) [OF assms(1) o(1)] o(4) c by (simp add: up_ok_def s'_def Let_def)
  moreover have "ts_from_socks s = ts_to_client s \<and> ts_acked s = int (length (ts_to_client s))"
    by (rule all_delivered) (use assms o(1) in auto)
  moreover have "closing (s'\<lparr>ts_pcb := False\<rparr>)"
    if "up_ok s'" "ts_from_socks s = ts_to_client s \<and> ts_acked s = int (length (ts_to_client s))"
    using that tc_ok_open(6,9) [OF assms(1) o(1)] tc_ok_dead [OF assms(1) o(1)] assms(2,4,5) o(3,4) c
    by (simp add: closing_def s'_def split: option.split)
  ultimately show ?thesis using free_client_ok [of s' k] o(1) by (simp add: s'_def)
qed

lemma free_socks_ok:
  assumes "tc_ok s" "ts_socks s" "ts_socks_end s" "ts_ret s = None"
  shows "tc_steps (ts_after s (client_free_socks k (ts_client s)))"
proof (cases "tc_client_closed (ts_client s)")
  case True
  then show ?thesis using assms by (intro free_socks_closed) (auto simp: tc_ok_def owned_ok_def Let_def)
next
  case False
  moreover have "\<not> tc_socks_closed (ts_client s)" using assms by (simp add: tc_ok_def owned_ok_def Let_def)
  ultimately show ?thesis using assms free_socks_wait free_socks_now by blast
qed

text \<open>SOCKS comes up.\<close>

definition socks_up_client :: "tcp_client \<Rightarrow> tcp_client" where
  "socks_up_client c = c\<lparr>tc_socks_recv_buf_used := - 1, tc_socks_recv_tcp_pending := 0,
     tc_sent_cb := (tc_sent_cb c \<or> \<not> tc_client_closed c), tc_socks_up := True\<rparr>"

lemma step_up:
  assumes "tc_ok s" "ts_socks s" "\<not> tc_socks_up (ts_client s)" "ts_ret s = None"
  shows "tc_steps (ts_after s (client_socks_handler k BSOCKSCLIENT_EVENT_UP (ts_client s)))"
proof -
  let ?c = "ts_client s"
  let ?s = "s\<lparr>ts_client := socks_up_client ?c, ts_sending := (if tc_buf_used ?c > 0 then Some (tc_buf_used ?c) else None),
    ts_receiving := (\<not> tc_client_closed ?c)\<rparr>"
  have parts: "owned_ok s" "frame_ok s" "up_ok s" "down_ok s" using assms(1) by (simp_all add: tc_ok_def)
  have n: "ts_sending s = None" "\<not> ts_receiving s" "\<not> tc_socks_closed ?c"
    using parts assms(2,3) by (auto simp: up_ok_def down_ok_def owned_ok_def Let_def split: option.splits)
  show ?thesis
  proof (rule tc_stepsI)
    show "ts_after s (client_socks_handler k BSOCKSCLIENT_EVENT_UP ?c) = Some ?s"
      using assms(2,3) n
      by (cases "tc_client_closed ?c"; cases "tc_buf_used ?c > 0")
        (simp_all add: client_socks_handler_def socks_events client_send_to_socks_def client_socks_recv_initiate_def
          require_def ts_after_Some socks_up_client_def CLIENT_SOCKS_RECV_BUF_SIZE_def)
    show "owned_ok ?s" using parts(1) assms(3) by (auto simp: owned_ok_def socks_up_client_def Let_def)
    show "frame_ok ?s" using parts(2) by (simp add: frame_ok_client socks_up_client_def)
    show "up_ok ?s" using parts(3) assms(3) n by (auto simp: up_ok_def socks_up_client_def Let_def)
    show "down_ok ?s" using parts(4) assms(3) n by (auto simp: down_ok_def socks_up_client_def socks_rest_def Let_def)
  qed
qed

lemma step_Socks_event:
  assumes "tc_ok s" "ts_enabled (Socks_event e) s"
  shows "tc_steps (ts_step lw (Socks_event e) s)"
proof (cases "e = BSOCKSCLIENT_EVENT_UP")
  case True
  have "s\<lparr>ts_ret := None, ts_socks_end := ts_socks_end s\<rparr> = s\<lparr>ts_ret := None\<rparr>" by simp
  then show ?thesis using step_up [of "s\<lparr>ts_ret := None\<rparr>"] tc_ok_ret [OF assms(1)] assms(2) True
    by (simp add: socks_events)
next
  case False
  let ?s = "s\<lparr>ts_ret := None, ts_socks_end := True\<rparr>"
  have "tc_ok ?s" using tc_ok_socks_end [OF tc_ok_ret [OF assms(1)]] by simp
  moreover have "\<not> tc_socks_closed (ts_client s)" using assms by (simp add: tc_ok_def owned_ok_def Let_def)
  ultimately show ?thesis using free_socks_ok [of ?s] assms(2) False
    by (auto simp: client_socks_handler_def socks_events)
qed

text \<open>Data from the client.\<close>

lemma take_memcpy_end: "i + length ys \<le> length xs \<Longrightarrow> take (i + length ys) (memcpy xs i ys) = take i xs @ ys"
  by (simp add: memcpy_def)

lemma step_Client_data:
  assumes "tc_ok s" "ts_enabled (Client_data data) s"
  shows "tc_steps (ts_step lw (Client_data data) s)"
proof -
  let ?c = "ts_client s"
  let ?c' = "?c\<lparr>tc_buf := memcpy (tc_buf ?c) (nat (tc_buf_used ?c)) data, tc_buf_used := tc_buf_used ?c + int (length data)\<rparr>"
  have parts: "owned_ok s" "frame_ok s" "up_ok s" "down_ok s" using assms(1) by (simp_all add: tc_ok_def)
  have e: "ts_frame s = None" "ts_pcb s" "tc_recv_cb ?c" "data \<noteq> []" using assms(2) by simp_all
  have o: "\<not> tc_client_closed ?c" "\<not> tc_socks_closed ?c" "\<not> tc_freed ?c" "tc_dead_client ?c = []" "ts_socks s"
    using parts(1) tc_ok_dead [OF assms(1) e(2)] e by (auto simp: owned_ok_def Let_def)
  have u: "0 \<le> tc_buf_used ?c" "tc_buf_used ?c \<le> int TCP_WND" "length (tc_buf ?c) = TCP_WND"
    "ts_from_client s = ts_to_socks s @ take (nat (tc_buf_used ?c)) (tc_buf ?c)" "ts_recved s = int (length (ts_to_socks s))"
    using parts(3) o unfolding up_ok_def Let_def by blast+
  have sz: "c_size (int TCP_WND - tc_buf_used ?c) = int TCP_WND - tc_buf_used ?c"
    using u by (intro c_size_id) (simp_all add: TCP_WND_def SIZE_MAX_def)
  show ?thesis
  proof (cases "data_refused data s")
    case True
    let ?s = "s\<lparr>ts_from_client := ts_from_client s, ts_frame := None, ts_ret := Some ERR_MEM\<rparr>"
    have "ts_step lw (Client_data data) s = Some ?s"
      using True o e sz by (simp add: client_recv_func_def data_refused_def ts_after_Some)
    then show ?thesis using parts e o by (simp add: tc_ok_def frame_ok_def lwip_errors Let_def)
  next
    case False
    then have fit: "nat (tc_buf_used ?c) + length data \<le> TCP_WND" using u by (simp add: data_refused_def)
    have m: "take (nat (tc_buf_used ?c + int (length data))) (memcpy (tc_buf ?c) (nat (tc_buf_used ?c)) data) =
        take (nat (tc_buf_used ?c)) (tc_buf ?c) @ data" "length (memcpy (tc_buf ?c) (nat (tc_buf_used ?c)) data) = TCP_WND"
      using take_memcpy_end [of "nat (tc_buf_used ?c)" data "tc_buf ?c"] fit u by (simp_all add: nat_add_distrib)
    show ?thesis
    proof (cases "tc_buf_used ?c = 0 \<and> tc_socks_up ?c")
      case True
      let ?s = "s\<lparr>ts_ret := None, ts_from_client := ts_from_client s @ data, ts_frame := Some Frame_recv,
        ts_client := ?c'\<lparr>tc_dead_client := [False]\<rparr>, ts_sending := Some (int (length data))\<rparr>"
      have n: "ts_sending s = None" using parts(3) True by (auto simp: up_ok_def Let_def split: option.splits)
      show ?thesis
      proof (rule tc_stepsI)
        show "ts_step lw (Client_data data) s = Some ?s" using False True o e sz n
          by (simp add: client_recv_func_def data_refused_def ts_after_Some client_send_to_socks_def require_def DEAD_ENTER_def)
        show "owned_ok ?s" using parts(1) o by (simp add: owned_ok_def Let_def)
        show "frame_ok ?s" using o by (simp add: frame_ok_def)
        show "up_ok ?s" using True e o u m fit by (simp add: up_ok_def)
        show "down_ok ?s" using parts(4) by (simp add: down_ok_client)
      qed
    next
      case other: False
      let ?s = "s\<lparr>ts_from_client := ts_from_client s @ data, ts_frame := None, ts_ret := Some ERR_OK, ts_client := ?c'\<rparr>"
      show ?thesis
      proof (rule tc_stepsI)
        show "ts_step lw (Client_data data) s = Some ?s" using False other o e sz
          by (auto simp: client_recv_func_def data_refused_def ts_after_Some)
        show "owned_ok ?s" using parts(1) o by (simp add: owned_ok_def Let_def)
        show "frame_ok ?s" using o by (simp add: frame_ok_def lwip_errors)
        show "up_ok ?s" using parts(3) other e o u m fit by (auto simp: up_ok_def Let_def split: option.splits)
        show "down_ok ?s" using parts(4) by (simp add: down_ok_client)
      qed
    qed
  qed
qed

text \<open>SOCKS has taken data.\<close>

lemma take_memmove:
  assumes "n \<le> m" "m \<le> length xs"
  shows "take (m - n) (memcpy xs 0 (bslice xs n (m - n))) = bslice xs n (m - n)"
    "take n xs @ bslice xs n (m - n) = take m xs"
  using assms by (simp_all add: memcpy_def bslice_def flip: take_add)

lemma step_Socks_sent:
  assumes "tc_ok s" "ts_enabled (Socks_sent n) s"
  shows "tc_steps (ts_step lw (Socks_sent n) s)"
proof -
  let ?c = "ts_client s"
  let ?c' = "?c\<lparr>tc_buf := memcpy (tc_buf ?c) 0 (bslice (tc_buf ?c) (nat n) (nat (tc_buf_used ?c - n))),
    tc_buf_used := tc_buf_used ?c - n\<rparr>"
  let ?t = "s\<lparr>ts_ret := None, ts_sending := None, ts_to_socks := ts_to_socks s @ take (nat n) (tc_buf ?c)\<rparr>"
  have parts: "owned_ok s" "frame_ok s" "up_ok s" "down_ok s" using assms(1) by (simp_all add: tc_ok_def)
  obtain m where m: "ts_sending s = Some m" "0 < n" "n \<le> m" using assms(2) by (auto split: option.splits)
  have u: "n \<le> tc_buf_used ?c" "tc_buf_used ?c \<le> int TCP_WND" "length (tc_buf ?c) = TCP_WND"
    "ts_from_client s = ts_to_socks s @ take (nat (tc_buf_used ?c)) (tc_buf ?c)" "tc_socks_up ?c" "\<not> tc_socks_closed ?c"
    "\<not> tc_client_closed ?c \<Longrightarrow> ts_recved s = int (length (ts_to_socks s))" "ts_recved s \<le> int (length (ts_to_socks s))"
    "\<not> tc_freed ?c" "ts_socks s"
    using parts(1,3) m by (auto simp: up_ok_def owned_ok_def Let_def)
  have b: "take (nat (tc_buf_used ?c - n)) (tc_buf ?c') = bslice (tc_buf ?c) (nat n) (nat (tc_buf_used ?c - n))"
    "take (nat n) (tc_buf ?c) @ bslice (tc_buf ?c) (nat n) (nat (tc_buf_used ?c - n)) = take (nat (tc_buf_used ?c)) (tc_buf ?c)"
    "length (tc_buf ?c') = TCP_WND" "length (take (nat n) (tc_buf ?c)) = nat n"
    using take_memmove [of "nat n" "nat (tc_buf_used ?c)" "tc_buf ?c"] u(1-3) m(2) by (simp_all add: nat_diff_distrib)
  have up: "up_ok (?t\<lparr>ts_client := ?c', ts_recved := r, ts_sending := (if n < tc_buf_used ?c then Some (tc_buf_used ?c - n) else None)\<rparr>)"
    if "r = ts_recved s + (if tc_client_closed ?c then 0 else n)" for r
    using u b m(2) that by (simp add: up_ok_def)
  show ?thesis
  proof (cases "n = tc_buf_used ?c \<and> tc_client_closed ?c")
    case True
    let ?s = "?t\<lparr>ts_client := ?c'\<rparr>"
    have "ts_step lw (Socks_sent n) s = ts_after ?s (client_free_socks (lw_close_ok lw) (ts_client ?s))"
      using True u m by (simp add: client_socks_send_handler_done_def tc_emit_def ts_after_client option.map_ident case_prod_unfold)
    moreover have "tc_steps (ts_after ?s (client_free_socks (lw_close_ok lw) (ts_client ?s)))"
    proof (rule free_socks_closed)
      show "up_ok ?s" using u b m(2) True by (simp add: up_ok_def)
      show "frame_ok ?s" using parts(2) by (simp add: frame_ok_client frame_ok_ret)
      show "down_ok ?s" using parts(4) by (simp add: down_ok_client)
    qed (use True u parts(1) in \<open>auto simp: owned_ok_def Let_def\<close>)
    ultimately show ?thesis by simp
  next
    case False
    let ?s = "?t\<lparr>ts_client := ?c', ts_recved := ts_recved s + (if tc_client_closed ?c then 0 else n),
      ts_sending := (if n < tc_buf_used ?c then Some (tc_buf_used ?c - n) else None)\<rparr>"
    show ?thesis
    proof (rule tc_stepsI)
      show "ts_step lw (Socks_sent n) s = Some ?s" using False u m parts(1)
        by (auto simp: client_socks_send_handler_done_def ts_after_Some require_def owned_ok_def Let_def)
      show "owned_ok ?s" using parts(1) u False by (auto simp: owned_ok_def Let_def)
      show "frame_ok ?s" using parts(2) by (simp add: frame_ok_client frame_ok_ret)
      show "up_ok ?s" by (rule up) simp
      show "down_ok ?s" using parts(4) by (simp add: down_ok_client)
    qed
  qed
qed

text \<open>A callback resumes after the jobs.\<close>

lemma step_Callback_return:
  assumes "tc_ok s" "ts_enabled Callback_return s"
  shows "tc_steps (ts_step lw Callback_return s)"
proof -
  let ?c = "ts_client s"
  let ?s = "s\<lparr>ts_frame := None, ts_ret := Some (if tc_client_closed ?c then ERR_ABRT else ERR_OK),
    ts_client := ?c\<lparr>tc_dead_client := (if tc_client_closed ?c then [True] else [])\<rparr>\<rparr>"
  have parts: "owned_ok s" "frame_ok s" "up_ok s" "down_ok s" using assms(1) by (simp_all add: tc_ok_def)
  obtain f where f: "ts_frame s = Some f" using assms(2) by auto
  have d: "tc_dead_client ?c = [tc_client_closed ?c]" using parts(2) f by (simp add: frame_ok_def Let_def)
  show ?thesis
  proof (rule tc_stepsI)
    show "ts_step lw Callback_return s = Some ?s" using f d
      by (cases f) (simp_all add: listener_accept_return_def client_recv_return_def client_sent_return_def ts_after_Some)
    show "owned_ok ?s" using parts(1) by (simp add: owned_ok_def Let_def)
    show "frame_ok ?s" by (simp add: frame_ok_def lwip_errors)
    show "up_ok ?s" using parts(3) by (simp add: up_ok_client)
    show "down_ok ?s" using parts(4) by (simp add: down_ok_client)
  qed
qed

text \<open>The program ends.\<close>

lemma step_Murder:
  assumes "tc_ok s" "ts_enabled Murder s"
  shows "tc_steps (ts_step lw Murder s)"
proof -
  let ?c = "ts_client s"
  let ?c' = "(if tc_client_closed ?c then ?c else remove_callbacks ?c)\<lparr>tc_client_closed := True, tc_socks_closed := True, tc_freed := True\<rparr>"
  let ?s = "s\<lparr>ts_ret := None, ts_client_end := True, ts_socks_end := True, ts_client := ?c', ts_pcb := False,
    ts_aborted := (ts_aborted s \<or> \<not> tc_client_closed ?c), ts_socks := False, ts_memory := False,
    ts_sending := (if tc_socks_closed ?c then ts_sending s else None),
    ts_receiving := (if tc_socks_closed ?c then ts_receiving s else False)\<rparr>"
  have parts: "owned_ok s" "frame_ok s" "up_ok s" "down_ok s" using assms(1) by (simp_all add: tc_ok_def)
  have o: "ts_pcb s = (\<not> tc_client_closed ?c)" "ts_socks s = (\<not> tc_socks_closed ?c)" "ts_memory s" "ts_frame s = None"
    "\<not> tc_client_closed ?c \<Longrightarrow> tc_dead_client ?c = []"
    using parts(1,2) assms(2) by (auto simp: owned_ok_def frame_ok_def Let_def)
  show ?thesis
  proof (rule tc_stepsI)
    show "ts_step lw Murder s = Some ?s" using o
      by (cases "tc_client_closed ?c"; cases "tc_socks_closed ?c")
        (simp_all add: client_murder_def client_dealloc_def ts_after_Some require_def remove_callbacks_def)
    show "owned_ok ?s" by (simp add: owned_ok_def)
    show "frame_ok ?s" using o by (simp add: frame_ok_def)
    show "up_ok ?s" using parts(3) by (auto simp: up_ok_def remove_callbacks_def Let_def split: option.splits)
    have "tc_socks_closed ?c \<Longrightarrow> \<not> ts_receiving s" "\<exists>rest. ts_from_socks s = ts_to_client s @ rest"
      "length (tc_socks_recv_buf ?c) = CLIENT_SOCKS_RECV_BUF_SIZE"
      "\<not> tc_socks_up ?c \<longrightarrow> ts_to_client s = [] \<and> ts_from_socks s = [] \<and> ts_acked s = 0"
      using parts(4) unfolding down_ok_def Let_def by blast+
    then show "down_ok ?s" by (simp add: down_ok_def remove_callbacks_def)
  qed
qed

text \<open>The loop writes some of the data, in order.\<close>

definition more_sent :: "tcp_client \<Rightarrow> int \<Rightarrow> tcp_client" where
  "more_sent c n = c\<lparr>tc_socks_recv_buf_sent := tc_socks_recv_buf_sent c + n,
     tc_socks_recv_tcp_pending := tc_socks_recv_tcp_pending c + n\<rparr>"

definition writes :: "tcp_call list \<Rightarrow> bytes \<Rightarrow> bool" where
  "writes cs data \<longleftrightarrow> (\<forall>s. ts_pcb s \<longrightarrow> ts_calls cs s = Some (s\<lparr>ts_to_client := ts_to_client s @ data\<rparr>))"

lemma writes_simps:
  "writes [] []" "writes [tcp_write data] data" "writes cs data' \<Longrightarrow> writes (tcp_write data # cs) (data @ data')"
  "writes cs data \<Longrightarrow> writes (cs @ [tcp_output]) data"
  by (simp_all add: writes_def require_def ts_calls_append)

lemma send_out_loop_writes:
  assumes "0 \<le> tc_socks_recv_buf_sent c" "tc_socks_recv_buf_sent c < tc_socks_recv_buf_used c"
    "tc_socks_recv_buf_used c \<le> int (length (tc_socks_recv_buf c))"
  shows "\<exists>n cs failed. send_out_loop w k c = (more_sent c n, cs, failed) \<and>
    0 \<le> n \<and> n \<le> tc_socks_recv_buf_used c - tc_socks_recv_buf_sent c \<and>
    writes cs (bslice (tc_socks_recv_buf c) (nat (tc_socks_recv_buf_sent c)) (nat n))"
  using assms
proof (induction w k c rule: send_out_loop.induct)
  case (1 w k c)
  obtain sndbuf err where w: "w k = (sndbuf, err)" by fastforce
  define n where "n = min (tc_socks_recv_buf_used c - tc_socks_recv_buf_sent c) (int sndbuf)"
  define data where "data = bslice (tc_socks_recv_buf c) (nat (tc_socks_recv_buf_sent c)) (nat n)"
  have m: "c\<lparr>tc_socks_recv_buf_sent := tc_socks_recv_buf_sent c + n, tc_socks_recv_tcp_pending := tc_socks_recv_tcp_pending c + n\<rparr> =
      more_sent c n" by (simp add: more_sent_def)
  have 0: "more_sent c 0 = c" by (simp add: more_sent_def)
  have n: "0 \<le> n" "n \<le> tc_socks_recv_buf_used c - tc_socks_recv_buf_sent c" using 1(2-) by (simp_all add: n_def)
  have unfold: "send_out_loop w k c = (if n = 0 then (c, [], False) else if err \<noteq> ERR_OK then (c, [], err \<noteq> ERR_MEM)
      else if tc_socks_recv_buf_sent c + n < tc_socks_recv_buf_used c
        then (case send_out_loop w (Suc k) (more_sent c n) of (c', cs, failed) \<Rightarrow> (c', tcp_write data # cs, failed))
        else (more_sent c n, [tcp_write data], False))"
    by (subst send_out_loop.simps) (simp add: w n_def data_def more_sent_def Let_def)
  consider (stop) "n = 0 \<or> err \<noteq> ERR_OK" | (all_out) "n \<noteq> 0" "err = ERR_OK" "\<not> tc_socks_recv_buf_sent c + n < tc_socks_recv_buf_used c"
    | (more) "n \<noteq> 0" "err = ERR_OK" "tc_socks_recv_buf_sent c + n < tc_socks_recv_buf_used c" by blast
  then show ?case
  proof cases
    case stop
    then have "\<exists>failed. send_out_loop w k c = (more_sent c 0, [], failed)" unfolding unfold by (auto simp: 0)
    then show ?thesis using 1(2-) by (intro exI [of _ 0]) (auto simp: writes_simps)
  next
    case all_out
    then have "send_out_loop w k c = (more_sent c n, [tcp_write data], False)" unfolding unfold by (simp add: more_sent_def)
    then show ?thesis using n by (auto simp: writes_simps data_def)
  next
    case more
    let ?c = "more_sent c n"
    have "\<exists>n cs failed. send_out_loop w (Suc k) ?c = (more_sent ?c n, cs, failed) \<and> 0 \<le> n \<and>
        n \<le> tc_socks_recv_buf_used ?c - tc_socks_recv_buf_sent ?c \<and>
        writes cs (bslice (tc_socks_recv_buf ?c) (nat (tc_socks_recv_buf_sent ?c)) (nat n))"
      by (rule 1(1) [OF w [symmetric] refl n_def more(1) _ data_def m [symmetric]])
        (use 1(2-) more n in \<open>simp_all add: more_sent_def\<close>)
    then obtain n' cs failed where r: "send_out_loop w (Suc k) ?c = (more_sent ?c n', cs, failed)" "0 \<le> n'"
      "n' \<le> tc_socks_recv_buf_used c - (tc_socks_recv_buf_sent c + n)"
      "writes cs (bslice (tc_socks_recv_buf c) (nat (tc_socks_recv_buf_sent c + n)) (nat n'))"
      by (auto simp: more_sent_def)
    have "send_out_loop w k c = (more_sent c (n + n'), tcp_write data # cs, failed)"
      unfolding unfold using more r(1) by (simp add: more_sent_def algebra_simps)
    moreover have "writes (tcp_write data # cs) (bslice (tc_socks_recv_buf c) (nat (tc_socks_recv_buf_sent c)) (nat (n + n')))"
      using writes_simps(3) [OF r(4), of data] 1(2) n(1) r(2)
      by (simp add: data_def nat_add_distrib bslice_append_bslice)
    ultimately show ?thesis using n r(2,3) by (intro exI [of _ "n + n'"]) auto
  qed
qed

text \<open>The data in the buffer can be written.\<close>

definition sendable :: "tc_sys \<Rightarrow> bool" where
  "sendable s \<longleftrightarrow> (let c = ts_client s in
     ts_pcb s \<and> \<not> tc_client_closed c \<and> tc_socks_up c \<and> \<not> tc_socks_recv_waiting c \<and> \<not> ts_receiving s \<and>
     length (tc_socks_recv_buf c) = CLIENT_SOCKS_RECV_BUF_SIZE \<and>
     0 \<le> tc_socks_recv_buf_sent c \<and> tc_socks_recv_buf_sent c < tc_socks_recv_buf_used c \<and>
     tc_socks_recv_buf_used c \<le> int CLIENT_SOCKS_RECV_BUF_SIZE \<and>
     tc_socks_recv_tcp_pending c = int (length (ts_to_client s)) - ts_acked s \<and> tc_socks_recv_tcp_pending c \<ge> 0 \<and>
     ts_from_socks s = ts_to_client s @ socks_rest c)"

definition written :: "tcp_client \<Rightarrow> int \<Rightarrow> bytes" where
  "written c n = bslice (tc_socks_recv_buf c) (nat (tc_socks_recv_buf_sent c)) (nat n)"

lemma drop_take_split:
  assumes "i + n \<le> u"
  shows "drop i (take u xs) = take n (drop i xs) @ drop (i + n) (take u xs)"
proof -
  have "take n (drop i (take u xs)) = take n (drop i xs)" using assms by (simp add: drop_take min_def)
  then show ?thesis using append_take_drop_id [of n "drop i (take u xs)"] by (simp add: add.commute)
qed

lemma socks_rest_more_sent:
  assumes "0 \<le> tc_socks_recv_buf_sent c" "tc_socks_recv_buf_sent c < tc_socks_recv_buf_used c" "0 \<le> n"
    "n \<le> tc_socks_recv_buf_used c - tc_socks_recv_buf_sent c"
  shows "socks_rest c = written c n @ socks_rest (more_sent c n)"
  using drop_take_split [of "nat (tc_socks_recv_buf_sent c)" "nat n" "nat (tc_socks_recv_buf_used c)" "tc_socks_recv_buf c"] assms
  by (simp add: socks_rest_def more_sent_def written_def bslice_def nat_add_distrib)

lemma send_out_cases:
  assumes "sendable s"
  obtains
    (abort) n cs where "0 \<le> n" "n \<le> tc_socks_recv_buf_used (ts_client s) - tc_socks_recv_buf_sent (ts_client s)"
      "writes cs (written (ts_client s) n)"
      "client_socks_recv_send_out lw (ts_client s) =
        do { (c, cs') \<leftarrow> client_abort_client (lw_close_ok lw) (more_sent (ts_client s) n); Some (c, cs @ cs', - 1) }"
  | (wait) n cs where "0 \<le> n" "n < tc_socks_recv_buf_used (ts_client s) - tc_socks_recv_buf_sent (ts_client s)"
      "writes cs (written (ts_client s) n)" "tc_socks_recv_tcp_pending (ts_client s) + n > 0"
      "client_socks_recv_send_out lw (ts_client s) = Some ((more_sent (ts_client s) n)\<lparr>tc_socks_recv_waiting := True\<rparr>, cs, 0)"
  | (all) n cs where "0 < n" "n = tc_socks_recv_buf_used (ts_client s) - tc_socks_recv_buf_sent (ts_client s)"
      "writes cs (written (ts_client s) n)"
      "client_socks_recv_send_out lw (ts_client s) = Some ((more_sent (ts_client s) n)\<lparr>tc_socks_recv_buf_used := - 1\<rparr>, cs, 0)"
proof -
  let ?c = "ts_client s"
  have a: "\<not> tc_client_closed ?c" "tc_socks_up ?c" "\<not> tc_socks_recv_waiting ?c" "0 \<le> tc_socks_recv_buf_sent ?c"
    "tc_socks_recv_buf_sent ?c < tc_socks_recv_buf_used ?c" "tc_socks_recv_buf_used ?c \<le> int (length (tc_socks_recv_buf ?c))"
    "tc_socks_recv_tcp_pending ?c \<ge> 0"
    using assms unfolding sendable_def Let_def by auto
  obtain n cs failed where l: "send_out_loop (lw_write lw) 0 ?c = (more_sent ?c n, cs, failed)" "0 \<le> n"
    "n \<le> tc_socks_recv_buf_used ?c - tc_socks_recv_buf_sent ?c" "writes cs (written ?c n)"
    using send_out_loop_writes [OF a(4-6), of "lw_write lw" 0] unfolding written_def by blast
  have u: "client_socks_recv_send_out lw ?c = (let abort = (\<lambda>cs. do {
        (c, cs') \<leftarrow> client_abort_client (lw_close_ok lw) (more_sent ?c n); Some (c, cs @ cs', - 1) }) in
      if failed then abort cs else if lw_output lw \<noteq> ERR_OK then abort (cs @ [tcp_output])
      else if tc_socks_recv_buf_sent ?c + n < tc_socks_recv_buf_used ?c then
        (if tc_socks_recv_tcp_pending ?c + n = 0 then abort (cs @ [tcp_output])
         else Some ((more_sent ?c n)\<lparr>tc_socks_recv_waiting := True\<rparr>, cs @ [tcp_output], 0))
      else Some ((more_sent ?c n)\<lparr>tc_socks_recv_buf_used := - 1\<rparr>, cs @ [tcp_output], 0))"
    using a l(1) by (simp add: client_socks_recv_send_out_def Let_def more_sent_def)
  note w = writes_simps(4) [OF l(4)]
  show thesis
  proof (cases "failed \<or> lw_output lw \<noteq> ERR_OK \<or>
      tc_socks_recv_buf_sent ?c + n < tc_socks_recv_buf_used ?c \<and> tc_socks_recv_tcp_pending ?c + n = 0")
    case True
    then show thesis using abort [OF l(2,3,4)] abort [OF l(2,3) w] u by (auto simp: Let_def split: if_splits)
  next
    case False
    then show thesis
    proof (cases "tc_socks_recv_buf_sent ?c + n < tc_socks_recv_buf_used ?c")
      case True
      show thesis by (rule wait [OF l(2) _ w]) (use True False u l a(7) in auto)
    next
      case all_out: False
      show thesis by (rule all [OF _ _ w]) (use all_out False u l a(5) in auto)
    qed
  qed
qed

definition holding :: "tc_sys \<Rightarrow> bool" where
  "holding s \<longleftrightarrow> (let c = ts_client s in
     \<not> tc_freed c \<and> ts_memory s \<and> ts_socks s = (\<not> tc_socks_closed c) \<and> (tc_socks_closed c \<longrightarrow> ts_socks_end s) \<and>
     (case ts_frame s of Some f \<Rightarrow> tc_dead_client c = [False] \<and> ts_ret s = None
      | None \<Rightarrow> tc_dead_client c = [] \<and> ts_ret s \<in> {None, Some ERR_ABRT}) \<and> up_ok s)"

lemma sendable_after:
  assumes "sendable s" "0 \<le> n" "n \<le> tc_socks_recv_buf_used (ts_client s) - tc_socks_recv_buf_sent (ts_client s)"
  shows "ts_from_socks s = (ts_to_client s @ written (ts_client s) n) @ socks_rest (more_sent (ts_client s) n)"
    "length (written (ts_client s) n) = nat n"
proof -
  have a: "0 \<le> tc_socks_recv_buf_sent (ts_client s)" "tc_socks_recv_buf_sent (ts_client s) < tc_socks_recv_buf_used (ts_client s)"
    "ts_from_socks s = ts_to_client s @ socks_rest (ts_client s)"
    "tc_socks_recv_buf_used (ts_client s) \<le> int (length (tc_socks_recv_buf (ts_client s)))"
    using assms(1) unfolding sendable_def Let_def by auto
  show "ts_from_socks s = (ts_to_client s @ written (ts_client s) n) @ socks_rest (more_sent (ts_client s) n)"
    using a(3) socks_rest_more_sent [OF a(1,2) assms(2,3)] by simp
  show "length (written (ts_client s) n) = nat n" using a assms(2,3) by (simp add: written_def)
qed

lemma abort_out_ok:
  assumes "sendable s" "holding s" "0 \<le> n" "n \<le> tc_socks_recv_buf_used (ts_client s) - tc_socks_recv_buf_sent (ts_client s)"
    "writes cs (written (ts_client s) n)"
  shows "tc_steps (ts_after s (tc_emit cs (client_abort_client k (more_sent (ts_client s) n))))"
proof -
  let ?c = "ts_client s"
  let ?s = "s\<lparr>ts_to_client := ts_to_client s @ written ?c n, ts_client := more_sent ?c n\<rparr>"
  have p: "ts_pcb s" "tc_socks_up ?c" "\<not> tc_client_closed ?c" "\<not> ts_receiving s"
    "length (tc_socks_recv_buf ?c) = CLIENT_SOCKS_RECV_BUF_SIZE"
    using assms(1) unfolding sendable_def Let_def by blast+
  have "closing (?s\<lparr>ts_pcb := False, ts_aborted := True\<rparr>)"
    using assms(2) p sendable_after(1) [OF assms(1,3,4)]
    by (auto simp: closing_def holding_def more_sent_def up_ok_client Let_def split: option.splits)
  then have "tc_steps (ts_after ?s (client_abort_client k (ts_client ?s)))" by (intro abort_client_ok) (use p in simp_all)
  then show ?thesis using assms(5) p(1) by (simp add: ts_after_emit writes_def ts_after_client)
qed

lemma sendableD:
  assumes "sendable s"
  shows "\<not> tc_client_closed (ts_client s)" "tc_socks_up (ts_client s)" "\<not> ts_receiving s"
    "length (tc_socks_recv_buf (ts_client s)) = CLIENT_SOCKS_RECV_BUF_SIZE" "0 \<le> tc_socks_recv_buf_sent (ts_client s)"
    "tc_socks_recv_buf_used (ts_client s) \<le> int CLIENT_SOCKS_RECV_BUF_SIZE"
    "tc_socks_recv_tcp_pending (ts_client s) = int (length (ts_to_client s)) - ts_acked s"
    "tc_socks_recv_tcp_pending (ts_client s) \<ge> 0"
  using assms unfolding sendable_def Let_def by blast+

lemma down_ok_wait:
  assumes "sendable s" "0 \<le> n" "n < tc_socks_recv_buf_used (ts_client s) - tc_socks_recv_buf_sent (ts_client s)"
    "tc_socks_recv_tcp_pending (ts_client s) + n > 0"
  shows "down_ok (s\<lparr>ts_client := (more_sent (ts_client s) n)\<lparr>tc_socks_recv_waiting := True\<rparr>,
    ts_to_client := ts_to_client s @ written (ts_client s) n\<rparr>)"
proof -
  have n: "n \<le> tc_socks_recv_buf_used (ts_client s) - tc_socks_recv_buf_sent (ts_client s)" using assms(3) by simp
  show ?thesis using assms(2-) sendableD [OF assms(1)] sendable_after [OF assms(1,2) n]
    by (auto simp: down_ok_def more_sent_def Let_def)
qed

lemma down_ok_all:
  assumes "sendable s" "0 < n" "n = tc_socks_recv_buf_used (ts_client s) - tc_socks_recv_buf_sent (ts_client s)"
  shows "down_ok (s\<lparr>ts_client := (more_sent (ts_client s) n)\<lparr>tc_socks_recv_buf_used := - 1\<rparr>,
    ts_to_client := ts_to_client s @ written (ts_client s) n, ts_receiving := (\<not> tc_socks_closed (ts_client s))\<rparr>)"
proof -
  have n: "0 \<le> n" "n \<le> tc_socks_recv_buf_used (ts_client s) - tc_socks_recv_buf_sent (ts_client s)" using assms(2,3) by simp_all
  have "0 \<le> tc_socks_recv_buf_sent (ts_client s)" using assms(1) by (simp add: sendable_def Let_def)
  then have "socks_rest (more_sent (ts_client s) n) = []" using assms(2,3) by (simp add: socks_rest_def more_sent_def)
  then show ?thesis using assms(2-) sendableD [OF assms(1)] sendable_after [OF assms(1) n]
    by (auto simp: down_ok_def more_sent_def socks_rest_def Let_def)
qed

lemma abort_handler:
  "Option.bind (Option.bind r (\<lambda>(c, cs'). Some (c, cs @ cs', - 1 :: int))) (\<lambda>(c, cs, r). if r < 0 then Some (c, cs) else f c cs) =
    tc_emit cs r"
  by (cases r) (auto simp: tc_emit_def)

lemma writes_calls: "writes cs data \<Longrightarrow> ts_pcb s \<Longrightarrow> ts_calls cs s = Some (s\<lparr>ts_to_client := ts_to_client s @ data\<rparr>)"
  by (simp add: writes_def)

lemma step_Socks_data_open:
  assumes "tc_ok s" "ts_receiving s" "data \<noteq> []" "length data \<le> CLIENT_SOCKS_RECV_BUF_SIZE" "\<not> tc_client_closed (ts_client s)"
  shows "tc_steps (ts_step lw (Socks_data data) s)"
proof -
  let ?c = "ts_client s"
  define c where "c = ?c\<lparr>tc_socks_recv_buf := memcpy (tc_socks_recv_buf ?c) 0 data, tc_socks_recv_buf_used := int (length data),
    tc_socks_recv_buf_sent := 0, tc_socks_recv_waiting := False\<rparr>"
  define t where "t = s\<lparr>ts_ret := None, ts_receiving := False, ts_from_socks := ts_from_socks s @ data, ts_client := c\<rparr>"
  have parts: "owned_ok s" "frame_ok s" "up_ok s" "down_ok s" using assms(1) by (simp_all add: tc_ok_def)
  have p: "ts_pcb s" "ts_memory s" "\<not> tc_freed ?c" "ts_socks s = (\<not> tc_socks_closed ?c)"
    using parts(1) assms(5) by (simp_all add: owned_ok_def Let_def)
  have d: "tc_socks_up ?c" "\<not> tc_socks_closed ?c" "tc_socks_recv_buf_used ?c = - 1" "ts_from_socks s = ts_to_client s"
    "tc_socks_recv_tcp_pending ?c = int (length (ts_to_client s)) - ts_acked s" "tc_socks_recv_tcp_pending ?c \<ge> 0"
    "length (tc_socks_recv_buf ?c) = CLIENT_SOCKS_RECV_BUF_SIZE"
    using parts(4) assms(2,5) by (auto simp: down_ok_def socks_rest_def Let_def)
  have f: "ts_client t = c" "ts_pcb t" "ts_socks t" "tc_socks_closed c = tc_socks_closed ?c" "\<not> tc_client_closed c"
    using p d assms(5) by (simp_all add: t_def c_def)
  have step: "ts_step lw (Socks_data data) s = ts_after t (Option.bind (client_socks_recv_send_out lw c)
      (\<lambda>(c, cs, r). if r < 0 then Some (c, cs)
        else if tc_socks_recv_buf_used c = - 1 then tc_emit cs (client_socks_recv_initiate c) else Some (c, cs)))"
    using assms d by (simp add: client_socks_recv_handler_done_def t_def ts_after_client c_def)
  have send: "sendable t" using assms(3-5) p d by (simp add: sendable_def t_def c_def socks_rest_def memcpy_def)
  have hold: "holding t" using p d parts(3) tc_ok_dead [OF assms(1) p(1)]
    by (simp add: holding_def t_def c_def up_ok_client split: option.split)
  have owned: "owned_ok (t\<lparr>ts_client := c'\<rparr>)" "frame_ok (t\<lparr>ts_client := c'\<rparr>)" "up_ok (t\<lparr>ts_client := c'\<rparr>)"
    if "c' = (more_sent c n)\<lparr>tc_socks_recv_waiting := True\<rparr> \<or> c' = (more_sent c n)\<lparr>tc_socks_recv_buf_used := - 1\<rparr>" for c' n
    using that parts d assms(5)
    by (auto simp: t_def c_def more_sent_def owned_ok_def frame_ok_client frame_ok_ret up_ok_client Let_def)
  from send show ?thesis
  proof (cases rule: send_out_cases [where lw = lw])
    case (abort n cs)
    show ?thesis unfolding step abort(4) [unfolded f(1)] abort_handler
      using abort_out_ok [OF send hold abort(1-3), of "lw_close_ok lw"] f(1) by simp
  next
    case (wait n cs)
    let ?d = "(more_sent c n)\<lparr>tc_socks_recv_waiting := True\<rparr>"
    let ?s = "t\<lparr>ts_client := ?d, ts_to_client := ts_to_client t @ written c n\<rparr>"
    have "tc_socks_recv_buf_used ?d \<noteq> - 1" by (simp add: more_sent_def c_def)
    then have "ts_step lw (Socks_data data) s = Some ?s" unfolding step
      using wait(5) writes_calls [OF wait(3), of "t\<lparr>ts_client := ?d\<rparr>"] f by (simp add: ts_after_Some)
    moreover have "tc_ok ?s" using down_ok_wait [OF send wait(1,2,4)] owned [of ?d n] f(1) by (simp add: tc_ok_def)
    ultimately show ?thesis by (simp only: tc_steps_Some)
  next
    case (all n cs)
    let ?d = "(more_sent c n)\<lparr>tc_socks_recv_buf_used := - 1\<rparr>"
    let ?s = "t\<lparr>ts_client := ?d, ts_to_client := ts_to_client t @ written c n, ts_receiving := True\<rparr>"
    have "client_socks_recv_initiate ?d = Some (?d, [Socks_Recv CLIENT_SOCKS_RECV_BUF_SIZE])"
      using d assms(5) by (simp add: client_socks_recv_initiate_def more_sent_def c_def require_def)
    then have "ts_step lw (Socks_data data) s = Some ?s" unfolding step
      using all(4) writes_calls [OF all(3), of "t\<lparr>ts_client := ?d\<rparr>"] f sendableD(3) [OF send]
      by (simp add: ts_after_emit ts_after_Some ts_calls_append require_def CLIENT_SOCKS_RECV_BUF_SIZE_def)
    moreover have "tc_ok ?s" using down_ok_all [OF send all(1,2)] owned [of ?d n] f d(2) by (simp add: tc_ok_def)
    ultimately show ?thesis by (simp only: tc_steps_Some)
  qed
qed

lemma step_Socks_data:
  assumes "tc_ok s" "ts_enabled (Socks_data data) s"
  shows "tc_steps (ts_step lw (Socks_data data) s)"
proof (cases "tc_client_closed (ts_client s)")
  case True
  let ?c = "ts_client s"
  let ?s = "s\<lparr>ts_ret := None, ts_receiving := False, ts_from_socks := ts_from_socks s @ data,
    ts_client := ?c\<lparr>tc_socks_recv_buf := memcpy (tc_socks_recv_buf ?c) 0 data\<rparr>\<rparr>"
  have parts: "owned_ok s" "frame_ok s" "up_ok s" "down_ok s" using assms(1) by (simp_all add: tc_ok_def)
  have d: "tc_socks_up ?c" "\<not> tc_socks_closed ?c" "tc_socks_recv_buf_used ?c = - 1" "\<exists>rest. ts_from_socks s = ts_to_client s @ rest"
    "length (tc_socks_recv_buf ?c) = CLIENT_SOCKS_RECV_BUF_SIZE" "ts_client_end s \<or> ts_aborted s"
    using parts(4) True assms(2) unfolding down_ok_def Let_def by auto
  show ?thesis
  proof (rule tc_stepsI)
    show "ts_step lw (Socks_data data) s = Some ?s" using True assms(2) d
      by (simp add: client_socks_recv_handler_done_def ts_after_Some)
    show "owned_ok ?s" using parts(1) True by (simp add: owned_ok_def Let_def)
    show "frame_ok ?s" using parts(2) by (simp add: frame_ok_client frame_ok_ret)
    show "up_ok ?s" using parts(3) by (simp add: up_ok_client)
    show "down_ok ?s" using d True assms(2) by (auto simp: down_ok_def)
  qed
next
  case False
  then show ?thesis using assms by (intro step_Socks_data_open) auto
qed

text \<open>The client acknowledges data.\<close>

lemma abort_callback:
  "ts_callback f s (Option.bind (Option.bind r (\<lambda>(c, cs'). Some (c, cs @ cs', - 1 :: int)))
      (\<lambda>(c, cs, r). if r < 0 then Some (c, cs, Returned ERR_ABRT) else g c cs)) =
    ts_after (s\<lparr>ts_frame := None, ts_ret := Some ERR_ABRT\<rparr>) (tc_emit cs r)"
  by (cases r) (auto simp: tc_emit_def ts_callback_def ts_after_def)

lemma acked_open:
  assumes "tc_ok s" "ts_enabled (Client_acked n) s"
  shows "ts_frame s = None" "ts_pcb s" "tc_socks_up (ts_client s)" "0 < n" "n \<le> tc_socks_recv_tcp_pending (ts_client s)"
    "\<not> tc_client_closed (ts_client s)" "tc_dead_client (ts_client s) = []" "\<not> tc_freed (ts_client s)"
    "tc_socks_recv_tcp_pending (ts_client s) = int (length (ts_to_client s)) - ts_acked s"
    "ts_from_socks s = ts_to_client s @ socks_rest (ts_client s)"
    "length (tc_socks_recv_buf (ts_client s)) = CLIENT_SOCKS_RECV_BUF_SIZE"
    "ts_receiving s = (\<not> tc_socks_closed (ts_client s) \<and> tc_socks_recv_buf_used (ts_client s) = - 1)"
    "tc_socks_recv_buf_used (ts_client s) \<noteq> - 1 \<Longrightarrow> 0 \<le> tc_socks_recv_buf_sent (ts_client s) \<and>
       tc_socks_recv_buf_sent (ts_client s) < tc_socks_recv_buf_used (ts_client s) \<and>
       tc_socks_recv_buf_used (ts_client s) \<le> int CLIENT_SOCKS_RECV_BUF_SIZE \<and> tc_socks_recv_waiting (ts_client s)"
proof -
  let ?c = "ts_client s"
  show e: "ts_frame s = None" "ts_pcb s" "0 < n" using assms(2) by simp_all
  show o: "\<not> tc_client_closed ?c" "\<not> tc_freed ?c" using tc_ok_open(1,2) [OF assms(1) e(2)] by simp_all
  show up: "tc_socks_up ?c" using assms o by (simp add: tc_ok_def owned_ok_def Let_def)
  show "tc_dead_client ?c = []" using tc_ok_dead [OF assms(1) e(2)] e(1) by simp
  have "down_ok s" using assms(1) by (simp add: tc_ok_def)
  then show p: "tc_socks_recv_tcp_pending ?c = int (length (ts_to_client s)) - ts_acked s"
    "ts_from_socks s = ts_to_client s @ socks_rest ?c" "length (tc_socks_recv_buf ?c) = CLIENT_SOCKS_RECV_BUF_SIZE"
    "ts_receiving s = (\<not> tc_socks_closed ?c \<and> tc_socks_recv_buf_used ?c = - 1)"
    "tc_socks_recv_buf_used ?c \<noteq> - 1 \<Longrightarrow> 0 \<le> tc_socks_recv_buf_sent ?c \<and> tc_socks_recv_buf_sent ?c < tc_socks_recv_buf_used ?c \<and>
       tc_socks_recv_buf_used ?c \<le> int CLIENT_SOCKS_RECV_BUF_SIZE \<and> tc_socks_recv_waiting ?c"
    using up o unfolding down_ok_def Let_def by blast+
  show "n \<le> tc_socks_recv_tcp_pending ?c" using assms(2) p(1) by simp
qed

lemma step_acked_idle:
  assumes "tc_ok s" "ts_enabled (Client_acked n) s" "tc_socks_recv_buf_used (ts_client s) = - 1"
  shows "tc_steps (ts_step lw (Client_acked n) s)"
proof -
  let ?c = "ts_client s"
  let ?c' = "?c\<lparr>tc_socks_recv_tcp_pending := tc_socks_recv_tcp_pending ?c - n\<rparr>"
  have parts: "owned_ok s" "frame_ok s" "up_ok s" "down_ok s" using assms(1) by (simp_all add: tc_ok_def)
  note a = acked_open [OF assms(1,2)]
  show ?thesis
  proof (cases "tc_socks_closed ?c \<and> tc_socks_recv_tcp_pending ?c = n")
    case True
    let ?s = "s\<lparr>ts_acked := ts_acked s + n, ts_frame := None, ts_ret := Some ERR_ABRT, ts_client := ?c'\<rparr>"
    have "ts_step lw (Client_acked n) s = ts_after ?s (client_free_client (lw_close_ok lw) (ts_client ?s))"
      using a True assms(3) by (simp add: client_sent_func_def ts_after_client)
    moreover have "closing (?s\<lparr>ts_pcb := False\<rparr>)"
      using a True assms(3) tc_ok_open(3-5) [OF assms(1) a(2)] parts(3)
      by (simp add: closing_def up_ok_client socks_rest_def)
    ultimately show ?thesis using free_client_ok [of ?s] a(2) by simp
  next
    case False
    let ?s = "s\<lparr>ts_acked := ts_acked s + n, ts_frame := None, ts_ret := Some ERR_OK, ts_client := ?c'\<rparr>"
    show ?thesis
    proof (rule tc_stepsI)
      show "ts_step lw (Client_acked n) s = Some ?s" using a False assms(3) by (auto simp: client_sent_func_def ts_after_Some)
      show "owned_ok ?s" using parts(1) a False assms(3) by (auto simp: owned_ok_def Let_def)
      show "frame_ok ?s" using a by (simp add: frame_ok_def lwip_errors)
      show "up_ok ?s" using parts(3) by (simp add: up_ok_client)
      show "down_ok ?s" using a assms(3) by (simp add: down_ok_def)
    qed
  qed
qed

lemma step_acked_more:
  assumes "tc_ok s" "ts_enabled (Client_acked n) s" "tc_socks_recv_buf_used (ts_client s) \<noteq> - 1"
  shows "tc_steps (ts_step lw (Client_acked n) s)"
proof -
  let ?c = "ts_client s"
  define c where "c = ?c\<lparr>tc_socks_recv_tcp_pending := tc_socks_recv_tcp_pending ?c - n, tc_socks_recv_waiting := False\<rparr>"
  define t where "t r = s\<lparr>ts_acked := ts_acked s + n, ts_frame := None, ts_ret := r, ts_client := c\<rparr>" for r
  have parts: "owned_ok s" "frame_ok s" "up_ok s" "down_ok s" using assms(1) by (simp_all add: tc_ok_def)
  note a = acked_open [OF assms(1,2)]
  have step: "ts_step lw (Client_acked n) s = ts_callback Frame_sent (s\<lparr>ts_ret := None, ts_acked := ts_acked s + n\<rparr>)
     (Option.bind (client_socks_recv_send_out lw c) (\<lambda>(c, cs, r).
        if r < 0 then Some (c, cs, Returned ERR_ABRT)
        else if \<not> tc_socks_recv_tcp_pending c > 0 then None
        else if tc_socks_recv_buf_used c = - 1 \<and> \<not> tc_socks_closed c then do {
          (c, cs') \<leftarrow> client_socks_recv_initiate c;
          Some (c\<lparr>tc_dead_client := DEAD_ENTER (tc_dead_client c)\<rparr>, cs @ cs', In_sync)
        }
        else Some (c, cs, Returned ERR_OK)))"
    using a assms(3) by (simp add: client_sent_func_def c_def)
  have f: "ts_client (t r) = c" "ts_pcb (t r)" "tc_socks_closed c = tc_socks_closed ?c" for r
    using a by (simp_all add: t_def c_def)
  have send: "sendable (t r)" for r using a assms(3) by (simp add: sendable_def t_def c_def)
  have hold: "holding (t (Some ERR_ABRT))" using a tc_ok_open(3-5) [OF assms(1) a(2)] parts(3)
    by (simp add: holding_def t_def c_def up_ok_client)
  show ?thesis using send [of None]
  proof (cases rule: send_out_cases [where lw = lw])
    case (abort m cs)
    note b = abort [unfolded f(1)]
    have "tc_steps (ts_after (t (Some ERR_ABRT)) (tc_emit cs (client_abort_client (lw_close_ok lw) (more_sent c m))))"
      using abort_out_ok [OF send hold, of m cs] b by (simp add: f(1))
    then show ?thesis unfolding step b(4) abort_callback by (simp add: t_def ts_after_client)
  next
    case (wait m cs)
    note b = wait [unfolded f(1)]
    let ?d = "(more_sent c m)\<lparr>tc_socks_recv_waiting := True\<rparr>"
    let ?t = "t (Some ERR_OK)"
    let ?s = "?t\<lparr>ts_client := ?d, ts_to_client := ts_to_client ?t @ written c m\<rparr>"
    have "tc_socks_recv_buf_used ?d \<noteq> - 1" "tc_socks_recv_tcp_pending ?d > 0" using assms(3) b(4) by (simp_all add: more_sent_def c_def)
    then have "ts_step lw (Client_acked n) s = Some ?s" unfolding step b(5)
      using writes_calls [OF b(3), of "?t\<lparr>ts_client := ?d\<rparr>"] f(2) by (simp add: ts_after_Some t_def)
    moreover have "owned_ok ?s" "frame_ok ?s" "up_ok ?s"
      using parts a assms(3) b(4)
      by (auto simp: t_def c_def more_sent_def owned_ok_def frame_ok_def lwip_errors up_ok_client Let_def)
    moreover have "down_ok ?s" using down_ok_wait [OF send [of "Some ERR_OK"], of m] b f(1) by simp
    ultimately show ?thesis by (simp only: tc_steps_Some tc_ok_def)
  next
    case (all m cs)
    note b = all [unfolded f(1)]
    let ?d = "(more_sent c m)\<lparr>tc_socks_recv_buf_used := - 1\<rparr>"
    have pend: "tc_socks_recv_tcp_pending ?d > 0" using b(1) a(5) by (simp add: more_sent_def c_def)
    show ?thesis
    proof (cases "tc_socks_closed ?c")
      case True
      let ?t = "t (Some ERR_OK)"
      let ?s = "?t\<lparr>ts_client := ?d, ts_to_client := ts_to_client ?t @ written c m, ts_receiving := False\<rparr>"
      have "ts_step lw (Client_acked n) s = Some ?s" unfolding step b(4)
        using writes_calls [OF b(3), of "?t\<lparr>ts_client := ?d\<rparr>"] f True pend a(12)
        by (simp add: ts_after_Some t_def more_sent_def)
      moreover have "owned_ok ?s" "frame_ok ?s" "up_ok ?s"
        using parts a pend
        by (auto simp: t_def c_def more_sent_def owned_ok_def frame_ok_def lwip_errors up_ok_client Let_def)
      moreover have "down_ok ?s" using down_ok_all [OF send [of "Some ERR_OK"], of m] b f True by simp
      ultimately show ?thesis by (simp only: tc_steps_Some tc_ok_def)
    next
      case False
      let ?s = "s\<lparr>ts_ret := None, ts_acked := ts_acked s + n, ts_frame := Some Frame_sent,
        ts_client := ?d\<lparr>tc_dead_client := [False]\<rparr>, ts_to_client := ts_to_client s @ written c m, ts_receiving := True\<rparr>"
      have "ts_step lw (Client_acked n) s = Some ?s" unfolding step b(4)
        using b(3) False pend a f(3) tc_ok_open(4) [OF assms(1) a(2)] assms(3)
        by (simp add: ts_after_Some writes_calls more_sent_def client_socks_recv_initiate_def require_def DEAD_ENTER_def c_def
            ts_calls_append CLIENT_SOCKS_RECV_BUF_SIZE_def)
      moreover have "owned_ok ?s" "frame_ok ?s" "up_ok ?s"
        using parts a pend
        by (auto simp: t_def c_def more_sent_def owned_ok_def frame_ok_def lwip_errors up_ok_client Let_def)
      moreover have "down_ok ?s" using down_ok_all [OF send [of None], of m] b(1,2) f False a(3,6)
        by (simp add: down_ok_def t_def more_sent_def c_def socks_rest_def Let_def)
      ultimately show ?thesis by (simp only: tc_steps_Some tc_ok_def)
    qed
  qed
qed

lemma step_Client_acked: "tc_ok s \<Longrightarrow> ts_enabled (Client_acked n) s \<Longrightarrow> tc_steps (ts_step lw (Client_acked n) s)"
  by (cases "tc_socks_recv_buf_used (ts_client s) = - 1") (simp_all only: step_acked_idle step_acked_more not_False_eq_True)

lemma tc_step_ok: "tc_ok s \<Longrightarrow> ts_enabled i s \<Longrightarrow> tc_steps (ts_step lw i s)"
  by (cases i) (simp_all only: step_Client_data step_Client_fin step_Client_err step_Client_acked step_Callback_return
      step_Socks_event step_Socks_sent step_Socks_data step_Murder)

lemma tc_reach_ok: "tc_reach s \<Longrightarrow> tc_ok s"
proof (induction rule: tc_reach.induct)
  case (accept c)
  then show ?case by (rule tc_ok_init)
next
  case (step s i lw s')
  then show ?case using tc_step_ok [of s i lw] by simp
qed

text \<open>An aborted pcb is gone, and calls other than \<open>tcp_abort\<close> do not abort.\<close>

lemma ts_call_aborted:
  "ts_call x s = Some s' \<Longrightarrow> ts_aborted s \<longrightarrow> \<not> ts_pcb s \<Longrightarrow>
    (ts_aborted s' \<longrightarrow> \<not> ts_pcb s') \<and> (x \<noteq> tcp_abort \<longrightarrow> ts_aborted s' = ts_aborted s) \<and> ts_ret s' = ts_ret s"
  by (cases x) (auto simp: require_def split: if_splits)

lemma ts_calls_aborted:
  "ts_calls cs s = Some s' \<Longrightarrow> ts_aborted s \<longrightarrow> \<not> ts_pcb s \<Longrightarrow>
    (ts_aborted s' \<longrightarrow> \<not> ts_pcb s') \<and> (tcp_abort \<notin> set cs \<longrightarrow> ts_aborted s' = ts_aborted s) \<and> ts_ret s' = ts_ret s"
proof (induction cs arbitrary: s)
  case (Cons x cs)
  then obtain t where "ts_call x s = Some t" "ts_calls cs t = Some s'" by (auto simp: bind_eq_Some_conv)
  then show ?case using ts_call_aborted [of x s t] Cons.IH [of t] Cons.prems(2) by auto
qed simp

lemma ts_after_aborted: "ts_after s r = Some s' \<Longrightarrow> ts_aborted s \<longrightarrow> \<not> ts_pcb s \<Longrightarrow> ts_aborted s' \<longrightarrow> \<not> ts_pcb s'"
  by (cases r) (auto simp: ts_after_def dest!: ts_calls_aborted)

lemma ts_callback_aborted:
  assumes "ts_callback f s r = Some s'" "ts_aborted s \<longrightarrow> \<not> ts_pcb s"
  shows "ts_aborted s' \<longrightarrow> \<not> ts_pcb s'"
proof -
  obtain c cs res where "r = Some (c, cs, res)" using assms(1) by (auto simp: ts_callback_def bind_eq_Some_conv)
  then show ?thesis using assms by (cases res) (auto simp: ts_callback_def dest!: ts_calls_aborted)
qed

lemma tc_reach_aborted: "tc_reach s \<Longrightarrow> ts_aborted s \<longrightarrow> \<not> ts_pcb s"
proof (induction rule: tc_reach.induct)
  case (accept c)
  then show ?case by (simp add: ts_init_def)
next
  case (step s i lw s')
  then show ?case by (cases i) (auto dest!: ts_after_aborted ts_callback_aborted)
qed

lemma handle_freed_no_abort: "client_handle_freed_client k c = Some (c', cs) \<Longrightarrow> tcp_abort \<notin> set cs"
  by (auto simp: client_handle_freed_client.simps client_free_socks.simps client_dealloc_def require_def tc_emit_def Let_def
      bind_eq_Some_conv split: if_splits)

lemma free_client_abort: "client_free_client k c = Some (c', cs) \<Longrightarrow> \<exists>ds. cs = (if k then [tcp_close True] else [tcp_close False, tcp_abort]) @ ds \<and> tcp_abort \<notin> set ds"
  using handle_freed_no_abort by (fastforce simp: client_free_client.simps tc_emit_def bind_eq_Some_conv split: if_splits)

text \<open>A callback that gives the client up aborts the pcb only when \<open>tcp_close\<close> fails.\<close>

lemma callback_free_client:
  assumes "ts_callback frame s (do { (c, cs) \<leftarrow> client_free_client k c; Some (c, cs, Returned ERR_ABRT) }) = Some s'"
    "ts_pcb s" "\<not> ts_aborted s"
  shows "ts_ret s' = Some ERR_ABRT \<and> (ts_aborted s' \<longleftrightarrow> \<not> k)"
proof -
  obtain c' cs where c: "client_free_client k c = Some (c', cs)"
    "ts_calls cs (s\<lparr>ts_frame := None, ts_ret := Some ERR_ABRT, ts_client := c'\<rparr>) = Some s'"
    using assms(1) by (auto simp: ts_callback_def bind_eq_Some_conv)
  obtain ds where "cs = (if k then [tcp_close True] else [tcp_close False, tcp_abort]) @ ds" "tcp_abort \<notin> set ds"
    using free_client_abort [OF c(1)] by blast
  then obtain t where t: "ts_calls ds t = Some s'" "ts_aborted t = (\<not> k)" "\<not> ts_pcb t" "ts_ret t = Some ERR_ABRT"
    using c(2) assms(2,3) by (cases k) (auto simp: require_def)
  then show ?thesis using ts_calls_aborted [OF t(1)] \<open>tcp_abort \<notin> set ds\<close> by simp
qed

section \<open>One client\<close>

text \<open>C3. In every state a TCP client can reach, whatever lwip answers, the next event is handled
  without a failed assertion and without using or releasing a pcb, a SOCKS client or the
  structure after it was released. The structure is freed exactly when both sides are gone.
  A callback returns \<open>ERR_ABRT\<close> exactly when the pcb is not the client's any more, be it aborted with \<open>tcp_abort\<close> or closed
  with \<open>tcp_close\<close>. The latter is more than lwip allows, whose documentation reserves \<open>ERR_ABRT\<close> for \<open>tcp_abort\<close>: at the end
  of the client's stream, and at the last acknowledgement after SOCKS has gone down, the callback returns \<open>ERR_ABRT\<close>, and the pcb is
  aborted only when \<open>tcp_close\<close> fails.\<close>

theorem tcp_client_safe:
  assumes "tc_reach s" "ts_enabled i s"
  shows "\<exists>s'. ts_step lw i s = Some s' \<and> ts_memory s' = (ts_pcb s' \<or> ts_socks s') \<and>
    tc_freed (ts_client s') = (\<not> ts_memory s') \<and> (ts_aborted s' \<longrightarrow> \<not> ts_pcb s') \<and>
    (case ts_ret s' of None \<Rightarrow> True | Some r \<Rightarrow> (r = ERR_ABRT) = (\<not> ts_pcb s')) \<and>
    (i = Client_fin \<or> (\<exists>n. i = Client_acked n \<and> n = tc_socks_recv_tcp_pending (ts_client s)) \<and>
        tc_socks_closed (ts_client s) \<and> tc_socks_recv_buf_used (ts_client s) \<le> 0 \<longrightarrow>
      ts_ret s' = Some ERR_ABRT \<and> (ts_aborted s' \<longleftrightarrow> \<not> lw_close_ok lw))"
proof -
  have "tc_steps (ts_step lw i s)" using tc_step_ok [OF tc_reach_ok [OF assms(1)] assms(2)] .
  then obtain s' where s': "ts_step lw i s = Some s'" "owned_ok s'" "frame_ok s'"
    by (auto simp: tc_steps_def tc_ok_def split: option.splits)
  have open_pcb: "\<not> ts_aborted s" if "ts_pcb s" using tc_reach_aborted [OF assms(1)] that by blast
  have "ts_ret s' = Some ERR_ABRT \<and> (ts_aborted s' \<longleftrightarrow> \<not> lw_close_ok lw)" if "i = Client_fin"
  proof -
    have "\<not> tc_client_closed (ts_client s)" using tc_ok_open(1) [OF tc_reach_ok [OF assms(1)]] assms(2) that by simp
    then show ?thesis using callback_free_client [of Frame_recv "s\<lparr>ts_ret := None, ts_client_end := True\<rparr>"] s'(1) assms(2) that open_pcb
      by (simp add: client_recv_func_def)
  qed
  moreover have "ts_ret s' = Some ERR_ABRT \<and> (ts_aborted s' \<longleftrightarrow> \<not> lw_close_ok lw)"
    if "i = Client_acked n" "n = tc_socks_recv_tcp_pending (ts_client s)" "tc_socks_closed (ts_client s)"
      "tc_socks_recv_buf_used (ts_client s) \<le> 0" for n
  proof -
    have "client_sent_func lw n (ts_client s) \<noteq> None" using s'(1) that(1) by (auto simp: ts_callback_def bind_eq_Some_conv)
    then show ?thesis
      using callback_free_client [of Frame_sent "s\<lparr>ts_ret := None, ts_acked := ts_acked s + n\<rparr>"] s'(1) assms(2) that open_pcb
      by (simp add: client_sent_func_def split: if_splits)
  qed
  moreover have "ts_aborted s' \<longrightarrow> \<not> ts_pcb s'" using tc_reach_aborted [OF tc_reach.step [OF assms s'(1)]] .
  ultimately show ?thesis using s' by (intro exI [of _ s']) (auto simp: owned_ok_def frame_ok_def Let_def split: option.splits)
qed

definition sample_tcp_client :: tcp_client where
  "sample_tcp_client = \<lparr>tc_dead_client = [], tc_local_addr = BAddr_None, tc_remote_addr = BAddr_None, tc_recv_cb = False,
     tc_sent_cb = False, tc_err_cb = False, tc_client_closed = True, tc_buf = replicate TCP_WND 0, tc_buf_used = 7,
     tc_socks_username = None, tc_socks_up = True, tc_socks_closed = True,
     tc_socks_recv_buf = replicate CLIENT_SOCKS_RECV_BUF_SIZE 0, tc_socks_recv_buf_used = 3, tc_socks_recv_buf_sent = 4,
     tc_socks_recv_waiting = False, tc_socks_recv_tcp_pending = 5, tc_freed = True\<rparr>"

definition sample_lwip :: lwip where
  "sample_lwip = \<lparr>lw_close_ok = True, lw_write = (\<lambda>_. (100, ERR_OK)), lw_output = ERR_OK\<rparr>"

lemma sample_tcp_client_reach: "tc_reach (ts_init (accepted_client sample_tcp_client))"
  by (rule tc_reach.accept) (simp_all add: sample_tcp_client_def)

fun ts_run :: "tc_input list \<Rightarrow> tc_sys \<Rightarrow> tc_sys option" where
  "ts_run [] s = Some s"
| "ts_run (i # is) s = (if ts_enabled i s then Option.bind (ts_step sample_lwip i s) (ts_run is) else None)"

lemma ts_run_reach: "ts_run is s = Some s' \<Longrightarrow> tc_reach s \<Longrightarrow> tc_reach s'"
  by (induction "is" arbitrary: s) (auto simp: bind_eq_Some_conv split: if_splits intro: tc_reach.step)

lemma sample_up:
  "\<exists>s. ts_run [Callback_return, Socks_event BSOCKSCLIENT_EVENT_UP] (ts_init (accepted_client sample_tcp_client)) = Some s \<and>
    ts_receiving s \<and> ts_frame s = None \<and> ts_pcb s \<and> tc_recv_cb (ts_client s) \<and> ts_from_client s = [] \<and>
    ts_recved s = 0"
  by (simp add: ts_init_def accepted_client_def sample_tcp_client_def listener_accept_return_def client_socks_handler_def
      socks_events client_socks_recv_initiate_def require_def ts_after_Some CLIENT_SOCKS_RECV_BUF_SIZE_def)

theorem tcp_client_safe_witness:
  "\<exists>s. tc_reach s \<and> ts_enabled (Socks_data [7, 8, 9]) s \<and> (\<exists>s'. ts_step sample_lwip (Socks_data [7, 8, 9]) s = Some s') \<and>
    ts_enabled Client_fin s \<and>
    (\<exists>s'. ts_step sample_lwip Client_fin s = Some s' \<and> ts_ret s' = Some ERR_ABRT \<and> \<not> ts_aborted s' \<and> \<not> ts_pcb s')"
proof -
  obtain s where s: "ts_run [Callback_return, Socks_event BSOCKSCLIENT_EVENT_UP] (ts_init (accepted_client sample_tcp_client)) = Some s"
    "ts_receiving s" "ts_frame s = None" "ts_pcb s" "tc_recv_cb (ts_client s)" using sample_up by blast
  have r: "tc_reach s" by (rule ts_run_reach [OF s(1) sample_tcp_client_reach])
  have e: "ts_enabled (Socks_data [7, 8, 9]) s" "ts_enabled Client_fin s"
    using s(2-5) by (simp_all add: CLIENT_SOCKS_RECV_BUF_SIZE_def)
  have k: "lw_close_ok sample_lwip" by (simp add: sample_lwip_def)
  obtain s' where "ts_step sample_lwip Client_fin s = Some s'" "ts_ret s' = Some ERR_ABRT" "\<not> ts_aborted s'" "\<not> ts_pcb s'"
    using tcp_client_safe [OF r e(2), of sample_lwip] k by auto
  then show ?thesis using tcp_client_safe [OF r e(1), of sample_lwip] r e by blast
qed

text \<open>C2. The bytes of each direction arrive in order: what SOCKS got is what the client sent up to
  the bytes in the buffer, which never exceed the receive window, and what was written to the
  client is a prefix of what SOCKS sent. Bytes that fit the window lwip was given are never
  refused. When the SOCKS side did not end by itself before, everything the client sent has
  reached SOCKS by the time the client structure is freed; when the client side did not end by itself and its
  pcb was not aborted, it is closed only after it has acknowledged everything SOCKS sent.\<close>

theorem tcp_client_delivers:
  assumes "tc_reach s"
  shows "ts_from_client s = ts_to_socks s @ take (nat (tc_buf_used (ts_client s))) (tc_buf (ts_client s)) \<and>
    0 \<le> tc_buf_used (ts_client s) \<and> tc_buf_used (ts_client s) \<le> int TCP_WND \<and>
    (\<exists>rest. ts_from_socks s = ts_to_client s @ rest) \<and>
    (ts_pcb s \<and> int (length (ts_from_client s)) - ts_recved s + int (length data) \<le> int TCP_WND \<longrightarrow> \<not> data_refused data s) \<and>
    (\<not> ts_memory s \<and> \<not> ts_socks_end s \<longrightarrow> ts_to_socks s = ts_from_client s) \<and>
    (\<not> ts_pcb s \<and> \<not> ts_client_end s \<and> \<not> ts_aborted s \<longrightarrow>
       ts_to_client s = ts_from_socks s \<and> ts_acked s = int (length (ts_to_client s)))"
proof -
  let ?c = "ts_client s"
  have ok: "owned_ok s" "up_ok s" "down_ok s" using tc_reach_ok [OF assms] by (simp_all add: tc_ok_def)
  have u: "length (tc_buf ?c) = TCP_WND" "0 \<le> tc_buf_used ?c" "tc_buf_used ?c \<le> int TCP_WND"
    "ts_from_client s = ts_to_socks s @ take (nat (tc_buf_used ?c)) (tc_buf ?c)"
    "\<not> tc_client_closed ?c \<Longrightarrow> ts_recved s = int (length (ts_to_socks s))"
    "tc_freed ?c \<Longrightarrow> \<not> ts_socks_end s \<Longrightarrow> tc_buf_used ?c = 0"
    using ok(2) unfolding up_ok_def Let_def by blast+
  have d: "\<exists>rest. ts_from_socks s = ts_to_client s @ rest"
    "tc_client_closed ?c \<Longrightarrow> \<not> ts_client_end s \<Longrightarrow> \<not> ts_aborted s \<Longrightarrow>
      ts_from_socks s = ts_to_client s \<and> ts_acked s = int (length (ts_to_client s))"
    using ok(3) unfolding down_ok_def Let_def by blast+
  have o: "ts_pcb s = (\<not> tc_client_closed ?c)" "ts_memory s = (\<not> tc_freed ?c)" using ok(1) by (simp_all add: owned_ok_def Let_def)
  have "\<not> data_refused data s" if "ts_pcb s" "int (length (ts_from_client s)) - ts_recved s + int (length data) \<le> int TCP_WND"
    using that u o(1) by (simp add: data_refused_def)
  moreover have "ts_to_socks s = ts_from_client s" if "\<not> ts_memory s" "\<not> ts_socks_end s"
    using that u(4,6) o(2) by simp
  moreover have "ts_to_client s = ts_from_socks s \<and> ts_acked s = int (length (ts_to_client s))"
    if "\<not> ts_pcb s" "\<not> ts_client_end s" "\<not> ts_aborted s"
    using that d(2) o(1) by simp
  ultimately show ?thesis using u(2-4) d(1) by blast
qed

theorem tcp_client_delivers_witness:
  "\<exists>s. tc_reach s \<and> ts_pcb s \<and> \<not> data_refused [1, 2] s \<and> ts_from_client s = ts_to_socks s @ []"
proof -
  obtain s where s: "ts_run [Callback_return, Socks_event BSOCKSCLIENT_EVENT_UP] (ts_init (accepted_client sample_tcp_client)) = Some s"
    "ts_pcb s" "ts_from_client s = []" "ts_recved s = 0" using sample_up by blast
  have r: "tc_reach s" by (rule ts_run_reach [OF s(1) sample_tcp_client_reach])
  show ?thesis using tcp_client_delivers [OF r, of "[1, 2]"] s r by (intro exI [of _ s]) (simp add: TCP_WND_def)
qed

section \<open>All clients\<close>

definition tun_ok :: "tun_sys \<Rightarrow> bool" where
  "tun_ok u \<longleftrightarrow> (\<forall>i s. tu_sys u i = Some s \<longrightarrow> tc_ok s) \<and> distinct (tcp_clients (tu_clients u)) \<and>
     (\<forall>i. i \<in> set (tcp_clients (tu_clients u)) \<longleftrightarrow> (\<exists>s. tu_sys u i = Some s \<and> ts_memory s)) \<and>
     num_clients (tu_clients u) = int (length (tcp_clients (tu_clients u)))"

lemma ts_call_memory: "ts_call a s = Some s' \<Longrightarrow> ts_memory s' \<Longrightarrow> ts_memory s"
  by (cases a) auto

lemma ts_calls_memory: "ts_calls cs s = Some s' \<Longrightarrow> ts_memory s' \<Longrightarrow> ts_memory s"
  by (induction cs arbitrary: s) (auto simp: bind_eq_Some_conv dest: ts_call_memory)

lemma ts_after_memory: "ts_after s r = Some s' \<Longrightarrow> ts_memory s' \<Longrightarrow> ts_memory s"
  by (auto simp: ts_after_def bind_eq_Some_conv dest: ts_calls_memory)

lemma ts_callback_memory:
  assumes "ts_callback f s r = Some s'" "ts_memory s'"
  shows "ts_memory s"
proof -
  obtain c cs res where "r = Some (c, cs, res)" using assms(1) by (auto simp: ts_callback_def bind_eq_Some_conv)
  then show ?thesis using assms by (cases res) (auto dest: ts_after_memory)
qed

lemma ts_step_memory: "ts_step lw i s = Some s' \<Longrightarrow> ts_memory s' \<Longrightarrow> ts_memory s"
  by (cases i) (auto dest: ts_after_memory ts_callback_memory)

lemma tun_ok_init: "tun_ok tun_init"
  by (simp add: tun_ok_def tun_init_def)

lemma BAddr_Print_lwip: "BAddr_Print (baddr_from_lwip b ip4 ip6 port) \<noteq> None"
  by (simp add: baddr_from_lwip_def BAddr_MakeIPv4_def BAddr_MakeIPv6_def)

lemma append_source_keeps:
  assumes "BAddr_Print remote \<noteq> None"
  shows "\<exists>g' n. append_source opts env i remote g = Some (g', n) \<and> tcp_clients g' = tcp_clients g \<and>
    num_clients g' = num_clients g \<and>
    (opt_username opts = None \<or> \<not> opt_append_source_to_username opts \<longrightarrow> g' = g)"
  using assms by (auto simp: append_source_def split: option.splits bool.splits)

lemma accept_cases:
  assumes "num_clients g \<ge> 0"
  obtains g' where "listener_accept_func opts env i pcb ERR_OK g = Some (g', None, Returned ERR_MEM)"
      "tcp_clients g' = tcp_clients g" "num_clients g' = num_clients g"
      "opt_username opts = None \<or> \<not> opt_append_source_to_username opts \<Longrightarrow> socks_auth_username g' = socks_auth_username g"
  | g' c c' where "listener_accept_func opts env i pcb ERR_OK g = Some (g', Some (accepted_client c), In_sync)"
      "ae_memory env = Some c'" "tc_buf c = tc_buf c'" "tc_socks_recv_buf c = tc_socks_recv_buf c'"
      "tcp_clients g' = tcp_clients g @ [i]" "num_clients g' = num_clients g + 1"
      "opt_username opts = None \<or> \<not> opt_append_source_to_username opts \<Longrightarrow> socks_auth_username g' = socks_auth_username g"
proof (cases "ae_memory env")
  case None
  then show thesis using that(1) by (simp add: listener_accept_func_def)
next
  case (Some c')
  let ?remote = "baddr_from_lwip (pcb_is_ipv6 pcb) (pcb_remote_ip4 pcb) (pcb_remote_ip6 pcb) (pcb_remote_port pcb)"
  obtain g' n where a: "append_source opts env i ?remote g = Some (g', n)" "tcp_clients g' = tcp_clients g"
    "num_clients g' = num_clients g" "opt_username opts = None \<or> \<not> opt_append_source_to_username opts \<Longrightarrow> g' = g"
    using append_source_keeps [OF BAddr_Print_lwip, of opts env i] by blast
  show thesis
  proof (cases "n = None \<or> \<not> ae_socks_init env")
    case True
    then show thesis using that(1) [of g'] a Some by (cases n) (auto simp: listener_accept_func_def Let_def)
  next
    case False
    then obtain m where m: "n = Some m" by auto
    show thesis
    proof (rule that(2))
      show "listener_accept_func opts env i pcb ERR_OK g = Some (g'\<lparr>tcp_clients := tcp_clients g' @ [i], num_clients := num_clients g' + 1\<rparr>,
          Some (accepted_client (c'\<lparr>tc_local_addr := baddr_from_lwip (pcb_is_ipv6 pcb) (pcb_local_ip4 pcb) (pcb_local_ip6 pcb) (pcb_local_port pcb),
            tc_remote_addr := ?remote, tc_socks_username := m\<rparr>)), In_sync)"
        using m False a Some assms by (simp add: listener_accept_func_def Let_def)
    qed (use Some a in auto)
  qed
qed

lemma tun_ok_accept:
  assumes "tun_ok u" "tun_enabled (Accept env i pcb) u"
  shows "\<exists>u'. tun_step opts (Accept env i pcb) u = Some u' \<and> tun_ok u'"
proof -
  have "num_clients (tu_clients u) \<ge> 0" using assms(1) by (simp add: tun_ok_def)
  then show ?thesis
  proof (cases rule: accept_cases [where opts = opts and env = env and i = i and pcb = pcb])
    case (1 g')
    then show ?thesis using assms(1) by (simp add: tun_ok_def)
  next
    case (2 g' c c')
    have "tc_ok (ts_init (accepted_client c))" using 2 assms(2) by (intro tc_ok_init) (simp_all add: memory_ok_def)
    moreover have "ts_memory (ts_init (accepted_client c))" by (simp add: ts_init_def)
    moreover have "i \<notin> set (tcp_clients (tu_clients u))" using assms by (simp add: tun_ok_def)
    ultimately show ?thesis using 2 assms(1) by (auto simp: tun_ok_def)
  qed
qed

lemma tun_ok_input:
  assumes "tun_ok u" "tun_enabled (Input i lw inp) u"
  shows "\<exists>u'. tun_step opts (Input i lw inp) u = Some u' \<and> tun_ok u'"
proof -
  obtain s where s: "tu_sys u i = Some s" "ts_enabled inp s" using assms(2) by (auto split: option.splits)
  have "tc_ok s" using assms(1) s(1) by (simp add: tun_ok_def)
  then obtain s' where s': "ts_step lw inp s = Some s'" "tc_ok s'"
    using tc_step_ok [of s inp lw] s(2) by (auto simp: tc_steps_def split: option.splits)
  have u: "distinct (tcp_clients (tu_clients u))" "num_clients (tu_clients u) = int (length (tcp_clients (tu_clients u)))"
    "\<And>i. i \<in> set (tcp_clients (tu_clients u)) \<longleftrightarrow> (\<exists>s. tu_sys u i = Some s \<and> ts_memory s)"
    "\<And>i s. tu_sys u i = Some s \<Longrightarrow> tc_ok s"
    using assms(1) by (auto simp: tun_ok_def)
  show ?thesis
  proof (cases "ts_memory s \<and> \<not> ts_memory s'")
    case True
    then have i: "i \<in> set (tcp_clients (tu_clients u))" using u(3) s(1) by blast
    then have "0 < length (tcp_clients (tu_clients u))" by (cases "tcp_clients (tu_clients u)") auto
    then show ?thesis using True s s' u i
      by (auto simp: tun_ok_def forget_client_def require_def length_remove1 of_nat_diff Suc_le_eq)
  next
    case False
    then have "ts_memory s' = ts_memory s" using ts_step_memory [OF s'(1)] by blast
    then show ?thesis using False s s' u by (auto simp: tun_ok_def)
  qed
qed

lemma tun_reach_ok: "tun_reach opts u \<Longrightarrow> tun_ok u"
proof (induction rule: tun_reach.induct)
  case (step u i u')
  then show ?case using tun_ok_accept tun_ok_input by (cases i) (metis option.inject)+
qed (rule tun_ok_init)

lemma tun_reach_username:
  assumes "tun_reach opts u" "opt_username opts = None \<or> \<not> opt_append_source_to_username opts"
  shows "socks_auth_username (tu_clients u) = Options_username"
  using assms(1)
proof (induction rule: tun_reach.induct)
  case init
  show ?case by (simp add: tun_init_def)
next
  case (step u i u')
  have n: "num_clients (tu_clients u) \<ge> 0" using tun_reach_ok [OF step(1)] by (simp add: tun_ok_def)
  show ?case
  proof (cases i)
    case (Accept env j pcb)
    from n show ?thesis
      by (cases rule: accept_cases [where opts = opts and env = env and i = j and pcb = pcb]) (use step Accept assms(2) in auto)
  next
    case (Input j lw inp)
    then show ?thesis using step by (auto simp: forget_client_def bind_eq_Some_conv split: if_splits)
  qed
qed

text \<open>C20. The list of the clients holds exactly those that are not freed, each once, and
  \<open>num_clients\<close> is its length: whatever comes next, the assertions on the counter hold. Unless the
  source address is added to the username, the credentials for SOCKS are those of the options.\<close>

theorem tun_clients_consistent:
  assumes "tun_reach opts u" "tun_enabled i u"
  shows "distinct (tcp_clients (tu_clients u)) \<and> num_clients (tu_clients u) = int (length (tcp_clients (tu_clients u))) \<and>
    (\<forall>j. j \<in> set (tcp_clients (tu_clients u)) \<longleftrightarrow> (\<exists>s. tu_sys u j = Some s \<and> \<not> tc_freed (ts_client s))) \<and>
    tun_step opts i u \<noteq> None \<and>
    (opt_username opts = None \<or> \<not> opt_append_source_to_username opts \<longrightarrow>
       socks_auth_username (tu_clients u) = Options_username)"
proof -
  have ok: "tun_ok u" by (rule tun_reach_ok [OF assms(1)])
  have "ts_memory s = (\<not> tc_freed (ts_client s))" if "tu_sys u j = Some s" for j s
    using ok that by (auto simp: tun_ok_def tc_ok_def owned_ok_def Let_def)
  moreover have "tun_step opts i u \<noteq> None"
    using tun_ok_accept [OF ok] tun_ok_input [OF ok] assms(2) by (cases i) blast+
  ultimately show ?thesis using ok tun_reach_username [OF assms(1)] unfolding tun_ok_def by blast
qed

text \<open>Two connections are accepted, and the second ends.\<close>

definition sample_options :: tun_options where
  "sample_options = \<lparr>opt_username = Some ''u'', opt_append_source_to_username = True\<rparr>"

definition sample_env :: accept_env where
  "sample_env = \<lparr>ae_memory = Some sample_tcp_client, ae_malloc = (\<lambda>_. True), ae_socks_init = True\<rparr>"

definition sample_pcb :: tcp_pcb where
  "sample_pcb = \<lparr>pcb_is_ipv6 = False, pcb_local_ip4 = 1, pcb_local_ip6 = [], pcb_local_port = 80, pcb_remote_ip4 = 2,
     pcb_remote_ip6 = [], pcb_remote_port = 4000\<rparr>"

fun tun_run :: "tun_options \<Rightarrow> tun_input list \<Rightarrow> tun_sys \<Rightarrow> tun_sys option" where
  "tun_run opts [] u = Some u"
| "tun_run opts (i # is) u = (if tun_enabled i u then Option.bind (tun_step opts i u) (tun_run opts is) else None)"

lemma tun_run_reach: "tun_run opts is u = Some u' \<Longrightarrow> tun_reach opts u \<Longrightarrow> tun_reach opts u'"
  by (induction "is" arbitrary: u) (auto simp: bind_eq_Some_conv split: if_splits intro: tun_reach.step)

definition sample_name :: string where "sample_name = ''u@2.0.0.0:4000''"

lemma sample_append:
  "append_source sample_options sample_env i (baddr_from_lwip False 2 [] 4000) g =
    Some (g\<lparr>socks_auth_username := Client_username i\<rparr>, Some (Some sample_name))"
proof -
  have "(case BAddr_Print (baddr_from_lwip False 2 [] 4000) of None \<Rightarrow> None
      | Some a \<Rightarrow> concat_strings (\<lambda>_. True) [''u'', ''@'', a]) = Some sample_name"
    by code_simp
  then show ?thesis
    by (auto simp: append_source_def sample_options_def sample_env_def split: option.splits)
qed

definition sample_accepted :: tcp_client where
  "sample_accepted = accepted_client (sample_tcp_client\<lparr>tc_local_addr := baddr_from_lwip False 1 [] 80,
     tc_remote_addr := baddr_from_lwip False 2 [] 4000, tc_socks_username := Some sample_name\<rparr>)"

lemma sample_accept:
  assumes "num_clients g \<ge> 0"
  shows "listener_accept_func sample_options sample_env i sample_pcb ERR_OK g = Some (g\<lparr>socks_auth_username := Client_username i,
     tcp_clients := tcp_clients g @ [i], num_clients := num_clients g + 1\<rparr>, Some sample_accepted, In_sync)"
  using assms sample_append [of i g]
  by (simp add: listener_accept_func_def sample_env_def sample_pcb_def sample_accepted_def Let_def)

theorem tun_clients_consistent_witness:
  "tun_reach sample_options tun_init \<and> tun_enabled (Accept sample_env 0 sample_pcb) tun_init \<and>
    tun_step sample_options (Accept sample_env 0 sample_pcb) tun_init \<noteq> None"
proof -
  have "tun_enabled (Accept sample_env 0 sample_pcb) tun_init"
    by (simp add: tun_init_def sample_env_def sample_tcp_client_def memory_ok_def)
  then show ?thesis using tun_clients_consistent [OF tun_reach.init] tun_reach.init by blast
qed

lemma sample_enabled: "tu_sys u i = None \<Longrightarrow> tun_enabled (Accept sample_env i sample_pcb) u"
  by (simp add: sample_env_def sample_tcp_client_def memory_ok_def)

text \<open>C40. With the source address added to the username, the credentials can point to freed memory: a
  state is reachable in which the username that \<open>socks_auth_info\<close> points to is that of a client that
  was freed, while another client is still going to use it, because its SOCKS connection is not
  up yet.\<close>

theorem auth_username_dangles:
  "\<exists>u s s'. tun_reach sample_options u \<and> socks_auth_username (tu_clients u) = Client_username 1 \<and>
    tu_sys u 1 = Some s' \<and> tc_freed (ts_client s') \<and>
    tu_sys u 0 = Some s \<and> \<not> tc_freed (ts_client s) \<and> ts_socks s \<and> \<not> tc_socks_up (ts_client s)"
proof -
  let ?is = "[Accept sample_env 0 sample_pcb, Input 0 sample_lwip Callback_return, Accept sample_env 1 sample_pcb,
    Input 1 sample_lwip (Socks_event BSOCKSCLIENT_EVENT_ERROR), Input 1 sample_lwip Callback_return]"
  have "\<exists>u s s'. tun_run sample_options ?is tun_init = Some u \<and> socks_auth_username (tu_clients u) = Client_username 1 \<and>
    tu_sys u 1 = Some s' \<and> tc_freed (ts_client s') \<and>
    tu_sys u 0 = Some s \<and> \<not> tc_freed (ts_client s) \<and> ts_socks s \<and> \<not> tc_socks_up (ts_client s)"
    by (simp add: sample_enabled sample_accept tun_init_def ts_init_def sample_accepted_def accepted_client_def
        listener_accept_return_def client_socks_handler_def client_free_socks_open socks_events ts_after_Some require_def
        forget_client_def sample_lwip_def del: tun_enabled.simps(1))
  then show ?thesis using tun_run_reach [OF _ tun_reach.init] by blast
qed

lemma murder_frees:
  assumes "tc_ok s" "ts_frame s = None" "ts_memory s"
  shows "\<exists>s'. ts_step lw Murder s = Some s' \<and> \<not> ts_memory s' \<and> ts_frame s' = None"
proof -
  have o: "ts_pcb s = (\<not> tc_client_closed (ts_client s))" "ts_socks s = (\<not> tc_socks_closed (ts_client s))"
    using assms(1) by (simp_all add: tc_ok_def owned_ok_def Let_def)
  show ?thesis using assms o
    by (cases "tc_client_closed (ts_client s)"; cases "tc_socks_closed (ts_client s)")
      (simp_all add: client_murder_def client_dealloc_def ts_after_Some require_def remove_callbacks_def)
qed

definition no_callback :: "tun_sys \<Rightarrow> bool" where
  "no_callback u \<longleftrightarrow> (\<forall>i s. tu_sys u i = Some s \<longrightarrow> ts_frame s = None)"

lemma murder_first:
  assumes "tun_ok u" "no_callback u" "tcp_clients (tu_clients u) = i # is"
  shows "\<exists>u'. tun_step opts (Input i lw Murder) u = Some u' \<and> tun_ok u' \<and> no_callback u' \<and> tcp_clients (tu_clients u') = is"
proof -
  have "i \<in> set (tcp_clients (tu_clients u))" using assms(3) by simp
  then obtain s where s: "tu_sys u i = Some s" "ts_memory s" using assms(1) unfolding tun_ok_def by blast
  have "tc_ok s" "ts_frame s = None" using assms(1,2) s(1) by (auto simp: tun_ok_def no_callback_def)
  then obtain s' where s': "ts_step lw Murder s = Some s'" "\<not> ts_memory s'" "ts_frame s' = None"
    using murder_frees s(2) by blast
  have "tun_enabled (Input i lw Murder) u" using s \<open>ts_frame s = None\<close> by simp
  then obtain u' where u': "tun_step opts (Input i lw Murder) u = Some u'" "tun_ok u'" using tun_ok_input [OF assms(1)] by blast
  have "num_clients (tu_clients u) > 0" using assms(1,3) by (simp add: tun_ok_def)
  then have "u' = u\<lparr>tu_clients := (tu_clients u)\<lparr>num_clients := num_clients (tu_clients u) - 1, tcp_clients := is\<rparr>, tu_sys := (tu_sys u)(i \<mapsto> s')\<rparr>"
    using u'(1) s s' assms(3) by (simp add: forget_client_def require_def del: ts_step.simps)
  then show ?thesis using u' assms(2) s'(3) by (auto simp: no_callback_def)
qed

lemma free_clients_all:
  "tun_ok u \<Longrightarrow> no_callback u \<Longrightarrow> tcp_clients (tu_clients u) = is \<Longrightarrow>
    \<exists>u'. free_clients opts lw u = Some u' \<and> tun_ok u' \<and> tcp_clients (tu_clients u') = []"
proof (induction "is" arbitrary: u)
  case Nil
  then show ?case by (subst free_clients.simps) simp
next
  case (Cons i "is")
  obtain u' where "tun_step opts (Input i lw Murder) u = Some u'" "tun_ok u'" "no_callback u'" "tcp_clients (tu_clients u') = is"
    using murder_first [OF Cons.prems] by blast
  then show ?case using Cons.IH [of u'] Cons.prems(3) by (subst free_clients.simps) (simp del: tun_step.simps)
qed

text \<open>C39. When the program ends and no callback is in progress, the loop over the clients ends: every
  client is freed, none is left in the list, the counter is zero, and every pcb and SOCKS client
  has been released.\<close>

theorem free_clients_ends:
  assumes "tun_reach opts u" "no_callback u"
  shows "\<exists>u'. free_clients opts lw u = Some u' \<and> tcp_clients (tu_clients u') = [] \<and> num_clients (tu_clients u') = 0 \<and>
    (\<forall>i s. tu_sys u' i = Some s \<longrightarrow> tc_freed (ts_client s) \<and> \<not> ts_pcb s \<and> \<not> ts_socks s)"
proof -
  obtain u' where u': "free_clients opts lw u = Some u'" "tun_ok u'" "tcp_clients (tu_clients u') = []"
    using free_clients_all [OF tun_reach_ok [OF assms(1)] assms(2) refl] by blast
  have "tc_freed (ts_client s) \<and> \<not> ts_pcb s \<and> \<not> ts_socks s" if "tu_sys u' i = Some s" for i s
  proof -
    have "\<not> ts_memory s" "owned_ok s" using u'(2,3) that by (auto simp: tun_ok_def tc_ok_def)
    then show ?thesis unfolding owned_ok_def Let_def by blast
  qed
  then show ?thesis using u' by (auto simp: tun_ok_def)
qed

theorem free_clients_ends_witness:
  "\<exists>u u'. tun_reach sample_options u \<and> tcp_clients (tu_clients u) = [0] \<and> free_clients sample_options sample_lwip u = Some u' \<and>
    tcp_clients (tu_clients u') = []"
proof -
  let ?is = "[Accept sample_env 0 sample_pcb, Input 0 sample_lwip Callback_return]"
  have "\<exists>u. tun_run sample_options ?is tun_init = Some u \<and> tcp_clients (tu_clients u) = [0] \<and> no_callback u"
    by (simp add: sample_enabled sample_accept tun_init_def ts_init_def sample_accepted_def accepted_client_def
        listener_accept_return_def ts_after_Some no_callback_def del: tun_enabled.simps(1))
  then obtain u where u: "tun_run sample_options ?is tun_init = Some u" "tcp_clients (tu_clients u) = [0]" "no_callback u" by blast
  have r: "tun_reach sample_options u" by (rule tun_run_reach [OF u(1) tun_reach.init])
  show ?thesis using free_clients_ends [OF r u(3), of sample_lwip] r u(2) by blast
qed

end
