(* ===== verification/Udpgw_Client.thy ===== *)
theory Udpgw_Client
  imports Socket_Addresses Packet_Proto "HOL-Library.Monad_Syntax" "HOL-Library.Multiset"
begin

text \<open>
  The udpgw client (\<^verbatim>\<open>udpgw_client/UdpGwClient.c\<close>, \<^verbatim>\<open>protocol/udpgw_proto.h\<close>): UDP
  associations of the local programs are numbered connections to a remote server, over one
  stream. The connections are heap objects in two BAVL trees, by address pair and by number,
  and in a list with the least recently used one first. Each operation returns the object and
  the calls it makes; \<open>None\<close> is a failed assertion. The queue, the buffers and the stream
  below are called: whether a connection's buffer has room, whether memory can be allocated
  and whether the decoder can be initialised are parameters. Log messages are left out.
\<close>

section \<open>protocol/udpgw\_proto.h\<close>

definition UDPGW_CLIENT_FLAG_KEEPALIVE :: byte where "UDPGW_CLIENT_FLAG_KEEPALIVE = push_bit 0 1"
definition UDPGW_CLIENT_FLAG_REBIND :: byte where "UDPGW_CLIENT_FLAG_REBIND = push_bit 1 1"
definition UDPGW_CLIENT_FLAG_DNS :: byte where "UDPGW_CLIENT_FLAG_DNS = push_bit 2 1"
definition UDPGW_CLIENT_FLAG_IPV6 :: byte where "UDPGW_CLIENT_FLAG_IPV6 = push_bit 3 1"

lemmas udpgw_flags = UDPGW_CLIENT_FLAG_KEEPALIVE_def UDPGW_CLIENT_FLAG_REBIND_def UDPGW_CLIENT_FLAG_DNS_def
  UDPGW_CLIENT_FLAG_IPV6_def

definition udpgw_header :: "byte \<Rightarrow> u16 \<Rightarrow> bytes" where
  "udpgw_header flags conid = flags # mem16 conid"

definition udpgw_addr_ipv4 :: "u32 \<Rightarrow> u16 \<Rightarrow> bytes" where
  "udpgw_addr_ipv4 ip port = mem32 ip @ mem16 port"

definition udpgw_addr_ipv6 :: "bytes \<Rightarrow> u16 \<Rightarrow> bytes" where
  "udpgw_addr_ipv6 ip port = take 16 ip @ mem16 port"

text \<open>The Android build counts a \<^verbatim>\<open>socks_udp_header\<close> of four bytes instead of the
  \<^verbatim>\<open>udpgw_header\<close> of three.\<close>

definition udpgw_compute_mtu :: "int \<Rightarrow> int" where
  "udpgw_compute_mtu dgram_mtu =
     (case bsize_toint (bsize_add (bsize_fromsize 4)
         (bsize_add (bsize_max (bsize_fromsize 6) (bsize_fromsize 18)) (bsize_fromint dgram_mtu))) of
        None \<Rightarrow> - 1
      | Some s \<Rightarrow> s)"

section \<open>The object\<close>

type_synonym conaddr = "BAddr \<times> BAddr"

text \<open>\<open>uc_conaddr\<close> is the local and the remote address; \<open>uc_first_job\<close> tells whether the job
  that sends the first datagram is set.\<close>

record UdpGwClient_connection =
  uc_conaddr :: conaddr
  uc_first_flags :: byte
  uc_first_data :: bytes
  uc_conid :: u16
  uc_first_job :: bool

record UdpGwClient =
  ug_udp_mtu :: int
  ug_max_connections :: int
  ug_udpgw_mtu :: int
  ug_pp_mtu :: int
  ug_heap :: "nat \<rightharpoonup> UdpGwClient_connection"
  ug_by_conaddr :: "nat avl"
  ug_by_conid :: "nat avl"
  ug_list :: "nat list"
  ug_num_connections :: int
  ug_next_conid :: int
  ug_keepalive_sending :: bool
  ug_have_server :: bool

datatype udpgw_call =
  Ug_Send nat bytes
| Ug_Received BAddr BAddr bytes
| Ug_Recv_Done
| Ug_Keepalive bytes
| Ug_Server_Error
| Ug_Connect
| Ug_Disconnect

type_synonym ug_result = "(UdpGwClient \<times> udpgw_call list) option"

definition uint16_comparator :: "u16 \<Rightarrow> u16 \<Rightarrow> int" where
  "uint16_comparator v1 v2 = B_COMPARE (uint v1) (uint v2)"

definition udpgw_conaddr_comparator :: "conaddr \<Rightarrow> conaddr \<Rightarrow> int" where
  "udpgw_conaddr_comparator v1 v2 =
     (let r = BAddr_CompareOrder (snd v1) (snd v2) in
      if r \<noteq> 0 then r else BAddr_CompareOrder (fst v1) (fst v2))"

definition tree_by_conaddr :: "UdpGwClient \<Rightarrow> (nat, conaddr) BAVL" where
  "tree_by_conaddr ug =
     \<lparr>bavl_value = \<lambda>p. uc_conaddr (the (ug_heap ug p)), bavl_comparator = udpgw_conaddr_comparator,
      bavl_root = ug_by_conaddr ug\<rparr>"

definition tree_by_conid :: "UdpGwClient \<Rightarrow> (nat, u16) BAVL" where
  "tree_by_conid ug =
     \<lparr>bavl_value = \<lambda>p. uc_conid (the (ug_heap ug p)), bavl_comparator = uint16_comparator, bavl_root = ug_by_conid ug\<rparr>"

section \<open>Connections\<close>

definition find_connection_by_conaddr :: "UdpGwClient \<Rightarrow> conaddr \<Rightarrow> nat option option" where
  "find_connection_by_conaddr ug conaddr = BAVL_LookupExact (tree_by_conaddr ug) conaddr"

definition find_connection_by_conid :: "UdpGwClient \<Rightarrow> u16 \<Rightarrow> nat option option" where
  "find_connection_by_conid ug conid = BAVL_LookupExact (tree_by_conid ug) conid"

text \<open>The loop of \<open>find_unused_conid\<close>, and the function: the client with \<open>next_conid\<close> moved on and
  the number returned.\<close>

partial_function (option) conid_loop :: "UdpGwClient \<Rightarrow> UdpGwClient option" where
  "conid_loop ug =
     (case find_connection_by_conid ug (of_int (ug_next_conid ug)) of
        None \<Rightarrow> None
      | Some None \<Rightarrow> Some ug
      | Some (Some _) \<Rightarrow>
          conid_loop (ug\<lparr>ug_next_conid :=
            (if ug_next_conid ug = ug_max_connections ug - 1 then 0 else ug_next_conid ug + 1)\<rparr>))"

declare conid_loop.simps [code]

definition find_unused_conid :: "UdpGwClient \<Rightarrow> (UdpGwClient \<times> u16) option" where
  "find_unused_conid ug =
     (if ug_num_connections ug < ug_max_connections ug
      then map_option (\<lambda>ug. (ug, of_int (ug_next_conid ug))) (conid_loop ug) else None)"

text \<open>The packet \<open>connection_send\<close> writes to the buffer of the connection.\<close>

definition udpgw_packet :: "UdpGwClient_connection \<Rightarrow> byte \<Rightarrow> bytes \<Rightarrow> bytes" where
  "udpgw_packet con flags data =
     (let remote_addr = snd (uc_conaddr con);
          flags = (if BAddr_type remote_addr = BADDR_TYPE_IPV6 then flags OR UDPGW_CLIENT_FLAG_IPV6 else flags)
      in udpgw_header (ltoh8 flags) (ltoh16 (uc_conid con)) @
         (case remote_addr of
            BAddr_IPv4 ip port \<Rightarrow> udpgw_addr_ipv4 ip port
          | BAddr_IPv6 ip port \<Rightarrow> udpgw_addr_ipv6 ip port
          | _ \<Rightarrow> []) @ data)"

definition connection_send :: "UdpGwClient \<Rightarrow> nat \<Rightarrow> bool \<Rightarrow> byte \<Rightarrow> bytes \<Rightarrow> udpgw_call list option" where
  "connection_send ug p have_buf flags data = do {
     con \<leftarrow> ug_heap ug p;
     if int (length data) > ug_udp_mtu ug then None
     else if \<not> have_buf then Some []
     else (let packet = udpgw_packet con flags data in
       require (int (length packet) \<le> ug_udpgw_mtu ug) [Ug_Send p packet])
   }"

definition connection_first_job_handler :: "UdpGwClient \<Rightarrow> nat \<Rightarrow> bool \<Rightarrow> ug_result" where
  "connection_first_job_handler ug p have_buf = do {
     con \<leftarrow> ug_heap ug p;
     cs \<leftarrow> connection_send ug p have_buf (UDPGW_CLIENT_FLAG_REBIND OR uc_first_flags con) (uc_first_data con);
     Some (ug\<lparr>ug_heap := (ug_heap ug)(p \<mapsto> con\<lparr>uc_first_job := False\<rparr>)\<rparr>, cs)
   }"

text \<open>\<open>malloc\<close> is the address of the new structure, \<open>ppflow\<close> tells whether \<open>PacketProtoFlow_Init\<close>
  succeeds. The code stores a pointer to the caller's packet in \<open>first_data\<close>, the model the bytes. The
  two agree as long as the first job runs before the caller's buffer is used again. That is so
  because the job group is a stack: the first job is set after the job that gives the buffer back.\<close>

definition connection_init ::
  "UdpGwClient \<Rightarrow> nat option \<Rightarrow> bool \<Rightarrow> conaddr \<Rightarrow> byte \<Rightarrow> bytes \<Rightarrow> UdpGwClient option" where
  "connection_init ug malloc ppflow conaddr flags data =
     (if \<not> ug_num_connections ug < ug_max_connections ug \<or> find_connection_by_conaddr ug conaddr \<noteq> Some None \<or>
         \<not> int (length data) \<le> ug_udp_mtu ug then None
      else (case malloc of
        None \<Rightarrow> Some ug
      | Some p \<Rightarrow> do {
          (ug, conid) \<leftarrow> find_unused_conid ug;
          if \<not> ppflow then Some ug
          else do {
            let ug = ug\<lparr>ug_heap := (ug_heap ug)(p \<mapsto> \<lparr>uc_conaddr = conaddr, uc_first_flags = flags,
              uc_first_data = data, uc_conid = conid, uc_first_job = True\<rparr>)\<rparr>;
            (tr, ok, _) \<leftarrow> BAVL_Insert (tree_by_conaddr ug) p;
            ug \<leftarrow> require ok (ug\<lparr>ug_by_conaddr := bavl_root tr\<rparr>);
            (tr, ok, _) \<leftarrow> BAVL_Insert (tree_by_conid ug) p;
            ug \<leftarrow> require ok (ug\<lparr>ug_by_conid := bavl_root tr\<rparr>);
            Some (ug\<lparr>ug_list := ug_list ug @ [p], ug_num_connections := ug_num_connections ug + 1\<rparr>)
          }
        }))"

definition connection_free :: "UdpGwClient \<Rightarrow> nat \<Rightarrow> UdpGwClient option" where
  "connection_free ug p = do {
     con \<leftarrow> ug_heap ug p;
     let ug = ug\<lparr>ug_num_connections := ug_num_connections ug - 1, ug_list := remove1 p (ug_list ug)\<rparr>;
     tr \<leftarrow> BAVL_Remove (tree_by_conid ug) p;
     let ug = ug\<lparr>ug_by_conid := bavl_root tr\<rparr>;
     tr \<leftarrow> BAVL_Remove (tree_by_conaddr ug) p;
     let ug = ug\<lparr>ug_by_conaddr := bavl_root tr\<rparr>;
     Some (ug\<lparr>ug_heap := (ug_heap ug)(p := None)\<rparr>)
   }"

definition reuse_connection :: "UdpGwClient \<Rightarrow> conaddr \<Rightarrow> (UdpGwClient \<times> nat) option" where
  "reuse_connection ug conaddr =
     (if find_connection_by_conaddr ug conaddr \<noteq> Some None \<or> \<not> ug_num_connections ug > 0 then None
      else (case ug_list ug of
        [] \<Rightarrow> None
      | p # _ \<Rightarrow> do {
          con \<leftarrow> ug_heap ug p;
          tr \<leftarrow> BAVL_Remove (tree_by_conaddr ug) p;
          let ug = ug\<lparr>ug_by_conaddr := bavl_root tr, ug_heap := (ug_heap ug)(p \<mapsto> con\<lparr>uc_conaddr := conaddr\<rparr>)\<rparr>;
          (tr, ok, _) \<leftarrow> BAVL_Insert (tree_by_conaddr ug) p;
          ug \<leftarrow> require ok (ug\<lparr>ug_by_conaddr := bavl_root tr\<rparr>);
          Some (ug, p)
        }))"

text \<open>\<open>LinkedList1_Remove\<close> and \<open>LinkedList1_Append\<close>: the connection becomes the most recently used.\<close>

definition touch_connection :: "UdpGwClient \<Rightarrow> nat \<Rightarrow> UdpGwClient" where
  "touch_connection ug p = ug\<lparr>ug_list := remove1 p (ug_list ug) @ [p]\<rparr>"

section \<open>The operations\<close>

definition UdpGwClient_Init :: "int \<Rightarrow> int \<Rightarrow> int \<Rightarrow> UdpGwClient option" where
  "UdpGwClient_Init udp_mtu max_connections send_buffer_size =
     require (udp_mtu \<ge> 0 \<and> udpgw_compute_mtu udp_mtu \<ge> 0 \<and> udpgw_compute_mtu udp_mtu \<le> PACKETPROTO_MAXPAYLOAD \<and>
         max_connections > 0 \<and> send_buffer_size > 0)
       \<lparr>ug_udp_mtu = udp_mtu,
        ug_max_connections = (if max_connections > UINT16_MAX + 1 then UINT16_MAX + 1 else max_connections),
        ug_udpgw_mtu = udpgw_compute_mtu udp_mtu, ug_pp_mtu = udpgw_compute_mtu udp_mtu + 2,
        ug_heap = Map.empty, ug_by_conaddr = Leaf, ug_by_conid = Leaf, ug_list = [], ug_num_connections = 0,
        ug_next_conid = 0, ug_keepalive_sending = False, ug_have_server = False\<rparr>"

definition UdpGwClient_SubmitPacket ::
  "UdpGwClient \<Rightarrow> nat option \<Rightarrow> bool \<Rightarrow> bool \<Rightarrow> BAddr \<Rightarrow> BAddr \<Rightarrow> bool \<Rightarrow> bytes \<Rightarrow> ug_result" where
  "UdpGwClient_SubmitPacket ug malloc ppflow have_buf local_addr remote_addr is_dns data =
     (if (BAddr_type local_addr \<noteq> BADDR_TYPE_IPV4 \<and> BAddr_type local_addr \<noteq> BADDR_TYPE_IPV6) \<or>
         (BAddr_type remote_addr \<noteq> BADDR_TYPE_IPV4 \<and> BAddr_type remote_addr \<noteq> BADDR_TYPE_IPV6) \<or>
         \<not> int (length data) \<le> ug_udp_mtu ug then None
      else do {
        let conaddr = (local_addr, remote_addr);
        con \<leftarrow> find_connection_by_conaddr ug conaddr;
        let flags = (if is_dns then 0 OR UDPGW_CLIENT_FLAG_DNS else 0);
        (ug, con, flags) \<leftarrow>
          (if con = None \<and> ug_num_connections ug = ug_max_connections ug then do {
             (ug, p) \<leftarrow> reuse_connection ug conaddr;
             Some (ug, Some p, flags OR UDPGW_CLIENT_FLAG_REBIND)
           }
           else Some (ug, con, flags));
        (case con of
           None \<Rightarrow> do {
             ug \<leftarrow> connection_init ug malloc ppflow conaddr flags data;
             Some (ug, [])
           }
         | Some p \<Rightarrow> do {
             let ug = touch_connection ug p;
             cs \<leftarrow> connection_send ug p have_buf flags data;
             Some (ug, cs)
           })
      })"

text \<open>What \<open>recv_interface_handler_send\<close> reads from a packet: the number, the remote address and the
  payload.\<close>

definition udpgw_parse :: "bytes \<Rightarrow> (u16 \<times> BAddr \<times> bytes) option" where
  "udpgw_parse data =
     (if length data < 3 then None
      else (let flags = ltoh8 (data ! 0); conid = ltoh16 (unmem16 (drop 1 data)); data = drop 3 data in
        if flags AND UDPGW_CLIENT_FLAG_IPV6 \<noteq> 0 then
          (if length data < 18 then None
           else Some (conid, BAddr_MakeIPv6 (take 16 data) (unmem16 (drop 16 data)), drop 18 data))
        else
          (if length data < 6 then None
           else Some (conid, BAddr_MakeIPv4 (unmem32 data) (unmem16 (drop 4 data)), drop 6 data))))"

definition recv_interface_handler_send :: "UdpGwClient \<Rightarrow> bytes \<Rightarrow> ug_result" where
  "recv_interface_handler_send ug data =
     (if \<not> ug_have_server ug \<or> \<not> int (length data) \<le> ug_udpgw_mtu ug then None
      else (case udpgw_parse data of
        None \<Rightarrow> Some (ug, [Ug_Recv_Done])
      | Some (conid, remote_addr, data) \<Rightarrow>
          if int (length data) > ug_udp_mtu ug then Some (ug, [Ug_Recv_Done])
          else do {
            c \<leftarrow> find_connection_by_conid ug conid;
            (case c of
               None \<Rightarrow> Some (ug, [Ug_Recv_Done])
             | Some p \<Rightarrow> do {
                 con \<leftarrow> ug_heap ug p;
                 if BAddr_CompareOrder (snd (uc_conaddr con)) remote_addr \<noteq> 0 then Some (ug, [Ug_Recv_Done])
                 else Some (touch_connection ug p,
                   [Ug_Recv_Done, Ug_Received (fst (uc_conaddr con)) (snd (uc_conaddr con)) data])
               })
          }))"

definition keepalive_packet :: bytes where
  "keepalive_packet = mem16 3 @ udpgw_header UDPGW_CLIENT_FLAG_KEEPALIVE 0"

definition send_monitor_handler :: "UdpGwClient \<Rightarrow> UdpGwClient \<times> udpgw_call list" where
  "send_monitor_handler ug =
     (if ug_keepalive_sending ug then (ug, [])
      else (ug\<lparr>ug_keepalive_sending := True\<rparr>, [Ug_Keepalive keepalive_packet]))"

definition keepalive_if_handler_done :: "UdpGwClient \<Rightarrow> UdpGwClient option" where
  "keepalive_if_handler_done ug = require (ug_keepalive_sending ug) (ug\<lparr>ug_keepalive_sending := False\<rparr>)"

definition decoder_handler_error :: "UdpGwClient \<Rightarrow> udpgw_call list option" where
  "decoder_handler_error ug = require (ug_have_server ug) [Ug_Server_Error]"

text \<open>\<open>decoder\<close> tells whether \<open>PacketProtoDecoder_Init\<close> succeeds; the flag is the return value.\<close>

definition UdpGwClient_ConnectServer :: "UdpGwClient \<Rightarrow> bool \<Rightarrow> (UdpGwClient \<times> udpgw_call list \<times> bool) option" where
  "UdpGwClient_ConnectServer ug decoder =
     (if ug_have_server ug then None
      else if \<not> decoder then Some (ug, [], False)
      else Some (ug\<lparr>ug_have_server := True\<rparr>, [Ug_Connect], True))"

definition free_server :: "udpgw_call list" where
  "free_server = [Ug_Disconnect]"

definition UdpGwClient_DisconnectServer :: "UdpGwClient \<Rightarrow> ug_result" where
  "UdpGwClient_DisconnectServer ug = require (ug_have_server ug) (ug\<lparr>ug_have_server := False\<rparr>, free_server)"

partial_function (option) free_udpgw_connections :: "UdpGwClient \<Rightarrow> UdpGwClient option" where
  "free_udpgw_connections ug =
     (case ug_list ug of
        [] \<Rightarrow> Some ug
      | p # _ \<Rightarrow> Option.bind (connection_free ug p) free_udpgw_connections)"

declare free_udpgw_connections.simps [code]

definition UdpGwClient_Free :: "UdpGwClient \<Rightarrow> ug_result" where
  "UdpGwClient_Free ug = do {
     ug \<leftarrow> free_udpgw_connections ug;
     Some (ug, if ug_have_server ug then free_server else [])
   }"

section \<open>The trees\<close>

context total_comparator
begin

text \<open>The order of a tree depends on the values of its own nodes only.\<close>

lemma ordered_tree_cong:
  assumes "ordered_tree tr" "bavl_root tr' = bavl_root tr" "bavl_comparator tr' = bavl_comparator tr"
    "\<forall>n\<in>set (bavl_nodes tr). bavl_value tr' n = bavl_value tr n"
  shows "ordered_tree tr'"
proof -
  have n: "bavl_nodes tr' = bavl_nodes tr" using assms(2) by (simp add: bavl_nodes_def)
  have "sorted_wrt (bavl_less tr) (bavl_nodes tr)" using assms(1) by (simp add: ordered_tree_def bavl_ok_def)
  then have "sorted_wrt (bavl_less tr') (bavl_nodes tr)"
    by (rule sorted_wrt_mono_rel [rotated]) (use assms(3,4) in \<open>auto simp: bavl_less_def\<close>)
  then show ?thesis using assms n by (simp add: ordered_tree_def bavl_ok_def)
qed

end

interpretation uint16_cmp: total_comparator uint16_comparator "\<lambda>_. True"
  by unfold_locales (auto simp: uint16_comparator_def B_COMPARE_def word_uint_eq_iff split: if_splits)

fun conaddr_ok :: "conaddr \<Rightarrow> bool" where
  "conaddr_ok (l, r) \<longleftrightarrow> baddr_ok l \<and> baddr_ok r \<and> l \<noteq> BAddr_None \<and> r \<noteq> BAddr_None"

interpretation conaddr_cmp: total_comparator udpgw_conaddr_comparator conaddr_ok
proof
  fix x y z :: conaddr
  assume xy: "conaddr_ok x" "conaddr_ok y"
  obtain xl xr yl yr zl zr where e: "x = (xl, xr)" "y = (yl, yr)" "z = (zl, zr)" by (metis surj_pair)
  have ok: "baddr_ok xl" "baddr_ok xr" "baddr_ok yl" "baddr_ok yr" using xy e by auto
  show "udpgw_conaddr_comparator x y = - 1 \<or> udpgw_conaddr_comparator x y = 0 \<or> udpgw_conaddr_comparator x y = 1"
    using baddr.cmp_range [OF ok(1,3)] baddr.cmp_range [OF ok(2,4)] e by (auto simp: udpgw_conaddr_comparator_def Let_def)
  show "udpgw_conaddr_comparator x y = 0 \<longleftrightarrow> x = y"
    using baddr.cmp_eq [OF ok(1,3)] baddr.cmp_eq [OF ok(2,4)] e by (auto simp: udpgw_conaddr_comparator_def Let_def)
  show "udpgw_conaddr_comparator y x = - udpgw_conaddr_comparator x y"
    using baddr.cmp_swap [OF ok(1,3)] baddr.cmp_swap [OF ok(2,4)] e by (simp add: udpgw_conaddr_comparator_def Let_def)
  show "udpgw_conaddr_comparator x z = - 1" if z: "conaddr_ok z" "udpgw_conaddr_comparator x y = - 1" "udpgw_conaddr_comparator y z = - 1"
  proof -
    have okz: "baddr_ok zl" "baddr_ok zr" using z(1) e by auto
    consider "xr = yr" "yr = zr" | "xr = yr" "BAddr_CompareOrder yr zr = - 1" | "BAddr_CompareOrder xr yr = - 1" "yr = zr"
      | "BAddr_CompareOrder xr yr = - 1" "BAddr_CompareOrder yr zr = - 1"
      using z(2,3) e baddr.cmp_eq [OF ok(2,4)] baddr.cmp_eq [OF ok(4) okz(2)]
      by (auto simp: udpgw_conaddr_comparator_def Let_def split: if_splits)
    then show ?thesis
      by cases (use z(2,3) e ok okz baddr.cmp_trans [OF ok(1,3) okz(1)] baddr.cmp_trans [OF ok(2,4) okz(2)] in
        \<open>auto simp: udpgw_conaddr_comparator_def Let_def\<close>)
  qed
qed

section \<open>The invariant\<close>

definition con_ok :: "UdpGwClient \<Rightarrow> UdpGwClient_connection \<Rightarrow> bool" where
  "con_ok ug con \<longleftrightarrow> conaddr_ok (uc_conaddr con) \<and> uint (uc_conid con) < ug_max_connections ug \<and>
     int (length (uc_first_data con)) \<le> ug_udp_mtu ug"

definition ug_ok :: "UdpGwClient \<Rightarrow> bool" where
  "ug_ok ug \<longleftrightarrow> conaddr_cmp.ordered_tree (tree_by_conaddr ug) \<and> uint16_cmp.ordered_tree (tree_by_conid ug) \<and>
     set (inorder (ug_by_conaddr ug)) = dom (ug_heap ug) \<and> set (inorder (ug_by_conid ug)) = dom (ug_heap ug) \<and>
     set (ug_list ug) = dom (ug_heap ug) \<and> distinct (ug_list ug) \<and> ug_num_connections ug = int (length (ug_list ug)) \<and>
     ug_num_connections ug \<le> ug_max_connections ug \<and> 0 < ug_max_connections ug \<and> ug_max_connections ug \<le> 65536 \<and>
     0 \<le> ug_next_conid ug \<and> ug_next_conid ug < ug_max_connections ug \<and>
     0 \<le> ug_udp_mtu ug \<and> ug_udpgw_mtu ug = ug_udp_mtu ug + 22 \<and>
     (\<forall>p con. ug_heap ug p = Some con \<longrightarrow> con_ok ug con)"

lemma tree_simps [simp]:
  "bavl_nodes (tree_by_conaddr ug) = inorder (ug_by_conaddr ug)" "bavl_root (tree_by_conaddr ug) = ug_by_conaddr ug"
  "bavl_comparator (tree_by_conaddr ug) = udpgw_conaddr_comparator" "bavl_value (tree_by_conaddr ug) p = uc_conaddr (the (ug_heap ug p))"
  "bavl_nodes (tree_by_conid ug) = inorder (ug_by_conid ug)" "bavl_root (tree_by_conid ug) = ug_by_conid ug"
  "bavl_comparator (tree_by_conid ug) = uint16_comparator" "bavl_value (tree_by_conid ug) p = uc_conid (the (ug_heap ug p))"
  by (simp_all add: tree_by_conaddr_def tree_by_conid_def bavl_nodes_def)

lemma ug_okD:
  assumes "ug_ok ug"
  shows "conaddr_cmp.ordered_tree (tree_by_conaddr ug)" "uint16_cmp.ordered_tree (tree_by_conid ug)"
    "set (inorder (ug_by_conaddr ug)) = dom (ug_heap ug)" "set (inorder (ug_by_conid ug)) = dom (ug_heap ug)"
    "set (ug_list ug) = dom (ug_heap ug)" "distinct (ug_list ug)" "ug_num_connections ug = int (length (ug_list ug))"
    "ug_num_connections ug \<le> ug_max_connections ug" "0 < ug_max_connections ug" "ug_max_connections ug \<le> 65536"
    "0 \<le> ug_next_conid ug" "ug_next_conid ug < ug_max_connections ug" "0 \<le> ug_udp_mtu ug" "ug_udpgw_mtu ug = ug_udp_mtu ug + 22"
    "ug_heap ug p = Some con \<Longrightarrow> con_ok ug con"
  using assms unfolding ug_ok_def by blast+

lemma find_conaddr:
  assumes "ug_ok ug" "conaddr_ok a"
  shows "\<exists>r. find_connection_by_conaddr ug a = Some r \<and> (\<forall>p. r = Some p \<longleftrightarrow> (\<exists>con. ug_heap ug p = Some con \<and> uc_conaddr con = a))"
proof -
  obtain r where r: "find_connection_by_conaddr ug a = Some r"
    "\<forall>p. r = Some p \<longleftrightarrow> p \<in> dom (ug_heap ug) \<and> uc_conaddr (the (ug_heap ug p)) = a"
    using conaddr_cmp.tree.look [OF ug_okD(1) [OF assms(1)] assms(2)] ug_okD(3) [OF assms(1)]
    by (auto simp: find_connection_by_conaddr_def)
  have "p \<in> dom (ug_heap ug) \<and> uc_conaddr (the (ug_heap ug p)) = a \<longleftrightarrow> (\<exists>con. ug_heap ug p = Some con \<and> uc_conaddr con = a)" for p
    by auto
  then show ?thesis using r by auto
qed

lemma find_conid:
  assumes "ug_ok ug"
  shows "\<exists>r. find_connection_by_conid ug i = Some r \<and> (\<forall>p. r = Some p \<longleftrightarrow> (\<exists>con. ug_heap ug p = Some con \<and> uc_conid con = i))"
proof -
  obtain r where r: "find_connection_by_conid ug i = Some r"
    "\<forall>p. r = Some p \<longleftrightarrow> p \<in> dom (ug_heap ug) \<and> uc_conid (the (ug_heap ug p)) = i"
    using uint16_cmp.tree.look [OF ug_okD(2) [OF assms], of i] ug_okD(4) [OF assms]
    by (auto simp: find_connection_by_conid_def)
  have "p \<in> dom (ug_heap ug) \<and> uc_conid (the (ug_heap ug p)) = i \<longleftrightarrow> (\<exists>con. ug_heap ug p = Some con \<and> uc_conid con = i)" for p
    by auto
  then show ?thesis using r by auto
qed

lemma conaddr_unique:
  "ug_ok ug \<Longrightarrow> ug_heap ug p = Some c \<Longrightarrow> ug_heap ug q = Some d \<Longrightarrow> uc_conaddr c = uc_conaddr d \<Longrightarrow> p = q"
  using find_conaddr [of ug "uc_conaddr c"] ug_okD(15) [of ug p c] by (metis con_ok_def option.inject)

lemma conid_unique:
  "ug_ok ug \<Longrightarrow> ug_heap ug p = Some c \<Longrightarrow> ug_heap ug q = Some d \<Longrightarrow> uc_conid c = uc_conid d \<Longrightarrow> p = q"
  using find_conid [of ug "uc_conid c"] by (metis option.inject)

section \<open>Unused numbers\<close>

definition unused_conid :: "UdpGwClient \<Rightarrow> int \<Rightarrow> bool" where
  "unused_conid ug k \<longleftrightarrow> (\<forall>p con. ug_heap ug p = Some con \<longrightarrow> uint (uc_conid con) \<noteq> k)"

lemma uint_conid: "0 \<le> k \<Longrightarrow> k < 65536 \<Longrightarrow> uint (of_int k :: u16) = k"
  by (simp add: uint_word_of_int_eq take_bit_int_eq_self)

lemma unused_conid_exists:
  assumes "ug_ok ug" "ug_num_connections ug < ug_max_connections ug"
  shows "\<exists>k. 0 \<le> k \<and> k < ug_max_connections ug \<and> unused_conid ug k"
proof -
  let ?used = "(\<lambda>p. uint (uc_conid (the (ug_heap ug p)))) ` set (ug_list ug)"
  have "card ?used \<le> length (ug_list ug)" by (meson card_image_le card_length finite_set le_trans)
  then have "card ?used < card {0..<ug_max_connections ug}" using assms(2) ug_okD(7) [OF assms(1)] by simp
  then have "\<not> {0..<ug_max_connections ug} \<subseteq> ?used" by (meson card_mono finite_imageI finite_set leD)
  then obtain k where k: "k \<in> {0..<ug_max_connections ug}" "k \<notin> ?used" by blast
  have "unused_conid ug k" unfolding unused_conid_def using k(2) ug_okD(5) [OF assms(1)] by force
  then show ?thesis using k(1) by auto
qed

lemma find_conid_unused:
  assumes "ug_ok ug" "0 \<le> k" "k < ug_max_connections ug"
  shows "\<exists>r. find_connection_by_conid ug (of_int k) = Some r \<and> (r = None \<longleftrightarrow> unused_conid ug k)"
proof -
  have k: "uint (of_int k :: u16) = k" using uint_conid [of k] assms ug_okD(10) [OF assms(1)] by simp
  obtain r where r: "find_connection_by_conid ug (of_int k) = Some r"
    "\<forall>p. r = Some p \<longleftrightarrow> (\<exists>con. ug_heap ug p = Some con \<and> uc_conid con = of_int k)"
    using find_conid [OF assms(1)] by blast
  have c: "uc_conid con = of_int k \<longleftrightarrow> uint (uc_conid con) = k" for con using k by (metis word_uint_eq_iff)
  have "r = None \<longleftrightarrow> unused_conid ug k" using r(2) unfolding unused_conid_def c by (metis not_None_eq)
  then show ?thesis using r(1) by blast
qed

lemma ug_ok_next: "ug_ok ug \<Longrightarrow> 0 \<le> n \<Longrightarrow> n < ug_max_connections ug \<Longrightarrow> ug_ok (ug\<lparr>ug_next_conid := n\<rparr>)"
  by (simp add: ug_ok_def tree_by_conaddr_def tree_by_conid_def con_ok_def)

lemma cyclic_step:
  assumes "0 \<le> n" "n < (m :: int)" "0 \<le> k" "k < m" "k \<noteq> n"
  shows "nat ((k - (if n = m - 1 then 0 else n + 1)) mod m) < nat ((k - n) mod m)"
proof -
  have r: "(k - n) mod m = (if k < n then k - n + m else k - n)"
  proof (cases "k < n")
    case True
    then have "(k - n) mod m = (k - n + m) mod m" by simp
    also have "\<dots> = k - n + m" using True assms by (intro mod_pos_pos_trivial) auto
    finally show ?thesis using True by simp
  qed (use assms in \<open>auto intro!: mod_pos_pos_trivial\<close>)
  let ?n = "if n = m - 1 then 0 else n + 1"
  have "(k - ?n) mod m = (k - n) mod m - 1"
  proof (cases "k < n")
    case True
    then show ?thesis
    proof (cases "n = m - 1")
      case False
      then have "(k - (n + 1)) mod m = (k - (n + 1) + m) mod m" by simp
      also have "\<dots> = k - (n + 1) + m" using True False assms by (intro mod_pos_pos_trivial) auto
      finally show ?thesis using r True False by simp
    qed (use r True assms in auto)
  next
    case False
    then show ?thesis using r assms by auto
  qed
  moreover have "0 < (k - n) mod m" using r assms by auto
  ultimately show ?thesis by simp
qed

lemma conid_loop_ends:
  assumes "ug_ok ug" "0 \<le> k" "k < ug_max_connections ug" "unused_conid ug k"
  shows "\<exists>n. conid_loop ug = Some (ug\<lparr>ug_next_conid := n\<rparr>) \<and> 0 \<le> n \<and> n < ug_max_connections ug \<and> unused_conid ug n"
  using assms
proof (induction "nat ((k - ug_next_conid ug) mod ug_max_connections ug)" arbitrary: ug rule: less_induct)
  case (less ug)
  let ?n = "ug_next_conid ug" and ?m = "ug_max_connections ug"
  have n: "0 \<le> ?n" "?n < ?m" using ug_okD(11,12) [OF less.prems(1)] by simp_all
  obtain r where r: "find_connection_by_conid ug (of_int ?n) = Some r" "r = None \<longleftrightarrow> unused_conid ug ?n"
    using find_conid_unused [OF less.prems(1) n] by blast
  show ?case
  proof (cases r)
    case None
    then have "conid_loop ug = Some ug" using r(1) by (subst conid_loop.simps) simp
    then show ?thesis using None r(2) n by (intro exI [of _ ?n]) simp
  next
    case (Some p)
    let ?next = "if ?n = ?m - 1 then 0 else ?n + 1"
    let ?ug = "ug\<lparr>ug_next_conid := ?next\<rparr>"
    have "k \<noteq> ?n" using Some r(2) less.prems(4) by auto
    then have "nat ((k - ug_next_conid ?ug) mod ug_max_connections ?ug) < nat ((k - ?n) mod ?m)"
      using cyclic_step [OF n less.prems(2,3)] by simp
    moreover have "ug_ok ?ug" using less.prems(1) n by (intro ug_ok_next) auto
    ultimately have "\<exists>n. conid_loop ?ug = Some (?ug\<lparr>ug_next_conid := n\<rparr>) \<and> 0 \<le> n \<and> n < ug_max_connections ?ug \<and> unused_conid ?ug n"
      using less.prems(2-4) by (intro less.hyps) (simp_all add: unused_conid_def)
    moreover have "conid_loop ug = conid_loop ?ug" using r(1) Some by (subst conid_loop.simps) simp
    ultimately show ?thesis by (simp add: unused_conid_def)
  qed
qed

lemma find_unused_conid_ok:
  assumes "ug_ok ug" "ug_num_connections ug < ug_max_connections ug"
  shows "\<exists>n. find_unused_conid ug = Some (ug\<lparr>ug_next_conid := n\<rparr>, of_int n) \<and> ug_ok (ug\<lparr>ug_next_conid := n\<rparr>) \<and>
    0 \<le> n \<and> n < ug_max_connections ug \<and> unused_conid ug n"
proof -
  obtain n where "conid_loop ug = Some (ug\<lparr>ug_next_conid := n\<rparr>)" "0 \<le> n" "n < ug_max_connections ug" "unused_conid ug n"
    using unused_conid_exists [OF assms] conid_loop_ends [OF assms(1)] by blast
  then show ?thesis using ug_ok_next [OF assms(1)] assms(2) by (intro exI [of _ n]) (simp add: find_unused_conid_def)
qed

section \<open>The operations on connections\<close>

text \<open>Inserting into and removing from the two trees.\<close>

lemma conaddr_insert:
  assumes "conaddr_cmp.ordered_tree (tree_by_conaddr ug)" "conaddr_ok (uc_conaddr (the (ug_heap ug p)))"
    "\<forall>q\<in>set (inorder (ug_by_conaddr ug)). uc_conaddr (the (ug_heap ug q)) \<noteq> uc_conaddr (the (ug_heap ug p))"
  shows "\<exists>tr ref. BAVL_Insert (tree_by_conaddr ug) p = Some (tr, True, ref) \<and>
    conaddr_cmp.ordered_tree (tree_by_conaddr (ug\<lparr>ug_by_conaddr := bavl_root tr\<rparr>)) \<and>
    set (inorder (bavl_root tr)) = insert p (set (inorder (ug_by_conaddr ug)))"
proof -
  obtain tr ref where t: "BAVL_Insert (tree_by_conaddr ug) p = Some (tr, True, ref)" "conaddr_cmp.ordered_tree tr"
    "set (bavl_nodes tr) = insert p (set (inorder (ug_by_conaddr ug)))" "bavl_value tr = bavl_value (tree_by_conaddr ug)"
    using conaddr_cmp.tree.ins_new [OF assms(1), of p] assms(2,3) by auto
  have "conaddr_cmp.ordered_tree (tree_by_conaddr (ug\<lparr>ug_by_conaddr := bavl_root tr\<rparr>))"
    by (rule conaddr_cmp.ordered_tree_cong [OF t(2)]) (use t in \<open>auto simp: conaddr_cmp.ordered_tree_def\<close>)
  then show ?thesis using t by (auto simp: bavl_nodes_def)
qed

lemma conid_insert:
  assumes "uint16_cmp.ordered_tree (tree_by_conid ug)"
    "\<forall>q\<in>set (inorder (ug_by_conid ug)). uc_conid (the (ug_heap ug q)) \<noteq> uc_conid (the (ug_heap ug p))"
  shows "\<exists>tr ref. BAVL_Insert (tree_by_conid ug) p = Some (tr, True, ref) \<and>
    uint16_cmp.ordered_tree (tree_by_conid (ug\<lparr>ug_by_conid := bavl_root tr\<rparr>)) \<and>
    set (inorder (bavl_root tr)) = insert p (set (inorder (ug_by_conid ug)))"
proof -
  obtain tr ref where t: "BAVL_Insert (tree_by_conid ug) p = Some (tr, True, ref)" "uint16_cmp.ordered_tree tr"
    "set (bavl_nodes tr) = insert p (set (inorder (ug_by_conid ug)))" "bavl_value tr = bavl_value (tree_by_conid ug)"
    using uint16_cmp.tree.ins_new [OF assms(1), of p] assms(2) by auto
  have "uint16_cmp.ordered_tree (tree_by_conid (ug\<lparr>ug_by_conid := bavl_root tr\<rparr>))"
    by (rule uint16_cmp.ordered_tree_cong [OF t(2)]) (use t in \<open>auto simp: uint16_cmp.ordered_tree_def\<close>)
  then show ?thesis using t by (auto simp: bavl_nodes_def)
qed

lemma conaddr_remove:
  assumes "conaddr_cmp.ordered_tree (tree_by_conaddr ug)" "p \<in> set (inorder (ug_by_conaddr ug))"
  shows "\<exists>tr. BAVL_Remove (tree_by_conaddr ug) p = Some tr \<and>
    conaddr_cmp.ordered_tree (tree_by_conaddr (ug\<lparr>ug_by_conaddr := bavl_root tr\<rparr>)) \<and>
    set (inorder (bavl_root tr)) = set (inorder (ug_by_conaddr ug)) - {p}"
proof -
  obtain tr where t: "BAVL_Remove (tree_by_conaddr ug) p = Some tr" "conaddr_cmp.ordered_tree tr"
    "set (bavl_nodes tr) = set (inorder (ug_by_conaddr ug)) - {p}" "bavl_value tr = bavl_value (tree_by_conaddr ug)"
    using conaddr_cmp.tree.del [OF assms(1), of p] assms(2) by auto
  have "conaddr_cmp.ordered_tree (tree_by_conaddr (ug\<lparr>ug_by_conaddr := bavl_root tr\<rparr>))"
    by (rule conaddr_cmp.ordered_tree_cong [OF t(2)]) (use t in \<open>auto simp: conaddr_cmp.ordered_tree_def\<close>)
  then show ?thesis using t by (auto simp: bavl_nodes_def)
qed

lemma conid_remove:
  assumes "uint16_cmp.ordered_tree (tree_by_conid ug)" "p \<in> set (inorder (ug_by_conid ug))"
  shows "\<exists>tr. BAVL_Remove (tree_by_conid ug) p = Some tr \<and>
    uint16_cmp.ordered_tree (tree_by_conid (ug\<lparr>ug_by_conid := bavl_root tr\<rparr>)) \<and>
    set (inorder (bavl_root tr)) = set (inorder (ug_by_conid ug)) - {p}"
proof -
  obtain tr where t: "BAVL_Remove (tree_by_conid ug) p = Some tr" "uint16_cmp.ordered_tree tr"
    "set (bavl_nodes tr) = set (inorder (ug_by_conid ug)) - {p}" "bavl_value tr = bavl_value (tree_by_conid ug)"
    using uint16_cmp.tree.del [OF assms(1), of p] assms(2) by auto
  have "uint16_cmp.ordered_tree (tree_by_conid (ug\<lparr>ug_by_conid := bavl_root tr\<rparr>))"
    by (rule uint16_cmp.ordered_tree_cong [OF t(2)]) (use t in \<open>auto simp: uint16_cmp.ordered_tree_def\<close>)
  then show ?thesis using t by (auto simp: bavl_nodes_def)
qed

text \<open>What the operations leave alone.\<close>

definition ug_params :: "UdpGwClient \<Rightarrow> int \<times> int \<times> int \<times> bool \<times> bool" where
  "ug_params ug = (ug_udp_mtu ug, ug_max_connections ug, ug_udpgw_mtu ug, ug_keepalive_sending ug, ug_have_server ug)"

lemma connection_init_ok:
  assumes "ug_ok ug" "conaddr_ok a" "find_connection_by_conaddr ug a = Some None" "ug_num_connections ug < ug_max_connections ug"
    "ug_heap ug p = None" "int (length data) \<le> ug_udp_mtu ug"
  shows "\<exists>ug' n. connection_init ug (Some p) True a flags data = Some ug' \<and> ug_ok ug' \<and> 0 \<le> n \<and> n < ug_max_connections ug \<and>
    unused_conid ug n \<and> ug_list ug' = ug_list ug @ [p] \<and> ug_params ug' = ug_params ug \<and>
    ug_heap ug' = (ug_heap ug)(p \<mapsto> \<lparr>uc_conaddr = a, uc_first_flags = flags, uc_first_data = data, uc_conid = of_int n, uc_first_job = True\<rparr>)"
proof -
  obtain n where n: "find_unused_conid ug = Some (ug\<lparr>ug_next_conid := n\<rparr>, of_int n)" "ug_ok (ug\<lparr>ug_next_conid := n\<rparr>)"
    "0 \<le> n" "n < ug_max_connections ug" "unused_conid ug n"
    using find_unused_conid_ok [OF assms(1,4)] by blast
  define con where "con = \<lparr>uc_conaddr = a, uc_first_flags = flags, uc_first_data = data, uc_conid = of_int n :: u16, uc_first_job = True\<rparr>"
  define u where "u = ug\<lparr>ug_next_conid := n, ug_heap := (ug_heap ug)(p \<mapsto> con)\<rparr>"
  note D = ug_okD [OF n(2), simplified]
  have nin: "p \<notin> set (inorder (ug_by_conaddr ug))" "p \<notin> set (inorder (ug_by_conid ug))" "p \<notin> set (ug_list ug)"
    using D(3-5) assms(5) by auto
  have new: "uc_conaddr c \<noteq> a" if "ug_heap ug q = Some c" for q c
    using find_conaddr [OF assms(1,2)] assms(3) that by auto
  have uint: "uint (of_int n :: u16) = n" using n(3,4) D(10) by (intro uint_conid) auto
  have oa: "conaddr_cmp.ordered_tree (tree_by_conaddr u)"
    by (rule conaddr_cmp.ordered_tree_cong [OF D(1)]) (use nin in \<open>auto simp: u_def\<close>)
  have va: "conaddr_ok (uc_conaddr (the (ug_heap u p)))" using assms(2) by (simp add: u_def con_def)
  have na: "\<forall>q\<in>set (inorder (ug_by_conaddr u)). uc_conaddr (the (ug_heap u q)) \<noteq> uc_conaddr (the (ug_heap u p))"
  proof
    fix q
    assume "q \<in> set (inorder (ug_by_conaddr u))"
    then have "q \<noteq> p" "q \<in> dom (ug_heap ug)" using nin(1) D(3) by (auto simp: u_def)
    then obtain c where "q \<noteq> p" "ug_heap ug q = Some c" by blast
    then show "uc_conaddr (the (ug_heap u q)) \<noteq> uc_conaddr (the (ug_heap u p))" using new [of q c] by (simp add: u_def con_def)
  qed
  obtain ta ra where ta: "BAVL_Insert (tree_by_conaddr u) p = Some (ta, True, ra)"
    "conaddr_cmp.ordered_tree (tree_by_conaddr (u\<lparr>ug_by_conaddr := bavl_root ta\<rparr>))"
    "set (inorder (bavl_root ta)) = insert p (set (inorder (ug_by_conaddr u)))"
    using conaddr_insert [OF oa va na] by blast
  define v where "v = u\<lparr>ug_by_conaddr := bavl_root ta\<rparr>"
  have oi: "uint16_cmp.ordered_tree (tree_by_conid v)"
    by (rule uint16_cmp.ordered_tree_cong [OF D(2)]) (use nin in \<open>auto simp: u_def v_def\<close>)
  have newi: "uc_conid c \<noteq> of_int n" if "ug_heap ug q = Some c" for q c
    using n(5) that uint unfolding unused_conid_def by metis
  have ni: "\<forall>q\<in>set (inorder (ug_by_conid v)). uc_conid (the (ug_heap v q)) \<noteq> uc_conid (the (ug_heap v p))"
  proof
    fix q
    assume "q \<in> set (inorder (ug_by_conid v))"
    then have "q \<noteq> p" "q \<in> dom (ug_heap ug)" using nin(2) D(4) by (auto simp: u_def v_def)
    then obtain c where "q \<noteq> p" "ug_heap ug q = Some c" by blast
    then show "uc_conid (the (ug_heap v q)) \<noteq> uc_conid (the (ug_heap v p))" using newi [of q c] by (simp add: u_def v_def con_def)
  qed
  obtain ti ri where ti: "BAVL_Insert (tree_by_conid v) p = Some (ti, True, ri)"
    "uint16_cmp.ordered_tree (tree_by_conid (v\<lparr>ug_by_conid := bavl_root ti\<rparr>))"
    "set (inorder (bavl_root ti)) = insert p (set (inorder (ug_by_conid v)))"
    using conid_insert [OF oi ni] by blast
  define w where "w = v\<lparr>ug_by_conid := bavl_root ti, ug_list := ug_list v @ [p], ug_num_connections := ug_num_connections v + 1\<rparr>"
  have "connection_init ug (Some p) True a flags data = Some w"
    using assms(3,4,6) n(1) ta(1) ti(1)
    by (simp add: connection_init_def u_def [unfolded con_def, symmetric] v_def [symmetric] w_def require_def)
  moreover have "conaddr_cmp.ordered_tree (tree_by_conaddr w)"
    by (rule conaddr_cmp.ordered_tree_cong [OF ta(2)]) (simp_all add: w_def v_def)
  moreover have "uint16_cmp.ordered_tree (tree_by_conid w)"
    by (rule uint16_cmp.ordered_tree_cong [OF ti(2)]) (simp_all add: w_def v_def)
  moreover have "con_ok w con" using assms(2,6) uint n(4) by (simp add: con_ok_def con_def w_def v_def u_def)
  moreover have "con_ok w c" if "ug_heap ug q = Some c" for q c
    using D(15) [of q c] that by (simp add: con_ok_def w_def v_def u_def)
  ultimately show ?thesis using ta(3) ti(3) D nin n assms(4)
    by (intro exI [of _ w] exI [of _ n]) (auto simp: ug_ok_def w_def v_def u_def con_def ug_params_def)
qed

lemma connection_free_ok:
  assumes "ug_ok ug" "ug_heap ug p = Some con"
  shows "\<exists>ug'. connection_free ug p = Some ug' \<and> ug_ok ug' \<and> ug_list ug' = remove1 p (ug_list ug) \<and> ug_params ug' = ug_params ug \<and>
    ug_heap ug' = (ug_heap ug)(p := None)"
proof -
  note D = ug_okD [OF assms(1)]
  define u where "u = ug\<lparr>ug_num_connections := ug_num_connections ug - 1, ug_list := remove1 p (ug_list ug)\<rparr>"
  have p: "p \<in> set (ug_list ug)" using D(5) assms(2) by auto
  have oi: "uint16_cmp.ordered_tree (tree_by_conid u)"
    by (rule uint16_cmp.ordered_tree_cong [OF D(2)]) (simp_all add: u_def)
  have pi: "p \<in> set (inorder (ug_by_conid u))" using D(4) assms(2) by (auto simp: u_def)
  obtain ti where ti: "BAVL_Remove (tree_by_conid u) p = Some ti"
    "uint16_cmp.ordered_tree (tree_by_conid (u\<lparr>ug_by_conid := bavl_root ti\<rparr>))"
    "set (inorder (bavl_root ti)) = set (inorder (ug_by_conid u)) - {p}"
    using conid_remove [OF oi pi] by blast
  define v where "v = u\<lparr>ug_by_conid := bavl_root ti\<rparr>"
  have oa: "conaddr_cmp.ordered_tree (tree_by_conaddr v)"
    by (rule conaddr_cmp.ordered_tree_cong [OF D(1)]) (simp_all add: u_def v_def)
  have pa: "p \<in> set (inorder (ug_by_conaddr v))" using D(3) assms(2) by (auto simp: u_def v_def)
  obtain ta where ta: "BAVL_Remove (tree_by_conaddr v) p = Some ta"
    "conaddr_cmp.ordered_tree (tree_by_conaddr (v\<lparr>ug_by_conaddr := bavl_root ta\<rparr>))"
    "set (inorder (bavl_root ta)) = set (inorder (ug_by_conaddr v)) - {p}"
    using conaddr_remove [OF oa pa] by blast
  define w where "w = v\<lparr>ug_by_conaddr := bavl_root ta, ug_heap := (ug_heap ug)(p := None)\<rparr>"
  have "connection_free ug p = Some w"
    using assms(2) ti(1) ta(1)
    by (simp add: connection_free_def u_def [symmetric] v_def [symmetric] w_def) (simp add: u_def v_def)
  moreover have "conaddr_cmp.ordered_tree (tree_by_conaddr w)"
    by (rule conaddr_cmp.ordered_tree_cong [OF ta(2)]) (use ta(3) in \<open>auto simp: w_def v_def u_def\<close>)
  moreover have "uint16_cmp.ordered_tree (tree_by_conid w)"
    by (rule uint16_cmp.ordered_tree_cong [OF ti(2)]) (use ti(3) in \<open>auto simp: w_def v_def u_def\<close>)
  moreover have "con_ok w c" if "ug_heap ug q = Some c" for q c
    using D(15) that by (simp add: con_ok_def w_def v_def u_def)
  moreover have "int (length (remove1 p (ug_list ug))) = ug_num_connections ug - 1"
    using p D(7) length_pos_if_in_set [OF p] by (simp add: length_remove1 of_nat_diff Suc_le_eq)
  ultimately show ?thesis using ta(3) ti(3) D p
    by (intro exI [of _ w]) (auto simp: ug_ok_def w_def v_def u_def ug_params_def split: if_splits)
qed

lemma reuse_connection_ok:
  assumes "ug_ok ug" "conaddr_ok a" "find_connection_by_conaddr ug a = Some None" "ug_list ug = p # ps"
  shows "\<exists>ug' con. reuse_connection ug a = Some (ug', p) \<and> ug_ok ug' \<and> ug_heap ug p = Some con \<and>
    ug_heap ug' = (ug_heap ug)(p \<mapsto> con\<lparr>uc_conaddr := a\<rparr>) \<and> ug_list ug' = ug_list ug \<and> ug_params ug' = ug_params ug"
proof -
  note D = ug_okD [OF assms(1)]
  obtain con where con: "ug_heap ug p = Some con" using D(5) assms(4) by fastforce
  have new: "uc_conaddr c \<noteq> a" if "ug_heap ug q = Some c" for q c
    using find_conaddr [OF assms(1,2)] assms(3) that by auto
  have pa: "p \<in> set (inorder (ug_by_conaddr ug))" using D(3) con by auto
  obtain tr where tr: "BAVL_Remove (tree_by_conaddr ug) p = Some tr"
    "conaddr_cmp.ordered_tree (tree_by_conaddr (ug\<lparr>ug_by_conaddr := bavl_root tr\<rparr>))"
    "set (inorder (bavl_root tr)) = set (inorder (ug_by_conaddr ug)) - {p}"
    using conaddr_remove [OF D(1) pa] by blast
  define u where "u = ug\<lparr>ug_by_conaddr := bavl_root tr, ug_heap := (ug_heap ug)(p \<mapsto> con\<lparr>uc_conaddr := a\<rparr>)\<rparr>"
  have ou: "conaddr_cmp.ordered_tree (tree_by_conaddr u)"
    by (rule conaddr_cmp.ordered_tree_cong [OF tr(2)]) (use tr(3) in \<open>auto simp: u_def\<close>)
  have vu: "conaddr_ok (uc_conaddr (the (ug_heap u p)))" using assms(2) by (simp add: u_def)
  have nu: "\<forall>q\<in>set (inorder (ug_by_conaddr u)). uc_conaddr (the (ug_heap u q)) \<noteq> uc_conaddr (the (ug_heap u p))"
  proof
    fix q
    assume "q \<in> set (inorder (ug_by_conaddr u))"
    then have "q \<noteq> p" "q \<in> dom (ug_heap ug)" using tr(3) D(3) by (auto simp: u_def)
    then obtain c where "q \<noteq> p" "ug_heap ug q = Some c" by blast
    then show "uc_conaddr (the (ug_heap u q)) \<noteq> uc_conaddr (the (ug_heap u p))" using new [of q c] by (simp add: u_def)
  qed
  obtain ta ra where ta: "BAVL_Insert (tree_by_conaddr u) p = Some (ta, True, ra)"
    "conaddr_cmp.ordered_tree (tree_by_conaddr (u\<lparr>ug_by_conaddr := bavl_root ta\<rparr>))"
    "set (inorder (bavl_root ta)) = insert p (set (inorder (ug_by_conaddr u)))"
    using conaddr_insert [OF ou vu nu] by blast
  define w where "w = u\<lparr>ug_by_conaddr := bavl_root ta\<rparr>"
  have "ug_num_connections ug > 0" using D(7) assms(4) by simp
  then have "reuse_connection ug a = Some (w, p)"
    using assms(3,4) con tr(1) ta(1) by (simp add: reuse_connection_def u_def [symmetric] w_def require_def)
  moreover have "uint16_cmp.ordered_tree (tree_by_conid w)"
    by (rule uint16_cmp.ordered_tree_cong [OF D(2)]) (use con in \<open>auto simp: w_def u_def\<close>)
  moreover have "con_ok w (con\<lparr>uc_conaddr := a\<rparr>)" using D(15) [OF con] assms(2) by (simp add: con_ok_def w_def u_def)
  moreover have "con_ok w c" if "ug_heap ug q = Some c" for q c using D(15) that by (simp add: con_ok_def w_def u_def)
  ultimately show ?thesis using ta(2,3) tr(3) D con
    by (intro exI [of _ w] exI [of _ con]) (auto simp: ug_ok_def w_def u_def ug_params_def)
qed

lemma ug_ok_touch:
  assumes "ug_ok ug" "p \<in> set (ug_list ug)"
  shows "ug_ok (touch_connection ug p)"
  using assms length_pos_if_in_set [OF assms(2)]
  by (auto simp: ug_ok_def touch_connection_def tree_by_conaddr_def tree_by_conid_def con_ok_def length_remove1 of_nat_diff Suc_le_eq)

lemma ug_ok_flags [simp]:
  "ug_ok (ug\<lparr>ug_have_server := b\<rparr>) = ug_ok ug" "ug_ok (ug\<lparr>ug_keepalive_sending := b\<rparr>) = ug_ok ug"
  by (simp_all add: ug_ok_def tree_by_conaddr_def tree_by_conid_def con_ok_def)

lemma ug_ok_first:
  assumes "ug_ok ug" "ug_heap ug p = Some con"
  shows "ug_ok (ug\<lparr>ug_heap := (ug_heap ug)(p \<mapsto> con\<lparr>uc_first_job := b\<rparr>)\<rparr>)"
proof -
  let ?u = "ug\<lparr>ug_heap := (ug_heap ug)(p \<mapsto> con\<lparr>uc_first_job := b\<rparr>)\<rparr>"
  note D = ug_okD [OF assms(1)]
  have "conaddr_cmp.ordered_tree (tree_by_conaddr ?u)" by (rule conaddr_cmp.ordered_tree_cong [OF D(1)]) (use assms(2) in auto)
  moreover have "uint16_cmp.ordered_tree (tree_by_conid ?u)" by (rule uint16_cmp.ordered_tree_cong [OF D(2)]) (use assms(2) in auto)
  moreover have "con_ok ?u (con\<lparr>uc_first_job := b\<rparr>)" using D(15) [OF assms(2)] by (simp add: con_ok_def)
  moreover have "con_ok ?u c" if "ug_heap ug q = Some c" for q c using D(15) that by (simp add: con_ok_def)
  ultimately show ?thesis using D assms(2) by (auto simp: ug_ok_def)
qed

section \<open>Packets\<close>

lemma conaddr_ok_type:
  "conaddr_ok a \<Longrightarrow> (BAddr_type (fst a) = BADDR_TYPE_IPV4 \<or> BAddr_type (fst a) = BADDR_TYPE_IPV6) \<and>
    (BAddr_type (snd a) = BADDR_TYPE_IPV4 \<or> BAddr_type (snd a) = BADDR_TYPE_IPV6)"
  by (cases a; cases "fst a"; cases "snd a") auto

text \<open>A packet carries the number and the remote address of its connection and the payload.\<close>

lemma udpgw_parse_packet:
  assumes "conaddr_ok (uc_conaddr con)" "flags AND UDPGW_CLIENT_FLAG_IPV6 = 0"
  shows "udpgw_parse (udpgw_packet con flags data) = Some (uc_conid con, snd (uc_conaddr con), data)"
proof -
  have v6: "(flags OR UDPGW_CLIENT_FLAG_IPV6) AND UDPGW_CLIENT_FLAG_IPV6 \<noteq> 0"
    by (simp add: bit.conj_disj_distrib2 udpgw_flags)
  have "snd (uc_conaddr con) \<noteq> BAddr_None" "baddr_ok (snd (uc_conaddr con))" using assms(1) by (cases "uc_conaddr con"; simp)+
  then show ?thesis using assms(2) v6
    by (cases "snd (uc_conaddr con)")
      (simp_all add: udpgw_packet_def udpgw_parse_def udpgw_header_def udpgw_addr_ipv4_def udpgw_addr_ipv6_def Let_def
        BAddr_MakeIPv4_def BAddr_MakeIPv6_def byte_order_defs BADDR_TYPE_IPV4_def BADDR_TYPE_IPV6_def)
qed

lemma udpgw_packet_length:
  "conaddr_ok (uc_conaddr con) \<Longrightarrow> length (udpgw_packet con flags data) \<le> length data + 21"
  by (cases "snd (uc_conaddr con)")
    (auto simp: udpgw_packet_def udpgw_header_def udpgw_addr_ipv4_def udpgw_addr_ipv6_def Let_def)

lemma connection_send_ok:
  assumes "ug_ok ug" "ug_heap ug p = Some con" "int (length data) \<le> ug_udp_mtu ug"
  shows "connection_send ug p have_buf flags data = Some (if have_buf then [Ug_Send p (udpgw_packet con flags data)] else [])"
  using assms(2,3) udpgw_packet_length [of con flags data] ug_okD(14) [OF assms(1)] ug_okD(15) [OF assms(1,2)]
  by (simp add: connection_send_def con_ok_def require_def)

section \<open>The client as a table of associations\<close>

text \<open>The abstract client: the associations (address pair and number), the least recently used one
  first. A datagram of the pair \<open>a\<close> goes out with a number, and with a mark when the server has to
  forget what the number stood for.\<close>

type_synonym lru = "(conaddr \<times> u16) list"

inductive lru_submit :: "nat \<Rightarrow> lru \<Rightarrow> conaddr \<Rightarrow> lru \<Rightarrow> u16 \<Rightarrow> bool \<Rightarrow> bool" where
  known: "(a, i) \<in> set t \<Longrightarrow> lru_submit m t a (remove1 (a, i) t @ [(a, i)]) i False"
| reuse: "a \<notin> fst ` set ((b, i) # t) \<Longrightarrow> length ((b, i) # t) = m \<Longrightarrow> lru_submit m ((b, i) # t) a (t @ [(a, i)]) i True"
| fresh: "a \<notin> fst ` set t \<Longrightarrow> length t < m \<Longrightarrow> i \<notin> snd ` set t \<Longrightarrow> unat i < m \<Longrightarrow> lru_submit m t a (t @ [(a, i)]) i True"

definition lru_ok :: "nat \<Rightarrow> lru \<Rightarrow> bool" where
  "lru_ok m t \<longleftrightarrow> distinct (map fst t) \<and> distinct (map snd t) \<and> length t \<le> m \<and> (\<forall>i\<in>snd ` set t. unat i < m)"

text \<open>A table in which every pair and every number occurs once stays one.\<close>

lemma lru_submit_ok: "lru_submit m t a t' i r \<Longrightarrow> lru_ok m t \<Longrightarrow> lru_ok m t'"
proof (induction rule: lru_submit.induct)
  case (known a i t m)
  have "mset (remove1 (a, i) t @ [(a, i)]) = mset t" using known.hyps by simp
  then have "mset (map f (remove1 (a, i) t @ [(a, i)])) = mset (map f t)" for f :: "conaddr \<times> u16 \<Rightarrow> 'x" by (metis mset_map)
  then have "distinct (map f (remove1 (a, i) t @ [(a, i)])) = distinct (map f t)" for f :: "conaddr \<times> u16 \<Rightarrow> 'x"
    by (metis mset_eq_imp_distinct_iff)
  moreover have "length (remove1 (a, i) t @ [(a, i)]) = length t" "set (remove1 (a, i) t @ [(a, i)]) = set t"
    using \<open>mset (remove1 (a, i) t @ [(a, i)]) = mset t\<close> mset_eq_length mset_eq_setD by blast+
  ultimately show ?case using known.prems unfolding lru_ok_def by metis
qed (auto simp: lru_ok_def)

text \<open>An association is kept as long as fewer than \<open>m\<close> pairs are used after it.\<close>

lemma lru_submit_keeps:
  assumes "lru_submit m t b t' j r" "lru_ok m t" "t = xs @ (a, i) # ys" "fst ` set ys \<subseteq> B" "finite B" "card (insert b B - {a}) < m"
  shows "\<exists>xs' ys'. t' = xs' @ (a, i) # ys' \<and> fst ` set ys' \<subseteq> insert b B"
  using assms(1)
proof cases
  case known
  then consider "(b, j) = (a, i)" | "(b, j) \<in> set xs" "(b, j) \<noteq> (a, i)" | "(b, j) \<in> set ys" "(b, j) \<noteq> (a, i)" "(b, j) \<notin> set xs"
    using assms(3) by auto
  then show ?thesis
  proof cases
    case 1
    then show ?thesis using known(1) by (intro exI [of _ "remove1 (a, i) t"] exI [of _ "[]"]) simp
  next
    case 2
    then show ?thesis using known(1) assms(3,4)
      by (intro exI [of _ "remove1 (b, j) xs"] exI [of _ "ys @ [(b, j)]"]) (auto simp: remove1_append)
  next
    case 3
    have "fst ` set (remove1 (b, j) ys) \<subseteq> B" using assms(4) set_remove1_subset by fastforce
    then show ?thesis using known(1) assms(3) 3
      by (intro exI [of _ xs] exI [of _ "remove1 (b, j) ys @ [(b, j)]"]) (auto simp: remove1_append)
  qed
next
  case (reuse b' u)
  show ?thesis
  proof (cases xs)
    case Nil
    then have ys: "t = (a, i) # ys" "distinct (map fst ys)" "a \<notin> fst ` set ys" "b \<notin> fst ` set ys" "b \<noteq> a" "Suc (length ys) = m"
      using assms(2,3) reuse by (auto simp: lru_ok_def)
    then have "insert b (fst ` set ys) \<subseteq> insert b B - {a}" using assms(4) by auto
    then have "card (insert b (fst ` set ys)) \<le> card (insert b B - {a})" using assms(5) by (intro card_mono) auto
    moreover have "card (insert b (fst ` set ys)) = m"
      using ys distinct_card [OF ys(2)] by (simp add: card_insert_if)
    ultimately show ?thesis using assms(6) by simp
  next
    case (Cons x xs')
    then show ?thesis using reuse assms(3,4) by (intro exI [of _ xs'] exI [of _ "ys @ [(b, j)]"]) auto
  qed
next
  case fresh
  then show ?thesis using assms(3,4) by (intro exI [of _ xs] exI [of _ "ys @ [(b, j)]"]) auto
qed

section \<open>Events\<close>

text \<open>The job that sends the first datagram of a connection runs when the handler that submitted the
  datagram returns, before anything else happens. The number of the new structure is not one in use.\<close>

definition ug_pending :: "UdpGwClient \<Rightarrow> nat option" where
  "ug_pending ug = find (\<lambda>p. uc_first_job (the (ug_heap ug p))) (ug_list ug)"

definition submit_event ::
  "UdpGwClient \<Rightarrow> nat option \<Rightarrow> bool \<Rightarrow> bool \<Rightarrow> BAddr \<Rightarrow> BAddr \<Rightarrow> bool \<Rightarrow> bytes \<Rightarrow> ug_result" where
  "submit_event ug malloc ppflow have_buf local_addr remote_addr is_dns data = do {
     (ug, cs) \<leftarrow> UdpGwClient_SubmitPacket ug malloc ppflow have_buf local_addr remote_addr is_dns data;
     (case ug_pending ug of
        None \<Rightarrow> Some (ug, cs)
      | Some p \<Rightarrow> do {
          (ug, cs') \<leftarrow> connection_first_job_handler ug p have_buf;
          Some (ug, cs @ cs')
        })
   }"

datatype ug_event =
  Ev_Submit "nat option" bool bool BAddr BAddr bool bytes
| Ev_Recv bytes
| Ev_Idle
| Ev_Keepalive_Done
| Ev_Decoder_Error
| Ev_Connect bool
| Ev_Disconnect

fun ug_step :: "UdpGwClient \<Rightarrow> ug_event \<Rightarrow> ug_result" where
  "ug_step ug (Ev_Submit malloc ppflow have_buf l r is_dns data) = submit_event ug malloc ppflow have_buf l r is_dns data"
| "ug_step ug (Ev_Recv data) = recv_interface_handler_send ug data"
| "ug_step ug Ev_Idle = Some (send_monitor_handler ug)"
| "ug_step ug Ev_Keepalive_Done = map_option (\<lambda>ug. (ug, [])) (keepalive_if_handler_done ug)"
| "ug_step ug Ev_Decoder_Error = map_option (\<lambda>cs. (ug, cs)) (decoder_handler_error ug)"
| "ug_step ug (Ev_Connect decoder) = map_option (\<lambda>(ug, cs, _). (ug, cs)) (UdpGwClient_ConnectServer ug decoder)"
| "ug_step ug Ev_Disconnect = UdpGwClient_DisconnectServer ug"

fun ug_enabled :: "UdpGwClient \<Rightarrow> ug_event \<Rightarrow> bool" where
  "ug_enabled ug (Ev_Submit malloc ppflow have_buf l r is_dns data) \<longleftrightarrow>
     conaddr_ok (l, r) \<and> int (length data) \<le> ug_udp_mtu ug \<and> (malloc = None \<or> ug_heap ug (the malloc) = None)"
| "ug_enabled ug (Ev_Recv data) \<longleftrightarrow> ug_have_server ug \<and> int (length data) \<le> ug_udpgw_mtu ug"
| "ug_enabled ug Ev_Idle \<longleftrightarrow> True"
| "ug_enabled ug Ev_Keepalive_Done \<longleftrightarrow> ug_keepalive_sending ug"
| "ug_enabled ug Ev_Decoder_Error \<longleftrightarrow> ug_have_server ug"
| "ug_enabled ug (Ev_Connect decoder) \<longleftrightarrow> \<not> ug_have_server ug"
| "ug_enabled ug Ev_Disconnect \<longleftrightarrow> ug_have_server ug"

inductive ug_reach :: "UdpGwClient \<Rightarrow> bool" where
  init: "UdpGwClient_Init udp_mtu max_connections send_buffer_size = Some ug \<Longrightarrow> udp_mtu \<le> INT_MAX \<Longrightarrow> ug_reach ug"
| step: "ug_reach ug \<Longrightarrow> ug_enabled ug ev \<Longrightarrow> ug_step ug ev = Some (ug', cs) \<Longrightarrow> ug_reach ug'"

text \<open>The table of a client, and its invariant between two events.\<close>

definition assoc_of :: "UdpGwClient \<Rightarrow> nat \<Rightarrow> conaddr \<times> u16" where
  "assoc_of ug p = (let con = the (ug_heap ug p) in (uc_conaddr con, uc_conid con))"

definition ug_lru :: "UdpGwClient \<Rightarrow> lru" where
  "ug_lru ug = map (assoc_of ug) (ug_list ug)"

definition ug_inv :: "UdpGwClient \<Rightarrow> bool" where
  "ug_inv ug \<longleftrightarrow> ug_ok ug \<and> (\<forall>p con. ug_heap ug p = Some con \<longrightarrow> \<not> uc_first_job con)"

lemma mem_lru: "ug_ok ug \<Longrightarrow> (a, i) \<in> set (ug_lru ug) \<longleftrightarrow> (\<exists>p con. ug_heap ug p = Some con \<and> uc_conaddr con = a \<and> uc_conid con = i)"
  using ug_okD(5) [of ug] by (force simp: ug_lru_def assoc_of_def Let_def dom_def)

lemma lru_ok_lru:
  assumes "ug_ok ug"
  shows "lru_ok (nat (ug_max_connections ug)) (ug_lru ug)"
proof -
  note D = ug_okD [OF assms]
  have p: "\<exists>con. ug_heap ug p = Some con" if "p \<in> set (ug_list ug)" for p using that D(5) by auto
  have "inj_on (\<lambda>p. uc_conaddr (the (ug_heap ug p))) (set (ug_list ug))"
    by (rule inj_onI) (metis p conaddr_unique [OF assms] option.sel)
  moreover have "inj_on (\<lambda>p. uc_conid (the (ug_heap ug p))) (set (ug_list ug))"
    by (rule inj_onI) (metis p conid_unique [OF assms] option.sel)
  moreover have "unat (uc_conid con) < nat (ug_max_connections ug)" if "ug_heap ug q = Some con" for q con
    using D(15) [OF that] D(9) unfolding con_ok_def unat_eq_nat_uint by (simp only: zless_nat_conj)
  ultimately show ?thesis using D(6-8) p
    by (auto simp: lru_ok_def ug_lru_def assoc_of_def Let_def distinct_map o_def)
qed

lemma map_remove1_inj:
  "inj_on f (insert x (set xs)) \<Longrightarrow> map f (remove1 x xs) = remove1 (f x) (map f xs)"
  by (induction xs) (auto simp: inj_on_def)

lemma lru_touch:
  assumes "ug_ok ug" "ug_heap ug p = Some con"
  shows "ug_lru (touch_connection ug p) = remove1 (uc_conaddr con, uc_conid con) (ug_lru ug) @ [(uc_conaddr con, uc_conid con)]"
proof -
  note D = ug_okD [OF assms(1)]
  have "p \<in> set (ug_list ug)" using D(5) assms(2) by auto
  moreover have "distinct (ug_lru ug)" using lru_ok_lru [OF assms(1)] by (simp add: lru_ok_def distinct_map)
  then have "inj_on (assoc_of ug) (set (ug_list ug))" by (simp add: ug_lru_def distinct_map)
  ultimately have "map (assoc_of ug) (remove1 p (ug_list ug)) = remove1 (assoc_of ug p) (ug_lru ug)"
    by (subst map_remove1_inj) (simp_all add: insert_absorb ug_lru_def)
  moreover have "assoc_of (touch_connection ug p) = assoc_of ug" by (simp add: fun_eq_iff assoc_of_def touch_connection_def)
  ultimately show ?thesis using assms(2) by (simp add: ug_lru_def touch_connection_def assoc_of_def Let_def)
qed

section \<open>Every event\<close>

definition ug_max :: "UdpGwClient \<Rightarrow> nat" where
  "ug_max ug = nat (ug_max_connections ug)"

text \<open>The packet of a datagram: the number and the flags, sent when the buffer has room.\<close>

definition sends :: "UdpGwClient \<Rightarrow> conaddr \<Rightarrow> u16 \<Rightarrow> byte \<Rightarrow> bytes \<Rightarrow> bool \<Rightarrow> udpgw_call list \<Rightarrow> bool" where
  "sends ug a i flags data have_buf cs \<longleftrightarrow>
     (\<exists>p con. ug_heap ug p = Some con \<and> uc_conaddr con = a \<and> uc_conid con = i \<and>
       cs = (if have_buf then [Ug_Send p (udpgw_packet con flags data)] else []))"

definition submit_flags :: "bool \<Rightarrow> bool \<Rightarrow> byte" where
  "submit_flags rebind is_dns =
     (if rebind then UDPGW_CLIENT_FLAG_REBIND else 0) OR (if is_dns then UDPGW_CLIENT_FLAG_DNS else 0)"

lemma ug_pending_none: "ug_inv ug \<Longrightarrow> ug_list ug' = ug_list ug \<or> set (ug_list ug') = set (ug_list ug) \<Longrightarrow>
    (\<And>p. uc_first_job (the (ug_heap ug' p)) = uc_first_job (the (ug_heap ug p))) \<Longrightarrow> ug_pending ug' = None"
  using ug_okD(5) [of ug] by (fastforce simp: ug_pending_def find_None_iff ug_inv_def)

text \<open>A datagram of a known pair.\<close>

lemma submit_known:
  assumes "ug_inv ug" "conaddr_ok (l, r)" "int (length data) \<le> ug_udp_mtu ug" "((l, r), i) \<in> set (ug_lru ug)"
  shows "\<exists>ug' cs. submit_event ug malloc ppflow have_buf l r is_dns data = Some (ug', cs) \<and> ug_inv ug' \<and> ug_params ug' = ug_params ug \<and>
    lru_submit (ug_max ug) (ug_lru ug) (l, r) (ug_lru ug') i False \<and> sends ug' (l, r) i (submit_flags False is_dns) data have_buf cs"
proof -
  have ok: "ug_ok ug" using assms(1) by (simp add: ug_inv_def)
  obtain p con where p: "ug_heap ug p = Some con" "uc_conaddr con = (l, r)" "uc_conid con = i"
    using assms(4) mem_lru [OF ok] by auto
  have f: "find_connection_by_conaddr ug (l, r) = Some (Some p)" using find_conaddr [OF ok assms(2)] p by auto
  let ?t = "touch_connection ug p"
  have t: "ug_heap ?t = ug_heap ug" "ug_udp_mtu ?t = ug_udp_mtu ug" "ug_params ?t = ug_params ug" "set (ug_list ?t) = set (ug_list ug)"
    using p(1) ug_okD(5,6) [OF ok] by (auto simp: touch_connection_def ug_params_def)
  have okt: "ug_ok ?t" using ug_ok_touch [OF ok] p(1) ug_okD(5) [OF ok] by auto
  have cs: "connection_send ?t p have_buf (submit_flags False is_dns) data =
      Some (if have_buf then [Ug_Send p (udpgw_packet con (submit_flags False is_dns) data)] else [])"
    using connection_send_ok [OF okt] t p(1) assms(3) by simp
  have "ug_pending ?t = None" using ug_pending_none [OF assms(1)] t by simp
  then have "submit_event ug malloc ppflow have_buf l r is_dns data =
      Some (?t, if have_buf then [Ug_Send p (udpgw_packet con (submit_flags False is_dns) data)] else [])"
    using f cs conaddr_ok_type [OF assms(2)] assms(3)
    by (cases is_dns; cases have_buf) (simp_all add: submit_event_def UdpGwClient_SubmitPacket_def submit_flags_def Let_def)
  moreover have "lru_submit (ug_max ug) (ug_lru ug) (l, r) (ug_lru ?t) i False"
    using lru_touch [OF ok p(1)] known [OF assms(4)] p(2,3) by simp
  moreover have "ug_inv ?t" using okt t assms(1) by (simp add: ug_inv_def)
  ultimately show ?thesis using t p by (auto simp: sends_def)
qed

lemma lru_unknown: "ug_ok ug \<Longrightarrow> conaddr_ok a \<Longrightarrow> a \<notin> fst ` set (ug_lru ug) \<Longrightarrow> find_connection_by_conaddr ug a = Some None"
  using find_conaddr [of ug a] mem_lru [of ug a] by (metis fst_conv image_eqI not_None_eq)

lemma lru_length: "ug_ok ug \<Longrightarrow> int (length (ug_lru ug)) = ug_num_connections ug"
  using ug_okD(7) by (simp add: ug_lru_def)

text \<open>A datagram of a new pair when the table is full.\<close>

lemma submit_reuse:
  assumes "ug_inv ug" "conaddr_ok (l, r)" "int (length data) \<le> ug_udp_mtu ug" "(l, r) \<notin> fst ` set (ug_lru ug)"
    "length (ug_lru ug) = ug_max ug"
  shows "\<exists>ug' cs i. submit_event ug malloc ppflow have_buf l r is_dns data = Some (ug', cs) \<and> ug_inv ug' \<and> ug_params ug' = ug_params ug \<and>
    lru_submit (ug_max ug) (ug_lru ug) (l, r) (ug_lru ug') i True \<and> sends ug' (l, r) i (submit_flags True is_dns) data have_buf cs"
proof -
  have ok: "ug_ok ug" using assms(1) by (simp add: ug_inv_def)
  note D = ug_okD [OF ok]
  have full: "ug_num_connections ug = ug_max_connections ug" using assms(5) lru_length [OF ok] D(9) by (simp add: ug_max_def)
  have f: "find_connection_by_conaddr ug (l, r) = Some None" using lru_unknown [OF ok assms(2,4)] .
  obtain p ps where ps: "ug_list ug = p # ps" using full D(7,9) by (cases "ug_list ug") auto
  obtain ug1 con where u: "reuse_connection ug (l, r) = Some (ug1, p)" "ug_ok ug1" "ug_heap ug p = Some con"
    "ug_heap ug1 = (ug_heap ug)(p \<mapsto> con\<lparr>uc_conaddr := (l, r)\<rparr>)" "ug_list ug1 = ug_list ug" "ug_params ug1 = ug_params ug"
    using reuse_connection_ok [OF ok assms(2) f ps] by blast
  let ?con = "con\<lparr>uc_conaddr := (l, r)\<rparr>" and ?t = "touch_connection ug1 p"
  have t: "ug_heap ?t = ug_heap ug1" "ug_udp_mtu ?t = ug_udp_mtu ug" "ug_params ?t = ug_params ug" "ug_list ?t = ps @ [p]"
    using u(5,6) ps by (simp_all add: touch_connection_def ug_params_def)
  have okt: "ug_ok ?t" using ug_ok_touch [OF u(2)] u(5) ps by simp
  have cs: "connection_send ?t p have_buf (submit_flags True is_dns) data =
      Some (if have_buf then [Ug_Send p (udpgw_packet ?con (submit_flags True is_dns) data)] else [])"
    using connection_send_ok [OF okt] t u(4) assms(3) by simp
  have "ug_pending ?t = None" using ug_pending_none [OF assms(1)] t u(3,4) ps by simp
  then have "submit_event ug malloc ppflow have_buf l r is_dns data =
      Some (?t, if have_buf then [Ug_Send p (udpgw_packet ?con (submit_flags True is_dns) data)] else [])"
    using f u(1) full cs conaddr_ok_type [OF assms(2)] assms(3)
    by (cases is_dns; cases have_buf) (simp_all add: submit_event_def UdpGwClient_SubmitPacket_def submit_flags_def Let_def or.commute)
  moreover have "lru_submit (ug_max ug) (ug_lru ug) (l, r) (ug_lru ?t) (uc_conid con) True"
  proof -
    have "p \<notin> set ps" using D(6) ps by simp
    then have "map (assoc_of ?t) ps = map (assoc_of ug) ps" using t(1) u(4) by (auto simp: assoc_of_def)
    then have "ug_lru ug = (uc_conaddr con, uc_conid con) # map (assoc_of ug) ps"
      "ug_lru ?t = map (assoc_of ug) ps @ [((l, r), uc_conid con)]"
      using ps t(1,4) u(3,4) by (simp_all add: ug_lru_def assoc_of_def)
    then show ?thesis using reuse [of "(l, r)"] assms(4,5) by simp
  qed
  moreover have "ug_inv ?t" using okt t u(3,4) assms(1) by (simp add: ug_inv_def)
  ultimately show ?thesis using t u by (force simp: sends_def)
qed

lemma find_snoc: "find P xs = None \<Longrightarrow> find P (xs @ [x]) = (if P x then Some x else None)"
  by (induction xs) (auto split: if_splits)

text \<open>A datagram of a new pair when there is room: the job of the new connection sends it.\<close>

lemma submit_fresh:
  assumes "ug_inv ug" "conaddr_ok (l, r)" "int (length data) \<le> ug_udp_mtu ug" "(l, r) \<notin> fst ` set (ug_lru ug)"
    "length (ug_lru ug) \<noteq> ug_max ug" "ug_heap ug p = None"
  shows "\<exists>ug' cs i. submit_event ug (Some p) True have_buf l r is_dns data = Some (ug', cs) \<and> ug_inv ug' \<and> ug_params ug' = ug_params ug \<and>
    lru_submit (ug_max ug) (ug_lru ug) (l, r) (ug_lru ug') i True \<and> sends ug' (l, r) i (submit_flags True is_dns) data have_buf cs"
proof -
  have ok: "ug_ok ug" using assms(1) by (simp add: ug_inv_def)
  note D = ug_okD [OF ok]
  have room: "ug_num_connections ug < ug_max_connections ug" using assms(5) lru_length [OF ok] D(8) by (simp add: ug_max_def)
  have f: "find_connection_by_conaddr ug (l, r) = Some None" using lru_unknown [OF ok assms(2,4)] .
  let ?flags = "if is_dns then UDPGW_CLIENT_FLAG_DNS else 0"
  obtain ug1 n where u: "connection_init ug (Some p) True (l, r) ?flags data = Some ug1" "ug_ok ug1" "0 \<le> n"
    "n < ug_max_connections ug" "unused_conid ug n" "ug_list ug1 = ug_list ug @ [p]" "ug_params ug1 = ug_params ug"
    "ug_heap ug1 = (ug_heap ug)(p \<mapsto> \<lparr>uc_conaddr = (l, r), uc_first_flags = ?flags, uc_first_data = data,
      uc_conid = of_int n, uc_first_job = True\<rparr>)"
    using connection_init_ok [OF ok assms(2) f room assms(6,3)] by metis
  define con where "con = the (ug_heap ug1 p)"
  have con: "ug_heap ug1 p = Some con" "uc_conaddr con = (l, r)" "uc_first_flags con = ?flags" "uc_first_data con = data"
    "uc_conid con = of_int n" "uc_first_job con"
    using u(8) by (simp_all add: con_def)
  let ?con = "con\<lparr>uc_first_job := False\<rparr>"
  let ?t = "ug1\<lparr>ug_heap := (ug_heap ug1)(p \<mapsto> ?con)\<rparr>"
  have pk: "udpgw_packet con fl d = udpgw_packet ?con fl d" for fl d by (simp add: udpgw_packet_def)
  have nin: "p \<notin> set (ug_list ug)" using assms(6) D(5) by auto
  have mtu: "int (length data) \<le> ug_udp_mtu ug1" using assms(3) u(7) by (simp add: ug_params_def)
  have "ug_pending ug1 = Some p"
  proof -
    have "\<not> uc_first_job (the (ug_heap ug1 q))" if "q \<in> set (ug_list ug)" for q
      using that assms(1) nin u(8) D(5) by (auto simp: ug_inv_def dom_def)
    then have "find (\<lambda>q. uc_first_job (the (ug_heap ug1 q))) (ug_list ug) = None" by (simp add: find_None_iff)
    then show ?thesis using con(1,6) u(6) by (simp add: ug_pending_def find_snoc)
  qed
  then have "submit_event ug (Some p) True have_buf l r is_dns data =
      Some (?t, if have_buf then [Ug_Send p (udpgw_packet ?con (submit_flags True is_dns) data)] else [])"
    using f u(1) room conaddr_ok_type [OF assms(2)] assms(3) con connection_send_ok [OF u(2) con(1) mtu]
    by (cases is_dns; cases have_buf) (simp_all add: submit_event_def UdpGwClient_SubmitPacket_def submit_flags_def Let_def
      connection_first_job_handler_def pk)
  moreover have "lru_submit (ug_max ug) (ug_lru ug) (l, r) (ug_lru ?t) (of_int n) True"
  proof -
    have "map (assoc_of ?t) (ug_list ug) = ug_lru ug" using nin u(8) by (auto simp: ug_lru_def assoc_of_def)
    then have t: "ug_lru ?t = ug_lru ug @ [((l, r), of_int n)]" using con(2,5) u(6) by (simp add: ug_lru_def assoc_of_def)
    have n: "uint (of_int n :: u16) = n" using uint_conid u(3,4) D(10) by simp
    have "(of_int n :: u16) \<notin> snd ` set (ug_lru ug)"
      using u(5) n mem_lru [OF ok] unfolding unused_conid_def by force
    moreover have "unat (of_int n :: u16) < ug_max ug" unfolding unat_eq_nat_uint n using u(3,4) by (simp add: ug_max_def)
    moreover have "length (ug_lru ug) < ug_max ug" using room lru_length [OF ok] by (simp add: ug_max_def)
    ultimately show ?thesis using fresh [OF assms(4)] t by simp
  qed
  moreover have "ug_inv ?t" using ug_ok_first [OF u(2) con(1)] assms(1) u(8) by (auto simp: ug_inv_def)
  moreover have "ug_params ?t = ug_params ug" using u(7) by (simp add: ug_params_def)
  moreover have "sends ?t (l, r) (of_int n) (submit_flags True is_dns) data have_buf
      (if have_buf then [Ug_Send p (udpgw_packet ?con (submit_flags True is_dns) data)] else [])"
    using con(2,5) unfolding sends_def by (intro exI [of _ p] exI [of _ ?con]) simp
  ultimately show ?thesis by blast
qed

text \<open>Without memory the datagram of a new pair is dropped.\<close>

lemma submit_no_memory:
  assumes "ug_inv ug" "conaddr_ok (l, r)" "int (length data) \<le> ug_udp_mtu ug" "(l, r) \<notin> fst ` set (ug_lru ug)"
    "length (ug_lru ug) \<noteq> ug_max ug" "malloc = None \<or> \<not> ppflow"
  shows "\<exists>ug'. submit_event ug malloc ppflow have_buf l r is_dns data = Some (ug', []) \<and> ug_inv ug' \<and> ug_params ug' = ug_params ug \<and>
    ug_lru ug' = ug_lru ug"
proof -
  have ok: "ug_ok ug" using assms(1) by (simp add: ug_inv_def)
  have room: "ug_num_connections ug < ug_max_connections ug"
    using assms(5) lru_length [OF ok] ug_okD(8) [OF ok] by (simp add: ug_max_def)
  have f: "find_connection_by_conaddr ug (l, r) = Some None" using lru_unknown [OF ok assms(2,4)] .
  obtain n where n: "find_unused_conid ug = Some (ug\<lparr>ug_next_conid := n\<rparr>, of_int n)" "ug_ok (ug\<lparr>ug_next_conid := n\<rparr>)"
    using find_unused_conid_ok [OF ok room] by blast
  define t where "t = (if malloc = None then ug else ug\<lparr>ug_next_conid := n\<rparr>)"
  have "connection_init ug malloc ppflow (l, r) fl data = Some t" for fl
    using f room assms(3,6) n(1) by (cases malloc) (simp_all add: connection_init_def t_def)
  moreover have "ug_pending t = None" using ug_pending_none [OF assms(1)] by (simp add: t_def)
  ultimately have "submit_event ug malloc ppflow have_buf l r is_dns data = Some (t, [])"
    using f room conaddr_ok_type [OF assms(2)] assms(3)
    by (simp add: submit_event_def UdpGwClient_SubmitPacket_def Let_def)
  moreover have "ug_inv t" using assms(1) n(2) by (simp add: ug_inv_def t_def)
  moreover have "ug_lru t = ug_lru ug" "ug_params t = ug_params ug" by (simp_all add: ug_lru_def assoc_of_def ug_params_def t_def)
  ultimately show ?thesis by blast
qed

text \<open>A packet from the server.\<close>

lemma udpgw_parse_addr: "udpgw_parse data = Some (i, r, d) \<Longrightarrow> baddr_ok r \<and> r \<noteq> BAddr_None"
  by (auto simp: udpgw_parse_def Let_def BAddr_MakeIPv4_def BAddr_MakeIPv6_def split: if_splits)

lemma recv_known:
  assumes "ug_inv ug" "ug_have_server ug" "int (length data) \<le> ug_udpgw_mtu ug"
    "udpgw_parse data = Some (i, r, d)" "int (length d) \<le> ug_udp_mtu ug" "((l, r), i) \<in> set (ug_lru ug)"
  shows "\<exists>ug'. recv_interface_handler_send ug data = Some (ug', [Ug_Recv_Done, Ug_Received l r d]) \<and> ug_inv ug' \<and>
    ug_params ug' = ug_params ug \<and> lru_submit (ug_max ug) (ug_lru ug) (l, r) (ug_lru ug') i False"
proof -
  have ok: "ug_ok ug" using assms(1) by (simp add: ug_inv_def)
  obtain p con where p: "ug_heap ug p = Some con" "uc_conaddr con = (l, r)" "uc_conid con = i"
    using assms(6) mem_lru [OF ok] by auto
  have f: "find_connection_by_conid ug i = Some (Some p)" using find_conid [OF ok] p by (metis option.inject)
  have "BAddr_CompareOrder r r = 0" using baddr.cmp_eq udpgw_parse_addr [OF assms(4)] by blast
  then have "recv_interface_handler_send ug data = Some (touch_connection ug p, [Ug_Recv_Done, Ug_Received l r d])"
    using assms f p by (simp add: recv_interface_handler_send_def)
  moreover have "ug_inv (touch_connection ug p)"
    using ug_ok_touch [OF ok] p(1) ug_okD(5) [OF ok] assms(1) by (auto simp: ug_inv_def touch_connection_def)
  moreover have "ug_params (touch_connection ug p) = ug_params ug" by (simp add: ug_params_def touch_connection_def)
  ultimately show ?thesis using lru_touch [OF ok p(1)] known [OF assms(6)] p(2,3) by simp
qed

lemma recv_unknown:
  assumes "ug_inv ug" "ug_have_server ug" "int (length data) \<le> ug_udpgw_mtu ug"
    "\<nexists>i r d l. udpgw_parse data = Some (i, r, d) \<and> int (length d) \<le> ug_udp_mtu ug \<and> ((l, r), i) \<in> set (ug_lru ug)"
  shows "recv_interface_handler_send ug data = Some (ug, [Ug_Recv_Done])"
proof (cases "\<exists>i r d. udpgw_parse data = Some (i, r, d) \<and> int (length d) \<le> ug_udp_mtu ug")
  case True
  then obtain i r d where d: "udpgw_parse data = Some (i, r, d)" "int (length d) \<le> ug_udp_mtu ug" by blast
  have ok: "ug_ok ug" using assms(1) by (simp add: ug_inv_def)
  obtain c where c: "find_connection_by_conid ug i = Some c" "\<forall>p. c = Some p \<longleftrightarrow> (\<exists>con. ug_heap ug p = Some con \<and> uc_conid con = i)"
    using find_conid [OF ok] by blast
  show ?thesis
  proof (cases c)
    case (Some p)
    then obtain con where con: "ug_heap ug p = Some con" "uc_conid con = i" using c(2) by auto
    have "snd (uc_conaddr con) \<noteq> r" using assms(4) d mem_lru [OF ok] con by (metis prod.collapse)
    moreover have "baddr_ok (snd (uc_conaddr con))" using ug_okD(15) [OF ok con(1)] by (cases "uc_conaddr con") (auto simp: con_ok_def)
    ultimately have "BAddr_CompareOrder (snd (uc_conaddr con)) r \<noteq> 0" using baddr.cmp_eq udpgw_parse_addr [OF d(1)] by blast
    then show ?thesis using assms(2,3) d c(1) Some con by (simp add: recv_interface_handler_send_def)
  qed (use assms(2,3) d c(1) in \<open>simp add: recv_interface_handler_send_def\<close>)
next
  case False
  then have "udpgw_parse data = None \<or> (\<exists>i r d. udpgw_parse data = Some (i, r, d) \<and> \<not> int (length d) \<le> ug_udp_mtu ug)"
    by (metis not_None_eq surj_pair)
  then show ?thesis using assms(2,3) by (auto simp: recv_interface_handler_send_def)
qed

text \<open>The pairs an event uses.\<close>

fun used_pairs :: "ug_event \<Rightarrow> udpgw_call list \<Rightarrow> conaddr set" where
  "used_pairs (Ev_Submit _ _ _ l r _ _) cs = {(l, r)}"
| "used_pairs _ cs = {(l, r). \<exists>d. Ug_Received l r d \<in> set cs}"

definition lru_step :: "nat \<Rightarrow> lru \<Rightarrow> conaddr set \<Rightarrow> lru \<Rightarrow> bool" where
  "lru_step m t A t' \<longleftrightarrow> t' = t \<or> (\<exists>a\<in>A. \<exists>i b. lru_submit m t a t' i b)"

lemma ug_step_ok:
  assumes "ug_inv ug" "ug_enabled ug ev"
  shows "\<exists>ug' cs. ug_step ug ev = Some (ug', cs) \<and> ug_inv ug' \<and> ug_udp_mtu ug' = ug_udp_mtu ug \<and> ug_udpgw_mtu ug' = ug_udpgw_mtu ug \<and>
    ug_max ug' = ug_max ug \<and> lru_step (ug_max ug) (ug_lru ug) (used_pairs ev cs) (ug_lru ug') \<and>
    (ug_have_server ug' = ug_have_server ug \<or> ev \<in> insert Ev_Disconnect (range Ev_Connect))"
proof (cases ev)
  case (Ev_Submit malloc ppflow have_buf l r is_dns data)
  have e: "conaddr_ok (l, r)" "int (length data) \<le> ug_udp_mtu ug" "malloc = None \<or> ug_heap ug (the malloc) = None"
    using assms(2) Ev_Submit by auto
  consider i where "((l, r), i) \<in> set (ug_lru ug)" | "(l, r) \<notin> fst ` set (ug_lru ug)" "length (ug_lru ug) = ug_max ug"
    | p where "(l, r) \<notin> fst ` set (ug_lru ug)" "length (ug_lru ug) \<noteq> ug_max ug" "malloc = Some p" "ppflow"
    | "(l, r) \<notin> fst ` set (ug_lru ug)" "length (ug_lru ug) \<noteq> ug_max ug" "malloc = None \<or> \<not> ppflow"
    by force
  then have "\<exists>ug' cs. submit_event ug malloc ppflow have_buf l r is_dns data = Some (ug', cs) \<and> ug_inv ug' \<and> ug_params ug' = ug_params ug \<and>
      lru_step (ug_max ug) (ug_lru ug) {(l, r)} (ug_lru ug')"
  proof cases
    case 1
    show ?thesis using submit_known [OF assms(1) e(1,2) 1] unfolding lru_step_def by blast
  next
    case 2
    show ?thesis using submit_reuse [OF assms(1) e(1,2) 2] unfolding lru_step_def by blast
  next
    case 3
    then have "ug_heap ug p = None" using e(3) by simp
    then show ?thesis using submit_fresh [OF assms(1) e(1,2) 3(1,2), of p have_buf is_dns] 3(3,4) by (fastforce simp: lru_step_def)
  next
    case 4
    show ?thesis using submit_no_memory [OF assms(1) e(1,2) 4] unfolding lru_step_def by blast
  qed
  then show ?thesis using Ev_Submit by (auto simp: ug_params_def ug_max_def)
next
  case (Ev_Recv data)
  have e: "ug_have_server ug" "int (length data) \<le> ug_udpgw_mtu ug" using assms(2) Ev_Recv by auto
  show ?thesis
  proof (cases "\<exists>i r d l. udpgw_parse data = Some (i, r, d) \<and> int (length d) \<le> ug_udp_mtu ug \<and> ((l, r), i) \<in> set (ug_lru ug)")
    case True
    then obtain i r d l where d: "udpgw_parse data = Some (i, r, d)" "int (length d) \<le> ug_udp_mtu ug" "((l, r), i) \<in> set (ug_lru ug)" by blast
    show ?thesis using recv_known [OF assms(1) e d] Ev_Recv by (fastforce simp: ug_params_def ug_max_def lru_step_def)
  next
    case False
    then show ?thesis using recv_unknown [OF assms(1) e] assms(1) Ev_Recv by (auto simp: lru_step_def)
  qed
qed (use assms in \<open>auto simp: send_monitor_handler_def keepalive_if_handler_done_def decoder_handler_error_def UdpGwClient_ConnectServer_def
    UdpGwClient_DisconnectServer_def require_def lru_step_def ug_lru_def assoc_of_def ug_inv_def ug_max_def ug_ok_flags fun_eq_iff\<close>)

section \<open>The properties\<close>

lemma udpgw_compute_mtu_eq:
  assumes "0 \<le> m" "m \<le> INT_MAX"
  shows "udpgw_compute_mtu m = (if m + 22 \<le> INT_MAX then m + 22 else - 1)"
  using assms by (auto simp: udpgw_compute_mtu_def bsize_toint_def bsize_add_def bsize_max_def bsize_fromsize_def bsize_fromint_def
      INT_MAX_def SIZE_MAX_def c_size_id c_int_id)

lemma ug_inv_init:
  assumes "UdpGwClient_Init udp_mtu max_connections send_buffer_size = Some ug" "udp_mtu \<le> INT_MAX"
  shows "ug_inv ug"
proof -
  have "udp_mtu \<ge> 0" "udpgw_compute_mtu udp_mtu \<ge> 0" using assms(1) by (auto simp: UdpGwClient_Init_def require_def split: if_splits)
  then have "udpgw_compute_mtu udp_mtu = udp_mtu + 22" using udpgw_compute_mtu_eq [OF _ assms(2)] by (auto split: if_splits)
  then show ?thesis using assms(1)
    by (auto simp: UdpGwClient_Init_def require_def ug_inv_def ug_ok_def conaddr_cmp.ordered_tree_def uint16_cmp.ordered_tree_def
      bavl_ok_def bavl_nodes_def tree_by_conaddr_def tree_by_conid_def UINT16_MAX_def split: if_splits)
qed

lemma ug_reach_inv: "ug_reach ug \<Longrightarrow> ug_inv ug"
proof (induction rule: ug_reach.induct)
  case (step ug ev ug' cs)
  then show ?case using ug_step_ok [of ug ev] by auto
qed (rule ug_inv_init)

text \<open>Runs, with the pairs used on the way.\<close>

inductive ug_runs :: "UdpGwClient \<Rightarrow> conaddr set \<Rightarrow> UdpGwClient \<Rightarrow> bool" where
  none: "ug_runs ug {} ug"
| more: "ug_runs ug A ug' \<Longrightarrow> ug_enabled ug' ev \<Longrightarrow> ug_step ug' ev = Some (ug'', cs) \<Longrightarrow>
    ug_runs ug (A \<union> used_pairs ev cs) ug''"

lemma finite_used_pairs: "finite (used_pairs ev cs)"
proof -
  have "{(l, r). \<exists>d. Ug_Received l r d \<in> set cs} \<subseteq> (\<lambda>c. case c of Ug_Received l r d \<Rightarrow> (l, r) | _ \<Rightarrow> undefined) ` set cs"
    by force
  then have "finite {(l, r). \<exists>d. Ug_Received l r d \<in> set cs}" by (rule finite_subset) simp
  then show ?thesis by (cases ev) auto
qed

lemma lru_step_keeps:
  assumes "lru_step m t A t'" "lru_ok m t" "t = xs @ (a, i) # ys" "fst ` set ys \<subseteq> B" "finite (A \<union> B)" "card (B \<union> A - {a}) < m"
  shows "\<exists>xs' ys'. t' = xs' @ (a, i) # ys' \<and> fst ` set ys' \<subseteq> B \<union> A"
proof (cases "t' = t")
  case False
  then obtain b j r where b: "b \<in> A" "lru_submit m t b t' j r" using assms(1) by (auto simp: lru_step_def)
  have "card (insert b B - {a}) \<le> card (B \<union> A - {a})" using b(1) assms(5) by (intro card_mono) auto
  then obtain xs' ys' where "t' = xs' @ (a, i) # ys'" "fst ` set ys' \<subseteq> insert b B"
    using lru_submit_keeps [OF b(2) assms(2,3,4)] assms(5,6) by auto
  then show ?thesis using b(1) by auto
qed (use assms(3,4) in auto)

lemma ug_runs_keeps:
  "ug_runs ug A ug' \<Longrightarrow> ug_inv ug \<Longrightarrow> ug_lru ug = xs @ [(a, i)] \<Longrightarrow> card (A - {a}) < ug_max ug \<Longrightarrow>
    ug_inv ug' \<and> ug_udp_mtu ug' = ug_udp_mtu ug \<and> ug_udpgw_mtu ug' = ug_udpgw_mtu ug \<and> ug_max ug' = ug_max ug \<and> finite A \<and>
    (\<exists>xs' ys'. ug_lru ug' = xs' @ (a, i) # ys' \<and> fst ` set ys' \<subseteq> A)"
proof (induction rule: ug_runs.induct)
  case (more ug A ug' ev ug'' cs)
  have fin: "finite A" using more.hyps(1) finite_used_pairs by (induction rule: ug_runs.induct) auto
  have "card (A - {a}) \<le> card (A \<union> used_pairs ev cs - {a})" using fin finite_used_pairs by (intro card_mono) auto
  then obtain xs' ys' where I: "ug_inv ug'" "ug_udp_mtu ug' = ug_udp_mtu ug" "ug_udpgw_mtu ug' = ug_udpgw_mtu ug" "ug_max ug' = ug_max ug"
    "ug_lru ug' = xs' @ (a, i) # ys'" "fst ` set ys' \<subseteq> A"
    using more.IH more.prems by auto
  have S: "ug_inv ug''" "ug_udp_mtu ug'' = ug_udp_mtu ug'" "ug_udpgw_mtu ug'' = ug_udpgw_mtu ug'" "ug_max ug'' = ug_max ug'"
    "lru_step (ug_max ug') (ug_lru ug') (used_pairs ev cs) (ug_lru ug'')"
    using ug_step_ok [OF I(1) more.hyps(2)] more.hyps(3) by auto
  have "lru_ok (ug_max ug') (ug_lru ug')" using I(1) lru_ok_lru by (simp add: ug_inv_def ug_max_def)
  then have "\<exists>xs' ys'. ug_lru ug'' = xs' @ (a, i) # ys' \<and> fst ` set ys' \<subseteq> A \<union> used_pairs ev cs"
    using lru_step_keeps [OF S(5) _ I(5,6)] fin finite_used_pairs more.prems(3) I(4) by simp
  then show ?case using S I fin finite_used_pairs by simp
qed auto

text \<open>A datagram is submitted in one of the four ways.\<close>

lemma submit_sends:
  assumes "ug_inv ug" "ug_enabled ug (Ev_Submit malloc ppflow have_buf l r is_dns data)"
    "ug_step ug (Ev_Submit malloc ppflow have_buf l r is_dns data) = Some (ug', cs)"
    "malloc \<noteq> None \<and> ppflow \<or> cs \<noteq> []"
  shows "ug_inv ug' \<and> (\<exists>i rebind. lru_submit (ug_max ug) (ug_lru ug) (l, r) (ug_lru ug') i rebind \<and>
    sends ug' (l, r) i (submit_flags rebind is_dns) data have_buf cs)"
proof -
  have e: "conaddr_ok (l, r)" "int (length data) \<le> ug_udp_mtu ug" "malloc = None \<or> ug_heap ug (the malloc) = None"
    using assms(2) by auto
  consider i where "((l, r), i) \<in> set (ug_lru ug)" | "(l, r) \<notin> fst ` set (ug_lru ug)" "length (ug_lru ug) = ug_max ug"
    | p where "(l, r) \<notin> fst ` set (ug_lru ug)" "length (ug_lru ug) \<noteq> ug_max ug" "malloc = Some p" "ppflow"
    | "(l, r) \<notin> fst ` set (ug_lru ug)" "length (ug_lru ug) \<noteq> ug_max ug" "malloc = None \<or> \<not> ppflow"
    by force
  then show ?thesis
  proof cases
    case 1
    show ?thesis using submit_known [OF assms(1) e(1,2) 1, of malloc ppflow have_buf is_dns] assms(3) by auto
  next
    case 2
    show ?thesis using submit_reuse [OF assms(1) e(1,2) 2, of malloc ppflow have_buf is_dns] assms(3) by auto
  next
    case 3
    then have "ug_heap ug p = None" using e(3) by simp
    then show ?thesis using submit_fresh [OF assms(1) e(1,2) 3(1,2), of p have_buf is_dns] assms(3) 3(3,4) by auto
  next
    case 4
    show ?thesis using submit_no_memory [OF assms(1) e(1,2) 4, of have_buf is_dns] assms(3,4) 4(3) by auto
  qed
qed

text \<open>Freeing the client frees every connection.\<close>

lemma free_udpgw_connections_ends:
  "ug_ok ug \<Longrightarrow> \<exists>ug'. free_udpgw_connections ug = Some ug' \<and> ug_ok ug' \<and> ug_list ug' = [] \<and> ug_params ug' = ug_params ug"
proof (induction "length (ug_list ug)" arbitrary: ug)
  case 0
  then show ?case by (subst free_udpgw_connections.simps) simp
next
  case (Suc n)
  then obtain p ps where ps: "ug_list ug = p # ps" by (cases "ug_list ug") auto
  then obtain con where con: "ug_heap ug p = Some con" using ug_okD(5) [OF Suc.prems] by fastforce
  obtain ug1 where u: "connection_free ug p = Some ug1" "ug_ok ug1" "ug_list ug1 = ps" "ug_params ug1 = ug_params ug"
    using connection_free_ok [OF Suc.prems con] ps by auto
  then obtain ug' where "free_udpgw_connections ug1 = Some ug'" "ug_ok ug'" "ug_list ug' = []" "ug_params ug' = ug_params ug1"
    using Suc.hyps(1) [of ug1] Suc.hyps(2) ps by auto
  moreover have "free_udpgw_connections ug = free_udpgw_connections ug1"
    using ps u(1) by (subst free_udpgw_connections.simps) simp
  ultimately show ?case using u(4) by simp
qed

text \<open>A datagram and its answer.\<close>

lemma submit_packet_parse:
  assumes "ug_inv ug" "ug_enabled ug (Ev_Submit malloc ppflow have_buf l r is_dns data)"
    "ug_step ug (Ev_Submit malloc ppflow have_buf l r is_dns data) = Some (ug1, [Ug_Send p packet])"
  shows "\<exists>i xs. udpgw_parse packet = Some (i, r, data) \<and> ug_inv ug1 \<and> ug_lru ug1 = xs @ [((l, r), i)]"
proof -
  obtain i b where s: "ug_inv ug1" "lru_submit (ug_max ug) (ug_lru ug) (l, r) (ug_lru ug1) i b"
    "sends ug1 (l, r) i (submit_flags b is_dns) data have_buf [Ug_Send p packet]"
    using submit_sends [OF assms] by auto
  obtain con where con: "uc_conaddr con = (l, r)" "uc_conid con = i" "packet = udpgw_packet con (submit_flags b is_dns) data"
    using s(3) by (auto simp: sends_def split: if_splits)
  have "submit_flags b is_dns AND UDPGW_CLIENT_FLAG_IPV6 = 0" by (cases b; cases is_dns) (simp_all add: submit_flags_def udpgw_flags)
  then have "udpgw_parse packet = Some (i, r, data)" using udpgw_parse_packet con assms(2) by simp
  moreover obtain xs where "ug_lru ug1 = xs @ [((l, r), i)]" using s(2) by cases auto
  ultimately show ?thesis using s(1) by blast
qed

lemma submit_then_reply:
  assumes "ug_inv ug" "ug_enabled ug (Ev_Submit malloc ppflow have_buf l r is_dns data)"
    "ug_step ug (Ev_Submit malloc ppflow have_buf l r is_dns data) = Some (ug1, [Ug_Send p packet])"
    "ug_runs ug1 A ug2" "card (A - {(l, r)}) < ug_max ug1" "ug_have_server ug2"
  shows "\<exists>i. udpgw_parse packet = Some (i, r, data) \<and>
    (\<forall>reply d. udpgw_parse reply = Some (i, r, d) \<longrightarrow> int (length reply) \<le> ug_udpgw_mtu ug1 \<longrightarrow> int (length d) \<le> ug_udp_mtu ug1 \<longrightarrow>
      (\<exists>ug3. ug_step ug2 (Ev_Recv reply) = Some (ug3, [Ug_Recv_Done, Ug_Received l r d])))"
proof -
  obtain i xs where s: "udpgw_parse packet = Some (i, r, data)" "ug_inv ug1" "ug_lru ug1 = xs @ [((l, r), i)]"
    using submit_packet_parse [OF assms(1-3)] by blast
  have K: "ug_inv ug2" "ug_udp_mtu ug2 = ug_udp_mtu ug1" "ug_udpgw_mtu ug2 = ug_udpgw_mtu ug1" "((l, r), i) \<in> set (ug_lru ug2)"
    using ug_runs_keeps [OF assms(4) s(2,3) assms(5)] by fastforce+
  have "\<exists>ug3. ug_step ug2 (Ev_Recv reply) = Some (ug3, [Ug_Recv_Done, Ug_Received l r d])"
    if "udpgw_parse reply = Some (i, r, d)" "int (length reply) \<le> ug_udpgw_mtu ug1" "int (length d) \<le> ug_udp_mtu ug1" for reply d
    using recv_known [OF K(1) assms(6) _ that(1) _ K(4)] that(2,3) K(2,3) by auto
  then show ?thesis using s(1) by blast
qed

text \<open>A client of two connections, connected, with one datagram sent from \<^verbatim>\<open>10.0.0.2:1000\<close>.\<close>

definition sample_client :: UdpGwClient where
  "sample_client = (the (UdpGwClient_Init 1472 2 16))\<lparr>ug_have_server := True\<rparr>"

definition sample_submit :: ug_event where
  "sample_submit = Ev_Submit (Some 7) True True (BAddr_IPv4 1 2) (BAddr_IPv4 3 4) True [9]"

lemma sample_client_reach: "ug_reach sample_client"
proof -
  have "ug_reach (the (UdpGwClient_Init 1472 2 16))"
    by (rule ug_reach.init [of 1472 2 16]) (simp_all add: UdpGwClient_Init_def udpgw_compute_mtu_eq INT_MAX_def PACKETPROTO_MAXPAYLOAD_def UINT16_MAX_def
      require_def)
  then show ?thesis unfolding sample_client_def
    by (rule ug_reach.step [where ev = "Ev_Connect True" and cs = "[Ug_Connect]"])
      (simp_all add: UdpGwClient_Init_def udpgw_compute_mtu_eq INT_MAX_def PACKETPROTO_MAXPAYLOAD_def UINT16_MAX_def require_def
        UdpGwClient_ConnectServer_def)
qed

lemma sample_submit_step:
  "ug_enabled sample_client sample_submit"
  "map_option (\<lambda>(ug, cs). (cs, ug_lru ug, ug_have_server ug, ug_max_connections ug, ug_udp_mtu ug, ug_udpgw_mtu ug)) (ug_step sample_client sample_submit) =
    Some ([Ug_Send 7 [6, 0, 0, 3, 0, 0, 0, 4, 0, 9]], [((BAddr_IPv4 1 2, BAddr_IPv4 3 4), 0)], True, 2, 1472, 1494)"
  by code_simp+

text \<open>C5. The table is what the abstract client makes of it, and no assertion fails, whatever happens:
  every event has a result, the pairs and the numbers of the table stay distinct, the numbers
  below the limit; a datagram, when there is memory, leaves with the number of its pair, marked
  for rebinding when the number is new or was taken from the least recently used pair.\<close>

theorem udpgw_client_is_lru:
  assumes "ug_reach ug" "ug_enabled ug ev"
  shows "\<exists>ug' cs. ug_step ug ev = Some (ug', cs) \<and> lru_ok (ug_max ug) (ug_lru ug') \<and>
    lru_step (ug_max ug) (ug_lru ug) (used_pairs ev cs) (ug_lru ug') \<and>
    (\<forall>p have_buf l r is_dns data. ev = Ev_Submit (Some p) True have_buf l r is_dns data \<longrightarrow>
      (\<exists>i rebind. lru_submit (ug_max ug) (ug_lru ug) (l, r) (ug_lru ug') i rebind \<and>
        sends ug' (l, r) i (submit_flags rebind is_dns) data have_buf cs))"
proof -
  have I: "ug_inv ug" by (rule ug_reach_inv [OF assms(1)])
  obtain ug' cs where s: "ug_step ug ev = Some (ug', cs)" "ug_inv ug'" "ug_max ug' = ug_max ug"
    "lru_step (ug_max ug) (ug_lru ug) (used_pairs ev cs) (ug_lru ug')"
    using ug_step_ok [OF I assms(2)] by blast
  have "\<exists>i rebind. lru_submit (ug_max ug) (ug_lru ug) (l, r) (ug_lru ug') i rebind \<and>
      sends ug' (l, r) i (submit_flags rebind is_dns) data have_buf cs"
    if "ev = Ev_Submit (Some p) True have_buf l r is_dns data" for p have_buf l r is_dns data
    using submit_sends [OF I assms(2) [unfolded that] s(1) [unfolded that]] by simp
  moreover have "lru_ok (ug_max ug) (ug_lru ug')" using lru_ok_lru s(2,3) by (metis ug_inv_def ug_max_def)
  ultimately show ?thesis using s by blast
qed

theorem udpgw_client_is_lru_witness:
  "ug_reach sample_client \<and> ug_enabled sample_client sample_submit \<and>
    (\<exists>ug' cs i rebind. ug_step sample_client sample_submit = Some (ug', cs) \<and>
      lru_submit 2 [] (BAddr_IPv4 1 2, BAddr_IPv4 3 4) (ug_lru ug') i rebind \<and>
      sends ug' (BAddr_IPv4 1 2, BAddr_IPv4 3 4) i (submit_flags rebind True) [9] True cs)"
proof -
  have "ug_lru sample_client = []" "ug_max sample_client = 2" by code_simp+
  then show ?thesis
    using udpgw_client_is_lru [OF sample_client_reach sample_submit_step(1)] sample_client_reach sample_submit_step(1)
    by (auto simp: sample_submit_def)
qed

text \<open>A datagram and its answer: the packet of the datagram names the number and the remote address;
  an answer of the server with this number and address is given to the local address, with
  the payload of the server, as long as fewer pairs than the limit were used in between.\<close>

theorem udpgw_reply_delivered:
  assumes "ug_reach ug" "ug_enabled ug (Ev_Submit malloc ppflow have_buf l r is_dns data)"
    "ug_step ug (Ev_Submit malloc ppflow have_buf l r is_dns data) = Some (ug1, [Ug_Send p packet])"
    "ug_runs ug1 A ug2" "card (A - {(l, r)}) < ug_max ug1" "ug_have_server ug2"
  shows "\<exists>i. udpgw_parse packet = Some (i, r, data) \<and>
    (\<forall>reply d. udpgw_parse reply = Some (i, r, d) \<longrightarrow> int (length reply) \<le> ug_udpgw_mtu ug1 \<longrightarrow> int (length d) \<le> ug_udp_mtu ug1 \<longrightarrow>
      (\<exists>ug3. ug_step ug2 (Ev_Recv reply) = Some (ug3, [Ug_Recv_Done, Ug_Received l r d])))"
  by (rule submit_then_reply [OF ug_reach_inv [OF assms(1)] assms(2-6)])


text \<open>Freeing a client ends, and leaves no connection.\<close>

theorem UdpGwClient_Free_ends:
  "ug_reach ug \<Longrightarrow> \<exists>ug' cs. UdpGwClient_Free ug = Some (ug', cs) \<and> ug_list ug' = [] \<and> ug_heap ug' = Map.empty \<and>
    cs = (if ug_have_server ug then [Ug_Disconnect] else [])"
  using free_udpgw_connections_ends [of ug] ug_reach_inv [of ug] ug_okD(5)
  by (fastforce simp: UdpGwClient_Free_def free_server_def ug_inv_def ug_params_def)


end
