(* ===== verification/Socks_Udpgw.thy ===== *)
theory Socks_Udpgw
  imports Udpgw_Client Socks_Client
begin

text \<open>
  The udpgw client over SOCKS (\<^verbatim>\<open>tun2socks/SocksUdpGwClient.c\<close>, in the build without
  \<^verbatim>\<open>ANDROID_UDP\<close>): a \<open>UdpGwClient\<close>, the SOCKS client that reaches its server, and the timer that
  starts the next attempt after a failure. The SOCKS client is kept with its connection, as the
  system of the theory \<open>Socks_Client\<close>. Whether a connector and the decoder can be initialised are
  parameters.
\<close>

section \<open>The object\<close>

record SocksUdpGwClient =
  su_socks_server_addr :: BAddr
  su_auth_info :: "BSocksClient_auth_info list"
  su_remote_udpgw_addr :: BAddr
  su_udpgw_client :: UdpGwClient
  su_reconnect_timer :: bool
  su_have_socks :: bool
  su_socks_client :: "socks_sys option"
  su_socks_up :: bool

datatype su_call =
  Su_Udpgw udpgw_call
| Su_handler_received BAddr BAddr bytes

type_synonym su_result = "(SocksUdpGwClient \<times> udpgw_call list) option"

definition free_socks :: "SocksUdpGwClient \<Rightarrow> su_result" where
  "free_socks u =
     (if \<not> su_have_socks u then None
      else do {
        (ug, cs) \<leftarrow> (if su_socks_up u then UdpGwClient_DisconnectServer (su_udpgw_client u) else Some (su_udpgw_client u, []));
        s \<leftarrow> su_socks_client u;
        c \<leftarrow> BSocksClient_Free (ss_client s);
        Some (u\<lparr>su_udpgw_client := ug, su_socks_client := Some (s\<lparr>ss_client := c\<rparr>), su_have_socks := False\<rparr>, cs)
      })"

definition try_connect :: "bool \<Rightarrow> SocksUdpGwClient \<Rightarrow> SocksUdpGwClient option" where
  "try_connect connector_init u =
     (if su_have_socks u \<or> su_reconnect_timer u then None
      else do {
        r \<leftarrow> BSocksClient_Init connector_init (su_socks_server_addr u) (su_auth_info u) (su_remote_udpgw_addr u);
        (case r of
           None \<Rightarrow> Some (u\<lparr>su_reconnect_timer := True\<rparr>)
         | Some c \<Rightarrow> Some (u\<lparr>su_socks_client := Some (ss_init c), su_have_socks := True, su_socks_up := False\<rparr>))
      })"

text \<open>The timer is not running any more when its handler is called.\<close>

definition reconnect_timer_handler :: "bool \<Rightarrow> SocksUdpGwClient \<Rightarrow> SocksUdpGwClient option" where
  "reconnect_timer_handler connector_init u = (if su_have_socks u then None else try_connect connector_init u)"

definition socks_client_handler :: "bool \<Rightarrow> SocksUdpGwClient \<Rightarrow> int \<Rightarrow> su_result" where
  "socks_client_handler decoder u event =
     (if \<not> su_have_socks u then None
      else if event = BSOCKSCLIENT_EVENT_UP then
        (if su_socks_up u then None
         else do {
           (ug, cs, ok) \<leftarrow> UdpGwClient_ConnectServer (su_udpgw_client u) decoder;
           let u = u\<lparr>su_udpgw_client := ug\<rparr>;
           if ok then Some (u\<lparr>su_socks_up := True\<rparr>, cs)
           else do {
             (u, cs') \<leftarrow> free_socks u;
             Some (u\<lparr>su_reconnect_timer := True\<rparr>, cs @ cs')
           }
         })
      else if event = BSOCKSCLIENT_EVENT_ERROR \<or> event = BSOCKSCLIENT_EVENT_ERROR_CLOSED then do {
        (u, cs) \<leftarrow> free_socks u;
        Some (u\<lparr>su_reconnect_timer := True\<rparr>, cs)
      }
      else None)"

definition udpgw_handler_servererror :: "SocksUdpGwClient \<Rightarrow> su_result" where
  "udpgw_handler_servererror u =
     (if \<not> su_have_socks u \<or> \<not> su_socks_up u then None
      else do {
        (u, cs) \<leftarrow> free_socks u;
        Some (u\<lparr>su_reconnect_timer := True\<rparr>, cs)
      })"

definition udpgw_handler_received :: "BAddr \<Rightarrow> BAddr \<Rightarrow> bytes \<Rightarrow> su_call list" where
  "udpgw_handler_received local_addr remote_addr data = [Su_handler_received local_addr remote_addr data]"

text \<open>\<open>UdpGwClient_Init\<close> returns 0 only when the fair queue cannot count the bytes of a packet of its
  MTU in 64 bits; the MTU is below \<open>2 ^ 16\<close> here.\<close>

definition SocksUdpGwClient_Init ::
  "bool \<Rightarrow> int \<Rightarrow> int \<Rightarrow> int \<Rightarrow> BAddr \<Rightarrow> BSocksClient_auth_info list \<Rightarrow> BAddr \<Rightarrow> SocksUdpGwClient option" where
  "SocksUdpGwClient_Init connector_init udp_mtu max_connections send_buffer_size socks_server_addr auth_info remote_udpgw_addr =
     (if BAddr_IsInvalid socks_server_addr \<or>
         (BAddr_type remote_udpgw_addr \<noteq> BADDR_TYPE_IPV4 \<and> BAddr_type remote_udpgw_addr \<noteq> BADDR_TYPE_IPV6) then None
      else do {
        ug \<leftarrow> UdpGwClient_Init udp_mtu max_connections send_buffer_size;
        try_connect connector_init \<lparr>su_socks_server_addr = socks_server_addr, su_auth_info = auth_info,
          su_remote_udpgw_addr = remote_udpgw_addr, su_udpgw_client = ug, su_reconnect_timer = False, su_have_socks = False,
          su_socks_client = None, su_socks_up = False\<rparr>
      })"

definition SocksUdpGwClient_Free :: "SocksUdpGwClient \<Rightarrow> su_result" where
  "SocksUdpGwClient_Free u = do {
     (u, cs) \<leftarrow> (if su_have_socks u then free_socks u else Some (u, []));
     let u = u\<lparr>su_reconnect_timer := False\<rparr>;
     (ug, cs') \<leftarrow> UdpGwClient_Free (su_udpgw_client u);
     Some (u\<lparr>su_udpgw_client := ug\<rparr>, cs @ cs')
   }"

definition SocksUdpGwClient_SubmitPacket ::
  "SocksUdpGwClient \<Rightarrow> nat option \<Rightarrow> bool \<Rightarrow> bool \<Rightarrow> BAddr \<Rightarrow> BAddr \<Rightarrow> bool \<Rightarrow> bytes \<Rightarrow> su_result" where
  "SocksUdpGwClient_SubmitPacket u malloc ppflow have_buf local_addr remote_addr is_dns data = do {
     (ug, cs) \<leftarrow> UdpGwClient_SubmitPacket (su_udpgw_client u) malloc ppflow have_buf local_addr remote_addr is_dns data;
     Some (u\<lparr>su_udpgw_client := ug\<rparr>, cs)
   }"

section \<open>Events\<close>

text \<open>The calls of the udpgw client, and the events of the SOCKS client, go to the handlers above.\<close>

fun su_calls :: "udpgw_call list \<Rightarrow> SocksUdpGwClient \<Rightarrow> (SocksUdpGwClient \<times> su_call list) option" where
  "su_calls [] u = Some (u, [])"
| "su_calls (c # cs) u = do {
     (u, xs) \<leftarrow> (case c of
        Ug_Server_Error \<Rightarrow> map_option (\<lambda>(u, xs). (u, map Su_Udpgw xs)) (udpgw_handler_servererror u)
      | Ug_Received l r d \<Rightarrow> Some (u, udpgw_handler_received l r d)
      | _ \<Rightarrow> Some (u, [Su_Udpgw c]));
     (u, ys) \<leftarrow> su_calls cs u;
     Some (u, xs @ ys)
   }"

datatype su_event =
  Su_Submit "nat option" bool bool BAddr BAddr bool bytes
| Su_Client ug_event
| Su_Socks socks_input bool
| Su_Timer bool

fun su_step :: "reallocator \<Rightarrow> su_event \<Rightarrow> SocksUdpGwClient \<Rightarrow> (SocksUdpGwClient \<times> su_call list) option" where
  "su_step realloc (Su_Submit malloc ppflow have_buf l r is_dns data) u = do {
     (u, cs) \<leftarrow> SocksUdpGwClient_SubmitPacket u malloc ppflow have_buf l r is_dns data;
     (ug, cs') \<leftarrow> (case ug_pending (su_udpgw_client u) of
        None \<Rightarrow> Some (su_udpgw_client u, [])
      | Some p \<Rightarrow> connection_first_job_handler (su_udpgw_client u) p have_buf);
     Some (u\<lparr>su_udpgw_client := ug\<rparr>, map Su_Udpgw (cs @ cs'))
   }"
| "su_step realloc (Su_Client ev) u = do {
     (ug, cs) \<leftarrow> ug_step (su_udpgw_client u) ev;
     su_calls cs (u\<lparr>su_udpgw_client := ug\<rparr>)
   }"
| "su_step realloc (Su_Socks i decoder) u = do {
     s \<leftarrow> su_socks_client u;
     s' \<leftarrow> ss_step realloc i s;
     let events = drop (length (ss_events s)) (ss_events s');
     let u = u\<lparr>su_socks_client := Some s'\<rparr>;
     (case events of
        [] \<Rightarrow> Some (u, [])
      | e # _ \<Rightarrow> map_option (\<lambda>(u, cs). (u, map Su_Udpgw cs)) (socks_client_handler decoder u e))
   }"
| "su_step realloc (Su_Timer connector_init) u =
     map_option (\<lambda>u. (u, [])) (reconnect_timer_handler connector_init (u\<lparr>su_reconnect_timer := False\<rparr>))"

fun su_enabled :: "su_event \<Rightarrow> SocksUdpGwClient \<Rightarrow> bool" where
  "su_enabled (Su_Submit malloc ppflow have_buf l r is_dns data) u \<longleftrightarrow>
     ug_enabled (su_udpgw_client u) (Ev_Submit malloc ppflow have_buf l r is_dns data)"
| "su_enabled (Su_Client ev) u \<longleftrightarrow> (case ev of Ev_Recv _ \<Rightarrow> True | Ev_Idle \<Rightarrow> True | Ev_Keepalive_Done \<Rightarrow> True | Ev_Decoder_Error \<Rightarrow> True | _ \<Rightarrow> False) \<and>
     ug_enabled (su_udpgw_client u) ev"
| "su_enabled (Su_Socks i decoder) u \<longleftrightarrow> su_have_socks u \<and> su_socks_client u \<noteq> None \<and> ss_enabled i (the (su_socks_client u))"
| "su_enabled (Su_Timer connector_init) u \<longleftrightarrow> su_reconnect_timer u"

inductive su_reach :: "reallocator \<Rightarrow> SocksUdpGwClient \<Rightarrow> bool" for realloc where
  init: "SocksUdpGwClient_Init connector_init udp_mtu max_connections send_buffer_size server auths remote = Some u \<Longrightarrow>
    udp_mtu \<le> INT_MAX \<Longrightarrow> baddr_ok remote \<Longrightarrow> su_reach realloc u"
| step: "su_reach realloc u \<Longrightarrow> su_enabled ev u \<Longrightarrow> su_step realloc ev u = Some (u', cs) \<Longrightarrow> su_reach realloc u'"

section \<open>The events of the SOCKS client\<close>

definition one_call :: "socks_result \<Rightarrow> bool" where
  "one_call r \<longleftrightarrow> (\<forall>c cs. r = Some (c, cs) \<longrightarrow> (\<exists>x. cs = [x] \<and> (\<forall>e. x = Socks_handler e \<longrightarrow>
     e = BSOCKSCLIENT_EVENT_ERROR \<or> e = BSOCKSCLIENT_EVENT_ERROR_CLOSED \<or> e = BSOCKSCLIENT_EVENT_UP)))"

lemma one_call_simps [simp]:
  "one_call None" "one_call (Some (c, [Socks_Sender_Send b]))" "one_call (Some (c, [Socks_Receiver_Recv d n]))"
  "one_call (Some (c, [Socks_handler BSOCKSCLIENT_EVENT_ERROR]))" "one_call (Some (c, [Socks_handler BSOCKSCLIENT_EVENT_ERROR_CLOSED]))"
  "one_call (Some (c, [Socks_handler BSOCKSCLIENT_EVENT_UP]))"
  by (simp_all add: one_call_def)

lemma one_call_bind: "(\<And>x. r = Some x \<Longrightarrow> one_call (f x)) \<Longrightarrow> one_call (Option.bind r f)"
  by (cases r) simp_all

lemma one_call_primitives [simp]:
  "one_call (report_error s BSOCKSCLIENT_EVENT_ERROR)" "one_call (report_error s BSOCKSCLIENT_EVENT_ERROR_CLOSED)"
  "one_call (do_receive s)" "one_call (start_receive s d n)"
  "one_call (Option.bind (start_receive s d n) (\<lambda>(s, cs). Some (f s, cs)))"
  "one_call (Option.bind (send_buffer s n) (\<lambda>cs. Some (t, cs)))"
  by (auto simp: report_error_def do_receive_def start_receive_def send_buffer_def require_def split: option.splits)

lemma one_call_sent: "send_buffer s n = Some cs \<Longrightarrow> one_call (Some (t, cs))"
  by (auto simp: send_buffer_def require_def split: option.splits if_splits)

lemma one_call_handlers:
  "one_call (connector_handler realloc con_init s is_error)" "one_call (send_handler_done realloc s)"
  "one_call (recv_handler_done realloc s n)" "one_call (connection_handler s e)"
proof -
  have fin: "one_call (auth_finished realloc s)" for s
    by (auto simp: auth_finished_def Let_def intro!: one_call_bind intro: one_call_sent split: option.splits BAddr.splits)
  have pw: "one_call (send_password realloc s ai)" for s ai
    by (auto simp: send_password_def Let_def intro!: one_call_bind intro: one_call_sent split: option.splits)
  have hello: "one_call (recv_hello realloc s b)" for s b by (auto simp: recv_hello_def Let_def fin pw split: option.splits)
  have reply: "one_call (recv_reply_header s b)" for s b by (auto simp: recv_reply_header_def Let_def)
  show "one_call (connector_handler realloc con_init s is_error)"
    by (auto simp: connector_handler_def Let_def intro!: one_call_bind intro: one_call_sent split: option.splits)
  show "one_call (send_handler_done realloc s)"
    by (auto simp: send_handler_done_def receive_next_def Let_def split: option.splits socks_state.splits)
  show "one_call (recv_handler_done realloc s n)"
    by (auto simp: recv_handler_done_def recv_message_def Let_def fin hello reply intro!: one_call_bind intro: one_call_sent split: socks_state.splits)
  show "one_call (connection_handler s e)" by (auto simp: connection_handler_def)
qed

lemma ss_after_events:
  "ss_after s r = Some s' \<Longrightarrow> one_call r \<Longrightarrow> ss_events s' = ss_events s \<or>
    (\<exists>e. ss_events s' = ss_events s @ [e] \<and> (e = BSOCKSCLIENT_EVENT_ERROR \<or> e = BSOCKSCLIENT_EVENT_ERROR_CLOSED \<or> e = BSOCKSCLIENT_EVENT_UP))"
  by (auto simp: ss_after_def one_call_def bind_eq_Some_conv require_def elim!: ss_call.elims split: if_splits)

text \<open>A live SOCKS client reports at most one event at a time, and that it is up only once.\<close>

lemma socks_step_events:
  assumes "socks_ok realloc auths dest s" "ss_enabled i s" "ss_step realloc i s = Some s'"
  shows "ss_events s' = ss_events s \<or> (\<exists>e. ss_events s' = ss_events s @ [e] \<and>
    (e = BSOCKSCLIENT_EVENT_ERROR \<or> e = BSOCKSCLIENT_EVENT_ERROR_CLOSED \<or> e = BSOCKSCLIENT_EVENT_UP \<and> ss_events s = []))"
proof (cases "ss_events s = [BSOCKSCLIENT_EVENT_UP]")
  case True
  then have "sc_state (ss_client s) = STATE_UP" "\<not> ss_sending s" "ss_recv s = None" using assms(1) by (auto simp: socks_ok_def)
  then obtain e where "i = Connection_event e" using assms(2) by (cases i) auto
  then show ?thesis using assms(3)
    by (auto simp: ss_after_def connection_handler_def report_error_def bind_eq_Some_conv split: if_splits)
next
  case False
  then have "ss_events s = []" using assms(2) by (cases i) (auto simp: ss_live_def)
  moreover obtain t r where "ss_after t r = Some s'" "one_call r" "ss_events t = ss_events s"
  proof (cases i)
    case (Received data)
    then obtain d n b where "ss_after (s\<lparr>ss_recv := None, ss_rx := ss_rx s @ data\<rparr>)
        (recv_handler_done realloc ((ss_client s)\<lparr>sc_buffer := Some (memcpy b d data)\<rparr>) (int (length data))) = Some s'"
      using assms(3) by (auto split: option.splits if_splits prod.splits)
    then show ?thesis using that one_call_handlers(3) by simp
  qed (use assms(3) that one_call_handlers in force)+
  ultimately show ?thesis using ss_after_events [of t r s'] by metis
qed

section \<open>The invariant\<close>

text \<open>There is a SOCKS client or the timer runs, never both; the udpgw client has a server exactly
  when the SOCKS client is up.\<close>

definition socks_part_ok :: "reallocator \<Rightarrow> SocksUdpGwClient \<Rightarrow> bool" where
  "socks_part_ok realloc u \<longleftrightarrow> (\<exists>s. su_socks_client u = Some s \<and> socks_ok realloc (su_auth_info u) (su_remote_udpgw_addr u) s \<and> ss_live s \<and>
     (su_socks_up u \<longleftrightarrow> ss_events s = [BSOCKSCLIENT_EVENT_UP]))"

definition su_ok :: "reallocator \<Rightarrow> SocksUdpGwClient \<Rightarrow> bool" where
  "su_ok realloc u \<longleftrightarrow> ug_reach (su_udpgw_client u) \<and> \<not> BAddr_IsInvalid (su_socks_server_addr u) \<and>
     dest_ok (su_remote_udpgw_addr u) \<and> auths_ok (su_auth_info u) \<and>
     ug_have_server (su_udpgw_client u) = (su_have_socks u \<and> su_socks_up u) \<and> su_reconnect_timer u = (\<not> su_have_socks u) \<and>
     (su_have_socks u \<longrightarrow> socks_part_ok realloc u)"

lemma socks_can_be_freed: "res_inv c \<Longrightarrow> \<exists>c'. BSocksClient_Free c = Some c'"
  by (auto simp: BSocksClient_Free_def res_inv_def free_up_io_def free_control_io_def free_con_def require_def)

lemma ug_disconnect:
  "ug_reach ug \<Longrightarrow> ug_have_server ug \<Longrightarrow> UdpGwClient_DisconnectServer ug = Some (ug\<lparr>ug_have_server := False\<rparr>, [Ug_Disconnect]) \<and>
    ug_reach (ug\<lparr>ug_have_server := False\<rparr>)"
  using ug_reach.step [of ug Ev_Disconnect "ug\<lparr>ug_have_server := False\<rparr>"]
  by (auto simp: UdpGwClient_DisconnectServer_def free_server_def require_def)

text \<open>After \<open>free_socks\<close>, with the timer set, the invariant holds again.\<close>

lemma su_free_socks_ok:
  assumes "su_have_socks u" "su_socks_client u = Some s" "res_inv (ss_client s)" "ug_reach (su_udpgw_client u)"
    "ug_have_server (su_udpgw_client u) = su_socks_up u" "\<not> BAddr_IsInvalid (su_socks_server_addr u)"
    "dest_ok (su_remote_udpgw_addr u)" "auths_ok (su_auth_info u)"
  shows "\<exists>u'. free_socks u = Some (u', if su_socks_up u then [Ug_Disconnect] else []) \<and> su_ok realloc (u'\<lparr>su_reconnect_timer := True\<rparr>) \<and>
    ug_reach (su_udpgw_client u') \<and> ug_lru (su_udpgw_client u') = ug_lru (su_udpgw_client u) \<and> \<not> su_have_socks u' \<and> \<not> ug_have_server (su_udpgw_client u')"
proof -
  obtain c where c: "BSocksClient_Free (ss_client s) = Some c" using socks_can_be_freed [OF assms(3)] by blast
  show ?thesis
  proof (cases "su_socks_up u")
    case True
    then show ?thesis using assms c ug_disconnect [OF assms(4)]
      by (auto simp: free_socks_def su_ok_def ug_lru_def assoc_of_def)
  next
    case False
    then show ?thesis using assms c by (auto simp: free_socks_def su_ok_def)
  qed
qed

lemma try_connect_ok:
  assumes "\<not> su_have_socks u" "\<not> su_reconnect_timer u" "ug_reach (su_udpgw_client u)" "\<not> ug_have_server (su_udpgw_client u)"
    "\<not> BAddr_IsInvalid (su_socks_server_addr u)" "dest_ok (su_remote_udpgw_addr u)" "auths_ok (su_auth_info u)"
  shows "\<exists>u'. try_connect connector_init u = Some u' \<and> su_ok realloc u' \<and> su_udpgw_client u' = su_udpgw_client u"
proof -
  have t: "BAddr_type (su_remote_udpgw_addr u) = BADDR_TYPE_IPV4 \<or> BAddr_type (su_remote_udpgw_addr u) = BADDR_TYPE_IPV6"
    using assms(6) by (cases "su_remote_udpgw_addr u") (auto simp: dest_ok_def)
  have a: "list_all (\<lambda>ai. auth_type ai = SOCKS_METHOD_NO_AUTHENTICATION_REQUIRED \<or>
      auth_type ai = SOCKS_METHOD_USERNAME_PASSWORD) (su_auth_info u)" using assms(7) by (simp add: auths_ok_def socks_consts)
  show ?thesis using assms t a
    by (cases connector_init) (auto simp: try_connect_def BSocksClient_Init_def require_def su_ok_def socks_part_ok_def socks_ok_def
      ss_init_def res_inv_def ss_live_def socks_events)
qed

lemma su_ok_init:
  assumes "SocksUdpGwClient_Init connector_init udp_mtu max_connections send_buffer_size server auths remote = Some u"
    "udp_mtu \<le> INT_MAX" "baddr_ok remote"
  shows "su_ok realloc u"
proof -
  define u0 where "u0 ug = \<lparr>su_socks_server_addr = server, su_auth_info = auths, su_remote_udpgw_addr = remote, su_udpgw_client = ug,
    su_reconnect_timer = False, su_have_socks = False, su_socks_client = None, su_socks_up = False\<rparr>" for ug
  obtain ug where ug: "UdpGwClient_Init udp_mtu max_connections send_buffer_size = Some ug" "try_connect connector_init (u0 ug) = Some u"
    "\<not> BAddr_IsInvalid server" "BAddr_type remote = BADDR_TYPE_IPV4 \<or> BAddr_type remote = BADDR_TYPE_IPV6"
    using assms(1) by (auto simp: SocksUdpGwClient_Init_def u0_def bind_eq_Some_conv split: if_splits)
  have "auths_ok auths" using ug(2)
    by (auto simp: u0_def try_connect_def BSocksClient_Init_def require_def auths_ok_def socks_consts bind_eq_Some_conv split: if_splits)
  moreover have "dest_ok remote" using ug(4) assms(3)
    by (cases remote) (auto simp: dest_ok_def BADDR_TYPE_NONE_def BADDR_TYPE_IPV4_def BADDR_TYPE_IPV6_def)
  moreover have "\<not> ug_have_server ug" using ug(1) by (auto simp: UdpGwClient_Init_def require_def split: if_splits)
  ultimately show ?thesis
    using try_connect_ok [of "u0 ug" connector_init realloc] ug ug_reach.init [OF ug(1) assms(2)] by (simp add: u0_def)
qed

lemma su_submit:
  "su_step realloc (Su_Submit malloc ppflow have_buf l r is_dns data) u =
    map_option (\<lambda>(ug, cs). (u\<lparr>su_udpgw_client := ug\<rparr>, map Su_Udpgw cs))
      (ug_step (su_udpgw_client u) (Ev_Submit malloc ppflow have_buf l r is_dns data))"
proof (cases "UdpGwClient_SubmitPacket (su_udpgw_client u) malloc ppflow have_buf l r is_dns data")
  case (Some x)
  then show ?thesis
    by (cases x; cases "ug_pending (fst x)"; cases "connection_first_job_handler (fst x) (the (ug_pending (fst x))) have_buf")
      (auto simp: SocksUdpGwClient_SubmitPacket_def submit_event_def)
qed (simp add: SocksUdpGwClient_SubmitPacket_def submit_event_def)

lemma recv_calls:
  "recv_interface_handler_send ug data = Some (ug', cs) \<Longrightarrow> Ug_Server_Error \<notin> set cs"
  by (auto simp: recv_interface_handler_send_def bind_eq_Some_conv split: if_splits option.splits prod.splits)

lemma su_ok_udpgw:
  "su_ok realloc u \<Longrightarrow> ug_reach ug \<Longrightarrow> ug_have_server ug = ug_have_server (su_udpgw_client u) \<Longrightarrow> su_ok realloc (u\<lparr>su_udpgw_client := ug\<rparr>)"
  by (auto simp: su_ok_def socks_part_ok_def)

text \<open>An event of the udpgw client.\<close>

lemma su_client_step:
  assumes "su_ok realloc u" "su_enabled (Su_Client ev) u"
  shows "\<exists>u' cs. su_step realloc (Su_Client ev) u = Some (u', cs) \<and> su_ok realloc u'"
proof -
  let ?ug = "su_udpgw_client u"
  have r: "ug_reach ?ug" "ug_enabled ?ug ev" using assms by (auto simp: su_ok_def)
  obtain ug' cs where s: "ug_step ?ug ev = Some (ug', cs)" "ug_have_server ug' = ug_have_server ?ug"
    using ug_step_ok [OF ug_reach_inv [OF r(1)] r(2)] assms(2) by (cases ev) auto
  let ?u = "u\<lparr>su_udpgw_client := ug'\<rparr>"
  have ok: "su_ok realloc ?u" using su_ok_udpgw [OF assms(1) ug_reach.step [OF r s(1)] s(2)] .
  have "ev = Ev_Decoder_Error \<or> Ug_Server_Error \<notin> set cs"
    using assms(2) s(1)
    by (cases ev) (auto dest: recv_calls simp: send_monitor_handler_def keepalive_if_handler_done_def require_def split: if_splits)
  then show ?thesis
  proof
    assume "ev = Ev_Decoder_Error"
    then have cs: "cs = [Ug_Server_Error]" "ug' = ?ug" "ug_have_server ?ug"
      using s(1) by (auto simp: decoder_handler_error_def require_def split: if_splits)
    then obtain w where w: "su_have_socks u" "su_socks_up u" "su_socks_client u = Some w" "res_inv (ss_client w)"
      using assms(1) by (auto simp: su_ok_def socks_part_ok_def socks_ok_def)
    have "\<exists>u'. free_socks u = Some (u', [Ug_Disconnect]) \<and> su_ok realloc (u'\<lparr>su_reconnect_timer := True\<rparr>)"
      using su_free_socks_ok [OF w(1,3,4) r(1), of realloc] assms(1) w(1,2) by (auto simp: su_ok_def)
    then show ?thesis using s(1) cs w by (auto simp: udpgw_handler_servererror_def)
  next
    assume 2: "Ug_Server_Error \<notin> set cs"
    have "\<exists>xs. su_calls cs v = Some (v, xs)" if "Ug_Server_Error \<notin> set cs" for cs v
      using that by (induction cs) (auto split: udpgw_call.splits)
    then show ?thesis using 2 s(1) ok by force
  qed
qed

text \<open>An event of the SOCKS client.\<close>

lemma su_socks_step:
  assumes "su_ok realloc u" "su_enabled (Su_Socks i decoder) u" "realloc_ok realloc"
  shows "\<exists>u' cs. su_step realloc (Su_Socks i decoder) u = Some (u', cs) \<and> su_ok realloc u'"
proof -
  obtain s where s: "su_have_socks u" "su_socks_client u = Some s" "socks_ok realloc (su_auth_info u) (su_remote_udpgw_addr u) s"
    "ss_live s" "su_socks_up u \<longleftrightarrow> ss_events s = [BSOCKSCLIENT_EVENT_UP]" "ss_enabled i s" "dest_ok (su_remote_udpgw_addr u)"
    "auths_ok (su_auth_info u)" "ug_reach (su_udpgw_client u)" "ug_have_server (su_udpgw_client u) = su_socks_up u"
    "\<not> BAddr_IsInvalid (su_socks_server_addr u)"
    using assms(1,2) by (auto simp: su_ok_def socks_part_ok_def)
  obtain s' where s': "ss_step realloc i s = Some s'" "socks_ok realloc (su_auth_info u) (su_remote_udpgw_addr u) s'"
    using socks_step [OF assms(3) s(7,8,3,6)] by (auto simp: step_ok_def split: option.splits)
  let ?u = "u\<lparr>su_socks_client := Some s'\<rparr>"
  have res: "res_inv (ss_client s')" using s'(2) by (simp add: socks_ok_def)
  have free: "\<exists>v cs. free_socks v' = Some (v, cs) \<and> su_ok realloc (v\<lparr>su_reconnect_timer := True\<rparr>)"
    if "v' = ?u" for v'
    using su_free_socks_ok [of ?u s' realloc] s res that by auto
  consider "ss_events s' = ss_events s"
    | e where "ss_events s' = ss_events s @ [e]" "e = BSOCKSCLIENT_EVENT_ERROR \<or> e = BSOCKSCLIENT_EVENT_ERROR_CLOSED"
    | "ss_events s' = [BSOCKSCLIENT_EVENT_UP]" "ss_events s = []"
    using socks_step_events [OF s(3,6) s'(1)] by auto
  then show ?thesis
  proof cases
    case 1
    then have "su_ok realloc ?u" using assms(1) s s' by (simp add: su_ok_def socks_part_ok_def ss_live_def)
    then show ?thesis using 1 s s' by simp
  next
    case 2
    then show ?thesis using free [of ?u] s s' by (auto simp: socks_client_handler_def socks_events)
  next
    case 3
    have up: "\<not> su_socks_up u" "\<not> ug_have_server (su_udpgw_client u)" using s(5,10) 3(2) by auto
    let ?ug = "su_udpgw_client u"
    have "ug_reach (?ug\<lparr>ug_have_server := True\<rparr>)"
      using ug_reach.step [OF s(9), of "Ev_Connect True"] up(2) by (simp add: UdpGwClient_ConnectServer_def)
    then have "su_ok realloc (?u\<lparr>su_udpgw_client := ?ug\<lparr>ug_have_server := True\<rparr>, su_socks_up := True\<rparr>)"
      using assms(1) s s' 3 by (auto simp: su_ok_def socks_part_ok_def ss_live_def)
    then show ?thesis using free [of ?u] s s' 3 up
      by (cases decoder) (auto simp: socks_client_handler_def UdpGwClient_ConnectServer_def)
  qed
qed

lemma su_step_ok:
  assumes "su_ok realloc u" "su_enabled ev u" "realloc_ok realloc"
  shows "\<exists>u' cs. su_step realloc ev u = Some (u', cs) \<and> su_ok realloc u'"
proof (cases ev)
  case (Su_Submit malloc ppflow have_buf l r is_dns data)
  let ?ug = "su_udpgw_client u" and ?ev = "Ev_Submit malloc ppflow have_buf l r is_dns data"
  have r: "ug_reach ?ug" "ug_enabled ?ug ?ev" using assms(1,2) Su_Submit by (auto simp: su_ok_def)
  obtain ug' cs where s: "ug_step ?ug ?ev = Some (ug', cs)" "ug_have_server ug' = ug_have_server ?ug"
    using ug_step_ok [OF ug_reach_inv [OF r(1)] r(2)] by auto
  then show ?thesis using su_ok_udpgw [OF assms(1) ug_reach.step [OF r s(1)] s(2)]
    unfolding Su_Submit su_submit by simp
next
  case (Su_Client ev')
  then show ?thesis using su_client_step assms by simp
next
  case (Su_Socks i decoder)
  then show ?thesis using su_socks_step assms by simp
next
  case (Su_Timer connector_init)
  then show ?thesis using assms try_connect_ok [of "u\<lparr>su_reconnect_timer := False\<rparr>" connector_init realloc]
    by (auto simp: reconnect_timer_handler_def su_ok_def)
qed

lemma su_reach_ok: "su_reach realloc u \<Longrightarrow> realloc_ok realloc \<Longrightarrow> su_ok realloc u"
proof (induction rule: su_reach.induct)
  case (step u ev u' cs)
  then show ?case using su_step_ok [of realloc u ev] by auto
qed (rule su_ok_init)

text \<open>Losing and finding the server leaves the associations alone.\<close>

lemma free_socks_lru: "free_socks u = Some (u', cs) \<Longrightarrow> ug_lru (su_udpgw_client u') = ug_lru (su_udpgw_client u)"
  by (auto simp: free_socks_def UdpGwClient_DisconnectServer_def require_def ug_lru_def assoc_of_def bind_eq_Some_conv split: if_splits)

lemma connect_lru: "UdpGwClient_ConnectServer ug decoder = Some (ug', cs, ok) \<Longrightarrow> ug_lru ug' = ug_lru ug"
  by (auto simp: UdpGwClient_ConnectServer_def ug_lru_def assoc_of_def split: if_splits)

lemma socks_client_handler_lru:
  "socks_client_handler decoder u e = Some (u', cs) \<Longrightarrow> ug_lru (su_udpgw_client u') = ug_lru (su_udpgw_client u)"
  unfolding socks_client_handler_def
  by (auto simp: bind_eq_Some_conv Let_def dest!: connect_lru free_socks_lru split: if_splits)

lemma su_socks_lru:
  assumes "su_step realloc (Su_Socks i decoder) u = Some (u', cs)"
  shows "ug_lru (su_udpgw_client u') = ug_lru (su_udpgw_client u)"
proof -
  obtain s s' where s: "su_socks_client u = Some s" "ss_step realloc i s = Some s'" using assms by (auto simp: bind_eq_Some_conv)
  show ?thesis
  proof (cases "drop (length (ss_events s)) (ss_events s')")
    case Nil
    then have "u' = u\<lparr>su_socks_client := Some s'\<rparr>" using assms s by (simp del: drop_eq_Nil)
    then show ?thesis by simp
  next
    case (Cons e es)
    then obtain cs' where "socks_client_handler decoder (u\<lparr>su_socks_client := Some s'\<rparr>) e = Some (u', cs')" using assms s by auto
    then show ?thesis using socks_client_handler_lru by fastforce
  qed
qed

lemma reconnect_lru:
  assumes "su_step realloc ev u = Some (u', cs)" "ev \<in> {Su_Socks i decoder, Su_Timer connector_init, Su_Client Ev_Decoder_Error}"
  shows "ug_lru (su_udpgw_client u') = ug_lru (su_udpgw_client u)"
proof -
  consider "ev = Su_Socks i decoder" | "ev = Su_Timer connector_init" | "ev = Su_Client Ev_Decoder_Error" using assms(2) by blast
  then show ?thesis
  proof cases
    case 1
    then show ?thesis using assms(1) su_socks_lru by blast
  next
    case 2
    then show ?thesis using assms(1)
      by (auto simp: reconnect_timer_handler_def try_connect_def bind_eq_Some_conv split: if_splits option.splits)
  next
    case 3
    then show ?thesis using assms(1)
      by (auto simp: decoder_handler_error_def udpgw_handler_servererror_def require_def bind_eq_Some_conv dest!: free_socks_lru split: if_splits)
  qed
qed

section \<open>Runs\<close>

text \<open>The pairs an event uses, and runs of the object as runs of its udpgw client.\<close>

fun su_used :: "su_event \<Rightarrow> su_call list \<Rightarrow> conaddr set" where
  "su_used (Su_Submit _ _ _ l r _ _) cs = {(l, r)}"
| "su_used _ cs = {(l, r). \<exists>d. Su_handler_received l r d \<in> set cs}"

inductive su_runs :: "reallocator \<Rightarrow> SocksUdpGwClient \<Rightarrow> conaddr set \<Rightarrow> SocksUdpGwClient \<Rightarrow> bool" for realloc where
  stay: "su_runs realloc u {} u"
| go: "su_runs realloc u A u' \<Longrightarrow> su_enabled ev u' \<Longrightarrow> su_step realloc ev u' = Some (u'', cs) \<Longrightarrow>
    su_runs realloc u (A \<union> su_used ev cs) u''"

lemma ug_runs_one: "ug_enabled ug ev \<Longrightarrow> ug_step ug ev = Some (ug', cs) \<Longrightarrow> ug_runs ug (used_pairs ev cs) ug'"
  using ug_runs.more [OF ug_runs.none] by fastforce

lemma ug_runs_trans: "ug_runs b B c \<Longrightarrow> ug_runs a A b \<Longrightarrow> ug_runs a (A \<union> B) c"
proof (induction rule: ug_runs.induct)
  case (more ug B ug' ev ug'' cs)
  then show ?case using ug_runs.more [of a "A \<union> B" ug' ev ug'' cs] by (simp add: Un_assoc)
qed simp

lemma free_socks_runs:
  assumes "free_socks u = Some (u', cs)"
  shows "ug_runs (su_udpgw_client u) {} (su_udpgw_client u')"
proof (cases "su_socks_up u")
  case True
  then have "ug_step (su_udpgw_client u) Ev_Disconnect = Some (su_udpgw_client u', [Ug_Disconnect])" "ug_have_server (su_udpgw_client u)"
    using assms by (auto simp: free_socks_def UdpGwClient_DisconnectServer_def free_server_def require_def bind_eq_Some_conv split: if_splits)
  then show ?thesis using ug_runs_one [of "su_udpgw_client u" Ev_Disconnect] by simp
qed (use assms in \<open>auto simp: free_socks_def bind_eq_Some_conv intro: ug_runs.none split: if_splits\<close>)

lemma connect_runs:
  assumes "UdpGwClient_ConnectServer ug decoder = Some (ug', cs, ok)"
  shows "ug_runs ug {} ug'"
proof -
  have "ug_enabled ug (Ev_Connect decoder)" "ug_step ug (Ev_Connect decoder) = Some (ug', cs)" "used_pairs (Ev_Connect decoder) cs = {}"
    using assms by (auto simp: UdpGwClient_ConnectServer_def split: if_splits)
  then show ?thesis using ug_runs_one by metis
qed

lemma socks_client_handler_runs:
  assumes "socks_client_handler decoder u e = Some (u', cs)"
  shows "ug_runs (su_udpgw_client u) {} (su_udpgw_client u')"
proof (cases "e = BSOCKSCLIENT_EVENT_UP")
  case True
  then obtain ug ds ok where c: "UdpGwClient_ConnectServer (su_udpgw_client u) decoder = Some (ug, ds, ok)"
    using assms by (auto simp: socks_client_handler_def bind_eq_Some_conv split: if_splits)
  have "ug_runs ug {} (su_udpgw_client u')"
    using assms c True free_socks_runs [of "u\<lparr>su_udpgw_client := ug\<rparr>"]
    by (auto simp: socks_client_handler_def Let_def bind_eq_Some_conv intro: ug_runs.none split: if_splits)
  then show ?thesis using ug_runs_trans [OF _ connect_runs [OF c]] by fastforce
next
  case False
  then obtain v where "free_socks u = Some (v, cs)" "su_udpgw_client u' = su_udpgw_client v"
    using assms by (auto simp: socks_client_handler_def bind_eq_Some_conv split: if_splits)
  then show ?thesis using free_socks_runs by simp
qed

lemma su_calls_received:
  "Ug_Server_Error \<notin> set cs \<Longrightarrow> su_calls cs u = Some (u', xs) \<Longrightarrow>
    u' = u \<and> (\<forall>l r d. Su_handler_received l r d \<in> set xs \<longleftrightarrow> Ug_Received l r d \<in> set cs)"
  by (induction cs arbitrary: xs) (auto simp: udpgw_handler_received_def bind_eq_Some_conv split: udpgw_call.splits)

lemma su_client_runs:
  assumes "su_enabled (Su_Client ev) u" "su_step realloc (Su_Client ev) u = Some (u', cs)"
  shows "ug_runs (su_udpgw_client u) (su_used (Su_Client ev) cs) (su_udpgw_client u')"
proof -
  let ?ug = "su_udpgw_client u"
  obtain ug' ucs where s: "ug_step ?ug ev = Some (ug', ucs)" "su_calls ucs (u\<lparr>su_udpgw_client := ug'\<rparr>) = Some (u', cs)"
    using assms(2) by (auto simp: bind_eq_Some_conv)
  have "ev = Ev_Decoder_Error \<or> Ug_Server_Error \<notin> set ucs"
    using assms(1) s(1)
    by (cases ev) (auto dest: recv_calls simp: send_monitor_handler_def keepalive_if_handler_done_def require_def split: if_splits)
  then show ?thesis
  proof
    assume "ev = Ev_Decoder_Error"
    then have "ug' = ?ug" "ucs = [Ug_Server_Error]" using s(1) by (auto simp: decoder_handler_error_def require_def split: if_splits)
    then obtain v ds where "free_socks u = Some (v, ds)" "u' = v\<lparr>su_reconnect_timer := True\<rparr>" "cs = map Su_Udpgw ds"
      using s(2) by (auto simp: udpgw_handler_servererror_def bind_eq_Some_conv split: if_splits)
    moreover have "su_used (Su_Client ev) cs = {}" using calculation(3) by auto
    ultimately show ?thesis using free_socks_runs by simp
  next
    assume "Ug_Server_Error \<notin> set ucs"
    then have r: "u' = u\<lparr>su_udpgw_client := ug'\<rparr>" "\<forall>l r d. Su_handler_received l r d \<in> set cs \<longleftrightarrow> Ug_Received l r d \<in> set ucs"
      using su_calls_received s(2) by blast+
    have "used_pairs ev ucs = su_used (Su_Client ev) cs" using r(2) assms(1) by (cases ev) auto
    then show ?thesis using ug_runs_one [OF _ s(1)] assms(1) r(1) by simp
  qed
qed

lemma su_step_runs:
  assumes "su_enabled ev u" "su_step realloc ev u = Some (u', cs)"
  shows "ug_runs (su_udpgw_client u) (su_used ev cs) (su_udpgw_client u')"
proof (cases ev)
  case (Su_Submit malloc ppflow have_buf l r is_dns data)
  then obtain ug' ucs where "ug_step (su_udpgw_client u) (Ev_Submit malloc ppflow have_buf l r is_dns data) = Some (ug', ucs)"
    "su_udpgw_client u' = ug'"
    using assms(2) unfolding Su_Submit su_submit by (auto simp del: ug_step.simps)
  then show ?thesis using ug_runs_one [of _ "Ev_Submit malloc ppflow have_buf l r is_dns data"] assms(1) Su_Submit
    by (simp del: ug_step.simps)
next
  case (Su_Client ev')
  then show ?thesis using su_client_runs assms by simp
next
  case (Su_Socks i decoder)
  obtain s s' where s: "su_socks_client u = Some s" "ss_step realloc i s = Some s'" using assms(2) Su_Socks by (auto simp: bind_eq_Some_conv)
  show ?thesis
  proof (cases "drop (length (ss_events s)) (ss_events s')")
    case Nil
    then have "u' = u\<lparr>su_socks_client := Some s'\<rparr>" "cs = []" using assms(2) Su_Socks s by (simp_all del: drop_eq_Nil)
    then show ?thesis using Su_Socks ug_runs.none by simp
  next
    case (Cons e es)
    then obtain ds where "socks_client_handler decoder (u\<lparr>su_socks_client := Some s'\<rparr>) e = Some (u', ds)" "cs = map Su_Udpgw ds"
      using assms(2) Su_Socks s by auto
    moreover have "su_used ev cs = {}" using calculation(2) Su_Socks by auto
    ultimately show ?thesis using socks_client_handler_runs by fastforce
  qed
next
  case (Su_Timer connector_init)
  then have "cs = []" "su_udpgw_client u' = su_udpgw_client u" using assms(2)
    by (auto simp: reconnect_timer_handler_def try_connect_def bind_eq_Some_conv split: if_splits option.splits)
  then show ?thesis using Su_Timer ug_runs.none by simp
qed

lemma su_runs_client: "su_runs realloc u A u' \<Longrightarrow> ug_runs (su_udpgw_client u) A (su_udpgw_client u')"
  by (induction rule: su_runs.induct) (auto intro: ug_runs.none ug_runs_trans su_step_runs)

lemma su_runs_reach: "su_runs realloc u A u' \<Longrightarrow> su_reach realloc u \<Longrightarrow> su_reach realloc u'"
  by (induction rule: su_runs.induct) (auto intro: su_reach.step)

section \<open>The properties\<close>

text \<open>C12. Whatever the SOCKS server, the network and the udpgw server do, no assertion fails, the client
  never ends up without an attempt to reach the server: either there is a SOCKS client or the
  timer of the next attempt runs, and not both; the udpgw client has a server exactly when the
  SOCKS client is up; losing the server and reaching it again keeps the table of associations; and the
  object can be freed at any moment, which releases the SOCKS client, the timer and every connection.\<close>

theorem socks_udpgw_reconnects:
  assumes "su_reach realloc u" "realloc_ok realloc"
  shows "(su_enabled ev u \<longrightarrow> su_step realloc ev u \<noteq> None) \<and> su_have_socks u \<noteq> su_reconnect_timer u \<and>
    ug_have_server (su_udpgw_client u) = (su_have_socks u \<and> su_socks_up u) \<and>
    (ev \<in> {Su_Socks i decoder, Su_Timer connector_init, Su_Client Ev_Decoder_Error} \<longrightarrow> su_step realloc ev u = Some (u', cs) \<longrightarrow>
      ug_lru (su_udpgw_client u') = ug_lru (su_udpgw_client u)) \<and>
    (\<exists>w ds. SocksUdpGwClient_Free u = Some (w, ds) \<and> \<not> su_have_socks w \<and> \<not> su_reconnect_timer w \<and>
      ug_heap (su_udpgw_client w) = Map.empty)"
proof -
  have ok: "su_ok realloc u" by (rule su_reach_ok [OF assms])
  have rel: "\<exists>ug' ds. UdpGwClient_Free ug = Some (ug', ds) \<and> ug_heap ug' = Map.empty" if "ug_reach ug" for ug
    using free_udpgw_connections_ends [of ug] ug_reach_inv [OF that] ug_okD(5) by (fastforce simp: UdpGwClient_Free_def ug_inv_def)
  have "\<exists>w ds. SocksUdpGwClient_Free u = Some (w, ds) \<and> \<not> su_have_socks w \<and> \<not> su_reconnect_timer w \<and>
      ug_heap (su_udpgw_client w) = Map.empty"
  proof (cases "su_have_socks u")
    case True
    then obtain s where "su_socks_client u = Some s" "res_inv (ss_client s)" "ug_reach (su_udpgw_client u)"
      "ug_have_server (su_udpgw_client u) = su_socks_up u" "\<not> BAddr_IsInvalid (su_socks_server_addr u)"
      "dest_ok (su_remote_udpgw_addr u)" "auths_ok (su_auth_info u)"
      using ok by (auto simp: su_ok_def socks_part_ok_def socks_ok_def)
    then obtain v ds where "free_socks u = Some (v, ds)" "ug_reach (su_udpgw_client v)" "\<not> su_have_socks v"
      using su_free_socks_ok [OF True, of s realloc] by blast
    then show ?thesis using True rel [of "su_udpgw_client v"] by (auto simp: SocksUdpGwClient_Free_def)
  next
    case False
    then show ?thesis using ok rel [of "su_udpgw_client u"] by (auto simp: SocksUdpGwClient_Free_def su_ok_def)
  qed
  moreover have "su_enabled ev u \<longrightarrow> su_step realloc ev u \<noteq> None" using su_step_ok [OF ok _ assms(2), of ev] by fastforce
  moreover have "su_have_socks u \<noteq> su_reconnect_timer u" "ug_have_server (su_udpgw_client u) = (su_have_socks u \<and> su_socks_up u)"
    using ok by (auto simp: su_ok_def)
  moreover have "ev \<in> {Su_Socks i decoder, Su_Timer connector_init, Su_Client Ev_Decoder_Error} \<longrightarrow> su_step realloc ev u = Some (u', cs) \<longrightarrow>
      ug_lru (su_udpgw_client u') = ug_lru (su_udpgw_client u)" using reconnect_lru by blast
  ultimately show ?thesis by blast
qed

theorem socks_udpgw_reconnects_witness:
  "\<exists>u. SocksUdpGwClient_Init True 1472 2 16 (BAddr_IPv4 1 2) sample_auths (BAddr_IPv4 3 4) = Some u \<and> su_have_socks u \<and>
    su_enabled (Su_Socks (Connected True False) True) u \<and> su_step sample_realloc (Su_Socks (Connected True False) True) u \<noteq> None"
proof -
  have "map_option (\<lambda>u. (su_have_socks u, su_enabled (Su_Socks (Connected True False) True) u))
      (SocksUdpGwClient_Init True 1472 2 16 (BAddr_IPv4 1 2) sample_auths (BAddr_IPv4 3 4)) = Some (True, True)" by code_simp
  then obtain u where u: "SocksUdpGwClient_Init True 1472 2 16 (BAddr_IPv4 1 2) sample_auths (BAddr_IPv4 3 4) = Some u" "su_have_socks u"
    "su_enabled (Su_Socks (Connected True False) True) u"
    by (auto simp del: su_enabled.simps)
  have "su_reach sample_realloc u" by (rule su_reach.init [OF u(1)]) (simp_all add: INT_MAX_def)
  from conjunct1 [OF socks_udpgw_reconnects [OF this sample_realloc_ok]] u(3)
  have "su_step sample_realloc (Su_Socks (Connected True False) True) u \<noteq> None" by (rule mp)
  then show ?thesis using u by blast
qed

end
