(* ===== verification/Udp_Path.thy ===== *)
theory Udp_Path
  imports Tunnel_Packets Socks_Udpgw
begin

text \<open>
  The path of a UDP datagram through the tunnel: from the device through
  \<open>process_device_udp_packet\<close> to the udpgw client, and back from its server through
  \<open>udpgw_client_handler_received\<close> to the device. The lemmas join the interfaces of the theories
  \<open>Tunnel_Packets\<close> and \<open>Socks_Udpgw\<close>.
\<close>

text \<open>What the device submits is what the udpgw client takes.\<close>

lemma device_datagram:
  assumes "process_device_udp_packet tn data = ([SocksUdpGwClient_SubmitPacket_call l r dns p], True)"
  shows "conaddr_ok (l, r) \<and> BAddr_type l = BAddr_type r \<and> int (length p) \<le> tn_udp_mtu tn \<and> tn_udpgw_remote_server_addr tn \<noteq> None"
proof -
  have len: "length (ip6_source_address h) = 16 \<and> length (ip6_destination_address h) = 16" if "udp6_parse data = Some (h, u, q)" for h u q
    using that by (auto simp: udp6_parse_def ipv6_check_def ipv6_header_get_def bslice_def Let_def split: if_splits option.splits)
  show ?thesis using assms len
    by (auto simp: process_device_udp_packet_def BAddr_MakeIPv4_def BAddr_MakeIPv6_def split: if_splits option.splits)
qed

text \<open>What the udpgw client gives back fits the device.\<close>

lemma device_reply:
  assumes "conaddr_ok (l, r)" "tn_udpgw_remote_server_addr tn \<noteq> None" "datagram_fits tn l r d"
    "tn_udp_mtu tn = compute_udp_mtu (tn_mtu tn) (tn_netif_ip6addr tn \<noteq> None)"
  shows "int (length d) \<le> tn_udp_mtu tn \<and> (\<exists>packet is_dns. udpgw_client_handler_received tn l r d = Some [BTap_Send packet] \<and>
    int (length packet) \<le> tn_mtu tn \<and> process_device_udp_packet tn packet = ([SocksUdpGwClient_SubmitPacket_call r l is_dns d], True))"
proof (cases l)
  case (BAddr_IPv4 lip lport)
  then obtain rip rport where r: "r = BAddr_IPv4 rip rport" using assms(3) by (cases r) auto
  then show ?thesis using received4 [OF assms(2) _ BAddr_IPv4 r assms(3)] assms(3,4) BAddr_IPv4
    by (auto simp: compute_udp_mtu_eq length_builds)
next
  case (BAddr_IPv6 lip lport)
  then obtain rip rport where r: "r = BAddr_IPv6 rip rport" using assms(3) by (cases r) auto
  have len: "length lip = 16" "length rip = 16" using assms(1) by (simp_all add: BAddr_IPv6 r)
  then show ?thesis using received6 [OF assms(2) _ BAddr_IPv6 r assms(3) len] assms(3,4) BAddr_IPv6 r
    by (auto simp: compute_udp_mtu_eq length_builds)
qed (use assms(3) in simp_all)

text \<open>A datagram submitted to the object and the answer it gets, through any events in between.\<close>

lemma su_submit_then_reply:
  assumes "su_reach realloc u" "realloc_ok realloc" "su_enabled (Su_Submit malloc ppflow have_buf l r is_dns data) u"
    "su_step realloc (Su_Submit malloc ppflow have_buf l r is_dns data) u = Some (u1, [Su_Udpgw (Ug_Send q packet)])"
    "su_runs realloc u1 A u2" "card (A - {(l, r)}) < ug_max (su_udpgw_client u1)" "su_have_socks u2" "su_socks_up u2"
  shows "\<exists>i. udpgw_parse packet = Some (i, r, data) \<and>
    (\<forall>reply d. udpgw_parse reply = Some (i, r, d) \<longrightarrow> int (length reply) \<le> ug_udpgw_mtu (su_udpgw_client u1) \<longrightarrow>
      int (length d) \<le> ug_udp_mtu (su_udpgw_client u1) \<longrightarrow>
      (\<exists>u3. su_step realloc (Su_Client (Ev_Recv reply)) u2 = Some (u3, [Su_Udpgw Ug_Recv_Done, Su_handler_received l r d])))"
proof -
  have ok: "su_ok realloc u" by (rule su_reach_ok [OF assms(1,2)])
  have "su_reach realloc u1" by (rule su_reach.step [OF assms(1,3,4)])
  then have ok2: "su_ok realloc u2" using su_runs_reach [OF assms(5)] su_reach_ok assms(2) by blast
  have I: "ug_inv (su_udpgw_client u)" using ok ug_reach_inv by (simp add: su_ok_def)
  obtain ug1 where s: "ug_step (su_udpgw_client u) (Ev_Submit malloc ppflow have_buf l r is_dns data) = Some (ug1, [Ug_Send q packet])"
    "su_udpgw_client u1 = ug1"
    using assms(4) unfolding su_submit by (auto simp del: ug_step.simps)
  have srv: "ug_have_server (su_udpgw_client u2)" using ok2 assms(7,8) by (simp add: su_ok_def)
  obtain i where i: "udpgw_parse packet = Some (i, r, data)"
    "\<And>reply d. udpgw_parse reply = Some (i, r, d) \<Longrightarrow> int (length reply) \<le> ug_udpgw_mtu ug1 \<Longrightarrow> int (length d) \<le> ug_udp_mtu ug1 \<Longrightarrow>
      \<exists>ug3. ug_step (su_udpgw_client u2) (Ev_Recv reply) = Some (ug3, [Ug_Recv_Done, Ug_Received l r d])"
    using submit_then_reply [OF I _ s(1) su_runs_client [OF assms(5), unfolded s(2)] _ srv] assms(3,6) s(2) by auto
  have "\<exists>u3. su_step realloc (Su_Client (Ev_Recv reply)) u2 = Some (u3, [Su_Udpgw Ug_Recv_Done, Su_handler_received l r d])"
    if "udpgw_parse reply = Some (i, r, d)" "int (length reply) \<le> ug_udpgw_mtu ug1" "int (length d) \<le> ug_udp_mtu ug1" for reply d
    using i(2) [OF that] by (auto simp: udpgw_handler_received_def)
  then show ?thesis using i(1) s(2) by blast
qed

lemma su_packet_parse:
  assumes "su_reach realloc u" "realloc_ok realloc" "su_enabled (Su_Submit malloc ppflow have_buf l r is_dns data) u"
    "su_step realloc (Su_Submit malloc ppflow have_buf l r is_dns data) u = Some (u1, [Su_Udpgw (Ug_Send q packet)])"
  shows "\<exists>i. udpgw_parse packet = Some (i, r, data)"
proof -
  let ?ev = "Ev_Submit malloc ppflow have_buf l r is_dns data"
  have I: "ug_inv (su_udpgw_client u)" using su_reach_ok [OF assms(1,2)] ug_reach_inv by (simp add: su_ok_def)
  have e: "ug_enabled (su_udpgw_client u) ?ev" using assms(3) by simp
  obtain ug1 where s: "ug_step (su_udpgw_client u) ?ev = Some (ug1, [Ug_Send q packet])"
    using assms(4) unfolding su_submit by (auto simp del: ug_step.simps)
  show ?thesis using submit_packet_parse [OF I e s] by blast
qed

text \<open>With memory and room in the buffer the datagram leaves as one packet.\<close>

lemma su_submit_sends:
  assumes "su_reach realloc u" "realloc_ok realloc" "su_enabled (Su_Submit (Some m) True True l r is_dns data) u"
  shows "\<exists>u1 q packet. su_step realloc (Su_Submit (Some m) True True l r is_dns data) u = Some (u1, [Su_Udpgw (Ug_Send q packet)]) \<and>
    ug_udp_mtu (su_udpgw_client u1) = ug_udp_mtu (su_udpgw_client u) \<and> ug_max (su_udpgw_client u1) = ug_max (su_udpgw_client u)"
proof -
  let ?ev = "Ev_Submit (Some m) True True l r is_dns data"
  have I: "ug_inv (su_udpgw_client u)" using su_reach_ok [OF assms(1,2)] ug_reach_inv by (simp add: su_ok_def)
  have e: "ug_enabled (su_udpgw_client u) ?ev" using assms(3) by simp
  obtain ug' cs where s: "ug_step (su_udpgw_client u) ?ev = Some (ug', cs)" "ug_udp_mtu ug' = ug_udp_mtu (su_udpgw_client u)"
    "ug_max ug' = ug_max (su_udpgw_client u)"
    using ug_step_ok [OF I e] by blast
  then obtain i b where "sends ug' (l, r) i (submit_flags b is_dns) data True cs" using submit_sends [OF I e s(1)] by auto
  then obtain q packet where "cs = [Ug_Send q packet]" by (auto simp: sends_def)
  then show ?thesis using s unfolding su_submit by simp
qed

text \<open>A run given by its list of events.\<close>

fun su_run :: "reallocator \<Rightarrow> su_event list \<Rightarrow> SocksUdpGwClient \<Rightarrow> SocksUdpGwClient option" where
  "su_run realloc [] u = Some u"
| "su_run realloc (ev # evs) u = do {
     (u, _) \<leftarrow> (if su_enabled ev u then su_step realloc ev u else None);
     su_run realloc evs u
   }"

lemma su_reach_run: "su_reach realloc u \<Longrightarrow> su_run realloc evs u = Some u' \<Longrightarrow> su_reach realloc u'"
  by (induction evs arbitrary: u) (auto simp: bind_eq_Some_conv split: if_splits intro: su_reach.step)

text \<open>A client that went through the SOCKS dialogue.\<close>

definition sample_path_events :: "su_event list" where
  "sample_path_events = map (\<lambda>i. Su_Socks i True) [Connected True False, Sent, Received [5, 0], Sent, Received [5, 0, 0, 1],
     Received [1, 2, 3, 4, 5, 6]]"

definition sample_path :: "SocksUdpGwClient option" where
  "sample_path = Option.bind (SocksUdpGwClient_Init True 1472 2 16 (BAddr_IPv4 1 2) sample_auths (BAddr_IPv4 3 4))
     (su_run sample_realloc sample_path_events)"

lemma sample_path_up:
  "map_option (\<lambda>u. (su_have_socks u, su_socks_up u, ug_udp_mtu (su_udpgw_client u), ug_udpgw_mtu (su_udpgw_client u),
    ug_max (su_udpgw_client u), ug_heap (su_udpgw_client u) 7)) sample_path = Some (True, True, 1472, 1494, 2, None)"
  by code_simp

lemma sample_path_reach:
  assumes "sample_path = Some u"
  shows "su_reach sample_realloc u"
proof -
  obtain v where v: "SocksUdpGwClient_Init True 1472 2 16 (BAddr_IPv4 1 2) sample_auths (BAddr_IPv4 3 4) = Some v"
    "su_run sample_realloc sample_path_events v = Some u"
    using assms by (auto simp: sample_path_def bind_eq_Some_conv)
  have "su_reach sample_realloc v" by (rule su_reach.init [OF v(1)]) (simp_all add: INT_MAX_def)
  then show ?thesis using v(2) by (rule su_reach_run)
qed

end
