(* ===== verification/Cavl_Tree.thy ===== *)
theory Cavl_Tree
  imports Avl_Tree
begin

text \<open>
  The generic AVL tree \<^verbatim>\<open>structure/CAvl_impl.h\<close> and its variant for pointers
  \<^verbatim>\<open>structure/SAvl_impl.h\<close>, without counts, indices and associative values. The tree is represented as in
  the theory \<open>Avl_Tree\<close>; the comparison of two entries (\<^verbatim>\<open>CAVL_PARAM_FUN_COMPARE_ENTRIES\<close>) and
  of a key with an entry (\<^verbatim>\<open>CAVL_PARAM_FUN_COMPARE_KEY_ENTRY\<close>) are arguments. The operations are
  shown to be those of \<open>BAVL\<close> with the values the entries are compared by, from which they inherit the laws; the lookups
  of a key's neighbours, which \<open>BAVL\<close> does not have, are specified on the list of the entries.
\<close>

section \<open>The operations\<close>

definition CAvl_MAX :: "int \<Rightarrow> int \<Rightarrow> int" where
  "CAvl_MAX a b = (if a > b then a else b)"

definition CAvl_OPTNEG :: "int \<Rightarrow> bool \<Rightarrow> int" where
  "CAvl_OPTNEG a neg = (if neg then - a else a)"

definition CAvl_compare_entries :: "('n \<Rightarrow> 'n \<Rightarrow> int) \<Rightarrow> 'n \<Rightarrow> 'n \<Rightarrow> int option" where
  "CAvl_compare_entries cmp node1 node2 = (let res = cmp node1 node2 in require (res \<ge> - 1 \<and> res \<le> 1) res)"

definition CAvl_compare_key_entry :: "('k \<Rightarrow> 'n \<Rightarrow> int) \<Rightarrow> 'k \<Rightarrow> 'n \<Rightarrow> int option" where
  "CAvl_compare_key_entry kcmp key1 node2 = (let res = kcmp key1 node2 in require (res \<ge> - 1 \<and> res \<le> 1) res)"

text \<open>\<^verbatim>\<open>CAvl_rotate\<close> at the subtree of \<open>r\<close>; the link of the parent is the place the result is put.\<close>

definition CAvl_rotate :: "'n avl \<Rightarrow> bool \<Rightarrow> 'n avl option" where
  "CAvl_rotate r dir =
     (let nr = link r (\<not> dir) in
      if nr = Leaf then None
      else (let r = set_link r (\<not> dir) (link nr dir) in Some (set_link nr dir r)))"

fun CAvl_subtree_min :: "'n avl \<Rightarrow> 'n option" where
  "CAvl_subtree_min Leaf = None"
| "CAvl_subtree_min (Node l n b r) = (if l \<noteq> Leaf then CAvl_subtree_min l else Some n)"

fun CAvl_subtree_max :: "'n avl \<Rightarrow> 'n option" where
  "CAvl_subtree_max Leaf = None"
| "CAvl_subtree_max (Node l n b r) = (if r \<noteq> Leaf then CAvl_subtree_max r else Some n)"

text \<open>The \<^verbatim>\<open>switch\<close> of \<^verbatim>\<open>CAvl_rebalance\<close>, with what it subtracts from \<^verbatim>\<open>delta\<close>.\<close>

definition CAvl_transform :: "'n avl \<Rightarrow> ('n avl \<times> int) option" where
  "CAvl_transform node =
     (let bside = (balance node = 2);
          bsidef = (if bside then 1 else - 1);
          child = link node bside;
          at_node = (\<lambda>t b. set_link t (\<not> bside) (set_balance (link t (\<not> bside)) b));
          at_child = (\<lambda>t b. set_link t bside (set_balance (link t bside) b))
      in if child = Leaf then None
         else if balance child * bsidef = 1 then
           map_option (\<lambda>t. (set_balance (at_node t 0) 0, 1)) (CAvl_rotate node (\<not> bside))
         else if balance child * bsidef = 0 then
           map_option (\<lambda>t. (set_balance (at_node t (1 * bsidef)) (- 1 * bsidef), 0)) (CAvl_rotate node (\<not> bside))
         else if balance child * bsidef = - 1 then
           (let gchild = link child (\<not> bside) in
            if gchild = Leaf then None
            else (case CAvl_rotate child bside of
                None \<Rightarrow> None
              | Some c \<Rightarrow>
                  map_option (\<lambda>t. (set_balance
                    (at_child (at_node t (- CAvl_MAX 0 (balance gchild * bsidef) * bsidef))
                      (CAvl_MAX 0 (- balance gchild * bsidef) * bsidef)) 0, 1))
                    (CAvl_rotate (set_link node bside c) (\<not> bside))))
         else None)"

text \<open>\<open>CAvl_rebalance ctx t deltac\<close>: the child \<open>t\<close> of the node of the first frame changed its height by
  \<open>deltac\<close>.\<close>

fun CAvl_rebalance :: "'n frame list \<Rightarrow> 'n avl \<Rightarrow> int \<Rightarrow> 'n avl option" where
  "CAvl_rebalance [] t deltac = Some t"
| "CAvl_rebalance ((side, bal, n, sib) # ctx) t deltac =
     (if deltac < - 1 \<or> deltac > 1 \<or> bal < - 1 \<or> bal > 1 then None
      else if deltac = 0 then Some (plug ((side, bal, n, sib) # ctx) t)
      else (let delta = CAvl_MAX deltac (CAvl_OPTNEG bal side) - CAvl_MAX 0 (CAvl_OPTNEG bal side);
                node = mk_node side t n (bal - CAvl_OPTNEG deltac side) sib
        in if delta < - 1 \<or> delta > 1 then None
           else (case (if balance node = 2 \<or> balance node = - 2 then CAvl_transform node else Some (node, 0)) of
               None \<Rightarrow> None
             | Some (node, d) \<Rightarrow>
                 if delta - d < - 1 \<or> delta - d > 1 then None
                 else CAvl_rebalance ctx node (delta - d))))"

definition CAvl_Init :: "'n avl" where
  "CAvl_Init = Leaf"

text \<open>The loop of \<^verbatim>\<open>CAvl_Insert\<close>: the entry that compares equal, or the way down to the null link.\<close>

fun CAvl_insert_loop :: "('n \<Rightarrow> 'n \<Rightarrow> int) \<Rightarrow> 'n \<Rightarrow> 'n avl \<Rightarrow> 'n frame list \<Rightarrow> ('n + 'n frame list) option" where
  "CAvl_insert_loop cmp node Leaf ctx = Some (Inr ctx)"
| "CAvl_insert_loop cmp node (Node l c b r) ctx =
     (case CAvl_compare_entries cmp node c of
        None \<Rightarrow> None
      | Some res \<Rightarrow>
          if res = 0 then Some (Inl c)
          else if res = 1 then CAvl_insert_loop cmp node r ((True, b, c, l) # ctx)
          else CAvl_insert_loop cmp node l ((False, b, c, r) # ctx))"

text \<open>The result is the root, the return value and \<^verbatim>\<open>*out_ref\<close>.\<close>

definition CAvl_Insert :: "('n \<Rightarrow> 'n \<Rightarrow> int) \<Rightarrow> 'n avl \<Rightarrow> 'n \<Rightarrow> ('n avl \<times> bool \<times> 'n option) option" where
  "CAvl_Insert cmp root node =
     (if root = Leaf then Some (Node Leaf node 0 Leaf, True, None)
      else (case CAvl_insert_loop cmp node root [] of
          None \<Rightarrow> None
        | Some (Inl c) \<Rightarrow> Some (root, False, Some c)
        | Some (Inr ctx) \<Rightarrow>
            map_option (\<lambda>t. (t, True, Some (fst (snd (snd (hd ctx)))))) (CAvl_rebalance ctx (Node Leaf node 0 Leaf) 1)))"

text \<open>The place of an entry, to which the code has a pointer, and of the last entry of a subtree.\<close>

fun CAvl_position :: "'n \<Rightarrow> 'n avl \<Rightarrow> 'n frame list \<Rightarrow> ('n frame list \<times> 'n avl) option" where
  "CAvl_position x Leaf ctx = None"
| "CAvl_position x (Node l n b r) ctx =
     (if x = n then Some (ctx, Node l n b r)
      else (case CAvl_position x l ((False, b, n, r) # ctx) of
          Some p \<Rightarrow> Some p
        | None \<Rightarrow> CAvl_position x r ((True, b, n, l) # ctx)))"

fun CAvl_max_position :: "'n avl \<Rightarrow> 'n frame list \<Rightarrow> 'n frame list \<times> 'n avl" where
  "CAvl_max_position Leaf ctx = (ctx, Leaf)"
| "CAvl_max_position (Node l n b r) ctx =
     (if r \<noteq> Leaf then CAvl_max_position r ((True, b, n, l) # ctx) else (ctx, Node l n b r))"

text \<open>\<^verbatim>\<open>CAvl_swap_for_remove\<close> exchanges the links and the balance factors of an entry and of the last
  entry \<open>enode\<close> of its left subtree; the result is the place the former has afterwards. As the tree is a
  value and not a heap of nodes, the two cases of the code (the entries are linked directly or not), the parent links and the update
  of the root are one operation on the place.\<close>

definition CAvl_swap_for_remove :: "'n frame list \<times> 'n avl \<Rightarrow> 'n \<Rightarrow> 'n frame list \<times> 'n avl" where
  "CAvl_swap_for_remove p enode =
     (case p of
        (ctx, Leaf) \<Rightarrow> p
      | (ctx, Node l n b r) \<Rightarrow>
          (case CAvl_max_position l ((False, b, enode, r) # ctx) of
             (ctx', Leaf) \<Rightarrow> (ctx', Leaf)
           | (ctx', Node l' _ b' r') \<Rightarrow> (ctx', Node l' n b' r')))"

definition CAvl_replace_subtree_fix_assoc :: "'n frame list \<Rightarrow> 'n avl \<Rightarrow> 'n avl" where
  "CAvl_replace_subtree_fix_assoc ctx n = plug ctx n"

definition CAvl_Remove :: "'n avl \<Rightarrow> 'n \<Rightarrow> 'n avl option" where
  "CAvl_Remove root node =
     (case CAvl_position node root [] of
        None \<Rightarrow> None
      | Some (ctx, t) \<Rightarrow>
          (case (if link t False \<noteq> Leaf \<and> link t True \<noteq> Leaf
                 then map_option (CAvl_swap_for_remove (ctx, t)) (CAvl_subtree_max (link t False))
                 else Some (ctx, t)) of
             None \<Rightarrow> None
           | Some (ctx, t) \<Rightarrow>
               if link t False \<noteq> Leaf \<and> link t True \<noteq> Leaf then None
               else (let child = (if link t False \<noteq> Leaf then link t False else link t True) in
                 if ctx \<noteq> [] then CAvl_rebalance ctx child (- 1)
                 else Some (CAvl_replace_subtree_fix_assoc ctx child))))"

definition CAvl_GetFirst :: "'n avl \<Rightarrow> 'n option" where
  "CAvl_GetFirst root = (if root = Leaf then None else CAvl_subtree_min root)"

definition CAvl_GetLast :: "'n avl \<Rightarrow> 'n option" where
  "CAvl_GetLast root = (if root = Leaf then None else CAvl_subtree_max root)"

fun CAvl_climb :: "bool \<Rightarrow> 'n frame list \<Rightarrow> 'n option" where
  "CAvl_climb side [] = None"
| "CAvl_climb side ((s, b, n, sib) # ctx) = (if s = side then CAvl_climb side ctx else Some n)"

definition CAvl_GetNext :: "'n avl \<Rightarrow> 'n \<Rightarrow> 'n option option" where
  "CAvl_GetNext root node =
     map_option (\<lambda>(ctx, t). if link t True \<noteq> Leaf then CAvl_subtree_min (link t True) else CAvl_climb True ctx)
       (CAvl_position node root [])"

definition CAvl_GetPrev :: "'n avl \<Rightarrow> 'n \<Rightarrow> 'n option option" where
  "CAvl_GetPrev root node =
     map_option (\<lambda>(ctx, t). if link t False \<noteq> Leaf then CAvl_subtree_max (link t False) else CAvl_climb False ctx)
       (CAvl_position node root [])"

definition CAvl_IsEmpty :: "'n avl \<Rightarrow> bool" where
  "CAvl_IsEmpty root \<longleftrightarrow> root = Leaf"

fun CAvl_verify_recurser :: "('n \<Rightarrow> 'n \<Rightarrow> int) \<Rightarrow> 'n avl \<Rightarrow> int option" where
  "CAvl_verify_recurser cmp Leaf = Some 0"
| "CAvl_verify_recurser cmp (Node l n b r) =
     (if b < - 1 \<or> b > 1 then None
      else if (case l of Leaf \<Rightarrow> False | Node _ m _ _ \<Rightarrow> CAvl_compare_entries cmp m n \<noteq> Some (- 1)) then None
      else (case CAvl_verify_recurser cmp l of
          None \<Rightarrow> None
        | Some height_left \<Rightarrow>
            if (case r of Leaf \<Rightarrow> False | Node _ m _ _ \<Rightarrow> CAvl_compare_entries cmp m n \<noteq> Some 1) then None
            else (case CAvl_verify_recurser cmp r of
                None \<Rightarrow> None
              | Some height_right \<Rightarrow>
                  if b \<noteq> height_right - height_left then None
                  else Some (CAvl_MAX height_left height_right + 1))))"

definition CAvl_Verify :: "('n \<Rightarrow> 'n \<Rightarrow> int) \<Rightarrow> 'n avl \<Rightarrow> bool" where
  "CAvl_Verify cmp root \<longleftrightarrow> root = Leaf \<or> CAvl_verify_recurser cmp root \<noteq> None"

text \<open>The loop of \<^verbatim>\<open>CAvl_Lookup\<close> and \<^verbatim>\<open>CAvl_LookupExact\<close>, which differ in what they return at a null link.\<close>

fun CAvl_lookup_loop :: "('k \<Rightarrow> 'n \<Rightarrow> int) \<Rightarrow> 'k \<Rightarrow> bool \<Rightarrow> 'n avl \<Rightarrow> 'n option option" where
  "CAvl_lookup_loop kcmp key exact Leaf = Some None"
| "CAvl_lookup_loop kcmp key exact (Node l c b r) =
     (case CAvl_compare_key_entry kcmp key c of
        None \<Rightarrow> None
      | Some res \<Rightarrow>
          if res = 0 then Some (Some c)
          else (let sub = (if res = 1 then r else l) in
            if sub = Leaf then Some (if exact then None else Some c)
            else CAvl_lookup_loop kcmp key exact sub))"

definition CAvl_Lookup :: "('k \<Rightarrow> 'n \<Rightarrow> int) \<Rightarrow> 'n avl \<Rightarrow> 'k \<Rightarrow> 'n option option" where
  "CAvl_Lookup kcmp root key = (if root = Leaf then Some None else CAvl_lookup_loop kcmp key False root)"

definition CAvl_LookupExact :: "('k \<Rightarrow> 'n \<Rightarrow> int) \<Rightarrow> 'n avl \<Rightarrow> 'k \<Rightarrow> 'n option option" where
  "CAvl_LookupExact kcmp root key = (if root = Leaf then Some None else CAvl_lookup_loop kcmp key True root)"

text \<open>The four lookups of neighbours have one shape: the entry found is left for the next or the previous
  one when the comparison says so, and the result is asserted.\<close>

definition CAvl_neighbour ::
  "('k \<Rightarrow> 'n \<Rightarrow> int) \<Rightarrow> (int \<Rightarrow> bool) \<Rightarrow> ('n avl \<Rightarrow> 'n \<Rightarrow> 'n option option) \<Rightarrow> (int \<Rightarrow> bool) \<Rightarrow> 'n avl \<Rightarrow> 'k \<Rightarrow> 'n option option" where
  "CAvl_neighbour kcmp leave step accept root key =
     (case CAvl_Lookup kcmp root key of
        None \<Rightarrow> None
      | Some None \<Rightarrow> Some None
      | Some (Some c) \<Rightarrow>
          (case CAvl_compare_key_entry kcmp key c of
             None \<Rightarrow> None
           | Some res \<Rightarrow>
               (case (if leave res then step root c else Some (Some c)) of
                  None \<Rightarrow> None
                | Some None \<Rightarrow> Some None
                | Some (Some c) \<Rightarrow>
                    (case CAvl_compare_key_entry kcmp key c of
                       None \<Rightarrow> None
                     | Some res \<Rightarrow> require (accept res) (Some c)))))"

definition CAvl_GetFirstGreater :: "('k \<Rightarrow> 'n \<Rightarrow> int) \<Rightarrow> 'n avl \<Rightarrow> 'k \<Rightarrow> 'n option option" where
  "CAvl_GetFirstGreater kcmp = CAvl_neighbour kcmp (\<lambda>c. c \<ge> 0) CAvl_GetNext (\<lambda>c. c < 0)"

definition CAvl_GetLastLesser :: "('k \<Rightarrow> 'n \<Rightarrow> int) \<Rightarrow> 'n avl \<Rightarrow> 'k \<Rightarrow> 'n option option" where
  "CAvl_GetLastLesser kcmp = CAvl_neighbour kcmp (\<lambda>c. c \<le> 0) CAvl_GetPrev (\<lambda>c. c > 0)"

definition CAvl_GetFirstGreaterEqual :: "('k \<Rightarrow> 'n \<Rightarrow> int) \<Rightarrow> 'n avl \<Rightarrow> 'k \<Rightarrow> 'n option option" where
  "CAvl_GetFirstGreaterEqual kcmp = CAvl_neighbour kcmp (\<lambda>c. c > 0) CAvl_GetNext (\<lambda>c. c \<le> 0)"

definition CAvl_GetLastLesserEqual :: "('k \<Rightarrow> 'n \<Rightarrow> int) \<Rightarrow> 'n avl \<Rightarrow> 'k \<Rightarrow> 'n option option" where
  "CAvl_GetLastLesserEqual kcmp = CAvl_neighbour kcmp (\<lambda>c. c < 0) CAvl_GetPrev (\<lambda>c. c \<ge> 0)"

section \<open>structure/SAvl\_impl.h\<close>

text \<open>The links are the entries themselves, so each function passes its arguments on.\<close>

definition SAvl_Init :: "'n avl" where
  "SAvl_Init = CAvl_Init"

definition SAvl_Insert :: "('n \<Rightarrow> 'n \<Rightarrow> int) \<Rightarrow> 'n avl \<Rightarrow> 'n \<Rightarrow> ('n avl \<times> bool \<times> 'n option) option" where
  "SAvl_Insert cmp root entry = CAvl_Insert cmp root entry"

definition SAvl_Remove :: "'n avl \<Rightarrow> 'n \<Rightarrow> 'n avl option" where
  "SAvl_Remove root entry = CAvl_Remove root entry"

definition SAvl_GetFirst :: "'n avl \<Rightarrow> 'n option" where
  "SAvl_GetFirst root = CAvl_GetFirst root"

definition SAvl_GetLast :: "'n avl \<Rightarrow> 'n option" where
  "SAvl_GetLast root = CAvl_GetLast root"

definition SAvl_GetNext :: "'n avl \<Rightarrow> 'n \<Rightarrow> 'n option option" where
  "SAvl_GetNext root entry = CAvl_GetNext root entry"

definition SAvl_GetPrev :: "'n avl \<Rightarrow> 'n \<Rightarrow> 'n option option" where
  "SAvl_GetPrev root entry = CAvl_GetPrev root entry"

definition SAvl_IsEmpty :: "'n avl \<Rightarrow> bool" where
  "SAvl_IsEmpty root \<longleftrightarrow> CAvl_IsEmpty root"

definition SAvl_Verify :: "('n \<Rightarrow> 'n \<Rightarrow> int) \<Rightarrow> 'n avl \<Rightarrow> bool" where
  "SAvl_Verify cmp root \<longleftrightarrow> CAvl_Verify cmp root"

lemmas SAvl_defs = SAvl_Init_def SAvl_Insert_def SAvl_Remove_def SAvl_GetFirst_def SAvl_GetLast_def SAvl_GetNext_def
  SAvl_GetPrev_def SAvl_IsEmpty_def SAvl_Verify_def

section \<open>The same tree as BAVL\<close>

text \<open>The code compares entries; what it compares of them is their value. The \<open>BAVL\<close> of the same tree has these values.\<close>

abbreviation by_value :: "('n \<Rightarrow> 'v) \<Rightarrow> ('v \<Rightarrow> 'v \<Rightarrow> int) \<Rightarrow> 'n \<Rightarrow> 'n \<Rightarrow> int" where
  "by_value val vcmp \<equiv> (\<lambda>m n. vcmp (val m) (val n))"

definition as_bavl :: "('n \<Rightarrow> 'v) \<Rightarrow> ('v \<Rightarrow> 'v \<Rightarrow> int) \<Rightarrow> 'n avl \<Rightarrow> ('n, 'v) BAVL" where
  "as_bavl val vcmp root = \<lparr>bavl_value = val, bavl_comparator = vcmp, bavl_root = root\<rparr>"

lemma as_bavl_simps [simp]:
  "bavl_value (as_bavl val vcmp root) = val" "bavl_comparator (as_bavl val vcmp root) = vcmp" "bavl_root (as_bavl val vcmp root) = root"
  "bavl_nodes (as_bavl val vcmp root) = inorder root" "(as_bavl val vcmp root)\<lparr>bavl_root := t\<rparr> = as_bavl val vcmp t"
  by (simp_all add: as_bavl_def bavl_nodes_def)

lemma as_bavl_less: "bavl_less (as_bavl val vcmp root) = (\<lambda>m n. vcmp (val m) (val n) = - 1)"
  by (simp add: fun_eq_iff bavl_less_def)

lemma CAvl_MAX_eq: "CAvl_MAX = BAVL_MAX" "CAvl_OPTNEG = BAVL_OPTNEG"
  by (simp_all add: fun_eq_iff CAvl_MAX_def BAVL_MAX_def CAvl_OPTNEG_def BAVL_OPTNEG_def)

lemma CAvl_compare_eq: "CAvl_compare_entries (by_value val vcmp) m n = BAVL_compare_nodes (as_bavl val vcmp root) m n"
proof -
  have "(x \<ge> - 1 \<and> x \<le> 1) = (x = - 1 \<or> x = 0 \<or> x = (1 :: int))" for x by arith
  then show ?thesis by (simp add: CAvl_compare_entries_def BAVL_compare_nodes_def BAVL_compare_values_def require_def Let_def)
qed

lemma CAvl_rotate_eq: "CAvl_rotate r dir = BAVL_rotate r dir"
  by (auto simp: CAvl_rotate_def Let_def split: avl.splits)

lemma CAvl_subtree_eq: "CAvl_subtree_max t = BAVL_subtree_max t" "CAvl_subtree_min t = end_node False t" "CAvl_subtree_max t = end_node True t"
  by (induction t) auto

lemma CAvl_transform_eq: "CAvl_transform node = BAVL_transform node"
  by (simp add: CAvl_transform_def BAVL_transform_def CAvl_rotate_eq CAvl_MAX_eq Let_def map_option_case del: BAVL_rotate.simps
      cong: option.case_cong)

lemma CAvl_rebalance_eq: "CAvl_rebalance ctx t deltac = BAVL_rebalance ctx t deltac"
  by (induction ctx t deltac rule: BAVL_rebalance.induct)
    (auto simp: CAvl_transform_eq CAvl_MAX_eq Let_def not_le split: option.splits)

lemma CAvl_position_eq: "CAvl_position x t ctx = BAVL_position x t ctx" "CAvl_max_position t ctx = BAVL_max_position t ctx"
  "CAvl_climb side ctx = climb side ctx"
proof -
  show "CAvl_position x t ctx = BAVL_position x t ctx" by (induction x t ctx rule: BAVL_position.induct) (auto split: option.splits)
  show "CAvl_max_position t ctx = BAVL_max_position t ctx" by (induction t ctx rule: BAVL_max_position.induct) auto
  show "CAvl_climb side ctx = climb side ctx" by (induction side ctx rule: climb.induct) auto
qed

lemma CAvl_insert_loop_eq: "CAvl_insert_loop (by_value val vcmp) node t ctx = BAVL_insert_position (as_bavl val vcmp root) node t ctx"
  by (induction t arbitrary: ctx) (auto simp: CAvl_compare_eq [where root = root] split: option.splits)

lemma CAvl_Insert_eq:
  "BAVL_Insert (as_bavl val vcmp root) node = map_option (\<lambda>(t, ok, ref). (as_bavl val vcmp t, ok, ref)) (CAvl_Insert (by_value val vcmp) root node)"
  by (auto simp: BAVL_Insert_def CAvl_Insert_def CAvl_insert_loop_eq [where root = root] CAvl_rebalance_eq split: option.splits sum.splits)

lemma CAvl_Remove_eq: "BAVL_Remove (as_bavl val vcmp root) node = map_option (as_bavl val vcmp) (CAvl_Remove root node)"
proof -
  have s: "CAvl_swap_for_remove p m = BAVL_swap_nodes p m" for p m
    by (auto simp: CAvl_swap_for_remove_def BAVL_swap_nodes_def CAvl_position_eq split: prod.splits avl.splits)
  show ?thesis
    by (auto simp: BAVL_Remove_def CAvl_Remove_def CAvl_position_eq CAvl_subtree_eq(1) CAvl_rebalance_eq Let_def s fun_eq_iff
        CAvl_replace_subtree_fix_assoc_def BAVL_replace_subtree_def map_option_case split: option.splits)
qed

lemma CAvl_Get_eq:
  "CAvl_GetFirst root = BAVL_GetFirst (as_bavl val vcmp root)" "CAvl_GetLast root = BAVL_GetLast (as_bavl val vcmp root)"
  "CAvl_GetNext root node = BAVL_GetNext (as_bavl val vcmp root) node" "CAvl_GetPrev root node = BAVL_GetPrev (as_bavl val vcmp root) node"
  "CAvl_IsEmpty root = BAVL_IsEmpty (as_bavl val vcmp root)"
  by (simp_all add: CAvl_GetFirst_def CAvl_GetLast_def CAvl_GetNext_def CAvl_GetPrev_def CAvl_IsEmpty_def BAVL_GetFirst_def BAVL_GetLast_def
      BAVL_GetNext_def BAVL_GetPrev_def BAVL_IsEmpty_def CAvl_subtree_eq(2,3) CAvl_position_eq cong: if_cong)

lemma CAvl_verify_eq: "CAvl_verify_recurser (by_value val vcmp) t = BAVL_assert_recurser (as_bavl val vcmp root) t"
proof (induction t)
  case (Node l n b r)
  have c: "(case t of Leaf \<Rightarrow> False | Node _ m _ _ \<Rightarrow> CAvl_compare_entries (by_value val vcmp) m n \<noteq> Some k) \<longleftrightarrow>
      \<not> (case t of Leaf \<Rightarrow> True | Node _ m _ _ \<Rightarrow> BAVL_compare_nodes (as_bavl val vcmp root) m n = Some k)" for t k
    by (cases t) (simp_all add: CAvl_compare_eq [where root = root])
  show ?case unfolding CAvl_verify_recurser.simps BAVL_assert_recurser.simps Node.IH c CAvl_MAX_eq
    by (simp add: Let_def not_le de_Morgan_conj)
qed simp

lemma CAvl_Verify_eq: "CAvl_Verify (by_value val vcmp) root = BAVL_Verify (as_bavl val vcmp root)"
  by (auto simp: CAvl_Verify_def BAVL_Verify_def CAvl_verify_eq [where root = root])

lemma CAvl_LookupExact_eq:
  "CAvl_LookupExact (\<lambda>k n. vcmp k (val n)) root key = BAVL_LookupExact (as_bavl val vcmp root) key"
proof -
  have range: "(x \<ge> - 1 \<and> x \<le> 1) = (x = - 1 \<or> x = 0 \<or> x = (1 :: int))" for x by arith
  have "CAvl_lookup_loop (\<lambda>k n. vcmp k (val n)) key exact t = BAVL_lookup_loop (as_bavl val vcmp root) key exact t" for exact t
    by (induction t) (auto simp: CAvl_compare_key_entry_def BAVL_compare_values_def require_def range Let_def)
  then show ?thesis by (simp add: CAvl_LookupExact_def BAVL_LookupExact_def)
qed

lemma CAvl_GetFirst_hd: "root \<noteq> Leaf \<Longrightarrow> CAvl_GetFirst root = Some (hd (inorder root)) \<and> CAvl_GetLast root = Some (last (inorder root))"
  by (simp add: end_node_inorder CAvl_Get_eq(1,2) [of root id "\<lambda>_ _. 0"] BAVL_GetFirst_def BAVL_GetLast_def)

section \<open>The laws\<close>

text \<open>A comparison of entries through a total order of their values; two entries may have the same value.\<close>

locale entry_comparator = total_comparator vcmp valid for vcmp :: "'v \<Rightarrow> 'v \<Rightarrow> int" and valid +
  fixes val :: "'n \<Rightarrow> 'v"
begin

definition ordered_entries :: "'n avl \<Rightarrow> bool" where
  "ordered_entries root \<longleftrightarrow> ordered_tree (as_bavl val vcmp root)"

lemma CAvl_Init_ordered: "ordered_entries CAvl_Init"
  using bavl_ok_Init(1) by (simp add: ordered_entries_def CAvl_Init_def ordered_tree_def BAVL_Init_def as_bavl_def)

lemma ordered_entries_iff:
  "ordered_entries root \<longleftrightarrow> balanced root \<and> sorted_wrt (\<lambda>m n. vcmp (val m) (val n) = - 1) (inorder root) \<and> (\<forall>n\<in>set (inorder root). valid (val n))"
  by (auto simp: ordered_entries_def ordered_tree_def bavl_ok_def as_bavl_less)

lemma entries_sorted:
  assumes "ordered_entries root"
  shows "sorted_wrt (\<lambda>m n. vcmp (val m) (val n) = - 1) (inorder root)" "\<forall>n\<in>set (inorder root). valid (val n)" "distinct (inorder root)"
    "inj_on val (set (inorder root))"
  using assms nodes_distinct [of "as_bavl val vcmp root"] unfolding ordered_entries_iff
  by (auto simp: ordered_entries_def [symmetric] ordered_entries_iff inj_on_def)

lemma CAvl_Insert_new:
  assumes "ordered_entries root" "valid (val n)" "\<forall>m\<in>set (inorder root). val m \<noteq> val n"
  shows "\<exists>t ref. CAvl_Insert (by_value val vcmp) root n = Some (t, True, ref) \<and> ordered_entries t \<and> set (inorder t) = insert n (set (inorder root))"
proof -
  have ot: "ordered_tree (as_bavl val vcmp root)" using assms(1) by (simp add: ordered_entries_def)
  obtain tr ref where "BAVL_Insert (as_bavl val vcmp root) n = Some (tr, True, ref)" "ordered_tree tr"
    "set (bavl_nodes tr) = insert n (set (inorder root))"
    using tree.ins_new [OF ot, of n] assms(2,3) by auto
  then show ?thesis using CAvl_Insert_eq [of val vcmp root n] by (auto simp: ordered_entries_def)
qed

text \<open>An entry with the value of one that is there is not inserted, and the latter is returned.\<close>

lemma CAvl_Insert_equal:
  assumes "ordered_entries root" "m \<in> set (inorder root)" "val m = val n"
  shows "CAvl_Insert (by_value val vcmp) root n = Some (root, False, Some m)"
proof -
  have "BAVL_Insert (as_bavl val vcmp root) n = Some (as_bavl val vcmp root, False, Some m)"
    using tree.ins_old [of "as_bavl val vcmp root" n m] assms entries_sorted(2) [OF assms(1)] by (auto simp: ordered_entries_def)
  then obtain t where "CAvl_Insert (by_value val vcmp) root n = Some (t, False, Some m)" "as_bavl val vcmp t = as_bavl val vcmp root"
    using CAvl_Insert_eq [of val vcmp root n] by auto
  then show ?thesis by (metis as_bavl_simps(3))
qed

lemma CAvl_Remove_ok:
  assumes "ordered_entries root" "n \<in> set (inorder root)"
  shows "\<exists>t. CAvl_Remove root n = Some t \<and> ordered_entries t \<and> set (inorder t) = set (inorder root) - {n}"
proof -
  have ot: "ordered_tree (as_bavl val vcmp root)" using assms(1) by (simp add: ordered_entries_def)
  obtain tr where "BAVL_Remove (as_bavl val vcmp root) n = Some tr" "ordered_tree tr" "set (bavl_nodes tr) = set (inorder root) - {n}"
    using tree.del [OF ot, of n] assms(2) by auto
  then show ?thesis using CAvl_Remove_eq [of val vcmp root n] by (auto simp: ordered_entries_def)
qed

lemma CAvl_GetFirst_min:
  assumes "ordered_entries root" "root \<noteq> Leaf"
  shows "\<exists>n. CAvl_GetFirst root = Some n \<and> n \<in> set (inorder root) \<and> (\<forall>m\<in>set (inorder root). m \<noteq> n \<longrightarrow> vcmp (val n) (val m) = - 1)"
proof -
  obtain n ns where "inorder root = n # ns" using assms(2) by (cases "inorder root") auto
  then show ?thesis using entries_sorted(1) [OF assms(1)] CAvl_GetFirst_hd [OF assms(2)] by auto
qed

lemma CAvl_GetNext_ok:
  assumes "ordered_entries root" "inorder root = xs @ n # ys"
  shows "CAvl_GetNext root n = Some (if ys = [] then None else Some (hd ys))"
    "CAvl_GetPrev root n = Some (if xs = [] then None else Some (last xs))"
  using GetNext_ok [of "as_bavl val vcmp root" xs n ys] assms CAvl_Get_eq(3,4) [of root n val vcmp] by (simp_all add: ordered_entries_def)

lemma CAvl_LookupExact_ok:
  assumes "ordered_entries root" "valid k"
  shows "\<exists>r. CAvl_LookupExact (\<lambda>k n. vcmp k (val n)) root k = Some r \<and> (\<forall>n. r = Some n \<longleftrightarrow> n \<in> set (inorder root) \<and> val n = k)"
  using LookupExact_find [of "as_bavl val vcmp root" k] find_eq_Some [of "as_bavl val vcmp root" k] assms
  by (simp add: CAvl_LookupExact_eq ordered_entries_def)

lemma CAvl_Verify_ok: "ordered_entries root \<Longrightarrow> CAvl_Verify (by_value val vcmp) root"
  using Verify_ok [of "as_bavl val vcmp root"] by (simp add: CAvl_Verify_eq ordered_entries_def)

end

text \<open>What the lookups ask of the comparison of keys with entries.\<close>

locale key_comparator = entry_comparator vcmp valid val for vcmp :: "'v \<Rightarrow> 'v \<Rightarrow> int" and valid and val :: "'n \<Rightarrow> 'v" +
  fixes kcmp :: "'k \<Rightarrow> 'n \<Rightarrow> int" and key_ok :: "'k \<Rightarrow> bool"
  assumes kcmp_range: "key_ok k \<Longrightarrow> valid (val n) \<Longrightarrow> kcmp k n = - 1 \<or> kcmp k n = 0 \<or> kcmp k n = 1"
    and kcmp_mono: "key_ok k \<Longrightarrow> valid (val m) \<Longrightarrow> valid (val n) \<Longrightarrow> vcmp (val m) (val n) = - 1 \<Longrightarrow> kcmp k m \<noteq> 1 \<Longrightarrow> kcmp k n = - 1"
begin

lemma kcmp_entry: "key_ok k \<Longrightarrow> valid (val n) \<Longrightarrow> CAvl_compare_key_entry kcmp k n = Some (kcmp k n)"
  using kcmp_range [of k n] by (auto simp: CAvl_compare_key_entry_def require_def)

lemma kcmp_below: "key_ok k \<Longrightarrow> valid (val m) \<Longrightarrow> valid (val n) \<Longrightarrow> vcmp (val m) (val n) = - 1 \<Longrightarrow> kcmp k n \<noteq> - 1 \<Longrightarrow> kcmp k m = 1"
  using kcmp_mono by blast

text \<open>The entry that the lookup of a key ends at separates the smaller entries from the greater ones.\<close>

lemma lookup_loop_separates:
  assumes "key_ok k" "t \<noteq> Leaf" "sorted_wrt (\<lambda>m n. vcmp (val m) (val n) = - 1) (inorder t)" "\<forall>n\<in>set (inorder t). valid (val n)"
  shows "\<exists>xs c ys. CAvl_lookup_loop kcmp k False t = Some (Some c) \<and> inorder t = xs @ c # ys \<and>
    (\<forall>x\<in>set xs. kcmp k x = 1) \<and> (\<forall>y\<in>set ys. kcmp k y = - 1)"
  using assms(2-4)
proof (induction t)
  case (Node l c b r)
  have v: "valid (val c)" and lo: "\<forall>x\<in>set (inorder l). valid (val x) \<and> vcmp (val x) (val c) = - 1" and hi: "\<forall>y\<in>set (inorder r). valid (val y) \<and> vcmp (val c) (val y) = - 1"
    using Node.prems(2,3) by (auto simp: sorted_wrt_append)
  have low: "\<forall>x\<in>set (inorder l). kcmp k x = 1" if "kcmp k c \<noteq> - 1" using kcmp_below [OF assms(1) _ v] lo that by blast
  have high: "\<forall>y\<in>set (inorder r). kcmp k y = - 1" if "kcmp k c \<noteq> 1" using kcmp_mono [OF assms(1) v] hi that by blast
  consider "kcmp k c = 0" | "kcmp k c = 1" | "kcmp k c = - 1" using kcmp_range [OF assms(1) v] by blast
  then show ?case
  proof cases
    case 1
    then have ne: "kcmp k c \<noteq> - 1" "kcmp k c \<noteq> 1" by simp_all
    then show ?thesis using 1 low [OF ne(1)] high [OF ne(2)] kcmp_entry [OF assms(1) v]
      by (intro exI [of _ "inorder l"] exI [of _ c] exI [of _ "inorder r"]) simp
  next
    case 2
    then have ne: "kcmp k c \<noteq> - 1" by simp
    show ?thesis
    proof (cases "r = Leaf")
      case True
      then show ?thesis using 2 low [OF ne] kcmp_entry [OF assms(1) v]
        by (intro exI [of _ "inorder l"] exI [of _ c] exI [of _ "[]"]) simp
    next
      case False
      then obtain xs d ys where "CAvl_lookup_loop kcmp k False r = Some (Some d)" "inorder r = xs @ d # ys"
        "\<forall>x\<in>set xs. kcmp k x = 1" "\<forall>y\<in>set ys. kcmp k y = - 1"
        using Node.IH(2) Node.prems by (auto simp: sorted_wrt_append)
      then show ?thesis using 2 low [OF ne] False kcmp_entry [OF assms(1) v]
        by (intro exI [of _ "inorder l @ c # xs"] exI [of _ d] exI [of _ ys]) auto
    qed
  next
    case 3
    then have ne: "kcmp k c \<noteq> 1" by simp
    show ?thesis
    proof (cases "l = Leaf")
      case True
      then show ?thesis using 3 high [OF ne] kcmp_entry [OF assms(1) v]
        by (intro exI [of _ "[]"] exI [of _ c] exI [of _ "inorder r"]) simp
    next
      case False
      then obtain xs d ys where "CAvl_lookup_loop kcmp k False l = Some (Some d)" "inorder l = xs @ d # ys"
        "\<forall>x\<in>set xs. kcmp k x = 1" "\<forall>y\<in>set ys. kcmp k y = - 1"
        using Node.IH(1) Node.prems by (auto simp: sorted_wrt_append)
      then show ?thesis using 3 high [OF ne] False kcmp_entry [OF assms(1) v]
        by (intro exI [of _ xs] exI [of _ d] exI [of _ "ys @ c # inorder r"]) auto
    qed
  qed
qed simp

lemma find_none: "\<forall>x\<in>set xs. \<not> P x \<Longrightarrow> find P (xs @ ys) = find P ys"
  by (induction xs) auto

lemma find_hd: "\<forall>y\<in>set ys. P y \<Longrightarrow> find P ys = (if ys = [] then None else Some (hd ys))"
  by (cases ys) auto

text \<open>Each of the four lookups is a search of the entries in their order, or in the reverse order.\<close>

lemma neighbours:
  assumes "ordered_entries root" "key_ok k"
  shows "CAvl_GetFirstGreater kcmp root k = Some (find (\<lambda>n. kcmp k n < 0) (inorder root)) \<and>
    CAvl_GetLastLesser kcmp root k = Some (find (\<lambda>n. kcmp k n > 0) (rev (inorder root))) \<and>
    CAvl_GetFirstGreaterEqual kcmp root k = Some (find (\<lambda>n. kcmp k n \<le> 0) (inorder root)) \<and>
    CAvl_GetLastLesserEqual kcmp root k = Some (find (\<lambda>n. kcmp k n \<ge> 0) (rev (inorder root)))"
proof (cases "root = Leaf")
  case True
  then show ?thesis
    by (simp add: CAvl_GetFirstGreater_def CAvl_GetLastLesser_def CAvl_GetFirstGreaterEqual_def CAvl_GetLastLesserEqual_def
        CAvl_neighbour_def CAvl_Lookup_def)
next
  case False
  note sorted = entries_sorted [OF assms(1)]
  obtain xs c ys where c: "CAvl_lookup_loop kcmp k False root = Some (Some c)" "inorder root = xs @ c # ys"
    "\<forall>x\<in>set xs. kcmp k x = 1" "\<forall>y\<in>set ys. kcmp k y = - 1"
    using lookup_loop_separates [OF assms(2) False] sorted by blast
  have e: "CAvl_compare_key_entry kcmp k n = Some (kcmp k n)" if "n \<in> set (inorder root)" for n
    using kcmp_entry [OF assms(2)] sorted that by blast
  have ec: "CAvl_compare_key_entry kcmp k c = Some (kcmp k c)" using e c(2) by simp
  have ey: "CAvl_compare_key_entry kcmp k (hd ys) = Some (- 1)" if "ys \<noteq> []" using e [of "hd ys"] c(2,4) that by simp
  have ex: "CAvl_compare_key_entry kcmp k (last xs) = Some 1" if "xs \<noteq> []" using e [of "last xs"] c(2,3) that by simp
  have f: "find P (inorder root) = (if P c then Some c else if ys = [] then None else Some (hd ys))"
    if "\<forall>x\<in>set xs. \<not> P x" "\<forall>y\<in>set ys. P y" for P
    using find_none [OF that(1)] find_hd [OF that(2)] by (simp add: c(2))
  have r: "find P (rev (inorder root)) = (if P c then Some c else if xs = [] then None else Some (last xs))"
    if "\<forall>x\<in>set xs. P x" "\<forall>y\<in>set ys. \<not> P y" for P
    using find_none [of "rev ys" P] find_hd [of "rev xs" P] that by (simp add: c(2) hd_rev)
  have look: "CAvl_Lookup kcmp root k = Some (Some c)" using c(1) False by (simp add: CAvl_Lookup_def)
  note nb = CAvl_neighbour_def look ec CAvl_GetNext_ok [OF assms(1) c(2)] require_def
  have "CAvl_GetFirstGreater kcmp root k = Some (find (\<lambda>n. kcmp k n < 0) (inorder root))"
    using c(3,4) ey by (subst f) (auto simp: CAvl_GetFirstGreater_def nb)
  moreover have "CAvl_GetLastLesser kcmp root k = Some (find (\<lambda>n. kcmp k n > 0) (rev (inorder root)))"
    using c(3,4) ex by (subst r) (auto simp: CAvl_GetLastLesser_def nb)
  moreover have "CAvl_GetFirstGreaterEqual kcmp root k = Some (find (\<lambda>n. kcmp k n \<le> 0) (inorder root))"
    using c(3,4) ey by (subst f) (auto simp: CAvl_GetFirstGreaterEqual_def nb)
  moreover have "CAvl_GetLastLesserEqual kcmp root k = Some (find (\<lambda>n. kcmp k n \<ge> 0) (rev (inorder root)))"
    using c(3,4) ex by (subst r) (auto simp: CAvl_GetLastLesserEqual_def nb)
  ultimately show ?thesis by blast
qed

end

text \<open>The values of the entries as keys.\<close>

sublocale entry_comparator \<subseteq> value_key: key_comparator vcmp valid val "\<lambda>k n. vcmp k (val n)" valid
proof
  show "vcmp k (val n) = - 1" if "valid k" "valid (val m)" "valid (val n)" "vcmp (val m) (val n) = - 1" "vcmp k (val m) \<noteq> 1" for k m n
    using cmp_cases [OF that(1,2)] that cmp_trans [of k "val m" "val n"] by auto
qed (rule cmp_range)

text \<open>A sequence of operations, with the entry each insertion finds in its place (null when there is none), and its
  specification: a map from values to entries. Only entries that are there are removed.\<close>

datatype 'n cavl_op = Cavl_Insert 'n | Cavl_Remove 'n

fun cavl_run :: "('n \<Rightarrow> 'n \<Rightarrow> int) \<Rightarrow> 'n avl \<Rightarrow> 'n cavl_op list \<Rightarrow> ('n avl \<times> 'n option list) option" where
  "cavl_run cmp t [] = Some (t, [])"
| "cavl_run cmp t (Cavl_Insert n # ops) =
     (case CAvl_Insert cmp t n of
        None \<Rightarrow> None
      | Some (t', ok, ref) \<Rightarrow> map_option (apsnd (Cons (if ok then None else ref))) (cavl_run cmp t' ops))"
| "cavl_run cmp t (Cavl_Remove n # ops) = (case CAvl_Remove t n of None \<Rightarrow> None | Some t' \<Rightarrow> cavl_run cmp t' ops)"

fun cavl_map :: "('n \<Rightarrow> 'v) \<Rightarrow> ('v \<rightharpoonup> 'n) \<Rightarrow> 'n cavl_op list \<Rightarrow> (('v \<rightharpoonup> 'n) \<times> 'n option list) option" where
  "cavl_map val M [] = Some (M, [])"
| "cavl_map val M (Cavl_Insert n # ops) =
     map_option (apsnd (Cons (M (val n)))) (cavl_map val (if M (val n) = None then M(val n \<mapsto> n) else M) ops)"
| "cavl_map val M (Cavl_Remove n # ops) = (if M (val n) = Some n then cavl_map val (M(val n := None)) ops else None)"

fun cavl_entry :: "'n cavl_op \<Rightarrow> 'n" where
  "cavl_entry (Cavl_Insert n) = n"
| "cavl_entry (Cavl_Remove n) = n"

context entry_comparator
begin

lemmas entry_neighbours = value_key.neighbours

definition maps_entries :: "'n avl \<Rightarrow> ('v \<rightharpoonup> 'n) \<Rightarrow> bool" where
  "maps_entries t M \<longleftrightarrow> ordered_entries t \<and> (\<forall>v n. M v = Some n \<longleftrightarrow> n \<in> set (inorder t) \<and> val n = v)"

lemma maps_entriesD:
  assumes "maps_entries t M"
  shows "ordered_entries t" "M v = Some n \<longleftrightarrow> n \<in> set (inorder t) \<and> val n = v"
  using assms unfolding maps_entries_def by blast+

lemma maps_insert:
  assumes "maps_entries t M" "valid (val n)"
  shows "\<exists>t' ok ref. CAvl_Insert (by_value val vcmp) t n = Some (t', ok, ref) \<and> (if ok then None else ref) = M (val n) \<and>
    maps_entries t' (if M (val n) = None then M(val n \<mapsto> n) else M)"
proof (cases "M (val n)")
  case None
  then have new: "\<forall>m\<in>set (inorder t). val m \<noteq> val n" using maps_entriesD(2) [OF assms(1), of "val n"] by fastforce
  obtain t' ref where t': "CAvl_Insert (by_value val vcmp) t n = Some (t', True, ref)" "ordered_entries t'"
    "set (inorder t') = insert n (set (inorder t))"
    using CAvl_Insert_new [OF maps_entriesD(1) [OF assms(1)] assms(2) new] by blast
  have "(M(val n \<mapsto> n)) v = Some m \<longleftrightarrow> m \<in> set (inorder t') \<and> val m = v" for v m
    using maps_entriesD(2) [OF assms(1), of v m] new t'(3) by (cases "v = val n") auto
  then have "maps_entries t' (M(val n \<mapsto> n))" using t'(2) by (simp add: maps_entries_def)
  then show ?thesis using None t'(1) by (intro exI [of _ t'] exI [of _ True] exI [of _ ref]) simp
next
  case (Some m)
  then have "m \<in> set (inorder t)" "val m = val n" using maps_entriesD(2) [OF assms(1)] by blast+
  then show ?thesis using CAvl_Insert_equal [OF maps_entriesD(1) [OF assms(1)]] Some assms(1)
    by (intro exI [of _ t] exI [of _ False] exI [of _ "Some m"]) simp
qed

lemma maps_remove:
  assumes "maps_entries t M" "M (val n) = Some n"
  shows "\<exists>t'. CAvl_Remove t n = Some t' \<and> maps_entries t' (M(val n := None))"
proof -
  note ok = maps_entriesD(1) [OF assms(1)] and iff = maps_entriesD(2) [OF assms(1)]
  obtain t' where t': "CAvl_Remove t n = Some t'" "ordered_entries t'" "set (inorder t') = set (inorder t) - {n}"
    using CAvl_Remove_ok [OF ok, of n] assms(2) iff by blast
  have same: "m = n" if "m \<in> set (inorder t)" "val m = val n" for m
    using iff [of "val n" m] that assms(2) by simp
  have "(M(val n := None)) v = Some m \<longleftrightarrow> m \<in> set (inorder t') \<and> val m = v" for v m
    using iff [of v m] same [of m] t'(3) by (cases "v = val n") auto
  then show ?thesis using t'(1,2) by (simp add: maps_entries_def)
qed

lemma cavl_run_refines:
  "maps_entries t M \<Longrightarrow> \<forall>x\<in>set ops. valid (val (cavl_entry x)) \<Longrightarrow> cavl_map val M ops = Some (M', found) \<Longrightarrow>
    \<exists>t'. cavl_run (by_value val vcmp) t ops = Some (t', found) \<and> maps_entries t' M'"
proof (induction ops arbitrary: t M found)
  case (Cons x ops)
  show ?case
  proof (cases x)
    case (Cavl_Insert n)
    then obtain t' ok ref where i: "CAvl_Insert (by_value val vcmp) t n = Some (t', ok, ref)" "(if ok then None else ref) = M (val n)"
      "maps_entries t' (if M (val n) = None then M(val n \<mapsto> n) else M)"
      using maps_insert [OF Cons.prems(1), of n] Cons.prems(2) by auto
    obtain fs where fs: "cavl_map val (if M (val n) = None then M(val n \<mapsto> n) else M) ops = Some (M', fs)" "found = M (val n) # fs"
      using Cons.prems(3) Cavl_Insert by auto
    show ?thesis using Cons.IH [OF i(3) _ fs(1)] Cons.prems(2) Cavl_Insert i(1,2) fs(2) by auto
  next
    case (Cavl_Remove n)
    then have n: "M (val n) = Some n" "cavl_map val (M(val n := None)) ops = Some (M', found)"
      using Cons.prems(3) by (auto split: if_splits)
    obtain t' where t': "CAvl_Remove t n = Some t'" "maps_entries t' (M(val n := None))"
      using maps_remove [OF Cons.prems(1) n(1)] by blast
    from Cons.IH [OF t'(2) _ n(2)] show ?thesis using Cons.prems(2) Cavl_Remove t'(1) by auto
  qed
qed auto

lemma maps_lookup:
  assumes "maps_entries t M" "valid k"
  shows "CAvl_LookupExact (\<lambda>k n. vcmp k (val n)) t k = Some (M k)"
proof -
  obtain r where r: "CAvl_LookupExact (\<lambda>k n. vcmp k (val n)) t k = Some r" "\<forall>n. r = Some n \<longleftrightarrow> n \<in> set (inorder t) \<and> val n = k"
    using CAvl_LookupExact_ok [OF _ assms(2)] assms(1) unfolding maps_entries_def by blast
  have "r = Some n \<longleftrightarrow> M k = Some n" for n using r(2) maps_entriesD(2) [OF assms(1), of k n] by blast
  then have "r = M k" by (metis not_None_eq)
  then show ?thesis using r(1) by metis
qed

end

text \<open>C13. With any total order of the values of the entries, every sequence of insertions and removals on a CAvl tree
  does what it does on a map from values to entries. An entry whose value is taken is not inserted, and the insertion returns the
  entry that has it. No assertion fails and \<open>CAvl_Verify\<close> accepts the tree. Its entries are in order, from the one
  \<open>CAvl_GetFirst\<close> returns to that of \<open>CAvl_GetLast\<close>; the exact lookup finds the entry of a value, and each of the four lookups
  of neighbours the first entry that is greater, or not less, and the last one that is less, or not greater, than a value.\<close>

theorem CAvl_refines_map:
  assumes "total_comparator vcmp valid" "\<forall>x\<in>set ops. valid (val (cavl_entry x))" "cavl_map val Map.empty ops = Some (M, found)" "valid k"
  defines "cmp \<equiv> by_value val vcmp" and "kcmp \<equiv> (\<lambda>k n. vcmp k (val n))"
  shows "\<exists>t. cavl_run cmp CAvl_Init ops = Some (t, found) \<and> CAvl_Verify cmp t \<and> sorted_wrt (\<lambda>m n. cmp m n = - 1) (inorder t) \<and>
    (\<forall>v n. M v = Some n \<longleftrightarrow> n \<in> set (inorder t) \<and> val n = v) \<and>
    (t \<noteq> Leaf \<longrightarrow> CAvl_GetFirst t = Some (hd (inorder t)) \<and> CAvl_GetLast t = Some (last (inorder t))) \<and>
    CAvl_LookupExact kcmp t k = Some (M k) \<and>
    CAvl_GetFirstGreater kcmp t k = Some (find (\<lambda>n. kcmp k n < 0) (inorder t)) \<and>
    CAvl_GetLastLesser kcmp t k = Some (find (\<lambda>n. kcmp k n > 0) (rev (inorder t))) \<and>
    CAvl_GetFirstGreaterEqual kcmp t k = Some (find (\<lambda>n. kcmp k n \<le> 0) (inorder t)) \<and>
    CAvl_GetLastLesserEqual kcmp t k = Some (find (\<lambda>n. kcmp k n \<ge> 0) (rev (inorder t)))"
proof -
  have e: "entry_comparator vcmp valid" using assms(1) by (simp add: entry_comparator_def)
  note maps = entry_comparator.maps_entries_def [OF e, of val]
  have "entry_comparator.maps_entries vcmp valid val CAvl_Init Map.empty"
    using entry_comparator.CAvl_Init_ordered [OF e, of val] by (simp add: maps CAvl_Init_def)
  then obtain t where t: "cavl_run cmp CAvl_Init ops = Some (t, found)" "entry_comparator.maps_entries vcmp valid val t M"
    unfolding cmp_def using entry_comparator.cavl_run_refines [OF e _ assms(2,3)] by blast
  then have "entry_comparator.ordered_entries vcmp valid val t" "\<forall>v n. M v = Some n \<longleftrightarrow> n \<in> set (inorder t) \<and> val n = v"
    by (simp_all add: maps)
  then show ?thesis
    using t entry_comparator.CAvl_Verify_ok [OF e] entry_comparator.entries_sorted(1) [OF e] CAvl_GetFirst_hd [of t]
      entry_comparator.maps_lookup [OF e t(2) assms(4)] entry_comparator.entry_neighbours [OF e _ assms(4)]
    unfolding cmp_def kcmp_def by (intro exI [of _ t]) blast
qed

theorem CAvl_refines_map_witness:
  "\<exists>t. cavl_run (by_value fst B_COMPARE) CAvl_Init (map Cavl_Insert [(5, 0), (1, 0), (9, 0), (5, 7), (3, 0)] @ [Cavl_Remove (1, 0)]) =
      Some (t, [None, None, None, Some (5, 0), None :: (int \<times> nat) option]) \<and>
    CAvl_GetLastLesser (\<lambda>k n. B_COMPARE k (fst n)) t 5 = Some (find (\<lambda>n. B_COMPARE 5 (fst n) > 0) (rev (inorder t))) \<and>
    CAvl_LookupExact (\<lambda>k n. B_COMPARE k (fst n)) t 5 = Some (Some (5, 0))"
proof -
  let ?ops = "map Cavl_Insert [(5, 0), (1, 0), (9, 0), (5, 7), (3, 0)] @ [Cavl_Remove (1, 0)] :: (int \<times> nat) cavl_op list"
  have m: "cavl_map fst Map.empty ?ops =
      Some ([5 \<mapsto> (5, 0), 1 \<mapsto> (1, 0), 9 \<mapsto> (9, 0), 3 \<mapsto> (3, 0)](1 := None), [None, None, None, Some (5, 0), None])" by simp
  show ?thesis using CAvl_refines_map [OF int_cmp.total_comparator_axioms _ m, of 5] by auto
qed

end
