(* ===== verification/Fair_Queue.thy ===== *)
theory Fair_Queue
  imports Cavl_Tree "HOL-Library.Monad_Syntax"
begin

text \<open>
  The fair queue \<^verbatim>\<open>flow/PacketPassFairQueue.c\<close>, which shares one output between the flows of the udpgw
  client: each flow has a virtual time, the amount it was served, and the queued flow with the
  least time is sent next. The flows are heap objects; the queued ones are in an SAvl tree ordered
  by time and address, all of them in a list. The times are 64-bit words, whose overflow the code
  handles. Each operation returns the queue and the calls it makes; \<open>None\<close> is a failed assertion.
\<close>

section \<open>The object\<close>

definition FAIRQUEUE_MAX_TIME :: u64 where "FAIRQUEUE_MAX_TIME = 0xFFFFFFFFFFFFFFFF"

text \<open>\<open>ff_data\<close> is the queued packet; \<open>ff_handler_busy\<close> tells whether a handler is set.\<close>

record PacketPassFairQueueFlow =
  ff_handler_busy :: bool
  ff_time :: u64
  ff_is_queued :: bool
  ff_data :: bytes

record PacketPassFairQueue =
  fq_mtu :: int
  fq_use_cancel :: bool
  fq_packet_weight :: int
  fq_sending_flow :: "nat option"
  fq_sending_len :: int
  fq_previous_flow :: "nat option"
  fq_queued_tree :: "nat avl"
  fq_flows_list :: "nat list"
  fq_heap :: "nat \<rightharpoonup> PacketPassFairQueueFlow"
  fq_freeing :: bool
  fq_schedule_job :: bool

datatype fq_call =
  Fq_Send bytes
| Fq_Done nat
| Fq_Handler_Busy nat
| Fq_Request_Cancel

type_synonym fq_result = "(PacketPassFairQueue \<times> fq_call list) option"

definition flow_time :: "(nat \<rightharpoonup> PacketPassFairQueueFlow) \<Rightarrow> nat \<Rightarrow> u64" where
  "flow_time h f = ff_time (the (h f))"

definition compare_flows :: "(nat \<rightharpoonup> PacketPassFairQueueFlow) \<Rightarrow> nat \<Rightarrow> nat \<Rightarrow> int" where
  "compare_flows h f1 f2 =
     (let cmp = B_COMPARE (uint (flow_time h f1)) (uint (flow_time h f2)) in
      if cmp \<noteq> 0 then cmp else B_COMPARE (int f1) (int f2))"

section \<open>Scheduling\<close>

definition get_current_time :: "PacketPassFairQueue \<Rightarrow> u64 option" where
  "get_current_time m =
     (case fq_sending_flow m of
        Some f \<Rightarrow> map_option ff_time (fq_heap m f)
      | None \<Rightarrow> do {
          (time, have_time) \<leftarrow> (case SAvl_GetFirst (fq_queued_tree m) of
             None \<Rightarrow> Some (0, False)
           | Some f \<Rightarrow> do { fl \<leftarrow> fq_heap m f; require (ff_is_queued fl) (ff_time fl, True) });
          (time, have_time) \<leftarrow> (case fq_previous_flow m of
             None \<Rightarrow> Some (time, have_time)
           | Some p \<Rightarrow> do {
               fl \<leftarrow> fq_heap m p;
               Some (if \<not> have_time \<or> ff_time fl < time then (ff_time fl, True) else (time, have_time))
             });
          Some (if have_time then time else 0)
        })"

text \<open>The loop over the list of the flows.\<close>

fun subtract_time ::
  "nat \<Rightarrow> u64 \<Rightarrow> nat list \<Rightarrow> (nat \<rightharpoonup> PacketPassFairQueueFlow) \<Rightarrow> (nat \<rightharpoonup> PacketPassFairQueueFlow) option" where
  "subtract_time flow subtract [] h = Some h"
| "subtract_time flow subtract (f # fs) h = do {
     someflow \<leftarrow> h f;
     someflow \<leftarrow> (if subtract > ff_time someflow \<and> f \<noteq> flow then require (\<not> ff_is_queued someflow) (someflow\<lparr>ff_time := 0\<rparr>)
       else Some (someflow\<lparr>ff_time := ff_time someflow - subtract\<rparr>));
     subtract_time flow subtract fs (h(f \<mapsto> someflow))
   }"

definition increment_sent_flow :: "PacketPassFairQueue \<Rightarrow> nat \<Rightarrow> u64 \<Rightarrow> PacketPassFairQueue option" where
  "increment_sent_flow m flow amount = do {
     fl \<leftarrow> fq_heap m flow;
     if \<not> amount \<le> FAIRQUEUE_MAX_TIME \<or> ff_is_queued fl \<or> fq_sending_flow m \<noteq> None then None
     else do {
       h \<leftarrow> (if amount > FAIRQUEUE_MAX_TIME - ff_time fl then do {
           subtract \<leftarrow> (case SAvl_GetFirst (fq_queued_tree m) of
              None \<Rightarrow> Some (ff_time fl)
            | Some f \<Rightarrow> do { first_flow \<leftarrow> fq_heap m f; require (ff_is_queued first_flow) (ff_time first_flow) });
           subtract_time flow subtract (fq_flows_list m) (fq_heap m)
         } else Some (fq_heap m));
       fl \<leftarrow> h flow;
       Some (m\<lparr>fq_heap := h(flow \<mapsto> fl\<lparr>ff_time := ff_time fl + amount\<rparr>)\<rparr>)
     }
   }"

definition schedule :: "PacketPassFairQueue \<Rightarrow> fq_result" where
  "schedule m =
     (if fq_sending_flow m \<noteq> None \<or> fq_previous_flow m \<noteq> None \<or> fq_freeing m \<or> SAvl_IsEmpty (fq_queued_tree m) then None
      else do {
        f \<leftarrow> SAvl_GetFirst (fq_queued_tree m);
        qflow \<leftarrow> fq_heap m f;
        if \<not> ff_is_queued qflow then None
        else do {
          t \<leftarrow> SAvl_Remove (fq_queued_tree m) f;
          Some (m\<lparr>fq_queued_tree := t, fq_heap := (fq_heap m)(f \<mapsto> qflow\<lparr>ff_is_queued := False\<rparr>),
              fq_sending_flow := Some f, fq_sending_len := int (length (ff_data qflow))\<rparr>,
            [Fq_Send (ff_data qflow)])
        }
      })"

definition schedule_job_handler :: "PacketPassFairQueue \<Rightarrow> fq_result" where
  "schedule_job_handler m =
     (if fq_sending_flow m \<noteq> None \<or> fq_freeing m then None
      else (let m = m\<lparr>fq_previous_flow := None\<rparr> in
        if \<not> SAvl_IsEmpty (fq_queued_tree m) then schedule m else Some (m, [])))"

definition fq_input_handler_send :: "PacketPassFairQueue \<Rightarrow> nat \<Rightarrow> bytes \<Rightarrow> fq_result" where
  "fq_input_handler_send m flow data = do {
     fl \<leftarrow> fq_heap m flow;
     if Some flow = fq_sending_flow m \<or> ff_is_queued fl \<or> fq_freeing m then None
     else do {
       (m, fl) \<leftarrow> (if Some flow = fq_previous_flow m then Some (m\<lparr>fq_previous_flow := None\<rparr>, fl)
         else do { time \<leftarrow> get_current_time m; Some (m, fl\<lparr>ff_time := max (ff_time fl) time\<rparr>) });
       let fl = fl\<lparr>ff_data := data\<rparr>;
       let m = m\<lparr>fq_heap := (fq_heap m)(flow \<mapsto> fl)\<rparr>;
       (t, res, _) \<leftarrow> SAvl_Insert (compare_flows (fq_heap m)) (fq_queued_tree m) flow;
       m \<leftarrow> require res (m\<lparr>fq_queued_tree := t, fq_heap := (fq_heap m)(flow \<mapsto> fl\<lparr>ff_is_queued := True\<rparr>)\<rparr>);
       if fq_sending_flow m = None \<and> \<not> fq_schedule_job m then schedule m else Some (m, [])
     }
   }"

definition fq_output_handler_done :: "PacketPassFairQueue \<Rightarrow> fq_result" where
  "fq_output_handler_done m = do {
     flow \<leftarrow> fq_sending_flow m;
     fl \<leftarrow> fq_heap m flow;
     if fq_previous_flow m \<noteq> None \<or> fq_schedule_job m \<or> fq_freeing m \<or> ff_is_queued fl then None
     else do {
       let m = m\<lparr>fq_sending_flow := None, fq_previous_flow := Some flow\<rparr>;
       m \<leftarrow> increment_sent_flow m flow (of_int (fq_packet_weight m) + of_int (fq_sending_len m));
       let m = m\<lparr>fq_schedule_job := True\<rparr>;
       fl \<leftarrow> fq_heap m flow;
       if ff_handler_busy fl
       then Some (m\<lparr>fq_heap := (fq_heap m)(flow \<mapsto> fl\<lparr>ff_handler_busy := False\<rparr>)\<rparr>, [Fq_Done flow, Fq_Handler_Busy flow])
       else Some (m, [Fq_Done flow])
     }
   }"

section \<open>The queue and its flows\<close>

text \<open>The outer option is the assertions, the inner one the return value. The MTU of the output is not
  negative, and is compared as a 64-bit number.\<close>

definition PacketPassFairQueue_Init :: "int \<Rightarrow> bool \<Rightarrow> bool \<Rightarrow> int \<Rightarrow> PacketPassFairQueue option option" where
  "PacketPassFairQueue_Init output_mtu output_cancel use_cancel packet_weight =
     require (packet_weight > 0 \<and> (use_cancel \<longrightarrow> output_cancel))
       (if \<not> (output_mtu \<le> uint FAIRQUEUE_MAX_TIME \<and> packet_weight \<le> uint FAIRQUEUE_MAX_TIME - output_mtu) then None
        else Some \<lparr>fq_mtu = output_mtu, fq_use_cancel = use_cancel, fq_packet_weight = packet_weight, fq_sending_flow = None,
          fq_sending_len = 0, fq_previous_flow = None, fq_queued_tree = SAvl_Init, fq_flows_list = [], fq_heap = Map.empty,
          fq_freeing = False, fq_schedule_job = False\<rparr>)"

definition PacketPassFairQueue_Free :: "PacketPassFairQueue \<Rightarrow> PacketPassFairQueue option" where
  "PacketPassFairQueue_Free m =
     require (fq_flows_list m = [] \<and> SAvl_IsEmpty (fq_queued_tree m) \<and> fq_previous_flow m = None \<and> fq_sending_flow m = None)
       (m\<lparr>fq_schedule_job := False\<rparr>)"

definition PacketPassFairQueue_PrepareFree :: "PacketPassFairQueue \<Rightarrow> PacketPassFairQueue" where
  "PacketPassFairQueue_PrepareFree m = m\<lparr>fq_freeing := True\<rparr>"

definition PacketPassFairQueue_GetMTU :: "PacketPassFairQueue \<Rightarrow> int" where
  "PacketPassFairQueue_GetMTU m = fq_mtu m"

definition PacketPassFairQueueFlow_Init :: "nat \<Rightarrow> PacketPassFairQueue \<Rightarrow> PacketPassFairQueue option" where
  "PacketPassFairQueueFlow_Init flow m =
     require (\<not> fq_freeing m)
       (m\<lparr>fq_heap := (fq_heap m)(flow \<mapsto> \<lparr>ff_handler_busy = False, ff_time = 0, ff_is_queued = False, ff_data = []\<rparr>),
          fq_flows_list := fq_flows_list m @ [flow]\<rparr>)"

definition PacketPassFairQueueFlow_Free :: "nat \<Rightarrow> PacketPassFairQueue \<Rightarrow> PacketPassFairQueue option" where
  "PacketPassFairQueueFlow_Free flow m = do {
     fl \<leftarrow> fq_heap m flow;
     if \<not> (fq_freeing m \<or> Some flow \<noteq> fq_sending_flow m) then None
     else do {
       let m = (if Some flow = fq_sending_flow m then m\<lparr>fq_sending_flow := None\<rparr> else m);
       let m = (if Some flow = fq_previous_flow m then m\<lparr>fq_previous_flow := None\<rparr> else m);
       t \<leftarrow> (if ff_is_queued fl then SAvl_Remove (fq_queued_tree m) flow else Some (fq_queued_tree m));
       Some (m\<lparr>fq_queued_tree := t, fq_flows_list := remove1 flow (fq_flows_list m), fq_heap := (fq_heap m)(flow := None)\<rparr>)
     }
   }"

definition PacketPassFairQueueFlow_AssertFree :: "nat \<Rightarrow> PacketPassFairQueue \<Rightarrow> unit option" where
  "PacketPassFairQueueFlow_AssertFree flow m = require (fq_freeing m \<or> Some flow \<noteq> fq_sending_flow m) ()"

definition PacketPassFairQueueFlow_IsBusy :: "nat \<Rightarrow> PacketPassFairQueue \<Rightarrow> bool option" where
  "PacketPassFairQueueFlow_IsBusy flow m = require (\<not> fq_freeing m) (Some flow = fq_sending_flow m)"

definition PacketPassFairQueueFlow_RequestCancel :: "nat \<Rightarrow> PacketPassFairQueue \<Rightarrow> fq_call list option" where
  "PacketPassFairQueueFlow_RequestCancel flow m =
     require (Some flow = fq_sending_flow m \<and> fq_use_cancel m \<and> \<not> fq_freeing m \<and> \<not> fq_schedule_job m) [Fq_Request_Cancel]"

definition PacketPassFairQueueFlow_SetBusyHandler :: "nat \<Rightarrow> bool \<Rightarrow> PacketPassFairQueue \<Rightarrow> PacketPassFairQueue option" where
  "PacketPassFairQueueFlow_SetBusyHandler flow handler m = do {
     fl \<leftarrow> fq_heap m flow;
     require (Some flow = fq_sending_flow m \<and> \<not> fq_freeing m)
       (m\<lparr>fq_heap := (fq_heap m)(flow \<mapsto> fl\<lparr>ff_handler_busy := handler\<rparr>)\<rparr>)
   }"

section \<open>The order of the flows\<close>

lemma compare_flows_unfold:
  "compare_flows h f g =
     (if flow_time h f < flow_time h g \<or> flow_time h f = flow_time h g \<and> f < g then - 1 else if f = g then 0 else 1)"
  unfolding compare_flows_def B_COMPARE_def Let_def word_less_def [symmetric] of_nat_less_iff
  by (cases "flow_time h f" "flow_time h g" rule: linorder_cases; cases f g rule: linorder_cases) simp_all

lemma compare_flows_less:
  "compare_flows h f g = - 1 \<longleftrightarrow> flow_time h f < flow_time h g \<or> flow_time h f = flow_time h g \<and> f < g"
  by (simp add: compare_flows_unfold)

lemma time_address_order:
  fixes t :: "nat \<Rightarrow> 'a::linorder"
  defines "c \<equiv> (\<lambda>f g. if t f < t g \<or> t f = t g \<and> f < g then - 1 else if f = g then 0 else 1 :: int)"
  shows "c f g = - 1 \<or> c f g = 0 \<or> c f g = 1" "c f g = 0 \<longleftrightarrow> f = g" "c g f = - c f g"
    "c f g = - 1 \<Longrightarrow> c g k = - 1 \<Longrightarrow> c f k = - 1"
  unfolding c_def by (auto split: if_splits)

interpretation flow_cmp: entry_comparator "compare_flows h" "\<lambda>_. True" "\<lambda>f. f" for h
proof
  fix x y z :: nat
  note order = time_address_order [where t = "flow_time h", folded compare_flows_unfold]
  show "compare_flows h x y = - 1 \<or> compare_flows h x y = 0 \<or> compare_flows h x y = 1" "compare_flows h x y = 0 \<longleftrightarrow> x = y"
    "compare_flows h y x = - compare_flows h x y"
    using order(1,2) [of x y] order(3) [of y x] by iprover+
  show "compare_flows h x z = - 1" if "compare_flows h x y = - 1" "compare_flows h y z = - 1"
    using order(4) [OF that] .
qed

lemma flow_order_iff:
  "flow_cmp.ordered_entries h t \<longleftrightarrow> balanced t \<and> sorted_wrt (\<lambda>f g. compare_flows h f g = - 1) (inorder t)"
  using flow_cmp.ordered_entries_iff [of h t] by simp

lemma flow_order_cong:
  assumes "flow_cmp.ordered_entries h t" "\<forall>f\<in>set (inorder t). \<forall>g\<in>set (inorder t). compare_flows h f g = - 1 \<longrightarrow> compare_flows h' f g = - 1"
  shows "flow_cmp.ordered_entries h' t"
proof -
  have "sorted_wrt (\<lambda>f g. compare_flows h' f g = - 1) (inorder t)"
    if "sorted_wrt (\<lambda>f g. compare_flows h f g = - 1) (inorder t)"
    using assms(2) by (intro sorted_wrt_mono_rel [OF _ that]) blast
  then show ?thesis using assms(1) unfolding flow_order_iff by blast
qed

lemma flow_order_same:
  "flow_cmp.ordered_entries h t \<Longrightarrow> (\<And>f. f \<in> set (inorder t) \<Longrightarrow> flow_time h' f = flow_time h f) \<Longrightarrow> flow_cmp.ordered_entries h' t"
  by (rule flow_order_cong) (auto simp: compare_flows_def)

text \<open>The operations on the tree, as the queue uses them.\<close>

lemma flow_tree_first:
  assumes "flow_cmp.ordered_entries h t" "t \<noteq> Leaf"
  shows "\<exists>f. SAvl_GetFirst t = Some f \<and> f \<in> set (inorder t) \<and> (\<forall>g\<in>set (inorder t). g \<noteq> f \<longrightarrow> compare_flows h f g = - 1)"
  using flow_cmp.CAvl_GetFirst_min [OF assms] by (simp add: SAvl_defs)

lemma flow_tree_remove:
  assumes "flow_cmp.ordered_entries h t" "f \<in> set (inorder t)"
  shows "\<exists>t'. SAvl_Remove t f = Some t' \<and> flow_cmp.ordered_entries h t' \<and> set (inorder t') = set (inorder t) - {f}"
  using flow_cmp.CAvl_Remove_ok [OF assms] by (simp add: SAvl_defs)

lemma flow_tree_insert:
  assumes "flow_cmp.ordered_entries h t" "f \<notin> set (inorder t)"
  shows "\<exists>t' ref. SAvl_Insert (compare_flows h) t f = Some (t', True, ref) \<and> flow_cmp.ordered_entries h t' \<and>
    set (inorder t') = insert f (set (inorder t))"
  using flow_cmp.CAvl_Insert_new [OF assms(1), of f] assms(2) by (auto simp: SAvl_defs)

lemma flow_tree_empty: "SAvl_IsEmpty t \<longleftrightarrow> t = Leaf"
  by (simp add: SAvl_defs CAvl_IsEmpty_def split: avl.splits)

section \<open>Virtual time\<close>

definition flow_queued :: "(nat \<rightharpoonup> PacketPassFairQueueFlow) \<Rightarrow> nat \<Rightarrow> bool" where
  "flow_queued h f \<longleftrightarrow> (\<exists>fl. h f = Some fl \<and> ff_is_queued fl)"

lemma flow_queued_code [code]: "flow_queued h f = (case h f of None \<Rightarrow> False | Some fl \<Rightarrow> ff_is_queued fl)"
  by (simp add: flow_queued_def split: option.splits)

lemma subtract_time_result:
  assumes "distinct fs" "set fs \<subseteq> dom h" "\<And>f. f \<in> set fs \<Longrightarrow> flow_queued h f \<Longrightarrow> f \<noteq> flow \<Longrightarrow> sub \<le> flow_time h f"
  shows "subtract_time flow sub fs h = Some (\<lambda>f. if f \<in> set fs
    then map_option (\<lambda>fl. fl\<lparr>ff_time := (if ff_time fl < sub \<and> f \<noteq> flow then 0 else ff_time fl - sub)\<rparr>) (h f) else h f)"
  using assms
proof (induction fs arbitrary: h)
  case (Cons f fs)
  obtain fl where fl: "h f = Some fl" using Cons.prems(2) by auto
  let ?fl = "fl\<lparr>ff_time := (if ff_time fl < sub \<and> f \<noteq> flow then 0 else ff_time fl - sub)\<rparr>"
  have idle: "\<not> ff_is_queued fl" if "ff_time fl < sub" "f \<noteq> flow"
    using Cons.prems(3) [of f] that fl by (auto simp: flow_queued_def flow_time_def)
  have "subtract_time flow sub (f # fs) h = subtract_time flow sub fs (h(f \<mapsto> ?fl))"
    using fl idle by (auto simp: require_def)
  also have "\<dots> = Some (\<lambda>g. if g \<in> set fs
      then map_option (\<lambda>fl. fl\<lparr>ff_time := (if ff_time fl < sub \<and> g \<noteq> flow then 0 else ff_time fl - sub)\<rparr>) ((h(f \<mapsto> ?fl)) g)
      else (h(f \<mapsto> ?fl)) g)"
    using Cons.prems by (intro Cons.IH) (auto simp: flow_queued_def flow_time_def split: if_splits)
  finally show ?case using Cons.prems(1) fl by (auto simp: fun_eq_iff)
qed simp

lemma word_shift_exact:
  fixes t s a :: u64
  assumes "unat s \<le> unat t + unat a" "unat t + unat a < unat s + 2 ^ 64"
  shows "unat (t - s + a) = unat t + unat a - unat s"
proof -
  have "t - s + a = of_nat (unat t + unat a - unat s)" using assms(1) by (simp add: of_nat_diff)
  then show ?thesis using assms by (simp only: unat_of_nat) (simp add: mod_less)
qed

lemma u64_bound: "unat (w :: u64) < 2 ^ 64"
  using unsigned_less [of w] by simp

lemma max_time_minus: "FAIRQUEUE_MAX_TIME - t < a \<longleftrightarrow> 2 ^ 64 - 1 < unat t + unat (a :: u64)"
proof -
  have m: "unat FAIRQUEUE_MAX_TIME = 2 ^ 64 - 1" by (simp add: FAIRQUEUE_MAX_TIME_def)
  moreover have "t \<le> FAIRQUEUE_MAX_TIME" using u64_bound [of t] unfolding word_le_nat_alt m by linarith
  ultimately have "unat (FAIRQUEUE_MAX_TIME - t) = 2 ^ 64 - 1 - unat t" by (simp add: unat_sub)
  then show ?thesis using u64_bound [of t] unfolding word_less_nat_alt by linarith
qed

text \<open>What serving a flow does to the times: all of them go back by one base, exactly for the flow and the
  queued ones, not below zero for the idle ones, and the flow is charged the amount.\<close>

definition served ::
  "(nat \<rightharpoonup> PacketPassFairQueueFlow) \<Rightarrow> nat \<Rightarrow> nat \<Rightarrow> nat \<Rightarrow> (nat \<rightharpoonup> PacketPassFairQueueFlow) \<Rightarrow> bool" where
  "served h flow amount base h' \<longleftrightarrow>
     (\<forall>f. h' f = map_option (\<lambda>fl. fl\<lparr>ff_time := flow_time h' f\<rparr>) (h f)) \<and>
     unat (flow_time h' flow) + base = unat (flow_time h flow) + amount \<and>
     (\<forall>f\<in>dom h - {flow}. unat (flow_time h' f) = unat (flow_time h f) - base) \<and>
     (\<forall>f. flow_queued h f \<longrightarrow> base \<le> unat (flow_time h f))"

lemma served_shift:
  assumes "h flow = Some fl" "unat sub \<le> unat (ff_time fl) + unat amount" "unat (ff_time fl) + unat amount < unat sub + 2 ^ 64"
    "\<And>f. flow_queued h f \<Longrightarrow> sub \<le> flow_time h f"
  defines "h1 \<equiv> (\<lambda>f. map_option (\<lambda>fl. fl\<lparr>ff_time := (if ff_time fl < sub \<and> f \<noteq> flow then 0 else ff_time fl - sub)\<rparr>) (h f))"
  shows "served h flow (unat amount) (unat sub) (h1(flow \<mapsto> fl\<lparr>ff_time := ff_time fl - sub + amount\<rparr>))"
proof -
  have "unat (ff_time fl - sub + amount) = unat (ff_time fl) + unat amount - unat sub" by (rule word_shift_exact [OF assms(2,3)])
  moreover have "unat (if t < sub then 0 else t - sub) = unat t - unat sub" for t :: u64
    by (auto simp: unat_sub word_less_nat_alt word_le_nat_alt not_less)
  ultimately show ?thesis using assms(1,2,4)
    by (auto simp: served_def h1_def flow_time_def flow_queued_def word_le_nat_alt option.map_sel fun_eq_iff map_option_case split: option.splits)
qed

lemma increment_sent_flow_result:
  assumes "flow_cmp.ordered_entries (fq_heap m) (fq_queued_tree m)" "set (inorder (fq_queued_tree m)) = {f. flow_queued (fq_heap m) f}"
    "distinct (fq_flows_list m)" "set (fq_flows_list m) = dom (fq_heap m)"
    "fq_heap m flow = Some fl" "\<not> ff_is_queued fl" "fq_sending_flow m = None"
    "\<And>f. flow_queued (fq_heap m) f \<Longrightarrow> ff_time fl \<le> flow_time (fq_heap m) f"
  shows "\<exists>base h'. increment_sent_flow m flow amount = Some (m\<lparr>fq_heap := h'\<rparr>) \<and> served (fq_heap m) flow (unat amount) base h'"
proof (cases "FAIRQUEUE_MAX_TIME - ff_time fl < amount")
  case False
  then have "unat (ff_time fl + amount) = unat (ff_time fl) + unat amount"
    unfolding max_time_minus using word_shift_exact [of 0 "ff_time fl" amount] by simp
  then have "served (fq_heap m) flow (unat amount) 0 ((fq_heap m)(flow \<mapsto> fl\<lparr>ff_time := ff_time fl + amount\<rparr>))"
    using assms(5) by (auto simp: served_def flow_time_def map_option_case split: option.splits)
  moreover have "amount \<le> FAIRQUEUE_MAX_TIME"
    using u64_bound [of amount] by (simp add: word_le_nat_alt FAIRQUEUE_MAX_TIME_def)
  ultimately show ?thesis using assms(5-7) False by (auto simp: increment_sent_flow_def)
next
  case True
  let ?t = "fq_queued_tree m" and ?h = "fq_heap m"
  have le: "amount \<le> FAIRQUEUE_MAX_TIME" using u64_bound [of amount] by (simp add: word_le_nat_alt FAIRQUEUE_MAX_TIME_def)
  obtain sub where sub: "(case SAvl_GetFirst ?t of None \<Rightarrow> Some (ff_time fl)
      | Some f \<Rightarrow> do { first_flow \<leftarrow> ?h f; require (ff_is_queued first_flow) (ff_time first_flow) }) = Some sub"
    "ff_time fl \<le> sub" "\<And>f. flow_queued ?h f \<Longrightarrow> sub \<le> flow_time ?h f"
  proof (cases "?t = Leaf")
    case True
    then show ?thesis using that [of "ff_time fl"] assms(2) by (auto simp: SAvl_defs CAvl_GetFirst_def)
  next
    case False
    obtain f where f: "SAvl_GetFirst ?t = Some f" "f \<in> set (inorder ?t)" "\<forall>g\<in>set (inorder ?t). g \<noteq> f \<longrightarrow> compare_flows ?h f g = - 1"
      using flow_tree_first [OF assms(1) False] by blast
    then obtain ff where ff: "?h f = Some ff" "ff_is_queued ff" using assms(2) by (auto simp: flow_queued_def)
    then have tf: "flow_time ?h f = ff_time ff" by (simp add: flow_time_def)
    have "ff_time ff \<le> flow_time ?h g" if "flow_queued ?h g" for g
      using f(3) that assms(2) tf by (cases "g = f") (auto simp: compare_flows_less)
    then show ?thesis using that [of "ff_time ff"] f(1,2) ff assms(2) assms(8) [of f] tf by (auto simp: require_def)
  qed
  let ?h1 = "\<lambda>f. map_option (\<lambda>fl. fl\<lparr>ff_time := (if ff_time fl < sub \<and> f \<noteq> flow then 0 else ff_time fl - sub)\<rparr>) (?h f)"
  have "subtract_time flow sub (fq_flows_list m) ?h = Some ?h1"
    using sub(3) assms(3,4) by (subst subtract_time_result) (auto simp: fun_eq_iff domIff)
  then have "increment_sent_flow m flow amount = Some (m\<lparr>fq_heap := ?h1(flow \<mapsto> fl\<lparr>ff_time := ff_time fl - sub + amount\<rparr>)\<rparr>)"
    using assms(5-7) le True sub(1) unfolding increment_sent_flow_def by simp
  moreover have "served ?h flow (unat amount) (unat sub) (?h1(flow \<mapsto> fl\<lparr>ff_time := ff_time fl - sub + amount\<rparr>))"
    using True sub(2,3) assms(5) u64_bound [of sub] u64_bound [of amount]
    by (intro served_shift) (auto simp: max_time_minus word_le_nat_alt)
  ultimately show ?thesis by blast
qed

section \<open>The invariant\<close>

text \<open>The tree holds exactly the queued flows in the order of their times, the list all of the flows. The flow being
  sent is no later than the queued ones, and the output is never left idle while a flow is queued: either a
  flow is being sent, or the schedule job is set, or no flow is queued.\<close>

definition fq_wf :: "PacketPassFairQueue \<Rightarrow> bool" where
  "fq_wf m \<longleftrightarrow>
     0 < fq_packet_weight m \<and> 0 \<le> fq_mtu m \<and> fq_packet_weight m + fq_mtu m < 2 ^ 64 \<and> \<not> fq_freeing m \<and>
     flow_cmp.ordered_entries (fq_heap m) (fq_queued_tree m) \<and>
     set (inorder (fq_queued_tree m)) = {f. flow_queued (fq_heap m) f} \<and>
     distinct (fq_flows_list m) \<and> set (fq_flows_list m) = dom (fq_heap m) \<and>
     (\<forall>f fl. fq_heap m f = Some fl \<longrightarrow> ff_is_queued fl \<longrightarrow> int (length (ff_data fl)) \<le> fq_mtu m)"

definition fq_ok :: "PacketPassFairQueue \<Rightarrow> bool" where
  "fq_ok m \<longleftrightarrow> fq_wf m \<and>
     (\<forall>f. fq_sending_flow m = Some f \<longrightarrow> f \<in> dom (fq_heap m) \<and> \<not> flow_queued (fq_heap m) f \<and> fq_previous_flow m = None \<and>
        \<not> fq_schedule_job m \<and> 0 \<le> fq_sending_len m \<and> fq_sending_len m \<le> fq_mtu m \<and>
        (\<forall>g. flow_queued (fq_heap m) g \<longrightarrow> flow_time (fq_heap m) f \<le> flow_time (fq_heap m) g)) \<and>
     (\<forall>f. fq_previous_flow m = Some f \<longrightarrow> f \<in> dom (fq_heap m) \<and> \<not> flow_queued (fq_heap m) f \<and> fq_schedule_job m) \<and>
     (fq_sending_flow m = None \<longrightarrow> \<not> fq_schedule_job m \<longrightarrow> fq_queued_tree m = Leaf)"

lemma fq_tree_Leaf: "fq_wf m \<Longrightarrow> fq_queued_tree m = Leaf \<longleftrightarrow> (\<forall>f. \<not> flow_queued (fq_heap m) f)"
  unfolding fq_wf_def by (metis (no_types, lifting) empty_Collect_eq inorder_Nil set_empty)

lemma fq_first:
  assumes "fq_wf m" "fq_queued_tree m \<noteq> Leaf"
  shows "\<exists>f fl. SAvl_GetFirst (fq_queued_tree m) = Some f \<and> fq_heap m f = Some fl \<and> ff_is_queued fl \<and>
    (\<forall>g. flow_queued (fq_heap m) g \<longrightarrow> g \<noteq> f \<longrightarrow> compare_flows (fq_heap m) f g = - 1)"
proof -
  have wf: "flow_cmp.ordered_entries (fq_heap m) (fq_queued_tree m)" "set (inorder (fq_queued_tree m)) = {f. flow_queued (fq_heap m) f}"
    using assms(1) by (auto simp: fq_wf_def)
  show ?thesis using flow_tree_first [OF wf(1) assms(2)] wf(2) unfolding flow_queued_def by auto
qed

lemma fq_sendingD:
  "fq_ok m \<Longrightarrow> fq_sending_flow m = Some f \<Longrightarrow> \<exists>fl. fq_heap m f = Some fl \<and> \<not> ff_is_queued fl \<and> fq_previous_flow m = None \<and>
     \<not> fq_schedule_job m \<and> 0 \<le> fq_sending_len m \<and> fq_sending_len m \<le> fq_mtu m \<and>
     (\<forall>g. flow_queued (fq_heap m) g \<longrightarrow> ff_time fl \<le> flow_time (fq_heap m) g)"
  unfolding fq_ok_def by (auto simp: flow_queued_def flow_time_def)

lemma flow_queued_upd: "flow_queued (h(f \<mapsto> fl)) g \<longleftrightarrow> (if g = f then ff_is_queued fl else flow_queued h g)"
  by (auto simp: flow_queued_def)

lemma flow_time_upd: "flow_time (h(f \<mapsto> fl)) g = (if g = f then ff_time fl else flow_time h g)"
  by (simp add: flow_time_def)

lemma flow_queued_del: "flow_queued (h(f := None)) g \<longleftrightarrow> g \<noteq> f \<and> flow_queued h g"
  by (simp add: flow_queued_def)

lemma flow_queued_Some: "h f = Some fl \<Longrightarrow> flow_queued h f \<longleftrightarrow> ff_is_queued fl"
  by (simp add: flow_queued_def)

lemmas flow_upd_simps = flow_queued_upd flow_time_upd flow_queued_del

section \<open>The operations keep it\<close>

text \<open>The queue after a flow has been picked.\<close>

definition pick_flow :: "PacketPassFairQueue \<Rightarrow> nat \<Rightarrow> PacketPassFairQueueFlow \<Rightarrow> nat avl \<Rightarrow> PacketPassFairQueue" where
  "pick_flow m f fl t = m\<lparr>fq_queued_tree := t, fq_heap := (fq_heap m)(f \<mapsto> fl\<lparr>ff_is_queued := False\<rparr>),
     fq_sending_flow := Some f, fq_sending_len := int (length (ff_data fl))\<rparr>"

lemma schedule_ok:
  assumes "fq_wf m" "fq_sending_flow m = None" "fq_previous_flow m = None" "\<not> fq_schedule_job m" "fq_queued_tree m \<noteq> Leaf"
  shows "\<exists>f fl t. schedule m = Some (pick_flow m f fl t, [Fq_Send (ff_data fl)]) \<and> fq_heap m f = Some fl \<and> ff_is_queued fl \<and>
    (\<forall>g. flow_queued (fq_heap m) g \<longrightarrow> g \<noteq> f \<longrightarrow> compare_flows (fq_heap m) f g = - 1) \<and> fq_ok (pick_flow m f fl t)"
proof -
  let ?h = "fq_heap m" and ?t = "fq_queued_tree m"
  have ord: "flow_cmp.ordered_entries ?h ?t" and inord: "set (inorder ?t) = {f. flow_queued ?h f}" using assms(1) by (auto simp: fq_wf_def)
  obtain f fl where f: "SAvl_GetFirst ?t = Some f" and fl: "?h f = Some fl" "ff_is_queued fl"
    and min: "\<forall>g. flow_queued ?h g \<longrightarrow> g \<noteq> f \<longrightarrow> compare_flows ?h f g = - 1"
    using fq_first [OF assms(1,5)] by blast
  then have "f \<in> set (inorder ?t)" using inord by (auto simp: flow_queued_def)
  then obtain t where t: "SAvl_Remove ?t f = Some t" "flow_cmp.ordered_entries ?h t" "set (inorder t) = set (inorder ?t) - {f}"
    using flow_tree_remove [OF ord] by blast
  have "schedule m = Some (pick_flow m f fl t, [Fq_Send (ff_data fl)])"
    using assms f fl t(1) by (simp add: schedule_def pick_flow_def flow_tree_empty fq_wf_def)
  moreover have ord': "flow_cmp.ordered_entries (fq_heap (pick_flow m f fl t)) t"
    by (rule flow_order_same [OF t(2)]) (simp add: pick_flow_def flow_time_upd, simp add: flow_time_def fl)
  have wf: "fq_wf (pick_flow m f fl t)"
    using assms(1) ord' t(3) inord fl by (auto simp: fq_wf_def pick_flow_def flow_upd_simps)
  moreover have "fq_ok (pick_flow m f fl t)"
    unfolding fq_ok_def using wf assms min fl(1,2)
    by (auto simp: pick_flow_def flow_upd_simps compare_flows_less fq_wf_def, auto simp: flow_time_def)
  ultimately show ?thesis using fl min by blast
qed

lemma get_current_time_ok:
  assumes "fq_ok m"
  shows "\<exists>c. get_current_time m = Some c \<and> (\<forall>f. fq_sending_flow m = Some f \<longrightarrow> c = flow_time (fq_heap m) f) \<and>
    (\<forall>g. flow_queued (fq_heap m) g \<longrightarrow> c \<le> flow_time (fq_heap m) g)"
proof (cases "fq_sending_flow m")
  case (Some f)
  then show ?thesis using fq_sendingD [OF assms Some] by (auto simp: get_current_time_def flow_time_def)
next
  case None
  let ?h = "fq_heap m" and ?t = "fq_queued_tree m"
  have wf: "fq_wf m" and prev: "fq_previous_flow m = Some p \<Longrightarrow> \<exists>fl. ?h p = Some fl" for p using assms by (auto simp: fq_ok_def)
  show ?thesis
  proof (cases "?t = Leaf")
    case True
    then have "SAvl_GetFirst ?t = None" by (simp add: SAvl_defs CAvl_GetFirst_def)
    moreover have "\<not> flow_queued ?h g" for g using True fq_tree_Leaf [OF wf] by simp
    ultimately show ?thesis using None prev by (cases "fq_previous_flow m") (auto simp: get_current_time_def)
  next
    case False
    obtain f fl where f: "SAvl_GetFirst ?t = Some f" "?h f = Some fl" "ff_is_queued fl"
      "\<forall>g. flow_queued ?h g \<longrightarrow> g \<noteq> f \<longrightarrow> compare_flows ?h f g = - 1"
      using fq_first [OF wf False] by blast
    have "ff_time fl \<le> flow_time ?h g" if "flow_queued ?h g" for g
      using that f by (cases "g = f") (auto simp: compare_flows_less, auto simp: flow_time_def)
    moreover from this have "x < ff_time fl \<Longrightarrow> flow_queued ?h g \<Longrightarrow> x \<le> flow_time ?h g" for x g
      by (meson less_imp_le order.trans)
    ultimately show ?thesis using None prev f(1-3)
      by (cases "fq_previous_flow m") (auto simp: get_current_time_def require_def)
  qed
qed

text \<open>The queue after a packet has been accepted for a flow, before anything is scheduled.\<close>

definition queue_flow :: "PacketPassFairQueue \<Rightarrow> nat \<Rightarrow> PacketPassFairQueueFlow \<Rightarrow> u64 \<Rightarrow> bytes \<Rightarrow> nat avl \<Rightarrow> PacketPassFairQueue" where
  "queue_flow m f fl time data t =
     m\<lparr>fq_previous_flow := (if Some f = fq_previous_flow m then None else fq_previous_flow m), fq_queued_tree := t,
       fq_heap := (fq_heap m)(f \<mapsto> fl\<lparr>ff_time := time, ff_data := data, ff_is_queued := True\<rparr>)\<rparr>"

lemma queue_flow_ok:
  assumes "fq_ok m" "fq_heap m f = Some fl" "\<not> ff_is_queued fl" "fq_sending_flow m \<noteq> Some f" "int (length data) \<le> fq_mtu m"
  shows "\<exists>time t. fq_input_handler_send m f data =
      (let m' = queue_flow m f fl time data t in if fq_sending_flow m = None \<and> \<not> fq_schedule_job m then schedule m' else Some (m', [])) \<and>
    fq_wf (queue_flow m f fl time data t) \<and> ff_time fl \<le> time \<and>
    (\<forall>g. fq_sending_flow m = Some g \<longrightarrow> flow_time (fq_heap m) g \<le> time)"
proof -
  let ?h = "fq_heap m" and ?t = "fq_queued_tree m"
  have wf: "fq_wf m" and nf: "\<not> fq_freeing m" using assms(1) by (auto simp: fq_ok_def fq_wf_def)
  obtain c where c: "get_current_time m = Some c" "\<forall>g. fq_sending_flow m = Some g \<longrightarrow> c = flow_time ?h g"
    using get_current_time_ok [OF assms(1)] by blast
  have prev: "fq_previous_flow m = Some f \<Longrightarrow> fq_sending_flow m = None" using fq_sendingD [OF assms(1)] by (cases "fq_sending_flow m") auto
  define time where "time = (if Some f = fq_previous_flow m then ff_time fl else max (ff_time fl) c)"
  let ?h1 = "?h(f \<mapsto> fl\<lparr>ff_time := time, ff_data := data\<rparr>)"
  have out: "f \<notin> set (inorder ?t)" using wf assms(2,3) by (auto simp: fq_wf_def flow_queued_def)
  have "flow_cmp.ordered_entries ?h1 ?t"
    by (rule flow_order_same [of ?h]) (use wf out in \<open>auto simp: fq_wf_def flow_time_upd\<close>)
  then obtain t ref where t: "SAvl_Insert (compare_flows ?h1) ?t f = Some (t, True, ref)" "flow_cmp.ordered_entries ?h1 t"
    "set (inorder t) = insert f (set (inorder ?t))"
    using flow_tree_insert [OF _ out] by blast
  have "flow_cmp.ordered_entries (fq_heap (queue_flow m f fl time data t)) t"
    by (rule flow_order_same [OF t(2)]) (simp add: queue_flow_def flow_time_upd)
  then have "fq_wf (queue_flow m f fl time data t)"
    using wf t(3) assms(2,5) by (auto simp: fq_wf_def queue_flow_def flow_upd_simps)
  moreover have "fq_input_handler_send m f data =
      (let m' = queue_flow m f fl time data t in if fq_sending_flow m = None \<and> \<not> fq_schedule_job m then schedule m' else Some (m', []))"
    using assms(2-4) nf c(1) t(1)
    by (cases "Some f = fq_previous_flow m") (auto simp: fq_input_handler_send_def time_def queue_flow_def require_def Let_def)
  ultimately show ?thesis using c(2) prev by (intro exI [of _ time] exI [of _ t]) (auto simp: time_def)
qed

text \<open>Accepting a packet starts sending it when the output is idle.\<close>

lemma fq_input_handler_send_ok:
  assumes "fq_ok m" "fq_heap m f = Some fl" "\<not> ff_is_queued fl" "fq_sending_flow m \<noteq> Some f" "int (length data) \<le> fq_mtu m"
  shows "\<exists>time t. ff_time fl \<le> time \<and>
    (if fq_sending_flow m = None \<and> \<not> fq_schedule_job m
     then \<exists>t'. fq_input_handler_send m f data =
         Some (pick_flow (queue_flow m f fl time data t) f (fl\<lparr>ff_time := time, ff_data := data, ff_is_queued := True\<rparr>) t', [Fq_Send data]) \<and>
       fq_ok (pick_flow (queue_flow m f fl time data t) f (fl\<lparr>ff_time := time, ff_data := data, ff_is_queued := True\<rparr>) t')
     else fq_input_handler_send m f data = Some (queue_flow m f fl time data t, []) \<and> fq_ok (queue_flow m f fl time data t))"
proof -
  obtain time t where *: "fq_input_handler_send m f data =
      (let m' = queue_flow m f fl time data t in if fq_sending_flow m = None \<and> \<not> fq_schedule_job m then schedule m' else Some (m', []))"
    "fq_wf (queue_flow m f fl time data t)" "ff_time fl \<le> time" "\<forall>g. fq_sending_flow m = Some g \<longrightarrow> flow_time (fq_heap m) g \<le> time"
    using queue_flow_ok [OF assms] by blast
  let ?m = "queue_flow m f fl time data t"
  let ?fl = "fl\<lparr>ff_time := time, ff_data := data, ff_is_queued := True\<rparr>"
  show ?thesis
  proof (cases "fq_sending_flow m = None \<and> \<not> fq_schedule_job m")
    case True
    have idle: "\<not> flow_queued (fq_heap m) g" for g using assms(1) True fq_tree_Leaf [of m] by (auto simp: fq_ok_def)
    have only: "flow_queued (fq_heap ?m) g \<longleftrightarrow> g = f" for g using idle by (auto simp: queue_flow_def flow_upd_simps)
    then have "fq_queued_tree ?m \<noteq> Leaf" using fq_tree_Leaf [OF *(2)] by blast
    moreover have "fq_previous_flow ?m = None" using assms(1) True by (cases "fq_previous_flow m") (auto simp: queue_flow_def fq_ok_def)
    ultimately obtain g gl t' where "schedule ?m = Some (pick_flow ?m g gl t', [Fq_Send (ff_data gl)])" "fq_heap ?m g = Some gl" "ff_is_queued gl"
      "fq_ok (pick_flow ?m g gl t')"
      using schedule_ok [OF *(2)] True by (auto simp: queue_flow_def)
    moreover from this(2,3) have "g = f" "gl = ?fl" using only [of g] by (auto simp: flow_queued_def queue_flow_def)
    ultimately show ?thesis using True *(1,3) by (intro exI [of _ time] exI [of _ t]) auto
  next
    case False
    have "fq_ok ?m" using *(2,4) assms(1,4) False
      by (auto simp: fq_ok_def queue_flow_def flow_upd_simps)
    then show ?thesis using False *(1,3) by (intro exI [of _ time] exI [of _ t]) auto
  qed
qed

lemma served_flows:
  assumes "served h flow amount base h'"
  shows "dom h' = dom h" "flow_queued h' f \<longleftrightarrow> flow_queued h f" "h f = Some fl \<Longrightarrow> h' f = Some (fl\<lparr>ff_time := flow_time h' f\<rparr>)"
proof -
  have *: "h' f = map_option (\<lambda>fl. fl\<lparr>ff_time := flow_time h' f\<rparr>) (h f)" for f using assms by (simp add: served_def)
  show "dom h' = dom h" by (rule set_eqI, subst (1) domIff, subst *) (simp add: domIff)
  show "flow_queued h' f \<longleftrightarrow> flow_queued h f" unfolding flow_queued_def by (subst *) auto
  show "h f = Some fl \<Longrightarrow> h' f = Some (fl\<lparr>ff_time := flow_time h' f\<rparr>)" by (subst *) simp
qed

text \<open>Going back by the same base keeps the order of the queued flows.\<close>

lemma served_order:
  assumes "served h flow amount base h'" "flow_cmp.ordered_entries h t" "set (inorder t) = {f. flow_queued h f}" "\<not> flow_queued h flow"
  shows "flow_cmp.ordered_entries h' t"
proof (rule flow_order_cong [OF assms(2)])
  have *: "unat (flow_time h' f) = unat (flow_time h f) - base" "base \<le> unat (flow_time h f)" if "f \<in> set (inorder t)" for f
    using assms(1,3,4) that unfolding served_def flow_queued_def by auto
  show "\<forall>f\<in>set (inorder t). \<forall>g\<in>set (inorder t). compare_flows h f g = - 1 \<longrightarrow> compare_flows h' f g = - 1"
    unfolding compare_flows_less word_less_nat_alt word_unat_eq_iff
    using * by (metis diff_less_mono)
qed

lemma fq_charge:
  assumes "fq_ok m" "fq_sending_flow m = Some f"
  shows "unat (of_int (fq_packet_weight m) + of_int (fq_sending_len m) :: u64) = nat (fq_packet_weight m + fq_sending_len m)"
proof -
  have "0 < fq_packet_weight m" "0 \<le> fq_sending_len m" "fq_packet_weight m + fq_sending_len m < 2 ^ 64"
    using fq_sendingD [OF assms] assms(1) by (auto simp: fq_ok_def fq_wf_def)
  moreover have "unat (of_int z :: u64) = nat z" if "0 \<le> z" "z < 2 ^ 64" for z
    using that by (simp add: unat_eq_nat_uint uint_word_of_int)
  ultimately show ?thesis by (simp flip: of_int_add)
qed

lemma fq_output_handler_done_ok:
  assumes "fq_ok m" "fq_sending_flow m = Some f"
  shows "\<exists>base h' fl. let m' = m\<lparr>fq_sending_flow := None, fq_previous_flow := Some f, fq_schedule_job := True,
        fq_heap := h'(f \<mapsto> fl\<lparr>ff_handler_busy := False\<rparr>)\<rparr> in
      fq_output_handler_done m = Some (m', Fq_Done f # (if ff_handler_busy fl then [Fq_Handler_Busy f] else [])) \<and>
      served (fq_heap m) f (nat (fq_packet_weight m + fq_sending_len m)) base h' \<and> h' f = Some fl \<and> fq_ok m'"
proof -
  let ?h = "fq_heap m" and ?m = "m\<lparr>fq_sending_flow := None, fq_previous_flow := Some f\<rparr>"
  obtain fl where fl: "?h f = Some fl" "\<not> ff_is_queued fl" "fq_previous_flow m = None" "\<not> fq_schedule_job m"
    "\<And>g. flow_queued ?h g \<Longrightarrow> ff_time fl \<le> flow_time ?h g" using fq_sendingD [OF assms] by blast
  have wf: "fq_wf m" using assms(1) by (simp add: fq_ok_def)
  then have ord: "flow_cmp.ordered_entries ?h (fq_queued_tree m)" "set (inorder (fq_queued_tree m)) = {f. flow_queued ?h f}"
    "distinct (fq_flows_list m)" "set (fq_flows_list m) = dom ?h" "\<not> fq_freeing m" by (auto simp: fq_wf_def)
  obtain base h' where inc: "increment_sent_flow ?m f (of_int (fq_packet_weight m) + of_int (fq_sending_len m)) = Some (?m\<lparr>fq_heap := h'\<rparr>)"
    and sv: "served ?h f (nat (fq_packet_weight m + fq_sending_len m)) base h'"
    using increment_sent_flow_result [of ?m f fl] ord fl(1,2,5) fq_charge [OF assms] by fastforce
  let ?fl = "fl\<lparr>ff_time := flow_time h' f\<rparr>"
  have h'f: "h' f = Some ?fl" using served_flows(3) [OF sv fl(1)] .
  let ?h2 = "h'(f \<mapsto> ?fl\<lparr>ff_handler_busy := False\<rparr>)"
  let ?m' = "m\<lparr>fq_sending_flow := None, fq_previous_flow := Some f, fq_schedule_job := True, fq_heap := ?h2\<rparr>"
  have "\<not> ff_handler_busy fl \<Longrightarrow> h' = ?h2" using h'f by (auto simp: fun_eq_iff)
  then have run: "fq_output_handler_done m = Some (?m', Fq_Done f # (if ff_handler_busy ?fl then [Fq_Handler_Busy f] else []))"
    using assms(2) fl(1-4) ord(5) inc h'f by (auto simp: fq_output_handler_done_def)
  have nq: "\<not> flow_queued ?h f" using fl by (simp add: flow_queued_def)
  have same: "flow_time ?h2 g = flow_time h' g" "flow_queued ?h2 g \<longleftrightarrow> flow_queued ?h g" for g
    using fl(2) nq served_flows(2) [OF sv, of g] by (auto simp: flow_upd_simps)
  have "flow_cmp.ordered_entries ?h2 (fq_queued_tree m)"
    by (rule flow_order_same [OF served_order [OF sv ord(1,2) nq]]) (rule same)
  moreover have "int (length (ff_data gl)) \<le> fq_mtu m" if "?h2 g = Some gl" "ff_is_queued gl" for g gl
  proof -
    have "g \<noteq> f" using that fl(2) by auto
    then have hg: "h' g = Some gl" using that(1) by simp
    then obtain gl' where gl': "?h g = Some gl'" using served_flows(1) [OF sv] by blast
    then show ?thesis using that(2) wf hg served_flows(3) [OF sv gl'] by (auto simp: fq_wf_def)
  qed
  ultimately have "fq_wf ?m'" using wf same(2) served_flows(1) [OF sv] fl(1) by (auto simp: fq_wf_def)
  then have "fq_ok ?m'" using nq same(2) by (auto simp: fq_ok_def)
  then show ?thesis using run sv h'f by (intro exI [of _ base] exI [of _ h'] exI [of _ ?fl]) (simp add: Let_def)
qed

lemma schedule_job_handler_ok:
  assumes "fq_ok m" "fq_schedule_job m"
  defines "m0 \<equiv> m\<lparr>fq_schedule_job := False, fq_previous_flow := None\<rparr>"
  shows "if fq_queued_tree m = Leaf then schedule_job_handler (m\<lparr>fq_schedule_job := False\<rparr>) = Some (m0, []) \<and> fq_ok m0
    else \<exists>f fl t. schedule_job_handler (m\<lparr>fq_schedule_job := False\<rparr>) = Some (pick_flow m0 f fl t, [Fq_Send (ff_data fl)]) \<and>
      fq_heap m f = Some fl \<and> ff_is_queued fl \<and> (\<forall>g. flow_queued (fq_heap m) g \<longrightarrow> g \<noteq> f \<longrightarrow> compare_flows (fq_heap m) f g = - 1) \<and>
      fq_ok (pick_flow m0 f fl t)"
proof -
  have s: "fq_sending_flow m = None" using fq_sendingD [OF assms(1)] assms(2) by (cases "fq_sending_flow m") auto
  have wf: "fq_wf m0" "\<not> fq_freeing m" using assms(1) by (auto simp: m0_def fq_ok_def fq_wf_def)
  show ?thesis
  proof (cases "fq_queued_tree m = Leaf")
    case True
    then show ?thesis using s wf by (simp add: schedule_job_handler_def fq_ok_def flow_tree_empty m0_def)
  next
    case False
    then show ?thesis using schedule_ok [OF wf(1)] s wf(2) by (simp add: schedule_job_handler_def flow_tree_empty m0_def)
  qed
qed

lemma PacketPassFairQueueFlow_Init_ok:
  assumes "fq_ok m" "fq_heap m f = None"
  shows "\<exists>m'. PacketPassFairQueueFlow_Init f m = Some m' \<and> fq_ok m' \<and>
    fq_heap m' = (fq_heap m)(f \<mapsto> \<lparr>ff_handler_busy = False, ff_time = 0, ff_is_queued = False, ff_data = []\<rparr>) \<and>
    fq_sending_flow m' = fq_sending_flow m \<and> fq_packet_weight m' = fq_packet_weight m \<and> fq_mtu m' = fq_mtu m"
proof -
  let ?fl = "\<lparr>ff_handler_busy = False, ff_time = 0, ff_is_queued = False, ff_data = []\<rparr>"
  let ?m = "m\<lparr>fq_heap := (fq_heap m)(f \<mapsto> ?fl), fq_flows_list := fq_flows_list m @ [f]\<rparr>"
  have wf: "fq_wf m" and out: "\<not> flow_queued (fq_heap m) f" using assms by (auto simp: fq_ok_def flow_queued_def)
  have "flow_cmp.ordered_entries (fq_heap ?m) (fq_queued_tree m)"
    by (rule flow_order_same [of "fq_heap m"]) (use wf out in \<open>auto simp: fq_wf_def flow_time_upd\<close>)
  then have "fq_wf ?m" using wf out assms(2) by (auto simp: fq_wf_def flow_queued_upd)
  then have "fq_ok ?m" using assms out by (auto simp: fq_ok_def flow_upd_simps)
  then show ?thesis using wf by (auto simp: PacketPassFairQueueFlow_Init_def fq_wf_def require_def)
qed

text \<open>Freeing a flow, also while the whole queue is being freed.\<close>

definition fq_lists_ok :: "PacketPassFairQueue \<Rightarrow> bool" where
  "fq_lists_ok m \<longleftrightarrow> flow_cmp.ordered_entries (fq_heap m) (fq_queued_tree m) \<and>
     set (inorder (fq_queued_tree m)) = {f. flow_queued (fq_heap m) f} \<and>
     distinct (fq_flows_list m) \<and> set (fq_flows_list m) = dom (fq_heap m) \<and>
     set_option (fq_sending_flow m) \<union> set_option (fq_previous_flow m) \<subseteq> dom (fq_heap m)"

lemma PacketPassFairQueueFlow_Free_lists:
  assumes "fq_lists_ok m" "fq_heap m f = Some fl" "fq_freeing m \<or> fq_sending_flow m \<noteq> Some f"
  shows "\<exists>t. let m' = m\<lparr>fq_sending_flow := (if fq_sending_flow m = Some f then None else fq_sending_flow m),
        fq_previous_flow := (if fq_previous_flow m = Some f then None else fq_previous_flow m), fq_queued_tree := t,
        fq_flows_list := remove1 f (fq_flows_list m), fq_heap := (fq_heap m)(f := None)\<rparr> in
      PacketPassFairQueueFlow_Free f m = Some m' \<and> fq_lists_ok m'"
proof -
  let ?h = "fq_heap m"
  have ok: "flow_cmp.ordered_entries ?h (fq_queued_tree m)" "set (inorder (fq_queued_tree m)) = {f. flow_queued ?h f}"
    using assms(1) by (auto simp: fq_lists_ok_def)
  obtain t where t: "(if ff_is_queued fl then SAvl_Remove (fq_queued_tree m) f else Some (fq_queued_tree m)) = Some t"
    "flow_cmp.ordered_entries ?h t" "set (inorder t) = {g. flow_queued ?h g} - {f}"
    using flow_tree_remove [OF ok(1), of f] ok flow_queued_Some [of ?h f, OF assms(2)] by (cases "ff_is_queued fl") auto
  have "flow_cmp.ordered_entries (?h(f := None)) t"
    by (rule flow_order_same [OF t(2)]) (use t(3) in \<open>auto simp: flow_time_def\<close>)
  then show ?thesis using assms t(1,3)
    by (intro exI [of _ t]) (auto simp: PacketPassFairQueueFlow_Free_def Let_def fq_lists_ok_def flow_queued_del)
qed

lemma fq_ok_lists: "fq_ok m \<Longrightarrow> fq_lists_ok m"
  by (cases "fq_sending_flow m"; cases "fq_previous_flow m") (auto simp: fq_ok_def fq_wf_def fq_lists_ok_def)

lemma PacketPassFairQueueFlow_Free_ok:
  assumes "fq_ok m" "fq_heap m f = Some fl" "fq_sending_flow m \<noteq> Some f"
  shows "\<exists>m'. PacketPassFairQueueFlow_Free f m = Some m' \<and> fq_ok m' \<and> fq_heap m' = (fq_heap m)(f := None) \<and>
    fq_sending_flow m' = fq_sending_flow m \<and> fq_packet_weight m' = fq_packet_weight m \<and> fq_mtu m' = fq_mtu m"
proof -
  obtain t where t: "let m' = m\<lparr>fq_sending_flow := (if fq_sending_flow m = Some f then None else fq_sending_flow m),
        fq_previous_flow := (if fq_previous_flow m = Some f then None else fq_previous_flow m), fq_queued_tree := t,
        fq_flows_list := remove1 f (fq_flows_list m), fq_heap := (fq_heap m)(f := None)\<rparr> in
      PacketPassFairQueueFlow_Free f m = Some m' \<and> fq_lists_ok m'"
    using PacketPassFairQueueFlow_Free_lists [OF fq_ok_lists [OF assms(1)] assms(2)] assms(3) by blast
  let ?m = "m\<lparr>fq_previous_flow := (if fq_previous_flow m = Some f then None else fq_previous_flow m), fq_queued_tree := t,
        fq_flows_list := remove1 f (fq_flows_list m), fq_heap := (fq_heap m)(f := None)\<rparr>"
  have m: "PacketPassFairQueueFlow_Free f m = Some ?m" "fq_lists_ok ?m" using t assms(3) by (simp_all add: Let_def)
  then have wf: "fq_wf ?m" using assms(1) by (auto simp: fq_lists_ok_def fq_wf_def fq_ok_def)
  have "t = Leaf" if "fq_sending_flow m = None" "\<not> fq_schedule_job m"
    using that assms(1) fq_tree_Leaf [of m] fq_tree_Leaf [OF wf] by (auto simp: fq_ok_def flow_queued_del)
  then have "fq_ok ?m" using wf assms by (auto simp: fq_ok_def flow_queued_del) (auto simp: flow_time_def)
  then show ?thesis using m(1) by simp
qed

section \<open>The queue among its users\<close>

text \<open>What can happen to the queue: flows come and go, their users submit packets, the output finishes one, the
  schedule job runs. \<open>fq_allowed\<close> is the contract of the interfaces: a flow has at most one packet inside, packets fit,
  a flow being sent is not freed.\<close>

datatype fq_event =
  Fq_New nat
| Fq_Drop nat
| Fq_Submit nat bytes
| Fq_Output_Done
| Fq_Job
| Fq_Cancel nat
| Fq_Set_Busy nat bool

fun fq_allowed :: "PacketPassFairQueue \<Rightarrow> fq_event \<Rightarrow> bool" where
  "fq_allowed m (Fq_New f) \<longleftrightarrow> fq_heap m f = None"
| "fq_allowed m (Fq_Drop f) \<longleftrightarrow> fq_heap m f \<noteq> None \<and> fq_sending_flow m \<noteq> Some f"
| "fq_allowed m (Fq_Submit f data) \<longleftrightarrow> fq_heap m f \<noteq> None \<and> \<not> flow_queued (fq_heap m) f \<and> fq_sending_flow m \<noteq> Some f \<and>
     int (length data) \<le> fq_mtu m"
| "fq_allowed m Fq_Output_Done \<longleftrightarrow> fq_sending_flow m \<noteq> None"
| "fq_allowed m Fq_Job \<longleftrightarrow> fq_schedule_job m"
| "fq_allowed m (Fq_Cancel f) \<longleftrightarrow> fq_sending_flow m = Some f \<and> fq_use_cancel m"
| "fq_allowed m (Fq_Set_Busy f handler) \<longleftrightarrow> fq_sending_flow m = Some f"

fun fq_step :: "PacketPassFairQueue \<Rightarrow> fq_event \<Rightarrow> fq_result" where
  "fq_step m (Fq_New f) = map_option (\<lambda>m. (m, [])) (PacketPassFairQueueFlow_Init f m)"
| "fq_step m (Fq_Drop f) = map_option (\<lambda>m. (m, [])) (PacketPassFairQueueFlow_Free f m)"
| "fq_step m (Fq_Submit f data) = fq_input_handler_send m f data"
| "fq_step m Fq_Output_Done = fq_output_handler_done m"
| "fq_step m Fq_Job = schedule_job_handler (m\<lparr>fq_schedule_job := False\<rparr>)"
| "fq_step m (Fq_Cancel f) = map_option (\<lambda>cs. (m, cs)) (PacketPassFairQueueFlow_RequestCancel f m)"
| "fq_step m (Fq_Set_Busy f handler) = map_option (\<lambda>m. (m, [])) (PacketPassFairQueueFlow_SetBusyHandler f handler m)"

text \<open>The effect of the events on the flows.\<close>

fun fq_effect :: "PacketPassFairQueue \<Rightarrow> fq_event \<Rightarrow> PacketPassFairQueue \<Rightarrow> fq_call list \<Rightarrow> bool" where
  "fq_effect m (Fq_New f) m' cs \<longleftrightarrow> cs = [] \<and> fq_sending_flow m' = fq_sending_flow m \<and>
     fq_heap m' = (fq_heap m)(f \<mapsto> \<lparr>ff_handler_busy = False, ff_time = 0, ff_is_queued = False, ff_data = []\<rparr>)"
| "fq_effect m (Fq_Drop f) m' cs \<longleftrightarrow> cs = [] \<and> fq_sending_flow m' = fq_sending_flow m \<and> fq_heap m' = (fq_heap m)(f := None)"
| "fq_effect m (Fq_Submit f data) m' cs \<longleftrightarrow> (\<exists>fl'. fq_heap m' = (fq_heap m)(f \<mapsto> fl') \<and> flow_time (fq_heap m) f \<le> ff_time fl' \<and> ff_data fl' = data \<and>
     (if fq_sending_flow m = None \<and> \<not> fq_schedule_job m then \<not> ff_is_queued fl' \<and> fq_sending_flow m' = Some f \<and> cs = [Fq_Send data]
      else ff_is_queued fl' \<and> fq_sending_flow m' = fq_sending_flow m \<and> cs = []))"
| "fq_effect m Fq_Output_Done m' cs \<longleftrightarrow> (\<exists>f base h' fl. fq_sending_flow m = Some f \<and> served (fq_heap m) f (nat (fq_packet_weight m + fq_sending_len m)) base h' \<and>
     h' f = Some fl \<and> fq_heap m' = h'(f \<mapsto> fl\<lparr>ff_handler_busy := False\<rparr>) \<and> fq_sending_flow m' = None \<and>
     cs = Fq_Done f # (if ff_handler_busy fl then [Fq_Handler_Busy f] else []))"
| "fq_effect m Fq_Job m' cs \<longleftrightarrow> fq_heap m' = fq_heap m \<and> fq_sending_flow m' = None \<and> cs = [] \<and> (\<forall>f. \<not> flow_queued (fq_heap m) f) \<or>
     (\<exists>f fl. fq_heap m f = Some fl \<and> ff_is_queued fl \<and> (\<forall>g. flow_queued (fq_heap m) g \<longrightarrow> g \<noteq> f \<longrightarrow> compare_flows (fq_heap m) f g = - 1) \<and>
        fq_heap m' = (fq_heap m)(f \<mapsto> fl\<lparr>ff_is_queued := False\<rparr>) \<and> fq_sending_flow m' = Some f \<and> cs = [Fq_Send (ff_data fl)])"
| "fq_effect m (Fq_Cancel f) m' cs \<longleftrightarrow> m' = m \<and> cs = [Fq_Request_Cancel]"
| "fq_effect m (Fq_Set_Busy f handler) m' cs \<longleftrightarrow> cs = [] \<and> fq_sending_flow m' = fq_sending_flow m \<and>
     (\<exists>fl. fq_heap m f = Some fl \<and> fq_heap m' = (fq_heap m)(f \<mapsto> fl\<lparr>ff_handler_busy := handler\<rparr>))"

lemma fq_set_busy_ok:
  assumes "fq_ok m" "fq_heap m f = Some fl"
  shows "fq_ok (m\<lparr>fq_heap := (fq_heap m)(f \<mapsto> fl\<lparr>ff_handler_busy := b\<rparr>)\<rparr>)"
proof -
  let ?h = "(fq_heap m)(f \<mapsto> fl\<lparr>ff_handler_busy := b\<rparr>)"
  have same: "flow_time ?h g = flow_time (fq_heap m) g" "flow_queued ?h g \<longleftrightarrow> flow_queued (fq_heap m) g" for g
    using assms(2) by (auto simp: flow_upd_simps) (auto simp: flow_time_def flow_queued_def)
  have "flow_cmp.ordered_entries ?h (fq_queued_tree m)"
    by (rule flow_order_same [of "fq_heap m"]) (use assms(1) same in \<open>auto simp: fq_ok_def fq_wf_def\<close>)
  then have "fq_wf (m\<lparr>fq_heap := ?h\<rparr>)" using assms same(2) by (auto simp: fq_ok_def fq_wf_def)
  then show ?thesis using assms same by (auto simp: fq_ok_def)
qed

text \<open>No allowed event fails an assertion; each keeps the invariant and has its effect.\<close>

lemma fq_step_ok:
  assumes "fq_ok m" "fq_allowed m e"
  shows "\<exists>m' cs. fq_step m e = Some (m', cs) \<and> fq_ok m' \<and> fq_effect m e m' cs \<and> fq_packet_weight m' = fq_packet_weight m \<and> fq_mtu m' = fq_mtu m"
proof (cases e)
  case (Fq_New f)
  then show ?thesis using PacketPassFairQueueFlow_Init_ok [OF assms(1), of f] assms(2) by auto
next
  case (Fq_Drop f)
  then show ?thesis using PacketPassFairQueueFlow_Free_ok [OF assms(1), of f] assms(2) by auto
next
  case (Fq_Submit f data)
  then obtain fl where fl: "fq_heap m f = Some fl" "\<not> ff_is_queued fl" using assms(2) by (auto simp: flow_queued_def)
  let ?now = "fq_sending_flow m = None \<and> \<not> fq_schedule_job m"
  obtain time m' where *: "ff_time fl \<le> time" "fq_input_handler_send m f data = Some (m', if ?now then [Fq_Send data] else [])" "fq_ok m'"
    "fq_heap m' = (fq_heap m)(f \<mapsto> fl\<lparr>ff_time := time, ff_data := data, ff_is_queued := \<not> ?now\<rparr>)"
    "fq_sending_flow m' = (if ?now then Some f else fq_sending_flow m)" "fq_packet_weight m' = fq_packet_weight m" "fq_mtu m' = fq_mtu m"
    using fq_input_handler_send_ok [OF assms(1) fl, of data] assms(2) Fq_Submit
    by (cases ?now) (auto simp: pick_flow_def queue_flow_def simp del: split_paired_Ex)
  then show ?thesis using Fq_Submit fl(1)
    by (auto simp: flow_time_def intro!: exI [of _ "fl\<lparr>ff_time := time, ff_data := data, ff_is_queued := \<not> ?now\<rparr>"])
next
  case Fq_Output_Done
  then obtain f where f: "fq_sending_flow m = Some f" using assms(2) by auto
  show ?thesis using fq_output_handler_done_ok [OF assms(1) f] f Fq_Output_Done by (fastforce simp: Let_def)
next
  case Fq_Job
  have "\<forall>f. \<not> flow_queued (fq_heap m) f" if "fq_queued_tree m = Leaf" using that fq_tree_Leaf [of m] assms(1) by (simp add: fq_ok_def)
  moreover have "fq_sending_flow m = None" using fq_sendingD [OF assms(1)] assms(2) Fq_Job by (cases "fq_sending_flow m") auto
  ultimately show ?thesis using schedule_job_handler_ok [OF assms(1)] assms(2) Fq_Job
    by (auto simp: pick_flow_def split: if_splits)
next
  case (Fq_Cancel f)
  then show ?thesis using assms fq_sendingD [OF assms(1), of f]
    by (auto simp: PacketPassFairQueueFlow_RequestCancel_def require_def fq_ok_def fq_wf_def)
next
  case (Fq_Set_Busy f b)
  then obtain fl where "fq_heap m f = Some fl" using fq_sendingD [OF assms(1), of f] assms(2) by auto
  then show ?thesis using assms fq_set_busy_ok [OF assms(1)] Fq_Set_Busy
    by (auto simp: PacketPassFairQueueFlow_SetBusyHandler_def require_def fq_ok_def fq_wf_def)
qed

section \<open>Runs\<close>

text \<open>The queues reached from \<open>PacketPassFairQueue_Init\<close>, with the packets each flow was given and those of it the output
  was given, since the flow was made.\<close>

fun fq_given :: "fq_event \<Rightarrow> (nat \<Rightarrow> bytes list) \<Rightarrow> (nat \<Rightarrow> bytes list)" where
  "fq_given (Fq_New f) ins = ins(f := [])"
| "fq_given (Fq_Submit f data) ins = ins(f := ins f @ [data])"
| "fq_given _ ins = ins"

fun fq_new_flow :: "fq_event \<Rightarrow> (nat \<Rightarrow> bytes list) \<Rightarrow> (nat \<Rightarrow> bytes list)" where
  "fq_new_flow (Fq_New f) outs = outs(f := [])"
| "fq_new_flow _ outs = outs"

fun fq_sent :: "nat option \<Rightarrow> fq_call list \<Rightarrow> (nat \<Rightarrow> bytes list) \<Rightarrow> (nat \<Rightarrow> bytes list)" where
  "fq_sent (Some f) (Fq_Send data # cs) outs = fq_sent (Some f) cs (outs(f := outs f @ [data]))"
| "fq_sent sending (_ # cs) outs = fq_sent sending cs outs"
| "fq_sent sending [] outs = outs"

inductive fq_reach :: "PacketPassFairQueue \<Rightarrow> (nat \<Rightarrow> bytes list) \<Rightarrow> (nat \<Rightarrow> bytes list) \<Rightarrow> bool" where
  start: "PacketPassFairQueue_Init mtu c use_cancel weight = Some (Some m) \<Longrightarrow> 0 \<le> mtu \<Longrightarrow> fq_reach m (\<lambda>_. []) (\<lambda>_. [])"
| step: "fq_reach m ins outs \<Longrightarrow> fq_allowed m e \<Longrightarrow> fq_step m e = Some (m', cs) \<Longrightarrow>
    fq_reach m' (fq_given e ins) (fq_sent (fq_sending_flow m') cs (fq_new_flow e outs))"

lemma fq_Init_ok:
  assumes "PacketPassFairQueue_Init mtu c use_cancel weight = Some (Some m)" "0 \<le> mtu"
  shows "fq_ok m" "dom (fq_heap m) = {}"
  using assms flow_cmp.CAvl_Init_ordered
  by (auto simp: PacketPassFairQueue_Init_def require_def fq_ok_def fq_wf_def flow_queued_def FAIRQUEUE_MAX_TIME_def SAvl_defs CAvl_Init_def
      split: if_splits)

lemma fq_reach_ok: "fq_reach m ins outs \<Longrightarrow> fq_ok m"
  by (induction rule: fq_reach.induct) (use fq_Init_ok fq_step_ok in \<open>fastforce+\<close>)

text \<open>The packet a flow has queued.\<close>

definition fq_pending :: "PacketPassFairQueue \<Rightarrow> nat \<Rightarrow> bytes list" where
  "fq_pending m f = (case fq_heap m f of Some fl \<Rightarrow> if ff_is_queued fl then [ff_data fl] else [] | None \<Rightarrow> [])"

lemma fq_pending_upd:
  "fq_heap m' = (fq_heap m)(f \<mapsto> fl) \<Longrightarrow> fq_pending m' g = (if g = f then if ff_is_queued fl then [ff_data fl] else [] else fq_pending m g)"
  by (simp add: fq_pending_def)

lemma fq_effect_pending:
  assumes "fq_ok m" "fq_allowed m e" "fq_effect m e m' cs" "f \<in> dom (fq_heap m')"
    and "f \<in> dom (fq_heap m) \<Longrightarrow> ins f = outs f @ fq_pending m f"
  shows "fq_given e ins f = fq_sent (fq_sending_flow m') cs (fq_new_flow e outs) f @ fq_pending m' f"
proof (cases e)
  case (Fq_Submit g data)
  then obtain gl where "fq_heap m g = Some gl" "\<not> ff_is_queued gl" using assms(2) by (auto simp: flow_queued_def)
  then have "fq_pending m g = []" "f \<in> dom (fq_heap m)" using assms(3,4) Fq_Submit by (auto simp: fq_pending_def split: if_splits)
  then show ?thesis using assms(3,5) Fq_Submit by (auto simp: fq_pending_upd split: if_splits)
next
  case Fq_Output_Done
  then obtain g base h' fl where g: "fq_sending_flow m = Some g" "served (fq_heap m) g (nat (fq_packet_weight m + fq_sending_len m)) base h'"
    "h' g = Some fl" "fq_heap m' = h'(g \<mapsto> fl\<lparr>ff_handler_busy := False\<rparr>)" "fq_sending_flow m' = None"
    using assms(3) by auto
  obtain f0 where f0: "fq_heap m f = Some f0" using assms(4) served_flows(1) [OF g(2)] g(3,4) by (auto split: if_splits)
  have "fq_pending m' f = fq_pending m f" using g(3,4) f0 served_flows(3) [OF g(2) f0] by (auto simp: fq_pending_def)
  moreover have "fq_sent None cs outs = outs" for cs by (induction cs) auto
  ultimately show ?thesis using assms(5) f0 Fq_Output_Done g(5) by auto
qed (use assms in \<open>auto simp: fq_pending_upd, auto simp: fq_pending_def split: if_splits\<close>)

section \<open>Fairness\<close>












section \<open>Freeing the queue\<close>

text \<open>The order in which a user frees the queue: no more operations, the flows, the queue.\<close>

fun fq_free_flows :: "nat list \<Rightarrow> PacketPassFairQueue \<Rightarrow> PacketPassFairQueue option" where
  "fq_free_flows [] m = Some m"
| "fq_free_flows (f # fs) m = Option.bind (PacketPassFairQueueFlow_Free f m) (fq_free_flows fs)"

lemma fq_free_flows_ok:
  "fq_lists_ok m \<Longrightarrow> fq_freeing m \<Longrightarrow> distinct fs \<Longrightarrow> set fs = dom (fq_heap m) \<Longrightarrow>
    \<exists>m'. fq_free_flows fs m = Some m' \<and> fq_lists_ok m' \<and> fq_heap m' = Map.empty"
proof (induction fs arbitrary: m)
  case (Cons f fs)
  then obtain fl where fl: "fq_heap m f = Some fl" by auto
  obtain m' where m': "PacketPassFairQueueFlow_Free f m = Some m'" "fq_lists_ok m'" "fq_freeing m'" "fq_heap m' = (fq_heap m)(f := None)"
    using PacketPassFairQueueFlow_Free_lists [OF Cons.prems(1) fl] Cons.prems(2) by (auto simp: Let_def)
  have "set fs = dom (fq_heap m')" using Cons.prems(3,4) m'(4) by auto
  from Cons.IH [OF m'(2,3) _ this] show ?case using Cons.prems(3) m'(1) by auto
qed (simp add: dom_eq_empty_conv [symmetric] del: dom_eq_empty_conv)

lemma fq_empty_free:
  assumes "fq_lists_ok m" "fq_heap m = Map.empty"
  shows "PacketPassFairQueue_Free m \<noteq> None"
proof -
  have "inorder (fq_queued_tree m) = []" "fq_flows_list m = []" "fq_sending_flow m = None" "fq_previous_flow m = None"
    using assms by (auto simp: fq_lists_ok_def flow_queued_def set_empty [symmetric] simp del: set_empty inorder_Nil)
  then show ?thesis by (simp add: PacketPassFairQueue_Free_def require_def flow_tree_empty)
qed

section \<open>A run\<close>

fun fq_run :: "fq_event list \<Rightarrow> PacketPassFairQueue \<times> (nat \<Rightarrow> bytes list) \<times> (nat \<Rightarrow> bytes list) \<Rightarrow>
    (PacketPassFairQueue \<times> (nat \<Rightarrow> bytes list) \<times> (nat \<Rightarrow> bytes list)) option" where
  "fq_run [] s = Some s"
| "fq_run (e # es) (m, ins, outs) =
     (if fq_allowed m e
      then do { (m', cs) \<leftarrow> fq_step m e; fq_run es (m', fq_given e ins, fq_sent (fq_sending_flow m') cs (fq_new_flow e outs)) }
      else None)"

lemma fq_run_reach:
  "fq_run es (m, ins, outs) = Some (m', ins', outs') \<Longrightarrow> fq_reach m ins outs \<Longrightarrow> fq_reach m' ins' outs'"
  by (induction es "(m, ins, outs)" arbitrary: m ins outs rule: fq_run.induct)
    (auto split: if_splits bind_splits dest: fq_reach.step)

text \<open>Two flows: the first sends a packet and submits another while the second waits.\<close>

definition fq_sample :: "PacketPassFairQueue \<times> (nat \<Rightarrow> bytes list) \<times> (nat \<Rightarrow> bytes list)" where
  "fq_sample = the (fq_run [Fq_New 1, Fq_New 2, Fq_Submit 1 [7, 8], Fq_Submit 2 [5], Fq_Output_Done, Fq_Submit 1 [9]]
     (the (the (PacketPassFairQueue_Init 100 True True 10)), \<lambda>_. [], \<lambda>_. []))"

lemma fq_sample_reach: "fq_reach (fst fq_sample) (fst (snd fq_sample)) (snd (snd fq_sample))"
proof -
  let ?i = "PacketPassFairQueue_Init 100 True True 10"
  have "\<not> Option.is_none ?i" "\<not> Option.is_none (the ?i)" by code_simp+
  then have i: "?i = Some (Some (the (the ?i)))" by (auto simp: Option.is_none_def)
  let ?r = "fq_run [Fq_New 1, Fq_New 2, Fq_Submit 1 [7, 8], Fq_Submit 2 [5], Fq_Output_Done, Fq_Submit 1 [9]]
     (the (the ?i), \<lambda>_. [], \<lambda>_. [])"
  have "\<not> Option.is_none ?r" by code_simp
  then have "?r = Some (fst fq_sample, fst (snd fq_sample), snd (snd fq_sample))"
    unfolding fq_sample_def Option.is_none_def prod.collapse by (rule option.collapse [symmetric])
  then show ?thesis by (rule fq_run_reach) (rule fq_reach.start [OF i], simp)
qed

section \<open>Properties\<close>

text \<open>C18. The fair queue loses, repeats and reorders nothing: what the output was given of a flow's packets, followed by the one
  that is queued, is what the flow was given.\<close>

theorem fair_queue_delivers:
  "fq_reach m ins outs \<Longrightarrow> f \<in> dom (fq_heap m) \<Longrightarrow> ins f = outs f @ fq_pending m f"
proof (induction arbitrary: f rule: fq_reach.induct)
  case (start mtu c use_cancel weight m)
  then show ?case using fq_Init_ok(2) by blast
next
  case (step m ins outs e m' cs)
  have "fq_effect m e m' cs" using fq_step_ok [OF fq_reach_ok [OF step(1)] step(2)] step(3) by auto
  then show ?case using fq_effect_pending [OF fq_reach_ok [OF step(1)] step(2)] step.IH step.prems by blast
qed


theorem fair_queue_delivers_witness:
  "(let (m, ins, outs) = fq_sample in ins 1 = outs 1 @ fq_pending m 1 \<and> outs 1 = [[7, 8]] \<and> fq_pending m 1 = [[9]])"
proof -
  have "\<not> Option.is_none (fq_heap (fst fq_sample) 1)" by code_simp
  then have "1 \<in> dom (fq_heap (fst fq_sample))" by (simp add: Option.is_none_def domIff)
  moreover have "snd (snd fq_sample) 1 = [[7, 8]]" "fq_pending (fst fq_sample) 1 = [[9]]" by code_simp+
  ultimately show ?thesis using fair_queue_delivers [OF fq_sample_reach, of 1] by (simp add: case_prod_beta)
qed

text \<open>C17. Every state of the fair queue is well formed: its tree holds exactly the queued flows in the order of their times, its list
  all of the flows, and the output is busy, or about to be, whenever a flow is queued. In such a state nothing that the
  interfaces allow fails an assertion of the code.\<close>

theorem fair_queue_well_formed:
  assumes "fq_reach m ins outs"
  shows "fq_ok m \<and> (\<forall>e. fq_allowed m e \<longrightarrow> (\<exists>m' cs. fq_step m e = Some (m', cs) \<and> fq_ok m'))"
  using fq_reach_ok [OF assms] fq_step_ok by blast

theorem fair_queue_well_formed_witness:
  "\<exists>m' cs. fq_step (fst fq_sample) Fq_Job = Some (m', cs) \<and> fq_ok m'"
proof -
  have "fq_allowed (fst fq_sample) Fq_Job" by code_simp
  then show ?thesis using fair_queue_well_formed [OF fq_sample_reach] by blast
qed



text \<open>The queue can be freed from any state, whatever it is doing: once it is told to do nothing more, its flows can be freed in
  any order, then the queue.\<close>

theorem fair_queue_freed:
  assumes "fq_reach m ins outs" "distinct fs" "set fs = dom (fq_heap m)"
  shows "\<exists>m'. fq_free_flows fs (PacketPassFairQueue_PrepareFree m) = Some m' \<and> PacketPassFairQueue_Free m' \<noteq> None"
proof -
  have "fq_lists_ok (PacketPassFairQueue_PrepareFree m)"
    using fq_ok_lists [OF fq_reach_ok [OF assms(1)]] by (simp add: fq_lists_ok_def PacketPassFairQueue_PrepareFree_def)
  then show ?thesis
    using fq_free_flows_ok [of "PacketPassFairQueue_PrepareFree m" fs] assms(2,3) fq_empty_free
    by (auto simp: PacketPassFairQueue_PrepareFree_def)
qed

end
