(* ===== verification/Spec2Isabelle.thy ===== *)
theory Spec2Isabelle
  imports Byte_Order Chunk_Buffer Packet_Buffer Linked_Lists Pending_Jobs Flow_Interfaces Packet_Proto
    Packet_Flow Inet_Headers Parse_Numbers Avl_Tree Socket_Addresses Dns_Table Tunnel_Packets Socks_Client Tcp_Relay
    Udp_Path Fair_Queue
begin

text \<open>
  Verification of the tunnel core of LibreRoute: the process \<^verbatim>\<open>tun2socks\<close> that the Android VPN
  service runs, and the badvpn libraries it is built from. All paths are relative to
  \<^verbatim>\<open>src/app/src/main/jni/badvpn\<close>.

  \<^bold>\<open>The program.\<close> The VPN service hands \<^verbatim>\<open>tun2socks\<close> a TUN device. Every IP packet the device
  delivers goes one of three ways (\<^verbatim>\<open>tun2socks/tun2socks.c\<close>). A DNS query is rewritten, sent back
  to the device for a local DNS server, and its answer is rewritten in turn. Another UDP datagram is
  given to the udpgw client (\<^verbatim>\<open>tun2socks/SocksUdpGwClient.c\<close>, \<^verbatim>\<open>udpgw_client/UdpGwClient.c\<close>),
  which multiplexes all datagrams over one stream to a server behind the SOCKS proxy. Everything
  else goes to lwip, which accepts the TCP connections; each becomes a \<^verbatim>\<open>struct tcp_client\<close> that
  relays bytes between lwip and a connection of its own through the SOCKS proxy
  (\<^verbatim>\<open>socksclient/BSocksClient.c\<close>). The objects are single-threaded and asynchronous: they pass data
  through one-shot interfaces (\<^verbatim>\<open>flow/\<close>) and schedule their continuations on a stack of jobs
  (\<^verbatim>\<open>base/BPending.c\<close>).

  \<^bold>\<open>How the code is modelled.\<close> A struct is a record, an enum or tagged union a datatype, a
  \<^verbatim>\<open>uintN_t\<close> a word of that width. An \<^verbatim>\<open>int\<close> is a mathematical integer: the code's own range
  checks are part of the model, and conversions to \<^verbatim>\<open>size_t\<close> and to \<^verbatim>\<open>int\<close> are written out
  (\<open>c_size\<close>, \<open>c_int\<close>). An \<^verbatim>\<open>ASSERT\<close> is an option: \<open>None\<close> is a failed assertion, a null
  dereference or an access outside a buffer, so a theorem that a step returns \<open>Some\<close> says that
  none of these happens. A handler is a function from the state of its object to the new
  state and the list of calls it makes on others, in order. What the environment does --
  lwip, sockets, memory allocation, the stream server -- is a parameter or an event of a step
  relation, unrestricted except for the protocol of the interface it uses. Log messages are
  left out. The heaps of intrusive list nodes are kept (\<open>Linked_Lists\<close>). The AVL trees are not
  heaps but values of an inductive type, a pointer into one being a place with its path to the root (\<open>Avl_Tree\<close>,
  \<open>Cavl_Tree\<close>): the effect of every operation on the tree is modelled, the update of parent links is not.
  Objects that \<^verbatim>\<open>malloc\<close> returns are addresses of an explicit heap.

  \<^bold>\<open>The theories\<close>, in the order of their imports.

  \<^item> \<open>Badvpn_Prelude\<close>: names of the C types, little-endian memory, \<^verbatim>\<open>memcpy\<close>, the lemma
    collections.
  \<^item> \<open>Byte_Order\<close> (\<^verbatim>\<open>misc/byteorder.h\<close>, \<^verbatim>\<open>misc/read_write_int.h\<close>): the locale \<open>word_codec\<close> is the
    contract of a reader and a writer, interpreted on all eight pairs.
  \<^item> \<open>Sizes\<close> (\<^verbatim>\<open>misc/minmax.h\<close>, \<^verbatim>\<open>balign.h\<close>, \<^verbatim>\<open>modadd.h\<close>, \<^verbatim>\<open>bsize.h\<close>, \<^verbatim>\<open>balloc.h\<close>): rounding and
    overflow-checked sizes, equal to partial arithmetic on natural numbers.
  \<^item> \<open>Flow_Contracts\<close>: the locales \<open>packet_fifo\<close> (what a packet store promises) and
    \<open>packet_pipe\<close> (what an object between a receive and a send interface promises), with the
    consequences for every run proved once.
  \<^item> \<open>Chunk_Buffer\<close> (\<^verbatim>\<open>structure/ChunkBuffer2.h\<close>): the circular buffer is a FIFO queue of packets
    and keeps the assertions of the debug build.
  \<^item> \<open>Packet_Buffer\<close> (\<^verbatim>\<open>flow/PacketBuffer.c\<close>, \<^verbatim>\<open>flow/SinglePacketBuffer.c\<close>): both are packet pipes;
    the capacity computed for a number of packets suffices.
  \<^item> \<open>Linked_Lists\<close> (\<^verbatim>\<open>structure/LinkedList1.h\<close>, \<^verbatim>\<open>structure/SLinkedList_impl.h\<close>): pointer operations
    implement list operations, on empty lists and at both ends too.
  \<^item> \<open>Pending_Jobs\<close> (\<^verbatim>\<open>base/BPending.c\<close>): the jobs are a stack without duplicates.
  \<^item> \<open>Flow_Interfaces\<close> (\<^verbatim>\<open>flow/PacketPassInterface.c\<close>, \<^verbatim>\<open>PacketRecvInterface.c\<close>,
    \<^verbatim>\<open>StreamPassInterface.c\<close>, \<^verbatim>\<open>StreamRecvInterface.c\<close>): the debug state machines agree with the
    queued jobs in every run.
  \<^item> \<open>Packet_Proto\<close> (\<^verbatim>\<open>flow/PacketProtoEncoder.c\<close>, \<^verbatim>\<open>flow/PacketProtoDecoder.c\<close>): the decoder inverts
    the framing for every fragmentation of the stream, makes progress, and rejects packets that
    are too large.
  \<^item> \<open>Packet_Flow\<close> (\<^verbatim>\<open>flow/PacketStreamSender.c\<close>, \<^verbatim>\<open>BufferWriter.c\<close>, \<^verbatim>\<open>PacketPassConnector.c\<close>,
    \<^verbatim>\<open>PacketProtoFlow.c\<close>, \<^verbatim>\<open>flowextra/PacketPassInactivityMonitor.c\<close>): order, completeness and
    reconnection; when the inactivity timer runs, forced reports included.
  \<^item> \<open>Inet_Headers\<close> (\<^verbatim>\<open>misc/ipv4_proto.h\<close>, \<^verbatim>\<open>ipv6_proto.h\<close>, \<^verbatim>\<open>udp_proto.h\<close>): header checks accept
    exactly the well-formed packets; checksums verify; when the UDP checksum is 0.
  \<^item> \<open>Parse_Numbers\<close> (\<^verbatim>\<open>misc/parse_number.h\<close>, \<^verbatim>\<open>misc/ipaddr.h\<close>): parsing and printing of numbers
    and addresses.
  \<^item> \<open>Avl_Tree\<close> (\<^verbatim>\<open>structure/BAVL.h\<close>): the locale \<open>total_comparator\<close> is what the tree asks of a
    comparator; every such tree is a \<open>node_set\<close>, balanced and ordered after any sequence of operations.
  \<^item> \<open>Cavl_Tree\<close> (\<^verbatim>\<open>structure/CAvl_impl.h\<close>, \<^verbatim>\<open>structure/SAvl_impl.h\<close>): the generic tree is a
    map from compared values to entries (locale \<open>entry_comparator\<close>), reduced to \<open>Avl_Tree\<close>, and finds the
    neighbours of a key (locale \<open>key_comparator\<close>).
  \<^item> \<open>Socket_Addresses\<close> (\<^verbatim>\<open>system/BAddr.h\<close>): \<open>BAddr_CompareOrder\<close> is a total order, text round trips.
  \<^item> \<open>Dns_Table\<close>: the table of pending DNS queries of \<^verbatim>\<open>tun2socks.c\<close> is a counted map.
  \<^item> \<open>Tunnel_Packets\<close>: the packet paths of \<^verbatim>\<open>tun2socks.c\<close>, with the round trips of DNS queries
    and of datagrams.
  \<^item> \<open>Socks_Client\<close> (\<^verbatim>\<open>socksclient/BSocksClient.c\<close>): the client refines the SOCKS5 dialogue, in
    whatever pieces the answers arrive, and never fails an assertion.
  \<^item> \<open>Tcp_Client\<close>, \<open>Tcp_Relay\<close>: the TCP clients of \<^verbatim>\<open>tun2socks.c\<close>; both directions deliver in order
    and completely, nothing is used after its release, the list of clients is consistent.
  \<^item> \<open>Udpgw_Client\<close> (\<^verbatim>\<open>udpgw_client/UdpGwClient.c\<close>): the client refines a table of associations in
    the order of use; an answer reaches the program that asked.
  \<^item> \<open>Socks_Udpgw\<close> (\<^verbatim>\<open>tun2socks/SocksUdpGwClient.c\<close>): reconnection through SOCKS.
  \<^item> \<open>Fair_Queue\<close> (\<^verbatim>\<open>flow/PacketPassFairQueue.c\<close>): the queue that shares the connection to the udpgw
    server between the associations is fair and loses nothing, across the overflow of its 64-bit times.
  \<^item> \<open>Udp_Path\<close> and this theory: the composition of the packet paths, the udpgw client and its
    SOCKS connection.

  \<^bold>\<open>Bounds and termination.\<close> There is no fuel in the models: loops over data are structural
  recursions; \<open>fold_carry\<close>, the digit loops, \<open>send_out_loop\<close> and the mutually recursive release functions of a
  TCP client have termination proofs; the loops that search or empty a structure (\<open>conid_loop\<close>,
  \<open>free_connections\<close>, \<open>free_udpgw_connections\<close>, \<open>free_clients\<close>) are partial functions into options, and the
  theorems show that they return. The comparisons of a tree of \<open>n\<close> nodes are bounded through its
  height, \<open>2 ^ height \<le> (n + 1)\<^sup>2\<close>. Ports, numbers of connections, flags, checksums and times
  are words, so their wrap-around is the machine's.

  \<^bold>\<open>Not modelled\<close>, with the reason.

  \<^item> lwip, pdnsd, tpws: third-party code that is called or runs as another process; lwip's
    answers are parameters of the TCP clients.
  \<^item> \<^verbatim>\<open>system/\<close> except \<^verbatim>\<open>BAddr.h\<close>, \<^verbatim>\<open>tuntap/\<close>, \<^verbatim>\<open>libancillary\<close>, \<^verbatim>\<open>system.cpp\<close>: operating system calls;
    what they deliver is an event of the models.
  \<^item> \<^verbatim>\<open>main\<close> of \<^verbatim>\<open>tun2socks.c\<close>, its initialisation and shutdown order: a fixed sequence of calls to
    the objects above. The loops in it that empty a structure are modelled with that structure.
  \<^item> \<^verbatim>\<open>parse_arguments\<close> and \<^verbatim>\<open>process_arguments\<close> of \<^verbatim>\<open>tun2socks.c\<close>: the command line of the process.
  \<^item> The parent links of the tree nodes, which the removal exchanges and the verification compares.
  \<^item> Overflow of the \<^verbatim>\<open>int\<close> that counts the pending DNS queries of a port; the calls \<^verbatim>\<open>tcp_accepted\<close> and
    \<^verbatim>\<open>tcp_nagle_disable\<close>, which do not touch the state of a client; jobs of other objects between the
    completion of a packet and its encoding in \<^verbatim>\<open>PacketProtoFlow.c\<close>; the pointer to the packet of a new
    udpgw connection, of which the model keeps the bytes.
  \<^item> The branch of \<^verbatim>\<open>SocksUdpGwClient.c\<close> for \<^verbatim>\<open>ANDROID_UDP\<close>, which the build does not define.
  \<^item> Flow objects and data structures that the build does not compile, the other programs of
    badvpn (\<^verbatim>\<open>client\<close>, \<^verbatim>\<open>server\<close>, \<^verbatim>\<open>ncd\<close>, \<^verbatim>\<open>udpgw\<close>), the parser generators, logging.
  \<^item> The Kotlin application: user interface and services over the Android framework.
\<close>

section \<open>The path of a datagram\<close>

text \<open>C1. A UDP datagram through the whole tunnel. A datagram that
  \<open>process_device_udp_packet\<close> takes from the device leaves the udpgw client, when there is
  memory and room in its buffer, as one packet that carries a number, the remote address and
  the payload. Whatever happens in between -- other datagrams, answers, the loss of the
  server and a new SOCKS connection -- an answer of the server with this number and address
  comes back to the device as one packet that fits the MTU and that is, checksums included,
  a UDP packet from the remote to the local address with the payload of the answer, as long
  as fewer address pairs than the limit were used since.\<close>

theorem udp_datagram_through_tunnel:
  assumes "su_reach realloc u" "realloc_ok realloc"
    "tn_udp_mtu tn = compute_udp_mtu (tn_mtu tn) (tn_netif_ip6addr tn \<noteq> None)" "ug_udp_mtu (su_udpgw_client u) = tn_udp_mtu tn"
    "process_device_udp_packet tn data = ([SocksUdpGwClient_SubmitPacket_call l r is_dns p], True)"
    "ug_heap (su_udpgw_client u) m = None"
  shows "\<exists>u1 q packet i. su_step realloc (Su_Submit (Some m) True True l r is_dns p) u = Some (u1, [Su_Udpgw (Ug_Send q packet)]) \<and>
    udpgw_parse packet = Some (i, r, p) \<and>
    (\<forall>A u2 reply d. su_runs realloc u1 A u2 \<longrightarrow> card (A - {(l, r)}) < ug_max (su_udpgw_client u) \<longrightarrow> su_have_socks u2 \<and> su_socks_up u2 \<longrightarrow>
      udpgw_parse reply = Some (i, r, d) \<longrightarrow> int (length reply) \<le> ug_udpgw_mtu (su_udpgw_client u1) \<longrightarrow> datagram_fits tn l r d \<longrightarrow>
      (\<exists>u3 out b. su_step realloc (Su_Client (Ev_Recv reply)) u2 = Some (u3, [Su_Udpgw Ug_Recv_Done, Su_handler_received l r d]) \<and>
        udpgw_client_handler_received tn l r d = Some [BTap_Send out] \<and> int (length out) \<le> tn_mtu tn \<and>
        process_device_udp_packet tn out = ([SocksUdpGwClient_SubmitPacket_call r l b d], True)))"
proof -
  have dev: "conaddr_ok (l, r)" "int (length p) \<le> tn_udp_mtu tn" "tn_udpgw_remote_server_addr tn \<noteq> None"
    using device_datagram [OF assms(5)] by simp_all
  have e: "su_enabled (Su_Submit (Some m) True True l r is_dns p) u" using dev assms(4,6) by simp
  obtain u1 q packet where s: "su_step realloc (Su_Submit (Some m) True True l r is_dns p) u = Some (u1, [Su_Udpgw (Ug_Send q packet)])"
    "ug_udp_mtu (su_udpgw_client u1) = ug_udp_mtu (su_udpgw_client u)" "ug_max (su_udpgw_client u1) = ug_max (su_udpgw_client u)"
    using su_submit_sends [OF assms(1,2) e] by blast
  obtain i where i: "udpgw_parse packet = Some (i, r, p)"
    using su_packet_parse [OF assms(1,2) e s(1)] by blast
  have "\<exists>u3 out b. su_step realloc (Su_Client (Ev_Recv reply)) u2 = Some (u3, [Su_Udpgw Ug_Recv_Done, Su_handler_received l r d]) \<and>
      udpgw_client_handler_received tn l r d = Some [BTap_Send out] \<and> int (length out) \<le> tn_mtu tn \<and>
      process_device_udp_packet tn out = ([SocksUdpGwClient_SubmitPacket_call r l b d], True)"
    if "su_runs realloc u1 A u2" "card (A - {(l, r)}) < ug_max (su_udpgw_client u)" "su_have_socks u2 \<and> su_socks_up u2"
      "udpgw_parse reply = Some (i, r, d)" "int (length reply) \<le> ug_udpgw_mtu (su_udpgw_client u1)" "datagram_fits tn l r d" for A u2 reply d
    using su_submit_then_reply [OF assms(1,2) e s(1) that(1)] device_reply [OF dev(1,3) that(6) assms(3)] that i s(2,3) assms(4) by auto
  then show ?thesis using s(1) i by blast
qed

theorem udp_datagram_through_tunnel_witness:
  "\<exists>u u1 q packet. sample_path = Some u \<and>
    process_device_udp_packet sample_tunnel (udp4_build (BAddr_IPv4 3 4) (BAddr_IPv4 1 2) [9]) =
      ([SocksUdpGwClient_SubmitPacket_call (BAddr_IPv4 1 2) (BAddr_IPv4 3 4) False [9]], True) \<and>
    su_step sample_realloc (Su_Submit (Some 7) True True (BAddr_IPv4 1 2) (BAddr_IPv4 3 4) False [9]) u = Some (u1, [Su_Udpgw (Ug_Send q packet)])"
proof -
  obtain u where u: "sample_path = Some u" "ug_udp_mtu (su_udpgw_client u) = 1472" "ug_heap (su_udpgw_client u) 7 = None"
    using sample_path_up by auto
  have tn: "tn_udp_mtu sample_tunnel = compute_udp_mtu (tn_mtu sample_tunnel) (tn_netif_ip6addr sample_tunnel \<noteq> None)"
    "tn_udp_mtu sample_tunnel = 1472"
    by (simp_all add: sample_tunnel_def compute_udp_mtu_eq)
  have "process_device_udp_packet sample_tunnel (udp4_build (BAddr_IPv4 3 4) (BAddr_IPv4 1 2) [9]) =
      ([SocksUdpGwClient_SubmitPacket_call (BAddr_IPv4 1 2) (BAddr_IPv4 3 4) False [9]], True)" by code_simp
  with udp_datagram_through_tunnel [OF sample_path_reach [OF u(1)] sample_realloc_ok tn(1) _ this u(3)] u tn(2) show ?thesis by auto
qed

end
